(* ===== verification/Prelude.thy ===== *)
theory Prelude
  imports
    Main
    "HOL-Library.List_Lexorder"
    "HOL-Library.Char_ord"
    "HOL-Library.Word"
begin

text \<open>
  What every component shares: the ordered map that models std::map (an association
  list kept sorted by key, read with \<^const>\<open>map_of\<close>), the filter that models erase,
  decimal and hexadecimal printing of unsigned integers, and the lemma collections of
  the development. The standard containers and stream operators of the language are
  modelled here; no code of the repository is.
\<close>

section \<open>Lemma collections and shared types\<close>

named_theorems omap_laws \<open>lookup after an update of an ordered map\<close>
named_theorems store_laws \<open>what the endpoint and handler stores promise\<close>
named_theorems frame_laws \<open>fields an operation leaves alone\<close>

type_synonym u16 = "16 word"
type_synonym u32 = "32 word"
type_synonym u64 = "64 word"
type_synonym ('k, 'v) omap = "('k \<times> 'v) list"

section \<open>Ordered maps\<close>

fun om_put :: "'k::linorder \<Rightarrow> 'v \<Rightarrow> ('k, 'v) omap \<Rightarrow> ('k, 'v) omap" where
  "om_put k v [] = [(k, v)]"
| "om_put k v ((k', v') # m) =
     (if k = k' then (k, v) # m
      else if k < k' then (k, v) # (k', v') # m
      else (k', v') # om_put k v m)"

definition om_erase :: "'k \<Rightarrow> ('k, 'v) omap \<Rightarrow> ('k, 'v) omap" where
  "om_erase k m = filter (\<lambda>e. fst e \<noteq> k) m"

definition om_get :: "'v \<Rightarrow> 'k \<Rightarrow> ('k, 'v) omap \<Rightarrow> 'v" where
  "om_get d k m = (case map_of m k of None \<Rightarrow> d | Some v \<Rightarrow> v)"

definition om_emplace :: "'k::linorder \<Rightarrow> 'v \<Rightarrow> ('k, 'v) omap \<Rightarrow> ('k, 'v) omap" where
  "om_emplace k v m = (case map_of m k of None \<Rightarrow> om_put k v m | Some _ \<Rightarrow> m)"

definition om_has :: "'k \<Rightarrow> ('k, 'v) omap \<Rightarrow> bool" where
  "om_has k m \<longleftrightarrow> map_of m k \<noteq> None"

definition om_wf :: "('k::linorder, 'v) omap \<Rightarrow> bool" where
  "om_wf m \<longleftrightarrow> sorted_wrt (<) (map fst m)"

lemma map_of_om_put [simp, omap_laws]: "map_of (om_put k v m) = (map_of m)(k \<mapsto> v)"
  by (induction k v m rule: om_put.induct) (auto simp: fun_eq_iff)

lemma map_of_om_erase [simp, omap_laws]: "map_of (om_erase k m) = (map_of m)(k := None)"
  by (induction m) (auto simp: om_erase_def fun_eq_iff)

lemma map_of_om_emplace [omap_laws]:
  "map_of (om_emplace k v m) = (if k \<in> dom (map_of m) then map_of m else (map_of m)(k \<mapsto> v))"
  by (auto simp: om_emplace_def split: option.splits)

lemma om_get_put [simp]: "om_get d k (om_put k' v m) = (if k = k' then v else om_get d k m)"
  by (simp add: om_get_def)

lemma om_get_Nil [simp]: "om_get d k [] = d"
  by (simp add: om_get_def)

lemma in_om_get: "x \<in> set (om_get [] k m) \<longleftrightarrow> (\<exists>v. map_of m k = Some v \<and> x \<in> set v)"
  by (cases "map_of m k") (simp_all add: om_get_def)

lemma look_om_get: "map_of (om_get [] n mp) k = Some h \<longleftrightarrow>
    (\<exists>nm. map_of mp n = Some nm \<and> map_of nm k = Some h)"
  by (cases "map_of mp n") (simp_all add: om_get_def)

lemma om_nonempty: "m \<noteq> [] \<Longrightarrow> \<exists>k v. map_of m k = Some v"
  by (cases m) (auto intro!: exI [of _ "fst (hd m)"])

lemma om_erase_absent: "map_of m k = None \<Longrightarrow> om_erase k m = m"
  unfolding om_erase_def by (rule filter_True) (auto simp: map_of_eq_None_iff)

lemma om_erase_Nil_other: "om_erase k m = [] \<Longrightarrow> k' \<noteq> k \<Longrightarrow> map_of m k' = None"
  using map_of_om_erase [of k m] by (metis fun_upd_other map_of.simps(1))

lemma om_erase_Nil [simp]: "om_erase k [] = []"
  by (simp add: om_erase_def)

lemma set_om_erase [simp]: "set (om_erase k m) = {e \<in> set m. fst e \<noteq> k}"
  by (auto simp: om_erase_def)

lemma fst_set_om_put: "fst ` set (om_put k v m) = insert k (fst ` set m)"
  by (induction k v m rule: om_put.induct) auto

lemma om_put_nonempty [simp]: "om_put k v m \<noteq> []"
  by (cases "(k, v, m)" rule: om_put.cases) auto

lemma om_wf_Nil [simp, intro]: "om_wf []"
  by (simp add: om_wf_def)

lemma om_wf_Cons: "om_wf ((k, v) # m) \<longleftrightarrow> (\<forall>k' \<in> fst ` set m. k < k') \<and> om_wf m"
  by (auto simp: om_wf_def)

lemma om_wf_put [simp, intro]: "om_wf m \<Longrightarrow> om_wf (om_put k v m)"
proof (induction k v m rule: om_put.induct)
  case (1 k v)
  then show ?case by (simp add: om_wf_def)
next
  case (2 k v k' v' m)
  show ?case
  proof (cases k k' rule: linorder_cases)
    case less
    then show ?thesis using "2.prems" by (auto simp: om_wf_Cons intro: less_trans)
  next
    case equal
    then show ?thesis using "2.prems" by (auto simp: om_wf_Cons)
  next
    case greater
    then show ?thesis using "2.prems" "2.IH" by (auto simp: om_wf_Cons fst_set_om_put)
  qed
qed

lemma om_wf_erase [simp, intro]: "om_wf m \<Longrightarrow> om_wf (om_erase k m)"
  by (induction m) (auto simp: om_wf_Cons om_erase_def)

lemma om_wf_emplace [simp, intro]: "om_wf m \<Longrightarrow> om_wf (om_emplace k v m)"
  by (auto simp: om_emplace_def split: option.splits)

lemma om_wf_distinct: "om_wf m \<Longrightarrow> distinct (map fst m)"
  by (simp add: om_wf_def strict_sorted_iff)

lemma om_wf_lookup: "om_wf m \<Longrightarrow> (k, v) \<in> set m \<longleftrightarrow> map_of m k = Some v"
  by (simp add: om_wf_distinct)

lemma om_all:
  assumes "om_wf m"
  shows "(\<forall>(k, v) \<in> set m. P k v) \<longleftrightarrow> (\<forall>k v. map_of m k = Some v \<longrightarrow> P k v)"
  by (simp add: Ball_def split_paired_All om_wf_lookup [OF assms])

lemma om_getI: "P d \<Longrightarrow> (\<And>v. map_of m k = Some v \<Longrightarrow> P v) \<Longrightarrow> P (om_get d k m)"
  by (simp add: om_get_def split: option.split)

lemma set_om_put:
  assumes "om_wf m"
  shows "set (om_put k v m) = insert (k, v) {e \<in> set m. fst e \<noteq> k}"
proof -
  have "(a, b) \<in> set (om_put k v m) \<longleftrightarrow> (a, b) \<in> insert (k, v) {e \<in> set m. fst e \<noteq> k}" for a b
    using om_wf_lookup [OF om_wf_put [OF assms, of k v], of a b] om_wf_lookup [OF assms, of a b]
    by auto
  then show ?thesis by auto
qed

lemma om_empty_iff: "m = [] \<longleftrightarrow> map_of m = Map.empty"
  by (cases m) (auto simp: fun_eq_iff split: if_splits)

lemma removed_some: "0 < length xs - length (filter P xs) \<longleftrightarrow> (\<exists>x \<in> set xs. \<not> P x)"
proof -
  have "length xs - length (filter P xs) = length (filter (\<lambda>x. \<not> P x) xs)"
    using sum_length_filter_compl [of P xs] by linarith
  then show ?thesis by (simp add: filter_empty_conv)
qed

text \<open>Two sorted lists with the same lookups are the same list.\<close>

lemma om_ext:
  assumes "om_wf m" "om_wf m'" "map_of m = map_of m'"
  shows "m = m'"
proof (rule map_sorted_distinct_set_unique [of fst])
  have "(k, v) \<in> set m \<longleftrightarrow> (k, v) \<in> set m'" for k v
    using assms by (simp add: om_wf_lookup)
  then show eq: "set m = set m'" by auto
  show "inj_on fst (set m \<union> set m')"
    using om_wf_distinct [OF assms(1)] eq by (auto simp: distinct_map)
qed (use assms in \<open>auto simp: om_wf_def strict_sorted_iff\<close>)

section \<open>Printing unsigned integers\<close>

text \<open>
  Output of an unsigned integer to a stream: decimal digits without leading zeros
  (\<open>operator<<\<close>, \<open>std::to_string\<close>), or hexadecimal ones under \<open>std::hex\<close>.
\<close>

definition digit_char :: "nat \<Rightarrow> char" where
  "digit_char d = (if d < 10 then char_of (48 + d) else char_of (87 + d))"

fun dec :: "nat \<Rightarrow> string" where
  "dec n = (if n < 10 then [digit_char n] else dec (n div 10) @ [digit_char (n mod 10)])"

fun hex :: "nat \<Rightarrow> string" where
  "hex n = (if n < 16 then [digit_char n] else hex (n div 16) @ [digit_char (n mod 16)])"

declare dec.simps [simp del] hex.simps [simp del]

definition is_digit :: "char \<Rightarrow> bool" where
  "is_digit c \<longleftrightarrow> 48 \<le> (of_char c :: nat) \<and> (of_char c :: nat) \<le> 57"

definition digit_val :: "char \<Rightarrow> nat" where
  "digit_val c = of_char c - 48"

fun undec :: "nat \<Rightarrow> string \<Rightarrow> nat" where
  "undec acc [] = acc"
| "undec acc (c # cs) = undec (10 * acc + digit_val c) cs"

lemma of_char_digit [simp]: "d < 10 \<Longrightarrow> of_char (digit_char d) = (48 + d :: nat)"
  by (simp add: digit_char_def)

lemma digit_val_char [simp]: "d < 10 \<Longrightarrow> digit_val (digit_char d) = d"
  by (simp add: digit_val_def)

lemma is_digit_char [simp]: "d < 10 \<Longrightarrow> is_digit (digit_char d)"
  by (simp add: is_digit_def)

lemma undec_append: "undec acc (xs @ ys) = undec (undec acc xs) ys"
  by (induction xs arbitrary: acc) auto

lemma undec_dec: "undec 0 (dec n) = n"
  by (induction n rule: dec.induct) (subst dec.simps, auto simp: undec_append)

lemma dec_digits: "list_all is_digit (dec n)"
  by (induction n rule: dec.induct) (subst dec.simps, auto)

lemma dec_nonempty [simp]: "dec n \<noteq> []"
  by (subst dec.simps) simp

lemma dec_inj: "dec m = dec n \<longleftrightarrow> m = n"
  by (metis undec_dec)

definition show_int :: "int \<Rightarrow> string" where
  "show_int i = (if i < 0 then ''-'' @ dec (nat (- i)) else dec (nat i))"

section \<open>Machine integers that fit\<close>

lemma unat_of_nat_small: "n < 2 ^ LENGTH('a::len) \<Longrightarrow> unat (of_nat n :: 'a word) = n"
  by (simp add: unsigned_of_nat take_bit_nat_eq_self_iff)

lemma unat_ucast_small:
  "unat (w :: 'a::len word) < 2 ^ LENGTH('b::len) \<Longrightarrow> unat (ucast w :: 'b word) = unat w"
  by (simp add: unsigned_ucast_eq take_bit_nat_eq_self_iff)

lemma ucast_ucast_small:
  assumes "unat (w :: 'a::len word) < 2 ^ LENGTH('b::len)"
  shows "ucast (ucast w :: 'b word) = w"
proof -
  have "unat (ucast w :: 'b word) = unat w" using assms by (rule unat_ucast_small)
  then have "unat (ucast (ucast w :: 'b word) :: 'a word) = unat w"
    by (subst unsigned_ucast_eq) (simp add: take_bit_nat_eq_self_iff)
  then show ?thesis by (simp add: word_unat_eq_iff)
qed

lemma unat_add_small:
  "unat (x :: 'a::len word) + unat y < 2 ^ LENGTH('a) \<Longrightarrow> unat (x + y) = unat x + unat y"
  by (simp add: unat_word_ariths(1))

lemma unat_mult_small:
  "unat (x :: 'a::len word) * unat y < 2 ^ LENGTH('a) \<Longrightarrow> unat (x * y) = unat x * unat y"
  by (simp add: unat_word_ariths(2))

section \<open>String prefixes\<close>

text \<open>\<open>s.rfind(p, 0) == 0\<close> and \<open>s.find(p) == 0\<close>: the string begins with p.\<close>

fun starts_with :: "string \<Rightarrow> string \<Rightarrow> bool" where
  "starts_with [] s = True"
| "starts_with (c # p) [] = False"
| "starts_with (c # p) (d # s) = (c = d \<and> starts_with p s)"

lemma starts_with_iff: "starts_with p s \<longleftrightarrow> (\<exists>r. s = p @ r)"
  by (induction p s rule: starts_with.induct) auto

definition nl :: string where
  "nl = [CHR 0x0A]"

definition tab :: string where
  "tab = [CHR 0x09]"

end
