(* ===== verification/ShmRing.thy ===== *)
theory ShmRing
  imports Prelude
begin

text \<open>
  ShmRing (include/trans/details/shm_ring.hpp, src/shm_ring.cc): the slot ring in POSIX
  shared memory, every method of the class. The operating system's side (names, objects,
  mappings that outlive an unlink) is the record \<open>shm_os\<close>; a system call that may fail
  for lack of resources is a boolean argument. An access the code does not guard (no
  mapping, slot index or size outside the region, modulo by zero) is a \<open>fault\<close>.
\<close>

section \<open>State\<close>

definition kMagic :: u32 where "kMagic = 0x52465348"
definition kShmGranularity :: u64 where "kShmGranularity = 4 * 1024"
definition kDefaultSlotCount :: u64 where "kDefaultSlotCount = 4"
definition kShmMsgTypeMarker :: char where "kShmMsgTypeMarker = CHR 0x01"

text \<open>\<open>hash\<close> is \<open>std::hash<std::string>\<close>, which the standard leaves to the implementation.\<close>

definition makeShmName :: "(string \<Rightarrow> u64) \<Rightarrow> string \<Rightarrow> string \<Rightarrow> string" where
  "makeShmName hash topic process_uuid =
     ''/rf_shm_'' @ hex (unat (hash topic)) @ ''_'' @ take 8 process_uuid"

datatype fault = NullBase | OutOfRegion | OutOfSlot | DivideByZero

record slot =
  sl_seq :: u64
  sl_size :: u32
  sl_data :: string

record ring_mem =
  rm_magic :: u32
  rm_slot_count :: u32
  rm_slot_size :: u32
  rm_slots :: "slot list"

record shm_os =
  os_names :: "(string, nat) omap"
  os_objs :: "(nat, ring_mem) omap"
  os_next :: nat

record shm_ring =
  r_name :: string
  r_slot_size :: u64
  r_slot_count :: u64
  r_region_size :: u64
  r_fd :: "nat option"
  r_base :: "nat option"
  r_is_writer :: bool
  r_cursor :: u64

record slot_handle =
  h_index :: u32
  h_seq :: u64
  h_size :: u32

record reserved_slot =
  rv_index :: u32
  rv_seq :: u64

record shm_descriptor =
  sd_name :: string
  sd_index :: u32
  sd_seq :: u64
  sd_size :: u32

definition new_ring :: "string \<Rightarrow> u64 \<Rightarrow> u64 \<Rightarrow> shm_ring" where
  "new_ring name slot_size slot_count = \<lparr>r_name = name, r_slot_size = slot_size,
     r_slot_count = slot_count, r_region_size = 0, r_fd = None, r_base = None,
     r_is_writer = False, r_cursor = 0\<rparr>"

definition null_handle :: slot_handle where
  "null_handle = \<lparr>h_index = 0, h_seq = 0, h_size = 0\<rparr>"

section \<open>Layout of the region\<close>

text \<open>Both headers are 16 bytes: four 32-bit fields; a 64-bit counter and two 32-bit fields.\<close>

definition sizeof_RingHeader :: nat where "sizeof_RingHeader = 16"
definition sizeof_SlotHeader :: nat where "sizeof_SlotHeader = 16"

definition slotStride :: "nat \<Rightarrow> nat" where
  "slotStride slot_size = sizeof_SlotHeader + slot_size"

definition slotHeader_off :: "nat \<Rightarrow> nat \<Rightarrow> nat" where
  "slotHeader_off slot_size index = sizeof_RingHeader + index * slotStride slot_size"

definition slotPayload_off :: "nat \<Rightarrow> nat \<Rightarrow> nat" where
  "slotPayload_off slot_size index = slotHeader_off slot_size index + sizeof_SlotHeader"

definition region_bytes :: "nat \<Rightarrow> nat \<Rightarrow> nat" where
  "region_bytes slot_size slot_count = sizeof_RingHeader + slot_count * slotStride slot_size"

section \<open>Creating and opening\<close>

definition shm_unlink :: "string \<Rightarrow> shm_os \<Rightarrow> shm_os" where
  "shm_unlink name os = os\<lparr>os_names := om_erase name (os_names os)\<rparr>"

definition zero_slot :: "nat \<Rightarrow> slot" where
  "zero_slot n = \<lparr>sl_seq = 0, sl_size = 0, sl_data = replicate n (CHR 0x00)\<rparr>"

definition createAsWriter ::
  "bool \<Rightarrow> bool \<Rightarrow> bool \<Rightarrow> shm_ring \<Rightarrow> shm_os \<Rightarrow> shm_ring \<times> shm_os \<times> bool" where
  "createAsWriter open_ok trunc_ok mmap_ok r os =
     (let os0 = shm_unlink (r_name r) os;
          r0 = r\<lparr>r_region_size := of_nat (region_bytes (unat (r_slot_size r)) (unat (r_slot_count r)))\<rparr>
      in if \<not> open_ok then (r0\<lparr>r_fd := None\<rparr>, os0, False)
         else
           (let obj = os_next os0;
                os1 = os0\<lparr>os_names := om_put (r_name r) obj (os_names os0), os_next := obj + 1\<rparr>
            in if \<not> trunc_ok then (r0\<lparr>r_fd := None\<rparr>, shm_unlink (r_name r) os1, False)
               else if \<not> mmap_ok then
                 (r0\<lparr>r_base := None, r_fd := None\<rparr>, shm_unlink (r_name r) os1, False)
               else
                 (let mem = \<lparr>rm_magic = kMagic, rm_slot_count = ucast (r_slot_count r),
                        rm_slot_size = ucast (r_slot_size r),
                        rm_slots = replicate (unat (r_slot_count r)) (zero_slot (unat (r_slot_size r)))\<rparr>
                  in (r0\<lparr>r_fd := Some obj, r_base := Some obj, r_is_writer := True\<rparr>,
                      os1\<lparr>os_objs := om_put obj mem (os_objs os1)\<rparr>, True))))"

definition openAsReader ::
  "bool \<Rightarrow> bool \<Rightarrow> bool \<Rightarrow> shm_ring \<Rightarrow> shm_os \<Rightarrow> shm_ring \<times> bool" where
  "openAsReader open_ok header_ok mmap_ok r os =
     (case (if open_ok then map_of (os_names os) (r_name r) else None) of
        None \<Rightarrow> (r\<lparr>r_fd := None\<rparr>, False)
      | Some obj \<Rightarrow>
          (if \<not> header_ok then (r\<lparr>r_fd := None\<rparr>, False)
           else (case map_of (os_objs os) obj of
               None \<Rightarrow> (r\<lparr>r_fd := None\<rparr>, False)
             | Some mem \<Rightarrow>
                 (if rm_magic mem \<noteq> kMagic then (r\<lparr>r_fd := None\<rparr>, False)
                  else
                    (let r1 = r\<lparr>r_slot_count := ucast (rm_slot_count mem),
                           r_slot_size := ucast (rm_slot_size mem),
                           r_region_size := of_nat (region_bytes (unat (rm_slot_size mem)) (unat (rm_slot_count mem)))\<rparr>
                     in if \<not> mmap_ok then (r1\<lparr>r_base := None, r_fd := None\<rparr>, False)
                        else (r1\<lparr>r_fd := Some obj, r_base := Some obj, r_is_writer := False\<rparr>, True))))))"

definition destroy_ring :: "shm_ring \<Rightarrow> shm_os \<Rightarrow> shm_os" where
  "destroy_ring r os = (if r_is_writer r then shm_unlink (r_name r) os else os)"

section \<open>Slots\<close>

definition mapped :: "shm_ring \<Rightarrow> shm_os \<Rightarrow> (nat \<times> ring_mem) option" where
  "mapped r os = (case r_base r of
     None \<Rightarrow> None
   | Some b \<Rightarrow> (case map_of (os_objs os) b of None \<Rightarrow> None | Some m \<Rightarrow> Some (b, m)))"

definition load_slot :: "shm_ring \<Rightarrow> shm_os \<Rightarrow> u32 \<Rightarrow> fault + slot" where
  "load_slot r os i = (case mapped r os of
     None \<Rightarrow> Inl NullBase
   | Some (b, m) \<Rightarrow> if unat i < length (rm_slots m) then Inr (rm_slots m ! unat i) else Inl OutOfRegion)"

definition store_slot :: "shm_ring \<Rightarrow> u32 \<Rightarrow> slot \<Rightarrow> shm_os \<Rightarrow> shm_os" where
  "store_slot r i sl os = (case mapped r os of
     None \<Rightarrow> os
   | Some (b, m) \<Rightarrow> os\<lparr>os_objs := om_put b (m\<lparr>rm_slots := (rm_slots m)[unat i := sl]\<rparr>) (os_objs os)\<rparr>)"

section \<open>Writing\<close>

definition slot_of :: "u64 \<Rightarrow> u64 \<Rightarrow> u32" where
  "slot_of cursor slot_count = ucast (cursor mod slot_count)"

definition begin_seq :: "u64 \<Rightarrow> u64" where
  "begin_seq cursor = 2 * cursor + 1"

definition end_seq :: "u64 \<Rightarrow> u64" where
  "end_seq b = b + 1"

definition reserveWrite ::
  "u64 \<Rightarrow> shm_ring \<Rightarrow> shm_os \<Rightarrow> fault + (shm_ring \<times> shm_os \<times> reserved_slot option)" where
  "reserveWrite sz r os =
     (if r_slot_size r < sz then Inr (r, os, None)
      else if r_slot_count r = 0 then Inl DivideByZero
      else
        (let cursor = r_cursor r;
             r' = r\<lparr>r_cursor := cursor + 1\<rparr>;
             index = slot_of cursor (r_slot_count r)
         in (case load_slot r os index of
               Inl f \<Rightarrow> Inl f
             | Inr sl \<Rightarrow>
                 Inr (r', store_slot r index (sl\<lparr>sl_seq := begin_seq cursor\<rparr>) os,
                   Some \<lparr>rv_index = index, rv_seq = begin_seq cursor\<rparr>))))"

text \<open>The bytes the caller puts at \<open>payload\<close> between reservation and commit.\<close>

definition put_payload :: "reserved_slot \<Rightarrow> string \<Rightarrow> shm_ring \<Rightarrow> shm_os \<Rightarrow> fault + shm_os" where
  "put_payload rv data r os = (case load_slot r os (rv_index rv) of
     Inl f \<Rightarrow> Inl f
   | Inr sl \<Rightarrow> if length (sl_data sl) < length data then Inl OutOfSlot
       else Inr (store_slot r (rv_index rv) (sl\<lparr>sl_data := data @ drop (length data) (sl_data sl)\<rparr>) os))"

definition commitWrite ::
  "reserved_slot \<Rightarrow> u64 \<Rightarrow> shm_ring \<Rightarrow> shm_os \<Rightarrow> fault + (shm_os \<times> slot_handle)" where
  "commitWrite rv sz r os = (case load_slot r os (rv_index rv) of
     Inl f \<Rightarrow> Inl f
   | Inr sl \<Rightarrow>
       Inr (store_slot r (rv_index rv) (sl\<lparr>sl_size := ucast sz, sl_seq := end_seq (rv_seq rv)\<rparr>) os,
         \<lparr>h_index = rv_index rv, h_seq = end_seq (rv_seq rv), h_size = ucast sz\<rparr>))"

definition write_ring ::
  "string \<Rightarrow> shm_ring \<Rightarrow> shm_os \<Rightarrow> fault + (shm_ring \<times> shm_os \<times> slot_handle)" where
  "write_ring data r os =
     (case reserveWrite (of_nat (length data)) r os of
        Inl f \<Rightarrow> Inl f
      | Inr (r1, os1, None) \<Rightarrow> Inr (r1, os1, null_handle)
      | Inr (r1, os1, Some rv) \<Rightarrow>
          (case put_payload rv data r1 os1 of
             Inl f \<Rightarrow> Inl f
           | Inr os2 \<Rightarrow>
               (case commitWrite rv (of_nat (length data)) r1 os2 of
                  Inl f \<Rightarrow> Inl f
                | Inr (os3, h) \<Rightarrow> Inr (r1, os3, h))))"

section \<open>Reading\<close>

text \<open>
  \<open>beginRead\<close> answers the slot's bytes (its pointer, seen through) or nothing; reading more
  bytes than the slot holds is a fault of the caller's handle, which the code does not check.
\<close>

unbundle bit_operations_syntax

definition is_odd_seq :: "u64 \<Rightarrow> bool" where
  "is_odd_seq q \<longleftrightarrow> q AND 1 \<noteq> 0"

lemma is_odd_seq_iff [simp]: "is_odd_seq q \<longleftrightarrow> odd q"
  by (simp add: is_odd_seq_def and_one_eq odd_iff_mod_2_eq_one)

definition beginRead :: "slot_handle \<Rightarrow> shm_ring \<Rightarrow> shm_os \<Rightarrow> fault + (slot \<times> u32) option" where
  "beginRead h r os = (case load_slot r os (h_index h) of
     Inl f \<Rightarrow> Inl f
   | Inr sl \<Rightarrow>
       if sl_seq sl \<noteq> h_seq h \<or> is_odd_seq (sl_seq sl) then Inr None else Inr (Some (sl, h_size h)))"

definition finishRead :: "slot_handle \<Rightarrow> shm_ring \<Rightarrow> shm_os \<Rightarrow> fault + bool" where
  "finishRead h r os = (case load_slot r os (h_index h) of
     Inl f \<Rightarrow> Inl f
   | Inr sl \<Rightarrow> Inr (sl_seq sl = h_seq h))"

definition peek_bytes :: "slot \<times> u32 \<Rightarrow> fault + string" where
  "peek_bytes p = (case p of (sl, sz) \<Rightarrow>
     if length (sl_data sl) < unat sz then Inl OutOfSlot else Inr (take (unat sz) (sl_data sl)))"

text \<open>\<open>read\<close> with nothing running in between: the copied bytes and the verdict.\<close>

definition read_ring :: "slot_handle \<Rightarrow> shm_ring \<Rightarrow> shm_os \<Rightarrow> fault + string option" where
  "read_ring h r os = (case beginRead h r os of
     Inl f \<Rightarrow> Inl f
   | Inr None \<Rightarrow> Inr None
   | Inr (Some p) \<Rightarrow> (case peek_bytes p of
       Inl f \<Rightarrow> Inl f
     | Inr bytes \<Rightarrow> (case finishRead h r os of
         Inl f \<Rightarrow> Inl f
       | Inr ok \<Rightarrow> Inr (if ok then Some bytes else None))))"

section \<open>Slots are separate and inside the region\<close>

lemma slot_fits:
  "i < n \<Longrightarrow> slotPayload_off s i + s \<le> region_bytes s n"
proof -
  assume "i < n"
  then have "Suc i * slotStride s \<le> n * slotStride s" by (intro mult_le_mono1) simp
  then show ?thesis
    by (simp add: slotPayload_off_def slotHeader_off_def region_bytes_def slotStride_def)
qed

lemma slot_order:
  "i < j \<Longrightarrow> slotPayload_off s i + s \<le> slotHeader_off s j"
proof -
  assume "i < j"
  then have "Suc i * slotStride s \<le> j * slotStride s" by (intro mult_le_mono1) simp
  then show ?thesis
    by (simp add: slotPayload_off_def slotHeader_off_def slotStride_def)
qed

section \<open>Loads and stores\<close>

definition same_map :: "shm_ring \<Rightarrow> shm_ring \<Rightarrow> bool" where
  "same_map r r' \<longleftrightarrow> r_base r = r_base r'"

lemma mapped_store:
  "mapped r (store_slot r i sl os) =
     (case mapped r os of None \<Rightarrow> None
      | Some (b, m) \<Rightarrow> Some (b, m\<lparr>rm_slots := (rm_slots m)[unat i := sl]\<rparr>))"
  by (simp add: mapped_def store_slot_def split: option.splits)

lemma mapped_same: "r_base r = r_base r' \<Longrightarrow> mapped r os = mapped r' os"
  by (simp add: mapped_def)

lemma load_same: "r_base r = r_base r' \<Longrightarrow> load_slot r os i = load_slot r' os i"
  by (simp add: load_slot_def mapped_def)

lemma store_same: "r_base r = r_base r' \<Longrightarrow> store_slot r i sl os = store_slot r' i sl os"
  by (simp add: store_slot_def mapped_def)

text \<open>
  \<open>ring_at r os b m\<close>: the ring's mapping is object b, laid out as m, and the
  geometry the ring computes with is the one the object has.
\<close>

definition ring_at :: "shm_ring \<Rightarrow> shm_os \<Rightarrow> nat \<Rightarrow> slot list \<Rightarrow> bool" where
  "ring_at r os b sls \<longleftrightarrow> mapped r os = Some (b, \<lparr>rm_magic = kMagic,
       rm_slot_count = ucast (r_slot_count r), rm_slot_size = ucast (r_slot_size r), rm_slots = sls\<rparr>) \<and>
     length sls = unat (r_slot_count r) \<and> 0 < length sls \<and> length sls < 2 ^ 32 \<and>
     unat (r_slot_size r) < 2 ^ 32 \<and> (\<forall>sl \<in> set sls. length (sl_data sl) = unat (r_slot_size r))"

lemma ring_at_cursor [simp]: "ring_at (r\<lparr>r_cursor := c\<rparr>) os b sls \<longleftrightarrow> ring_at r os b sls"
  by (simp add: ring_at_def mapped_def)

lemma ring_at_store:
  assumes "ring_at r os b sls" "unat i < length sls" "length (sl_data sl) = unat (r_slot_size r)"
  shows "ring_at r (store_slot r i sl os) b (sls[unat i := sl])"
proof -
  have "\<forall>s \<in> set (sls[unat i := sl]). length (sl_data s) = unat (r_slot_size r)"
    using assms set_update_subset_insert [of sls "unat i" sl] unfolding ring_at_def by blast
  then show ?thesis
    using assms unfolding ring_at_def mapped_store by simp
qed

lemma ring_at_load:
  "ring_at r os b sls \<Longrightarrow> unat i < length sls \<Longrightarrow> load_slot r os i = Inr (sls ! unat i)"
  by (auto simp: ring_at_def load_slot_def)

lemma slot_of_unat:
  "0 < unat n \<Longrightarrow> unat n < 2 ^ 32 \<Longrightarrow> unat (slot_of c n) = unat c mod unat n"
proof -
  assume n: "0 < unat n" "unat n < 2 ^ 32"
  have "unat c mod unat n < unat n" using n(1) by simp
  then have "unat c mod unat n < 2 ^ 32" using n(2) by linarith
  then show ?thesis by (simp add: slot_of_def unsigned_ucast_eq unat_mod_distrib take_bit_nat_eq_self_iff)
qed

lemma slot_of_less:
  "0 < unat n \<Longrightarrow> unat n < 2 ^ 32 \<Longrightarrow> unat (slot_of c n) < unat n"
  by (simp add: slot_of_unat)

definition written :: "u64 \<Rightarrow> string \<Rightarrow> slot \<Rightarrow> slot" where
  "written c data sl = \<lparr>sl_seq = end_seq (begin_seq c), sl_size = of_nat (length data),
     sl_data = data @ drop (length data) (sl_data sl)\<rparr>"

definition handle_for :: "u64 \<Rightarrow> u64 \<Rightarrow> string \<Rightarrow> slot_handle" where
  "handle_for n c data = \<lparr>h_index = slot_of c n, h_seq = end_seq (begin_seq c),
     h_size = of_nat (length data)\<rparr>"

text \<open>One write of a payload that fits, in terms of the slots.\<close>

lemma write_ring_step:
  assumes at: "ring_at r os b sls" and fit: "length data \<le> unat (r_slot_size r)"
  shows "\<exists>os'. write_ring data r os =
      Inr (r\<lparr>r_cursor := r_cursor r + 1\<rparr>, os', handle_for (r_slot_count r) (r_cursor r) data) \<and>
    ring_at r os' b (sls[unat (r_cursor r) mod length sls :=
      written (r_cursor r) data (sls ! (unat (r_cursor r) mod length sls))])"
proof -
  define c n where "c = r_cursor r" and "n = r_slot_count r"
  define i where "i = slot_of c n"
  have n: "0 < unat n" "unat n < 2 ^ 32" "length sls = unat n"
    using at unfolding ring_at_def n_def by argo+
  have ui: "unat i = unat c mod length sls" "unat i < length sls"
    using n by (simp_all add: i_def slot_of_unat)
  have small: "unat (r_slot_size r) < 2 ^ 32" using at by (simp add: ring_at_def)
  have dl: "length (sl_data (sls ! unat i)) = unat (r_slot_size r)"
    using at ui(2) nth_mem [of "unat i" sls] unfolding ring_at_def by blast
  have lenw: "unat (of_nat (length data) :: u64) = length data"
    using fit small by (intro unat_of_nat_small) simp
  have "take_bit 64 (length data) = length data"
    using fit small by (simp add: take_bit_nat_eq_self_iff)
  then have size32: "ucast (of_nat (length data) :: u64) = (of_nat (length data) :: u32)"
    by (simp add: unsigned_of_nat)
  define r1 where "r1 = r\<lparr>r_cursor := c + 1\<rparr>"
  define sl1 where "sl1 = (sls ! unat i)\<lparr>sl_seq := begin_seq c\<rparr>"
  define sl2 where "sl2 = sl1\<lparr>sl_data := data @ drop (length data) (sl_data sl1)\<rparr>"
  define sl3 where "sl3 = sl2\<lparr>sl_size := of_nat (length data), sl_seq := end_seq (begin_seq c)\<rparr>"
  define os1 where "os1 = store_slot r i sl1 os"
  define os2 where "os2 = store_slot r i sl2 os1"
  define os3 where "os3 = store_slot r i sl3 os2"
  have at1: "ring_at r os1 b (sls[unat i := sl1])"
    unfolding os1_def using at ui(2) dl by (intro ring_at_store) (simp_all add: sl1_def)
  have at2: "ring_at r os2 b (sls[unat i := sl2])"
    unfolding os2_def using ring_at_store [OF at1, of i sl2] ui(2) dl fit
    by (simp add: sl2_def sl1_def)
  have at3: "ring_at r os3 b (sls[unat i := sl3])"
    unfolding os3_def using ring_at_store [OF at2, of i sl3] ui(2) dl fit
    by (simp add: sl3_def sl2_def sl1_def)
  have eq1: "r_base r1 = r_base r" by (simp add: r1_def)
  have l0: "load_slot r os i = Inr (sls ! unat i)" using at ui(2) by (rule ring_at_load)
  have l1: "load_slot r1 os1 i = Inr sl1"
    using ring_at_load [OF at1] ui(2) load_same [OF eq1] by simp
  have l2: "load_slot r1 os2 i = Inr sl2"
    using ring_at_load [OF at2] ui(2) load_same [OF eq1] by simp
  have "\<not> r_slot_size r < of_nat (length data)"
    using fit lenw by (simp add: word_less_nat_alt)
  moreover have "n \<noteq> 0" using n(1) by auto
  ultimately have res: "reserveWrite (of_nat (length data)) r os =
      Inr (r1, os1, Some \<lparr>rv_index = i, rv_seq = begin_seq c\<rparr>)"
    using l0 by (simp add: reserveWrite_def c_def n_def i_def r1_def os1_def sl1_def Let_def)
  have put: "put_payload \<lparr>rv_index = i, rv_seq = begin_seq c\<rparr> data r1 os1 = Inr os2"
    using l1 dl fit store_same [OF eq1] by (simp add: put_payload_def os2_def sl2_def sl1_def)
  have com: "commitWrite \<lparr>rv_index = i, rv_seq = begin_seq c\<rparr> (of_nat (length data)) r1 os2 =
      Inr (os3, handle_for n c data)"
    using l2 store_same [OF eq1] size32
    by (simp add: commitWrite_def os3_def sl3_def handle_for_def i_def)
  have "sl3 = written c data (sls ! unat i)"
    by (simp add: sl3_def sl2_def sl1_def written_def)
  then show ?thesis
    using res put com at3 ui(1) by (simp add: write_ring_def r1_def c_def n_def)
qed

section \<open>The history of a ring\<close>

text \<open>A run of writes by the one writer, and the handles it returned.\<close>

fun write_all ::
  "string list \<Rightarrow> shm_ring \<Rightarrow> shm_os \<Rightarrow> fault + (shm_ring \<times> shm_os \<times> slot_handle list)" where
  "write_all [] r os = Inr (r, os, [])"
| "write_all (d # ds) r os = (case write_ring d r os of
     Inl f \<Rightarrow> Inl f
   | Inr (r', os', h) \<Rightarrow> (case write_all ds r' os' of
       Inl f \<Rightarrow> Inl f
     | Inr (r'', os'', hs) \<Rightarrow> Inr (r'', os'', h # hs)))"

definition holds :: "nat \<Rightarrow> string \<Rightarrow> slot \<Rightarrow> bool" where
  "holds c d sl \<longleftrightarrow> sl_seq sl = of_nat (2 * c + 2) \<and> take (length d) (sl_data sl) = d"

text \<open>Slot i is untouched, or holds the newest of the writes whose ticket is i modulo n.\<close>

definition hist_slot :: "nat \<Rightarrow> string list \<Rightarrow> nat \<Rightarrow> slot \<Rightarrow> bool" where
  "hist_slot n ds i sl \<longleftrightarrow> (length ds \<le> i \<and> sl_seq sl = 0) \<or>
     (\<exists>c < length ds. length ds \<le> c + n \<and> c mod n = i \<and> holds c (ds ! c) sl)"

definition hist :: "string list \<Rightarrow> slot list \<Rightarrow> bool" where
  "hist ds sls \<longleftrightarrow> (\<forall>i < length sls. hist_slot (length sls) ds i (sls ! i))"

lemma holds_written: "holds c d (written (of_nat c) d sl)"
  by (simp add: holds_def written_def begin_seq_def end_seq_def algebra_simps)

lemma hist_slot_other:
  assumes "hist_slot n ds i sl" "i \<noteq> length ds mod n" "i < n"
  shows "hist_slot n (ds @ [d]) i sl"
  using assms(1) unfolding hist_slot_def
proof (elim disjE exE conjE)
  assume "length ds \<le> i" "sl_seq sl = 0"
  moreover have "length ds \<noteq> i" using assms(2,3) by auto
  ultimately show "(length (ds @ [d]) \<le> i \<and> sl_seq sl = 0) \<or>
      (\<exists>c<length (ds @ [d]). length (ds @ [d]) \<le> c + n \<and> c mod n = i \<and> holds c ((ds @ [d]) ! c) sl)"
    by simp
next
  fix c assume c: "c < length ds" "length ds \<le> c + n" "c mod n = i" "holds c (ds ! c) sl"
  have "length ds \<noteq> c + n" using c(3) assms(2) by auto
  then show "(length (ds @ [d]) \<le> i \<and> sl_seq sl = 0) \<or>
      (\<exists>c<length (ds @ [d]). length (ds @ [d]) \<le> c + n \<and> c mod n = i \<and> holds c ((ds @ [d]) ! c) sl)"
    using c by (intro disjI2 exI [of _ c]) (simp add: nth_append)
qed

lemma hist_write:
  assumes "hist ds sls" "sls \<noteq> []"
  shows "hist (ds @ [d]) (sls[length ds mod length sls := written (of_nat (length ds)) d sl])"
  unfolding hist_def
proof (intro allI impI)
  fix i assume i: "i < length (sls[length ds mod length sls := written (of_nat (length ds)) d sl])"
  show "hist_slot (length (sls[length ds mod length sls := written (of_nat (length ds)) d sl]))
     (ds @ [d]) i (sls[length ds mod length sls := written (of_nat (length ds)) d sl] ! i)"
  proof (cases "i = length ds mod length sls")
    case True
    have "hist_slot (length sls) (ds @ [d]) i (written (of_nat (length ds)) d sl)"
      unfolding hist_slot_def using assms(2) True holds_written
      by (intro disjI2 exI [of _ "length ds"]) (simp add: Suc_leI)
    then show ?thesis using True i by simp
  next
    case False
    then show ?thesis using assms(1) i hist_slot_other unfolding hist_def by simp
  qed
qed

lemma hist_zero: "hist [] (replicate n (zero_slot s))"
  by (simp add: hist_def hist_slot_def zero_slot_def)

lemma hist_read_same:
  assumes "hist ds sls" "c < length ds" "length ds \<le> c + length sls" "sls \<noteq> []"
  shows "holds c (ds ! c) (sls ! (c mod length sls))"
proof -
  let ?n = "length sls"
  have "c mod ?n < ?n" using assms(4) by simp
  then have "hist_slot ?n ds (c mod ?n) (sls ! (c mod ?n))" using assms(1) by (simp add: hist_def)
  moreover have "\<not> length ds \<le> c mod ?n"
    using assms(2) mod_less_eq_dividend [of c ?n] by linarith
  ultimately obtain c' where c': "c' < length ds" "length ds \<le> c' + ?n" "c' mod ?n = c mod ?n"
      "holds c' (ds ! c') (sls ! (c mod ?n))"
    by (auto simp: hist_slot_def)
  have "c' = c"
  proof (rule ccontr)
    assume "c' \<noteq> c"
    then obtain a b where ab: "a < b" "b < a + ?n" "a mod ?n = b mod ?n"
      using assms(2,3) c' by (metis linorder_neqE_nat order_less_le_trans)
    then have "?n dvd b - a" by (metis less_imp_le_nat mod_eq_dvd_iff_nat)
    then show False using ab by (auto dest: dvd_imp_le)
  qed
  with c'(4) show ?thesis by simp
qed

lemma hist_read_lost:
  assumes "hist ds sls" "c < length ds" "c + length sls < length ds" "sls \<noteq> []" "length ds < 2 ^ 63"
  shows "sl_seq (sls ! (c mod length sls)) \<noteq> of_nat (2 * c + 2)"
proof -
  let ?n = "length sls"
  have "c mod ?n < ?n" using assms(4) by simp
  then have "hist_slot ?n ds (c mod ?n) (sls ! (c mod ?n))" using assms(1) by (simp add: hist_def)
  moreover have "\<not> length ds \<le> c mod ?n"
    using assms(2) mod_less_eq_dividend [of c ?n] by linarith
  ultimately obtain c' where c': "c' < length ds" "length ds \<le> c' + ?n"
      "sl_seq (sls ! (c mod ?n)) = of_nat (2 * c' + 2)"
    by (auto simp: hist_slot_def holds_def)
  have "unat (of_nat (2 * c' + 2) :: u64) = 2 * c' + 2" "unat (of_nat (2 * c + 2) :: u64) = 2 * c + 2"
    by (rule unat_of_nat_small, use assms(2,5) c'(1) in simp)+
  moreover have "c' \<noteq> c" using c'(2) assms(3) by linarith
  ultimately show ?thesis using c'(3) by (metis add_right_cancel mult_left_cancel zero_neq_numeral)
qed

lemma write_all_hist:
  assumes "ring_at r os b sls" "hist ds0 sls" "r_cursor r = of_nat (length ds0)"
    "length ds0 + length ds < 2 ^ 63" "\<forall>d \<in> set ds. length d \<le> unat (r_slot_size r)"
  shows "\<exists>r' os' sls'. write_all ds r os = Inr (r', os',
      map (\<lambda>c. handle_for (r_slot_count r) (of_nat (length ds0 + c)) (ds ! c)) [0..<length ds]) \<and>
    r_base r' = r_base r \<and> r_name r' = r_name r \<and> r_is_writer r' = r_is_writer r \<and>
    ring_at r' os' b sls' \<and> length sls' = length sls \<and> hist (ds0 @ ds) sls'"
  using assms
proof (induction ds arbitrary: r os sls ds0)
  case Nil
  then show ?case by auto
next
  case (Cons d ds)
  let ?c = "r_cursor r"
  let ?i = "unat ?c mod length sls"
  let ?sls1 = "sls[?i := written ?c d (sls ! ?i)]"
  have fit: "length d \<le> unat (r_slot_size r)" using Cons.prems(5) by simp
  obtain os1 where w: "write_ring d r os =
        Inr (r\<lparr>r_cursor := ?c + 1\<rparr>, os1, handle_for (r_slot_count r) ?c d)"
      and at1: "ring_at r os1 b ?sls1"
    using write_ring_step [OF Cons.prems(1) fit] by blast
  have ne: "sls \<noteq> []" using Cons.prems(1) by (auto simp: ring_at_def)
  have uc: "unat ?c = length ds0"
    using Cons.prems(3,4) by (simp add: unat_of_nat_small)
  have h1: "hist (ds0 @ [d]) ?sls1"
    using hist_write [OF Cons.prems(2) ne, of d "sls ! ?i"] Cons.prems(3) uc by simp
  let ?r1 = "r\<lparr>r_cursor := ?c + 1\<rparr>"
  have "\<exists>r' os' sls'. write_all ds ?r1 os1 = Inr (r', os',
      map (\<lambda>c. handle_for (r_slot_count ?r1) (of_nat (length (ds0 @ [d]) + c)) (ds ! c)) [0..<length ds]) \<and>
    r_base r' = r_base ?r1 \<and> r_name r' = r_name ?r1 \<and> r_is_writer r' = r_is_writer ?r1 \<and>
    ring_at r' os' b sls' \<and> length sls' = length ?sls1 \<and> hist ((ds0 @ [d]) @ ds) sls'"
  proof (rule Cons.IH)
    show "ring_at ?r1 os1 b ?sls1" using at1 by simp
    show "hist (ds0 @ [d]) ?sls1" by (rule h1)
    show "r_cursor ?r1 = of_nat (length (ds0 @ [d]))" using Cons.prems(3) by (simp add: add.commute)
    show "length (ds0 @ [d]) + length ds < 2 ^ 63" using Cons.prems(4) by simp
    show "\<forall>d \<in> set ds. length d \<le> unat (r_slot_size ?r1)" using Cons.prems(5) by simp
  qed
  then obtain r' os' sls' where rest: "write_all ds ?r1 os1 = Inr (r', os',
      map (\<lambda>c. handle_for (r_slot_count ?r1) (of_nat (length (ds0 @ [d]) + c)) (ds ! c)) [0..<length ds])"
    "r_base r' = r_base ?r1 \<and> r_name r' = r_name ?r1 \<and> r_is_writer r' = r_is_writer ?r1"
    "ring_at r' os' b sls'" "length sls' = length ?sls1" "hist ((ds0 @ [d]) @ ds) sls'"
    by blast
  have cnt: "r_slot_count ?r1 = r_slot_count r" by simp
  have handles: "handle_for (r_slot_count r) ?c d #
      map (\<lambda>c. handle_for (r_slot_count r) (of_nat (length (ds0 @ [d]) + c)) (ds ! c)) [0..<length ds] =
    map (\<lambda>c. handle_for (r_slot_count r) (of_nat (length ds0 + c)) ((d # ds) ! c)) [0..<length (d # ds)]"
    by (simp only: list.size map_upt_Suc add.right_neutral nth_Cons_0 nth_Cons_Suc Cons.prems(3)
        length_append add_Suc_right add_Suc One_nat_def Suc_eq_plus1 [symmetric])
  have "write_all (d # ds) r os = Inr (r', os', map (\<lambda>c. handle_for (r_slot_count r)
      (of_nat (length ds0 + c)) ((d # ds) ! c)) [0..<length (d # ds)])"
    by (simp only: write_all.simps w rest(1) sum.case prod.case handles cnt)
  moreover have "r_base r' = r_base r \<and> r_name r' = r_name r \<and> r_is_writer r' = r_is_writer r"
    using rest(2) by simp
  moreover have "length sls' = length sls" "hist (ds0 @ d # ds) sls'"
    using rest(4,5) by simp_all
  ultimately show ?case using rest(3) by blast
qed

lemma read_ring_at:
  assumes at: "ring_at r os b sls" and same: "r_base r' = r_base r"
    and idx: "unat (h_index h) < length sls" and len: "unat (h_size h) \<le> unat (r_slot_size r)"
    and ev: "even (h_seq h)"
  shows "read_ring h r' os = (let sl = sls ! unat (h_index h) in
    Inr (if sl_seq sl = h_seq h then Some (take (unat (h_size h)) (sl_data sl)) else None))"
proof -
  define sl where "sl = sls ! unat (h_index h)"
  have "load_slot r' os (h_index h) = Inr sl"
    using ring_at_load [OF at idx] load_same [OF same] by (simp add: sl_def)
  moreover have "length (sl_data sl) = unat (r_slot_size r)"
    using at nth_mem [OF idx] unfolding ring_at_def sl_def by blast
  ultimately show ?thesis
    unfolding sl_def [symmetric] using len ev
    by (simp add: read_ring_def beginRead_def finishRead_def peek_bytes_def Let_def)
qed

lemma read_history:
  assumes at: "ring_at r os b sls" and h: "hist ds sls" and same: "r_base r' = r_base r"
    and c: "c < length ds" and bound: "length ds < 2 ^ 63" and fit: "length (ds ! c) \<le> unat (r_slot_size r)"
  shows "read_ring (handle_for (r_slot_count r) (of_nat c) (ds ! c)) r' os =
    Inr (if length ds \<le> c + length sls then Some (ds ! c) else None)"
proof -
  let ?h = "handle_for (r_slot_count r) (of_nat c) (ds ! c)"
  have g: "length sls = unat (r_slot_count r)" "0 < length sls" "length sls < 2 ^ 32"
      "unat (r_slot_size r) < 2 ^ 32"
    using at unfolding ring_at_def by argo+
  have uc: "unat (of_nat c :: u64) = c" using c bound by (simp add: unat_of_nat_small)
  have idx: "unat (h_index ?h) = c mod length sls"
    using g by (simp add: handle_for_def slot_of_unat uc del: unat_eq_zero unat_gt_0)
  have sz: "unat (h_size ?h) = length (ds ! c)"
    using fit g(4) by (simp add: handle_for_def unat_of_nat_small)
  have sq: "h_seq ?h = of_nat (2 * c + 2)"
    by (simp add: handle_for_def begin_seq_def end_seq_def algebra_simps)
  have "even (h_seq ?h)" by (simp add: handle_for_def begin_seq_def end_seq_def)
  then have r: "read_ring ?h r' os = (let sl = sls ! (c mod length sls) in
      Inr (if sl_seq sl = of_nat (2 * c + 2) then Some (take (length (ds ! c)) (sl_data sl)) else None))"
    using read_ring_at [OF at same, of ?h] idx fit g(2) unfolding Let_def sz sq by simp
  have ne: "sls \<noteq> []" using g(2) by auto
  show ?thesis
  proof (cases "length ds \<le> c + length sls")
    case True
    then show ?thesis using hist_read_same [OF h c True ne] r by (simp add: holds_def Let_def)
  next
    case False
    then show ?thesis using hist_read_lost [OF h c _ ne bound] r by (simp add: Let_def)
  qed
qed

lemma store_names [frame_laws]: "os_names (store_slot r i sl os) = os_names os"
  by (simp add: store_slot_def split: option.split)

lemma write_names [frame_laws]:
  "write_ring d r os = Inr (r', os', h) \<Longrightarrow> os_names os' = os_names os"
  by (auto simp: write_ring_def reserveWrite_def put_payload_def commitWrite_def store_names Let_def
      split: sum.splits option.splits if_splits)

lemma write_all_names [frame_laws]:
  "write_all ds r os = Inr (r', os', hs) \<Longrightarrow> os_names os' = os_names os"
proof (induction ds arbitrary: r os hs)
  case (Cons d ds)
  then obtain r1 os1 h hs' where "write_ring d r os = Inr (r1, os1, h)"
      "write_all ds r1 os1 = Inr (r', os', hs')"
    by (auto split: sum.splits prod.splits)
  then show ?case using Cons.IH write_names by metis
qed simp

lemma write_geometry [frame_laws]:
  "write_ring d r os = Inr (r', os', h) \<Longrightarrow> r_slot_count r' = r_slot_count r \<and> r_slot_size r' = r_slot_size r"
  by (auto simp: write_ring_def reserveWrite_def Let_def split: sum.splits option.splits if_splits)

lemma write_all_geometry [frame_laws]:
  "write_all ds r os = Inr (r', os', hs) \<Longrightarrow> r_slot_count r' = r_slot_count r \<and> r_slot_size r' = r_slot_size r"
proof (induction ds arbitrary: r os hs)
  case (Cons d ds)
  then obtain r1 os1 h hs' where "write_ring d r os = Inr (r1, os1, h)"
      "write_all ds r1 os1 = Inr (r', os', hs')"
    by (auto split: sum.splits prod.splits)
  then show ?case using Cons.IH write_geometry by metis
qed simp

lemma create_at:
  assumes "0 < unat n" "unat n < 2 ^ 32" "unat s < 2 ^ 32"
  shows "\<exists>r os'. createAsWriter True True True (new_ring nm s n) os = (r, os', True) \<and>
    ring_at r os' (os_next os) (replicate (unat n) (zero_slot (unat s))) \<and> r_cursor r = 0 \<and>
    r_slot_count r = n \<and> r_slot_size r = s \<and> r_name r = nm \<and> r_is_writer r \<and>
    map_of (os_names os') nm = Some (os_next os) \<and>
    r_base r = Some (os_next os)"
  using assms unfolding ring_at_def
  by (simp add: createAsWriter_def new_ring_def mapped_def zero_slot_def Let_def shm_unlink_def)

lemma open_at:
  assumes "ring_at r os b sls" "map_of (os_names os) nm = Some b"
  shows "\<exists>rd. openAsReader True True True (new_ring nm x y) os = (rd, True) \<and> r_base rd = Some b \<and>
    r_slot_count rd = r_slot_count r \<and> r_slot_size rd = r_slot_size r \<and> \<not> r_is_writer rd \<and>
    r_region_size rd = of_nat (region_bytes (unat (r_slot_size r)) (unat (r_slot_count r)))"
proof -
  have b: "map_of (os_objs os) b = Some \<lparr>rm_magic = kMagic,
       rm_slot_count = ucast (r_slot_count r), rm_slot_size = ucast (r_slot_size r), rm_slots = sls\<rparr>"
    using assms(1) by (simp add: ring_at_def mapped_def split: option.splits)
  have g: "unat (r_slot_count r) < 2 ^ 32" "unat (r_slot_size r) < 2 ^ 32"
    using assms(1) unfolding ring_at_def by argo+
  have "ucast (ucast (r_slot_count r) :: u32) = r_slot_count r"
      "ucast (ucast (r_slot_size r) :: u32) = r_slot_size r"
    by (rule ucast_ucast_small, use g in simp)+
  then show ?thesis
    using assms(2) b g by (simp add: unat_ucast_small openAsReader_def new_ring_def Let_def)
qed

section \<open>Properties\<close>

text \<open>
  The slots of a ring lie inside the mapped region, behind the header, and two slots
  share no byte: slot i's payload ends before slot j's header begins when i is below j.
\<close>

theorem ring_layout:
  assumes "i < j" "j < n"
  shows "sizeof_RingHeader \<le> slotHeader_off s i \<and>
    slotPayload_off s i + s \<le> slotHeader_off s j \<and>
    slotPayload_off s j + s \<le> region_bytes s n"
  using slot_order [OF assms(1)] slot_fits [OF assms(2)] by (simp add: slotHeader_off_def)

theorem ring_layout_witness:
  "slotPayload_off 4096 2 + 4096 \<le> slotHeader_off 4096 3 \<and>
   slotPayload_off 4096 3 + 4096 \<le> region_bytes 4096 4"
  using ring_layout [of 2 3 4 4096] by simp

text \<open>
  C6: the history of a ring. Create a segment, let its one writer write any sequence of
  payloads that fit, and open the name as a reader: every write is accepted, the reader
  finds the writer's geometry in the header, and the handle of the j-th write reads
  exactly the j-th payload while fewer than slot_count writes came after it, and is
  refused (the message is dropped, never mixed up) once the ring wrapped over it.
\<close>

theorem ring_history:
  assumes "0 < unat n" "unat n < 2 ^ 32" "unat s < 2 ^ 32"
    and "region_bytes (unat s) (unat n) < 2 ^ 63"
    and "\<forall>d \<in> set ds. length d \<le> unat s" "length ds < 2 ^ 63"
    and "createAsWriter True True True (new_ring nm s n) os = (r, os0, True)"
  shows "\<exists>r' os' hs rd. write_all ds r os0 = Inr (r', os', hs) \<and> length hs = length ds \<and>
    openAsReader True True True (new_ring nm x y) os' = (rd, True) \<and>
    r_slot_size rd = s \<and> r_slot_count rd = n \<and> unat (r_region_size rd) = region_bytes (unat s) (unat n) \<and>
    (\<forall>j < length ds. read_ring (hs ! j) rd os' =
       Inr (if length ds \<le> j + unat n then Some (ds ! j) else None))"
proof -
  have c: "ring_at r os0 (os_next os) (replicate (unat n) (zero_slot (unat s)))" "r_cursor r = 0"
    "r_slot_count r = n" "r_slot_size r = s" "map_of (os_names os0) nm = Some (os_next os)"
    "r_base r = Some (os_next os)"
    using create_at [OF assms(1-3), of nm os] assms(7) by auto
  obtain r' os' sls' where w: "write_all ds r os0 = Inr (r', os',
        map (\<lambda>c. handle_for n (of_nat (length ([] :: string list) + c)) (ds ! c)) [0..<length ds])"
      "ring_at r' os' (os_next os) sls'" "length sls' = unat n" "hist ([] @ ds) sls'"
      "r_base r' = r_base r"
    using write_all_hist [OF c(1) hist_zero, of ds] c(2-4) assms(5,6) by auto
  let ?hs = "map (\<lambda>c. handle_for n (of_nat c) (ds ! c)) [0..<length ds]"
  have w1: "write_all ds r os0 = Inr (r', os', ?hs)" using w(1) by simp
  have "map_of (os_names os') nm = Some (os_next os)" using write_all_names [OF w1] c(5) by simp
  then obtain rd where rd: "openAsReader True True True (new_ring nm x y) os' = (rd, True)"
      "r_base rd = Some (os_next os)" "r_slot_count rd = r_slot_count r'" "r_slot_size rd = r_slot_size r'"
      "r_region_size rd = of_nat (region_bytes (unat (r_slot_size r')) (unat (r_slot_count r')))"
    using open_at [OF w(2)] by blast
  have geo: "r_slot_count r' = n \<and> r_slot_size r' = s"
    using write_all_geometry [OF w1] c(3,4) by simp
  have "read_ring (?hs ! j) rd os' = Inr (if length ds \<le> j + unat n then Some (ds ! j) else None)"
    if j: "j < length ds" for j
    using read_history [OF w(2), of ds rd j] w(3,4,5) c(6) rd(2) geo j assms(5,6) by simp
  moreover have "unat (of_nat (region_bytes (unat s) (unat n)) :: u64) = region_bytes (unat s) (unat n)"
    by (rule unat_of_nat_small) (use assms(4) in simp)
  ultimately show ?thesis using w1 rd geo by (intro exI [of _ r'] exI [of _ os'] exI [of _ ?hs] exI [of _ rd]) simp
qed

definition no_shm :: shm_os where
  "no_shm = \<lparr>os_names = [], os_objs = [], os_next = 0\<rparr>"

theorem ring_history_witness:
  "\<exists>r os0 r' os' hs rd.
     createAsWriter True True True (new_ring ''/r'' 8 2) no_shm = (r, os0, True) \<and>
     write_all [''one'', ''two'', ''three''] r os0 = Inr (r', os', hs) \<and>
     openAsReader True True True (new_ring ''/r'' 0 0) os' = (rd, True) \<and>
     read_ring (hs ! 0) rd os' = Inr None \<and> read_ring (hs ! 1) rd os' = Inr (Some ''two'') \<and>
     read_ring (hs ! 2) rd os' = Inr (Some ''three'')"
proof -
  obtain r os0 where c: "createAsWriter True True True (new_ring ''/r'' 8 2) no_shm = (r, os0, True)"
    by (simp add: createAsWriter_def Let_def)
  have "\<exists>r' os' hs rd. write_all [''one'', ''two'', ''three''] r os0 = Inr (r', os', hs) \<and>
    length hs = length [''one'', ''two'', ''three''] \<and>
    openAsReader True True True (new_ring ''/r'' 0 0) os' = (rd, True) \<and>
    r_slot_size rd = 8 \<and> r_slot_count rd = 2 \<and> unat (r_region_size rd) = region_bytes (unat (8::u64)) (unat (2::u64)) \<and>
    (\<forall>j < length [''one'', ''two'', ''three'']. read_ring (hs ! j) rd os' =
       Inr (if length [''one'', ''two'', ''three''] \<le> j + unat (2::u64) then Some ([''one'', ''two'', ''three''] ! j) else None))"
    by (rule ring_history [OF _ _ _ _ _ _ c])
      (simp_all add: region_bytes_def sizeof_RingHeader_def sizeof_SlotHeader_def slotStride_def)
  then obtain r' os' hs rd where w: "write_all [''one'', ''two'', ''three''] r os0 = Inr (r', os', hs)"
      "openAsReader True True True (new_ring ''/r'' 0 0) os' = (rd, True)"
      "\<forall>j < 3. read_ring (hs ! j) rd os' =
       Inr (if 3 \<le> j + 2 then Some ([''one'', ''two'', ''three''] ! j) else None)"
    by auto
  have "read_ring (hs ! 0) rd os' = Inr None" "read_ring (hs ! 1) rd os' = Inr (Some ''two'')"
      "read_ring (hs ! 2) rd os' = Inr (Some ''three'')"
    using w(3) [rule_format, of 0] w(3) [rule_format, of 1] w(3) [rule_format, of 2] by simp_all
  with c w(1,2) show ?thesis by blast
qed

text \<open>
  a payload larger than a slot is refused before anything is touched: no ticket is
  taken, no slot is marked, and the handle returned is the zero handle.
\<close>

theorem oversize_refused:
  assumes "unat (r_slot_size r) < length data" "length data < 2 ^ 64"
  shows "write_ring data r os = Inr (r, os, null_handle)"
proof -
  have "unat (of_nat (length data) :: u64) = length data"
    by (rule unat_of_nat_small) (use assms(2) in simp)
  then show ?thesis
    using assms(1) by (simp add: write_ring_def reserveWrite_def word_less_nat_alt)
qed

theorem oversize_refused_witness:
  "write_ring ''too long'' (new_ring ''/r'' 4 2) no_shm = Inr (new_ring ''/r'' 4 2, no_shm, null_handle)"
  using oversize_refused [of "new_ring ''/r'' 4 2" "''too long''" no_shm] by (simp add: new_ring_def)

text \<open>
  the zero handle that marks a failed write is not refused by a reader: on a slot 0
  that was never written (sequence 0, which is even) it reads as an empty payload.
\<close>

theorem null_handle_readable:
  assumes "0 < unat n" "unat n < 2 ^ 32" "unat s < 2 ^ 32"
    and "createAsWriter True True True (new_ring nm s n) os = (r, os0, True)"
  shows "read_ring null_handle r os0 = Inr (Some [])"
proof -
  have at: "ring_at r os0 (os_next os) (replicate (unat n) (zero_slot (unat s)))"
    using create_at [OF assms(1-3), of nm os] assms(4) by auto
  show ?thesis
    using read_ring_at [OF at refl, of null_handle] assms(1)
    by (simp add: null_handle_def zero_slot_def Let_def)
qed

theorem null_handle_readable_witness:
  "\<exists>r os0. createAsWriter True True True (new_ring ''/r'' 8 2) no_shm = (r, os0, True) \<and>
     read_ring null_handle r os0 = Inr (Some [])"
proof -
  obtain r os0 where c: "createAsWriter True True True (new_ring ''/r'' 8 2) no_shm = (r, os0, True)"
    by (simp add: createAsWriter_def Let_def)
  have "read_ring null_handle r os0 = Inr (Some [])"
    by (rule null_handle_readable [OF _ _ _ c]) simp_all
  with c show ?thesis by blast
qed

text \<open>
  destroying the writer takes the name away from later openers, and leaves every
  reader that has the segment mapped exactly what it read before.
\<close>

theorem destroy_keeps_mappings:
  assumes "r_is_writer r"
  shows "openAsReader a b c (new_ring (r_name r) x y) (destroy_ring r os) =
      (new_ring (r_name r) x y, False) \<and>
    read_ring h rd (destroy_ring r os) = read_ring h rd os"
proof -
  have "os_objs (destroy_ring r os) = os_objs os"
    by (simp add: destroy_ring_def shm_unlink_def)
  then have "mapped rd (destroy_ring r os) = mapped rd os"
    by (cases "r_base rd") (simp_all add: mapped_def)
  then have "load_slot rd (destroy_ring r os) i = load_slot rd os i" for i
    by (simp add: load_slot_def)
  then have "beginRead h rd (destroy_ring r os) = beginRead h rd os"
      "finishRead h rd (destroy_ring r os) = finishRead h rd os"
    by (simp_all add: beginRead_def finishRead_def)
  then have "read_ring h rd (destroy_ring r os) = read_ring h rd os"
    by (simp only: read_ring_def)
  then show ?thesis
    using assms by (simp add: openAsReader_def destroy_ring_def shm_unlink_def new_ring_def)
qed

theorem destroy_keeps_mappings_witness:
  "\<exists>r os0. createAsWriter True True True (new_ring ''/r'' 8 2) no_shm = (r, os0, True) \<and>
     read_ring null_handle r (destroy_ring r os0) = read_ring null_handle r os0"
proof -
  obtain r os0 where c: "createAsWriter True True True (new_ring ''/r'' 8 2) no_shm = (r, os0, True)"
      and w: "r_is_writer r"
    by (simp add: createAsWriter_def Let_def)
  show ?thesis using destroy_keeps_mappings [OF w] c by blast
qed

end
