(* ===== verification/ShmRingConc.thy ===== *)
theory ShmRingConc
  imports ShmRing
begin

text \<open>
  The ring of src/shm_ring.cc under interleaving: writers and readers of one segment, cut
  into the steps the other side can see. Taking a ticket (\<open>fetch_add\<close>), marking the slot,
  copying one byte, publishing, and on the reader's side the first load, one byte and the
  last load are each one step. The sequence numbers are sequentially consistent in the
  code; the bytes are taken to become visible in program order.
\<close>

section \<open>The system\<close>

datatype wr_state
  = Taken u64 string
  | Copying u64 string nat

record csys =
  c_count :: u64
  c_size :: u64
  c_slots :: "slot list"
  c_cursor :: u64
  c_writers :: "(nat, wr_state) omap"
  c_readers :: "(nat, slot_handle \<times> string) omap"
  c_pub :: "(slot_handle \<times> string) list"
  c_acc :: "(slot_handle \<times> string) list"

datatype cstep_label
  = WTake nat string
  | WMark nat
  | WByte nat
  | WCommit nat
  | WAbandon nat
  | RBegin nat slot_handle
  | RByte nat
  | RFinish nat

definition cinit :: "u64 \<Rightarrow> u64 \<Rightarrow> csys" where
  "cinit n s = \<lparr>c_count = n, c_size = s, c_slots = replicate (unat n) (zero_slot (unat s)),
     c_cursor = 0, c_writers = [], c_readers = [], c_pub = [], c_acc = []\<rparr>"

definition c_slot :: "csys \<Rightarrow> u64 \<Rightarrow> nat" where
  "c_slot s c = unat (slot_of c (c_count s))"

definition upd_slot :: "nat \<Rightarrow> (slot \<Rightarrow> slot) \<Rightarrow> csys \<Rightarrow> csys" where
  "upd_slot i f s = s\<lparr>c_slots := (c_slots s)[i := f (c_slots s ! i)]\<rparr>"

text \<open>
  \<open>reserveWrite\<close> is the steps take and mark, \<open>commitWrite\<close> the step commit; a caller whose
  serialization failed walks away (\<open>WAbandon\<close>). \<open>beginRead\<close> and \<open>finishRead\<close> are the
  reader's first and last step; a reader refused at either end forgets the handle.
\<close>

fun cstep :: "cstep_label \<Rightarrow> csys \<Rightarrow> csys option" where
  "cstep (WTake w d) s =
     (if map_of (c_writers s) w \<noteq> None \<or> unat (c_size s) < length d then None
      else Some (s\<lparr>c_cursor := c_cursor s + 1,
        c_writers := om_put w (Taken (c_cursor s) d) (c_writers s)\<rparr>))"
| "cstep (WMark w) s = (case map_of (c_writers s) w of
     Some (Taken c d) \<Rightarrow> Some ((upd_slot (c_slot s c) (\<lambda>sl. sl\<lparr>sl_seq := begin_seq c\<rparr>) s)
       \<lparr>c_writers := om_put w (Copying c d 0) (c_writers s)\<rparr>)
   | _ \<Rightarrow> None)"
| "cstep (WByte w) s = (case map_of (c_writers s) w of
     Some (Copying c d k) \<Rightarrow>
       if k < length d then
         Some ((upd_slot (c_slot s c) (\<lambda>sl. sl\<lparr>sl_data := (sl_data sl)[k := d ! k]\<rparr>) s)
           \<lparr>c_writers := om_put w (Copying c d (k + 1)) (c_writers s)\<rparr>)
       else None
   | _ \<Rightarrow> None)"
| "cstep (WCommit w) s = (case map_of (c_writers s) w of
     Some (Copying c d k) \<Rightarrow>
       if k = length d then
         Some ((upd_slot (c_slot s c)
             (\<lambda>sl. sl\<lparr>sl_size := of_nat (length d), sl_seq := end_seq (begin_seq c)\<rparr>) s)
           \<lparr>c_writers := om_erase w (c_writers s), c_pub := (handle_for (c_count s) c d, d) # c_pub s\<rparr>)
       else None
   | _ \<Rightarrow> None)"
| "cstep (WAbandon w) s = (case map_of (c_writers s) w of
     Some (Copying c d k) \<Rightarrow> Some (s\<lparr>c_writers := om_erase w (c_writers s)\<rparr>)
   | _ \<Rightarrow> None)"
| "cstep (RBegin r h) s =
     (if map_of (c_readers s) r \<noteq> None \<or> h \<notin> fst ` set (c_pub s) then None
      else
        (let sl = c_slots s ! unat (h_index h)
         in if sl_seq sl \<noteq> h_seq h \<or> is_odd_seq (sl_seq sl) then Some s
            else Some (s\<lparr>c_readers := om_put r (h, []) (c_readers s)\<rparr>)))"
| "cstep (RByte r) s = (case map_of (c_readers s) r of
     Some (h, bs) \<Rightarrow>
       if length bs < unat (h_size h) then
         Some (s\<lparr>c_readers :=
           om_put r (h, bs @ [sl_data (c_slots s ! unat (h_index h)) ! length bs]) (c_readers s)\<rparr>)
       else None
   | None \<Rightarrow> None)"
| "cstep (RFinish r) s = (case map_of (c_readers s) r of
     Some (h, bs) \<Rightarrow>
       if length bs = unat (h_size h) then
         Some (if sl_seq (c_slots s ! unat (h_index h)) = h_seq h
               then s\<lparr>c_readers := om_erase r (c_readers s), c_acc := (h, bs) # c_acc s\<rparr>
               else s\<lparr>c_readers := om_erase r (c_readers s)\<rparr>)
       else None
   | None \<Rightarrow> None)"

fun crun :: "cstep_label list \<Rightarrow> csys \<Rightarrow> csys option" where
  "crun [] s = Some s"
| "crun (l # ls) s = (case cstep l s of None \<Rightarrow> None | Some s' \<Rightarrow> crun ls s')"

fun ticket :: "wr_state \<Rightarrow> u64" where
  "ticket (Taken c d) = c"
| "ticket (Copying c d k) = c"

text \<open>
  No writer has fallen a whole lap behind: less than slot_count tickets have been taken
  since an unfinished one. One writer at a time satisfies this.
\<close>

definition windowed :: "csys \<Rightarrow> bool" where
  "windowed s \<longleftrightarrow> c_cursor s < 0x8000000000000000 \<and>
     (\<forall>w \<in> snd ` set (c_writers s). unat (c_cursor s) \<le> unat (ticket w) + unat (c_count s))"

inductive creach :: "csys \<Rightarrow> csys \<Rightarrow> bool" for s0 where
  creach_init: "windowed s0 \<Longrightarrow> creach s0 s0"
| creach_step: "creach s0 s \<Longrightarrow> cstep l s = Some s' \<Longrightarrow> windowed s' \<Longrightarrow> creach s0 s'"

fun crun_windowed :: "cstep_label list \<Rightarrow> csys \<Rightarrow> bool" where
  "crun_windowed [] s = windowed s"
| "crun_windowed (l # ls) s =
     (windowed s \<and> (case cstep l s of None \<Rightarrow> True | Some s' \<Rightarrow> crun_windowed ls s'))"

section \<open>The invariant\<close>

fun payload :: "wr_state \<Rightarrow> string" where
  "payload (Taken c d) = d"
| "payload (Copying c d k) = d"

definition slot_at :: "csys \<Rightarrow> u64 \<Rightarrow> slot" where
  "slot_at s c = c_slots s ! c_slot s c"

definition geo_ok :: "csys \<Rightarrow> bool" where
  "geo_ok s \<longleftrightarrow> length (c_slots s) = unat (c_count s) \<and> c_count s \<noteq> 0 \<and>
     unat (c_count s) < 2 ^ 32 \<and> unat (c_size s) < 2 ^ 32 \<and>
     (\<forall>i < length (c_slots s). length (sl_data (c_slots s ! i)) = unat (c_size s))"

fun copied_ok :: "csys \<Rightarrow> wr_state \<Rightarrow> bool" where
  "copied_ok s (Taken c d) = True"
| "copied_ok s (Copying c d k) = (k \<le> length d \<and> sl_seq (slot_at s c) = begin_seq c \<and>
     take k (sl_data (slot_at s c)) = take k d)"

definition wr_ok :: "csys \<Rightarrow> wr_state \<Rightarrow> bool" where
  "wr_ok s st \<longleftrightarrow> unat (ticket st) < unat (c_cursor s) \<and> length (payload st) \<le> unat (c_size s) \<and>
     copied_ok s st"

definition pending :: "csys \<Rightarrow> u64 \<Rightarrow> bool" where
  "pending s c \<longleftrightarrow> (\<exists>w st. map_of (c_writers s) w = Some st \<and> ticket st = c)"

definition pub_at :: "csys \<Rightarrow> slot_handle \<Rightarrow> string \<Rightarrow> u64 \<Rightarrow> bool" where
  "pub_at s h d c \<longleftrightarrow> unat c < unat (c_cursor s) \<and> h = handle_for (c_count s) c d \<and>
     length d \<le> unat (c_size s) \<and> \<not> pending s c \<and>
     (sl_seq (slot_at s c) = end_seq (begin_seq c) \<longrightarrow> take (length d) (sl_data (slot_at s c)) = d)"

definition rd_ok :: "csys \<Rightarrow> slot_handle \<Rightarrow> string \<Rightarrow> bool" where
  "rd_ok s h bs \<longleftrightarrow> (\<exists>d. (h, d) \<in> set (c_pub s) \<and> length bs \<le> length d \<and>
     (sl_seq (c_slots s ! unat (h_index h)) = h_seq h \<longrightarrow> bs = take (length bs) d))"

definition cinv :: "csys \<Rightarrow> bool" where
  "cinv s \<longleftrightarrow> geo_ok s \<and>
     (\<forall>w st. map_of (c_writers s) w = Some st \<longrightarrow> wr_ok s st) \<and>
     (\<forall>w st w' st'. map_of (c_writers s) w = Some st \<longrightarrow> map_of (c_writers s) w' = Some st' \<longrightarrow>
        ticket st = ticket st' \<longrightarrow> w = w') \<and>
     (\<forall>h d. (h, d) \<in> set (c_pub s) \<longrightarrow> (\<exists>c. pub_at s h d c)) \<and>
     (\<forall>r h bs. map_of (c_readers s) r = Some (h, bs) \<longrightarrow> rd_ok s h bs) \<and>
     set (c_acc s) \<subseteq> set (c_pub s)"

lemma seq_facts:
  assumes "unat c + 1 < 2 ^ 63" "unat c' + 1 < 2 ^ 63"
  shows "begin_seq c \<noteq> end_seq (begin_seq c')" "end_seq (begin_seq c) = end_seq (begin_seq c') \<longleftrightarrow> c = c'"
    "end_seq (begin_seq c') \<noteq> begin_seq c"
proof -
  have "odd (begin_seq c)" "even (end_seq (begin_seq c'))" by (simp_all add: begin_seq_def end_seq_def)
  then show "begin_seq c \<noteq> end_seq (begin_seq c')" "end_seq (begin_seq c') \<noteq> begin_seq c" by metis+
  have e: "end_seq (begin_seq c) = of_nat (2 * unat c + 2)" for c
    by (simp add: end_seq_def begin_seq_def)
  have "unat (of_nat (2 * unat c + 2) :: u64) = 2 * unat c + 2"
      "unat (of_nat (2 * unat c' + 2) :: u64) = 2 * unat c' + 2"
    by (rule unat_of_nat_small, use assms in simp)+
  then have "end_seq (begin_seq c) = end_seq (begin_seq c') \<longleftrightarrow> unat c = unat c'"
    unfolding e by (metis add_right_cancel mult_cancel1 zero_neq_numeral)
  then show "end_seq (begin_seq c) = end_seq (begin_seq c') \<longleftrightarrow> c = c'"
    by (simp add: word_unat_eq_iff)
qed

lemma c_slot_mod: "geo_ok s \<Longrightarrow> c_slot s c = unat c mod length (c_slots s)"
  unfolding geo_ok_def c_slot_def by (metis slot_of_unat unat_gt_0)

lemma c_slot_less: "geo_ok s \<Longrightarrow> c_slot s c < length (c_slots s)"
  unfolding geo_ok_def c_slot_def by (metis slot_of_less unat_gt_0)

lemma same_residue:
  fixes a b :: nat
  assumes "a mod n = b mod n" "a < b + n" "b < a + n"
  shows "a = b"
proof (rule ccontr)
  assume "a \<noteq> b"
  then obtain x y where xy: "x < y" "y < x + n" "x mod n = y mod n"
    using assms by (metis linorder_neqE_nat)
  then have "n dvd y - x" by (metis less_imp_le_nat mod_eq_dvd_iff_nat)
  then show False using xy by (auto dest: dvd_imp_le)
qed

lemma windowed_cursor: "windowed s \<Longrightarrow> unat (c_cursor s) < 2 ^ 63"
  by (simp add: windowed_def word_less_nat_alt)

lemma windowed_at:
  assumes "windowed s" "map_of (c_writers s) w = Some st"
  shows "unat (c_cursor s) \<le> unat (ticket st) + unat (c_count s)"
proof -
  have "st \<in> snd ` set (c_writers s)" using map_of_SomeD [OF assms(2)] by force
  then show ?thesis using assms(1) unfolding windowed_def by blast
qed

text \<open>Two unfinished writers never stand on the same slot.\<close>

lemma slot_clash:
  assumes "cinv s" "windowed s" "map_of (c_writers s) w = Some st" "map_of (c_writers s) w' = Some st'"
    and "c_slot s (ticket st) = c_slot s (ticket st')"
  shows "w = w'"
proof -
  have geo: "geo_ok s" and len: "length (c_slots s) = unat (c_count s)"
    using assms(1) unfolding cinv_def geo_ok_def by argo+
  have wr: "wr_ok s st" "wr_ok s st'"
    using assms(1,3,4) unfolding cinv_def by metis+
  have less: "unat (ticket st) < unat (c_cursor s)" "unat (ticket st') < unat (c_cursor s)"
    using wr unfolding wr_ok_def by argo+
  have "unat (ticket st) mod unat (c_count s) = unat (ticket st') mod unat (c_count s)"
    using assms(5) unfolding c_slot_mod [OF geo] len .
  then have "unat (ticket st) = unat (ticket st')"
  proof (rule same_residue)
    show "unat (ticket st) < unat (ticket st') + unat (c_count s)"
      using less(1) windowed_at [OF assms(2,4)] by (rule less_le_trans)
    show "unat (ticket st') < unat (ticket st) + unat (c_count s)"
      using less(2) windowed_at [OF assms(2,3)] by (rule less_le_trans)
  qed
  then have "ticket st = ticket st'" by (simp add: word_unat_eq_iff)
  then show ?thesis using assms(1,3,4) unfolding cinv_def by metis
qed

lemma cinv_parts:
  assumes "cinv s"
  shows "geo_ok s" "map_of (c_writers s) w = Some st \<Longrightarrow> wr_ok s st"
    "map_of (c_writers s) w = Some st \<Longrightarrow> map_of (c_writers s) w' = Some st' \<Longrightarrow>
       ticket st = ticket st' \<Longrightarrow> w = w'"
    "(h, d) \<in> set (c_pub s) \<Longrightarrow> \<exists>c. pub_at s h d c"
    "map_of (c_readers s) r = Some (h, bs) \<Longrightarrow> rd_ok s h bs" "set (c_acc s) \<subseteq> set (c_pub s)"
  using assms unfolding cinv_def by metis+

lemma copied_ok_cong:
  "c_slots s = c_slots s' \<Longrightarrow> c_count s = c_count s' \<Longrightarrow> copied_ok s st = copied_ok s' st"
  by (cases st) (simp_all add: slot_at_def c_slot_def)

lemma wr_ok_mono:
  assumes "wr_ok s st" "c_slots s' = c_slots s" "c_count s' = c_count s" "c_size s' = c_size s"
    "unat (c_cursor s) \<le> unat (c_cursor s')"
  shows "wr_ok s' st"
  using assms copied_ok_cong [of s s' st] unfolding wr_ok_def by simp

lemma pub_at_mono:
  assumes "pub_at s h d c" "c_slots s' = c_slots s" "c_count s' = c_count s" "c_size s' = c_size s"
    "unat (c_cursor s) \<le> unat (c_cursor s')" "\<not> pending s' c"
  shows "pub_at s' h d c"
  using assms unfolding pub_at_def slot_at_def c_slot_def by simp

lemma rd_ok_mono:
  assumes "rd_ok s h bs" "c_slots s' = c_slots s" "set (c_pub s) \<subseteq> set (c_pub s')"
  shows "rd_ok s' h bs"
  using assms unfolding rd_ok_def by auto

text \<open>Steps that leave the slots alone and start no writer.\<close>

lemma cinv_quiet:
  assumes inv: "cinv s"
    and eqs: "c_slots s' = c_slots s" "c_count s' = c_count s" "c_size s' = c_size s"
      "c_cursor s' = c_cursor s" "c_pub s' = c_pub s"
    and w: "map_of (c_writers s') \<subseteq>\<^sub>m map_of (c_writers s)"
    and r: "\<And>r h bs. map_of (c_readers s') r = Some (h, bs) \<Longrightarrow> rd_ok s h bs"
    and a: "set (c_acc s') \<subseteq> set (c_pub s)"
  shows "cinv s'"
proof -
  have W: "map_of (c_writers s) u = Some st" if "map_of (c_writers s') u = Some st" for u st
    using that w by (metis domI map_le_def)
  have pend: "pending s' c \<Longrightarrow> pending s c" for c unfolding pending_def using W by blast
  have "geo_ok s'" using cinv_parts(1) [OF inv] eqs by (simp add: geo_ok_def)
  moreover have "wr_ok s' st" if "map_of (c_writers s') u = Some st" for u st
    using wr_ok_mono [OF cinv_parts(2) [OF inv W [OF that]]] eqs by simp
  moreover have "u = u'" if "map_of (c_writers s') u = Some st" "map_of (c_writers s') u' = Some st'"
      "ticket st = ticket st'" for u u' st st'
    using cinv_parts(3) [OF inv W [OF that(1)] W [OF that(2)] that(3)] .
  moreover have "\<exists>c. pub_at s' h d c" if hd: "(h, d) \<in> set (c_pub s')" for h d
  proof -
    obtain c where c: "pub_at s h d c" using cinv_parts(4) [OF inv] hd eqs(5) by metis
    then have "\<not> pending s' c" using pend by (auto simp: pub_at_def)
    then have "pub_at s' h d c" using pub_at_mono [OF c] eqs by simp
    then show ?thesis ..
  qed
  moreover have "rd_ok s' h bs" if "map_of (c_readers s') q = Some (h, bs)" for q h bs
    using rd_ok_mono [OF r [OF that]] eqs by simp
  ultimately show ?thesis using a eqs(5) unfolding cinv_def by metis
qed

section \<open>Preservation\<close>

lemma cinv_take:
  assumes inv: "cinv s" and st: "cstep (WTake w d) s = Some s'" and win: "windowed s" "windowed s'"
  shows "cinv s'"
proof -
  have s': "s' = s\<lparr>c_cursor := c_cursor s + 1, c_writers := om_put w (Taken (c_cursor s) d) (c_writers s)\<rparr>"
    and fresh: "map_of (c_writers s) w = None" and fit: "length d \<le> unat (c_size s)"
    using st by (auto split: if_splits)
  have cur: "unat (c_cursor s + 1) = unat (c_cursor s) + 1"
    by (subst unat_add_small) (use windowed_cursor [OF win(1)] in simp_all)
  have eqs: "c_slots s' = c_slots s" "c_count s' = c_count s" "c_size s' = c_size s"
      "unat (c_cursor s) \<le> unat (c_cursor s')" "c_pub s' = c_pub s" "c_readers s' = c_readers s"
    using cur by (simp_all add: s')
  have old: "map_of (c_writers s) u = Some x"
    if "map_of (c_writers s') u = Some x" "u \<noteq> w" for u x using that by (simp add: s')
  have new: "map_of (c_writers s') w = Some (Taken (c_cursor s) d)" by (simp add: s')
  have below: "unat (ticket x) < unat (c_cursor s)" if "map_of (c_writers s) u = Some x" for u x
    using cinv_parts(2) [OF inv that] by (simp add: wr_ok_def)
  have "geo_ok s'" using cinv_parts(1) [OF inv] by (simp add: geo_ok_def s')
  moreover have "wr_ok s' x" if "map_of (c_writers s') u = Some x" for u x
  proof (cases "u = w")
    case True
    then have "x = Taken (c_cursor s) d" using that new by simp
    then show ?thesis using fit cur by (simp add: wr_ok_def s')
  next
    case False
    then show ?thesis using wr_ok_mono [OF cinv_parts(2) [OF inv old [OF that]]] eqs by simp
  qed
  moreover have "u = u'" if "map_of (c_writers s') u = Some x" "map_of (c_writers s') u' = Some x'"
      "ticket x = ticket x'" for u u' x x'
    using that new old below cinv_parts(3) [OF inv] by (metis less_irrefl option.inject ticket.simps(1))
  moreover have "\<exists>c. pub_at s' h e c" if hd: "(h, e) \<in> set (c_pub s')" for h e
  proof -
    obtain c where c: "pub_at s h e c" using cinv_parts(4) [OF inv] hd eqs(5) by metis
    then have "\<not> pending s' c"
      unfolding pub_at_def pending_def using new old
      by (metis less_irrefl option.inject ticket.simps(1))
    then have "pub_at s' h e c" using pub_at_mono [OF c] eqs by simp
    then show ?thesis ..
  qed
  moreover have "rd_ok s' h bs" if "map_of (c_readers s') q = Some (h, bs)" for q h bs
    using rd_ok_mono [OF cinv_parts(5) [OF inv]] that eqs by (metis order_refl)
  moreover have "set (c_acc s') \<subseteq> set (c_pub s')" using cinv_parts(6) [OF inv] by (simp add: s')
  ultimately show ?thesis unfolding cinv_def by metis
qed

lemma slot_at_upd:
  assumes "geo_ok s"
  shows "slot_at (upd_slot (c_slot s c) f s) c' =
    (if c_slot s c' = c_slot s c then f (slot_at s c) else slot_at s c')"
  using c_slot_less [OF assms, of c] by (simp add: slot_at_def c_slot_def upd_slot_def)

text \<open>A step of the writer that holds ticket c, seen by everybody else.\<close>

lemma writer_step:
  assumes inv: "cinv s" and win: "windowed s" and w: "map_of (c_writers s) w = Some st"
    and c: "ticket st = c"
    and len: "length (sl_data (f (slot_at s c))) = length (sl_data (slot_at s c))"
    and sq: "\<And>c'. c' \<noteq> c \<Longrightarrow> unat c' < unat (c_cursor s) \<Longrightarrow>
      sl_seq (f (slot_at s c)) \<noteq> end_seq (begin_seq c')"
    and s1: "s1 = upd_slot (c_slot s c) f s"
  shows "geo_ok s1"
    and "map_of (c_writers s) w' = Some st' \<Longrightarrow> w' \<noteq> w \<Longrightarrow> wr_ok s1 st'"
    and "(h, d) \<in> set (c_pub s) \<Longrightarrow> \<exists>c'. c' \<noteq> c \<and> pub_at s1 h d c'"
    and "map_of (c_readers s) r = Some (h', bs) \<Longrightarrow> rd_ok s1 h' bs"
proof -
  note geo = cinv_parts(1) [OF inv]
  have simps: "c_count s1 = c_count s" "c_size s1 = c_size s" "c_cursor s1 = c_cursor s"
      "c_writers s1 = c_writers s" "c_pub s1 = c_pub s" "length (c_slots s1) = length (c_slots s)"
    by (simp_all add: s1 upd_slot_def)
  have at: "slot_at s1 c' = (if c_slot s c' = c_slot s c then f (slot_at s c) else slot_at s c')" for c'
    unfolding s1 by (rule slot_at_upd [OF geo])
  have "length (sl_data (c_slots s1 ! i)) = unat (c_size s)" if "i < length (c_slots s)" for i
    using geo len that c_slot_less [OF geo, of c]
    by (cases "i = c_slot s c") (auto simp: s1 upd_slot_def geo_ok_def slot_at_def)
  then show "geo_ok s1" using geo by (simp add: geo_ok_def simps)
  show "wr_ok s1 st'" if o: "map_of (c_writers s) w' = Some st'" "w' \<noteq> w"
  proof -
    have ok: "wr_ok s st'" using cinv_parts(2) [OF inv o(1)] .
    have "c_slot s (ticket st') \<noteq> c_slot s c"
      using slot_clash [OF inv win o(1) w] o(2) c by blast
    then have "slot_at s1 (ticket st') = slot_at s (ticket st')" by (simp add: at)
    then have "copied_ok s1 st' = copied_ok s st'" by (cases st') simp_all
    then show ?thesis using ok by (simp add: wr_ok_def simps)
  qed
  have pub: "\<exists>c'. c' \<noteq> c \<and> pub_at s1 h d c'" if hd: "(h, d) \<in> set (c_pub s)" for h d
  proof -
    obtain c' where c': "pub_at s h d c'" using cinv_parts(4) [OF inv hd] by blast
    have ne: "c' \<noteq> c" using c' w c unfolding pub_at_def pending_def by blast
    have lt: "unat c' < unat (c_cursor s)" using c' by (simp add: pub_at_def)
    have "pending s1 c' = pending s c'" by (simp add: pending_def simps)
    then have "pub_at s1 h d c'"
      using c' sq [OF ne lt] by (simp add: pub_at_def simps at)
    then show ?thesis using ne by blast
  qed
  then show "(h, d) \<in> set (c_pub s) \<Longrightarrow> \<exists>c'. c' \<noteq> c \<and> pub_at s1 h d c'" .
  show "rd_ok s1 h' bs" if rd: "map_of (c_readers s) r = Some (h', bs)"
  proof -
    obtain d where d: "(h', d) \<in> set (c_pub s)" "length bs \<le> length d"
        "sl_seq (c_slots s ! unat (h_index h')) = h_seq h' \<longrightarrow> bs = take (length bs) d"
      using cinv_parts(5) [OF inv rd] by (auto simp: rd_ok_def)
    obtain c' where c': "c' \<noteq> c" "pub_at s1 h' d c'" using pub [OF d(1)] by blast
    have h': "unat (h_index h') = c_slot s c'" "h_seq h' = end_seq (begin_seq c')"
      using c'(2) by (simp_all add: pub_at_def handle_for_def c_slot_def simps)
    have lt: "unat c' < unat (c_cursor s)" using c'(2) by (simp add: pub_at_def simps)
    have "sl_seq (c_slots s1 ! unat (h_index h')) = h_seq h' \<longrightarrow>
        sl_seq (c_slots s ! unat (h_index h')) = h_seq h'"
      using at [of c'] sq [OF c'(1) lt] unfolding h' slot_at_def
      by (simp add: c_slot_def simps split: if_splits)
    then show ?thesis using d by (auto simp: rd_ok_def simps)
  qed
qed

lemma cinv_writer_on:
  assumes inv: "cinv s" and win: "windowed s" and w: "map_of (c_writers s) w = Some st"
    and c: "ticket st = c"
    and len: "length (sl_data (f (slot_at s c))) = length (sl_data (slot_at s c))"
    and sq: "\<And>c'. c' \<noteq> c \<Longrightarrow> unat c' < unat (c_cursor s) \<Longrightarrow>
      sl_seq (f (slot_at s c)) \<noteq> end_seq (begin_seq c')"
    and st2: "ticket st2 = c" "payload st2 = payload st" "copied_ok (upd_slot (c_slot s c) f s) st2"
  shows "cinv ((upd_slot (c_slot s c) f s)\<lparr>c_writers := om_put w st2 (c_writers s)\<rparr>)" (is "cinv ?s")
proof -
  note ws = writer_step [where f = f, OF inv win w c len sq refl]
  let ?s1 = "upd_slot (c_slot s c) f s"
  have eqs: "c_slots ?s = c_slots ?s1" "c_count ?s = c_count ?s1" "c_size ?s = c_size ?s1"
      "c_cursor ?s = c_cursor ?s1" "c_pub ?s = c_pub s" "c_readers ?s = c_readers s"
      "c_acc ?s = c_acc s" "c_pub ?s1 = c_pub s" "c_cursor ?s1 = c_cursor s" "c_size ?s1 = c_size s"
    by (simp_all add: upd_slot_def)
  have look: "map_of (c_writers ?s) u = (if u = w then Some st2 else map_of (c_writers s) u)" for u
    by simp
  have tick: "\<exists>y. map_of (c_writers s) u = Some y \<and> ticket y = ticket x"
    if "map_of (c_writers ?s) u = Some x" for u x
    using that w c st2(1) look [of u] by (cases "u = w") auto
  have okw: "wr_ok ?s1 st2"
    using cinv_parts(2) [OF inv w] st2 c by (simp add: wr_ok_def eqs)
  have "geo_ok ?s" using ws(1) by (simp add: geo_ok_def)
  moreover have "wr_ok ?s x" if "map_of (c_writers ?s) u = Some x" for u x
  proof -
    have "wr_ok ?s1 x" using that look [of u] okw ws(2) by (cases "u = w") auto
    then show ?thesis by (rule wr_ok_mono) (simp_all add: eqs)
  qed
  moreover have "u = u'" if "map_of (c_writers ?s) u = Some x" "map_of (c_writers ?s) u' = Some x'"
      "ticket x = ticket x'" for u u' x x'
    using tick [OF that(1)] tick [OF that(2)] that(3) cinv_parts(3) [OF inv] by metis
  moreover have "\<exists>c'. pub_at ?s h d c'" if hd: "(h, d) \<in> set (c_pub ?s)" for h d
  proof -
    obtain c' where c': "c' \<noteq> c" "pub_at ?s1 h d c'" using ws(3) hd eqs(5) by metis
    have "\<not> pending s c'" using c'(2) by (simp add: pub_at_def pending_def upd_slot_def)
    then have "\<not> pending ?s c'" unfolding pending_def using tick by metis
    then have "pub_at ?s h d c'" using pub_at_mono [OF c'(2)] by (simp add: eqs)
    then show ?thesis ..
  qed
  moreover have "rd_ok ?s h bs" if "map_of (c_readers ?s) r = Some (h, bs)" for r h bs
    using ws(4) that eqs by (metis rd_ok_mono order_refl)
  moreover have "set (c_acc ?s) \<subseteq> set (c_pub ?s)" using cinv_parts(6) [OF inv] by (simp add: eqs)
  ultimately show ?thesis unfolding cinv_def by metis
qed

lemma cursor_room:
  "windowed s \<Longrightarrow> unat c < unat (c_cursor s) \<Longrightarrow> unat c + 1 < 2 ^ 63"
  using windowed_cursor [of s] by simp

lemma cinv_mark:
  assumes inv: "cinv s" and st: "cstep (WMark w) s = Some s'" and win: "windowed s"
  shows "cinv s'"
proof -
  obtain c d where w: "map_of (c_writers s) w = Some (Taken c d)"
    and s': "s' = (upd_slot (c_slot s c) (\<lambda>sl. sl\<lparr>sl_seq := begin_seq c\<rparr>) s)
       \<lparr>c_writers := om_put w (Copying c d 0) (c_writers s)\<rparr>"
    using st by (auto split: option.splits wr_state.splits)
  have lt: "unat c + 1 < 2 ^ 63"
    using cursor_room [OF win, of c] cinv_parts(2) [OF inv w] by (simp add: wr_ok_def)
  show ?thesis unfolding s'
  proof (rule cinv_writer_on [OF inv win w])
    show "sl_seq ((slot_at s c)\<lparr>sl_seq := begin_seq c\<rparr>) \<noteq> end_seq (begin_seq c')"
      if "unat c' < unat (c_cursor s)" for c'
      using seq_facts(1) [OF lt cursor_room [OF win that]] by simp
    show "copied_ok (upd_slot (c_slot s c) (sl_seq_update (\<lambda>_. begin_seq c)) s) (Copying c d 0)"
      using slot_at_upd [OF cinv_parts(1) [OF inv], of c _ c] by simp
  qed simp_all
qed

lemma cinv_byte:
  assumes inv: "cinv s" and st: "cstep (WByte w) s = Some s'" and win: "windowed s"
  shows "cinv s'"
proof -
  obtain c d k where w: "map_of (c_writers s) w = Some (Copying c d k)" and k: "k < length d"
    and s': "s' = (upd_slot (c_slot s c) (\<lambda>sl. sl\<lparr>sl_data := (sl_data sl)[k := d ! k]\<rparr>) s)
       \<lparr>c_writers := om_put w (Copying c d (k + 1)) (c_writers s)\<rparr>"
    using st by (auto split: option.splits wr_state.splits if_splits)
  have ok: "sl_seq (slot_at s c) = begin_seq c" "take k (sl_data (slot_at s c)) = take k d"
      "length d \<le> unat (c_size s)" "unat c < unat (c_cursor s)"
    using cinv_parts(2) [OF inv w] by (simp_all add: wr_ok_def)
  have lt: "unat c + 1 < 2 ^ 63" using cursor_room [OF win ok(4)] .
  have "length (sl_data (slot_at s c)) = unat (c_size s)"
    using cinv_parts(1) [OF inv] c_slot_less [of s c] by (simp add: geo_ok_def slot_at_def)
  then have room: "k < length (sl_data (slot_at s c))" using k ok(3) by simp
  have take_k: "take (k + 1) ((sl_data (slot_at s c))[k := d ! k]) = take (k + 1) d"
    using room k ok(2) by (simp add: take_Suc_conv_app_nth take_update_swap list_update_append)
  show ?thesis unfolding s'
  proof (rule cinv_writer_on [OF inv win w])
    show "sl_seq ((slot_at s c)\<lparr>sl_data := (sl_data (slot_at s c))[k := d ! k]\<rparr>) \<noteq> end_seq (begin_seq c')"
      if "unat c' < unat (c_cursor s)" for c'
      using seq_facts(1) [OF lt cursor_room [OF win that]] ok(1) by simp
    show "copied_ok (upd_slot (c_slot s c) (\<lambda>sl. sl\<lparr>sl_data := (sl_data sl)[k := d ! k]\<rparr>) s)
        (Copying c d (k + 1))"
      using slot_at_upd [OF cinv_parts(1) [OF inv], of c _ c] ok(1) take_k k by simp
  qed simp_all
qed

lemma cinv_commit:
  assumes inv: "cinv s" and st: "cstep (WCommit w) s = Some s'" and win: "windowed s"
  shows "cinv s'"
proof -
  obtain c d where w: "map_of (c_writers s) w = Some (Copying c d (length d))"
    and s': "s' = (upd_slot (c_slot s c)
          (\<lambda>sl. sl\<lparr>sl_size := of_nat (length d), sl_seq := end_seq (begin_seq c)\<rparr>) s)
       \<lparr>c_writers := om_erase w (c_writers s), c_pub := (handle_for (c_count s) c d, d) # c_pub s\<rparr>"
    using st by (auto split: option.splits wr_state.splits if_splits)
  define f :: "slot \<Rightarrow> slot" where "f = (\<lambda>sl. sl\<lparr>sl_size := of_nat (length d), sl_seq := end_seq (begin_seq c)\<rparr>)"
  define s1 where "s1 = upd_slot (c_slot s c) f s"
  have ok: "sl_seq (slot_at s c) = begin_seq c" "take (length d) (sl_data (slot_at s c)) = d"
      "length d \<le> unat (c_size s)" "unat c < unat (c_cursor s)"
    using cinv_parts(2) [OF inv w] by (simp_all add: wr_ok_def)
  have lt: "unat c + 1 < 2 ^ 63" using cursor_room [OF win ok(4)] .
  have sq: "sl_seq (f (slot_at s c)) \<noteq> end_seq (begin_seq c')"
    if "c' \<noteq> c" "unat c' < unat (c_cursor s)" for c'
    using seq_facts(2) [OF lt cursor_room [OF win that(2)]] that(1) by (simp add: f_def)
  have len: "length (sl_data (f (slot_at s c))) = length (sl_data (slot_at s c))" by (simp add: f_def)
  note ws = writer_step [where f = f, OF inv win w _ len sq s1_def, simplified]
  have eqs: "c_slots s' = c_slots s1" "c_count s' = c_count s1" "c_size s' = c_size s1"
      "c_cursor s' = c_cursor s1" "c_pub s' = (handle_for (c_count s) c d, d) # c_pub s"
      "c_readers s' = c_readers s" "c_acc s' = c_acc s" "c_pub s1 = c_pub s" "c_writers s1 = c_writers s"
      "c_count s1 = c_count s" "c_size s1 = c_size s" "c_cursor s1 = c_cursor s"
    unfolding s' s1_def f_def by (simp_all add: upd_slot_def)
  have old: "map_of (c_writers s) u = Some x \<and> u \<noteq> w" if "map_of (c_writers s') u = Some x" for u x
    using that unfolding s' by (simp split: if_splits)
  have not_c: "\<not> pending s' c"
    unfolding pending_def using old cinv_parts(3) [OF inv w] by (metis ticket.simps(2))
  have pend: "pending s' c' \<Longrightarrow> pending s c'" for c' unfolding pending_def using old by blast
  have "slot_at s' c = slot_at s1 c" by (simp add: slot_at_def c_slot_def eqs)
  then have at: "slot_at s' c = f (slot_at s c)"
    using slot_at_upd [OF cinv_parts(1) [OF inv], of c f c] by (simp add: s1_def)
  have new: "pub_at s' (handle_for (c_count s) c d) d c"
    using ok not_c at by (simp add: pub_at_def eqs f_def)
  have "geo_ok s'" using ws(1) by (simp add: geo_ok_def eqs)
  moreover have "wr_ok s' x" if "map_of (c_writers s') u = Some x" for u x
    using wr_ok_mono [OF ws(2), of u x s'] old [OF that] by (simp add: eqs)
  moreover have "u = u'" if "map_of (c_writers s') u = Some x" "map_of (c_writers s') u' = Some x'"
      "ticket x = ticket x'" for u u' x x'
    using old [OF that(1)] old [OF that(2)] that(3) cinv_parts(3) [OF inv] by blast
  moreover have "\<exists>c'. pub_at s' h e c'" if hd: "(h, e) \<in> set (c_pub s')" for h e
  proof (cases "(h, e) \<in> set (c_pub s)")
    case True
    then obtain c' where c': "c' \<noteq> c" "pub_at s1 h e c'" using ws(3) by blast
    have "\<not> pending s c'" using c'(2) by (simp add: pub_at_def pending_def eqs)
    then have "\<not> pending s' c'" using pend by blast
    then have "pub_at s' h e c'" using pub_at_mono [OF c'(2)] by (simp add: eqs)
    then show ?thesis ..
  next
    case False
    then show ?thesis using hd new by (auto simp: eqs)
  qed
  moreover have "rd_ok s' h bs" if "map_of (c_readers s') r = Some (h, bs)" for r h bs
    using rd_ok_mono [OF ws(4), of r h bs s'] that by (auto simp: eqs)
  moreover have "set (c_acc s') \<subseteq> set (c_pub s')" using cinv_parts(6) [OF inv] by (auto simp: eqs)
  ultimately show ?thesis unfolding cinv_def by metis
qed

lemma cinv_abandon:
  assumes inv: "cinv s" and st: "cstep (WAbandon w) s = Some s'"
  shows "cinv s'"
proof -
  have s': "s' = s\<lparr>c_writers := om_erase w (c_writers s)\<rparr>"
    using st by (auto split: option.splits wr_state.splits)
  show ?thesis
    by (rule cinv_quiet [OF inv])
      (use cinv_parts(5,6) [OF inv] in \<open>auto simp: s' map_le_def\<close>)
qed

lemma cinv_begin:
  assumes inv: "cinv s" and st: "cstep (RBegin r h) s = Some s'"
  shows "cinv s'"
proof (cases "s' = s")
  case False
  then have s': "s' = s\<lparr>c_readers := om_put r (h, []) (c_readers s)\<rparr>" and h: "h \<in> fst ` set (c_pub s)"
    using st by (auto simp: Let_def split: if_splits)
  have "rd_ok s h []" using h by (auto simp: rd_ok_def)
  then have "rd_ok s h' bs" if "map_of (c_readers s') q = Some (h', bs)" for q h' bs
    using that cinv_parts(5) [OF inv] unfolding s' by (auto split: if_splits)
  then show ?thesis
    by (rule cinv_quiet [OF inv, rotated -2]) (use cinv_parts(6) [OF inv] in \<open>simp_all add: s'\<close>)
qed (use inv in simp)

lemma handle_size:
  assumes "geo_ok s" "pub_at s h d c"
  shows "unat (h_size h) = length d" "h_seq h = end_seq (begin_seq c)" "unat (h_index h) = c_slot s c"
proof -
  have "length d < 2 ^ LENGTH(32)" using assms by (simp add: geo_ok_def pub_at_def)
  then show "unat (h_size h) = length d" "h_seq h = end_seq (begin_seq c)" "unat (h_index h) = c_slot s c"
    using assms(2) by (simp_all add: pub_at_def handle_for_def c_slot_def unat_of_nat_small)
qed

lemma handle_sizes:
  assumes "cinv s" "(h, d) \<in> set (c_pub s)"
  shows "unat (h_size h) = length d"
  using cinv_parts(1,4) [OF assms(1)] assms(2) handle_size(1) by metis

lemma cinv_rbyte:
  assumes inv: "cinv s" and st: "cstep (RByte r) s = Some s'"
  shows "cinv s'"
proof -
  obtain h bs where r: "map_of (c_readers s) r = Some (h, bs)" and k: "length bs < unat (h_size h)"
    and s': "s' = s\<lparr>c_readers :=
       om_put r (h, bs @ [sl_data (c_slots s ! unat (h_index h)) ! length bs]) (c_readers s)\<rparr>"
    using st by (auto split: option.splits if_splits)
  let ?sl = "c_slots s ! unat (h_index h)"
  obtain d where d: "(h, d) \<in> set (c_pub s)" "sl_seq ?sl = h_seq h \<longrightarrow> bs = take (length bs) d"
    using cinv_parts(5) [OF inv r] by (auto simp: rd_ok_def)
  obtain c where c: "pub_at s h d c" using cinv_parts(4) [OF inv d(1)] by blast
  note hs = handle_size [OF cinv_parts(1) [OF inv] c]
  have lt: "length bs < length d" using k hs(1) by simp
  have "bs @ [sl_data ?sl ! length bs] = take (length bs + 1) d" if q: "sl_seq ?sl = h_seq h"
  proof -
    have "take (length d) (sl_data ?sl) = d"
      using c q hs(2,3) by (simp add: pub_at_def slot_at_def)
    then have "sl_data ?sl ! length bs = d ! length bs" using lt by (metis nth_take)
    then show ?thesis using d(2) q lt by (metis Suc_eq_plus1 take_Suc_conv_app_nth)
  qed
  then have "rd_ok s h (bs @ [sl_data ?sl ! length bs])"
    using d(1) lt by (auto simp: rd_ok_def)
  then have "rd_ok s h' bs'" if "map_of (c_readers s') q = Some (h', bs')" for q h' bs'
    using that cinv_parts(5) [OF inv] unfolding s' by (auto split: if_splits)
  then show ?thesis
    by (rule cinv_quiet [OF inv, rotated -2]) (use cinv_parts(6) [OF inv] in \<open>simp_all add: s'\<close>)
qed

lemma cinv_finish:
  assumes inv: "cinv s" and st: "cstep (RFinish r) s = Some s'"
  shows "cinv s'"
proof -
  obtain h bs where r: "map_of (c_readers s) r = Some (h, bs)" and k: "length bs = unat (h_size h)"
    and s': "s' = (if sl_seq (c_slots s ! unat (h_index h)) = h_seq h
               then s\<lparr>c_readers := om_erase r (c_readers s), c_acc := (h, bs) # c_acc s\<rparr>
               else s\<lparr>c_readers := om_erase r (c_readers s)\<rparr>)"
    using st by (auto split: option.splits if_splits)
  obtain d where d: "(h, d) \<in> set (c_pub s)"
      "sl_seq (c_slots s ! unat (h_index h)) = h_seq h \<longrightarrow> bs = take (length bs) d"
    using cinv_parts(5) [OF inv r] by (auto simp: rd_ok_def)
  have "unat (h_size h) = length d" by (rule handle_sizes [OF inv d(1)])
  then have acc: "sl_seq (c_slots s ! unat (h_index h)) = h_seq h \<longrightarrow> (h, bs) \<in> set (c_pub s)"
    using d k by auto
  have rd: "rd_ok s h' bs'" if "map_of (c_readers s') q = Some (h', bs')" for q h' bs'
    using that cinv_parts(5) [OF inv] unfolding s' by (auto split: if_splits)
  have "set (c_acc s') \<subseteq> set (c_pub s)"
    using cinv_parts(6) [OF inv] acc unfolding s' by auto
  then show ?thesis
    by (rule cinv_quiet [OF inv, rotated -1]) (use rd in \<open>simp_all add: s'\<close>)
qed

lemma cinv_step:
  assumes "cinv s" "windowed s" "windowed s'" "cstep l s = Some s'"
  shows "cinv s'"
proof (cases l)
  case (WTake w d)
  then show ?thesis using cinv_take assms by metis
next
  case (WMark w)
  then show ?thesis using cinv_mark assms by metis
next
  case (WByte w)
  then show ?thesis using cinv_byte assms by metis
next
  case (WCommit w)
  then show ?thesis using cinv_commit assms by metis
next
  case (WAbandon w)
  then show ?thesis using cinv_abandon assms by metis
next
  case (RBegin r h)
  then show ?thesis using cinv_begin assms by metis
next
  case (RByte r)
  then show ?thesis using cinv_rbyte assms by metis
next
  case (RFinish r)
  then show ?thesis using cinv_finish assms by metis
qed

lemma cinv_init:
  "n \<noteq> 0 \<Longrightarrow> unat n < 2 ^ 32 \<Longrightarrow> unat sz < 2 ^ 32 \<Longrightarrow> cinv (cinit n sz)"
  by (simp add: cinv_def cinit_def geo_ok_def zero_slot_def)

inductive_cases creach_stepE: "creach s0 s"

lemma creach_inv:
  assumes "creach s0 s" "cinv s0"
  shows "cinv s \<and> windowed s"
  using assms by (induction rule: creach.induct) (auto intro: cinv_step)

lemma creach_run:
  assumes "creach s0 s" "crun_windowed ls s" "crun ls s = Some s'"
  shows "creach s0 s'"
  using assms
proof (induction ls arbitrary: s)
  case (Cons l ls)
  then obtain s1 where s1: "cstep l s = Some s1" "crun ls s1 = Some s'" "crun_windowed ls s1"
    by (auto split: option.splits)
  then have "windowed s1" by (cases ls) auto
  then show ?case using Cons.IH [OF creach_step [OF Cons.prems(1) s1(1)]] s1 by blast
qed simp

section \<open>One undisturbed write\<close>

lemma slot_all_fields:
  "(sl :: slot)\<lparr>sl_data := a, sl_size := b, sl_seq := c\<rparr> = \<lparr>sl_seq = c, sl_size = b, sl_data = a\<rparr>"
  by (cases sl) simp

definition whole_write :: "nat \<Rightarrow> string \<Rightarrow> cstep_label list" where
  "whole_write w d = [WTake w d, WMark w] @ replicate (length d) (WByte w) @ [WCommit w]"

lemma crun_append: "crun (xs @ ys) s = (case crun xs s of None \<Rightarrow> None | Some s' \<Rightarrow> crun ys s')"
  by (induction xs arbitrary: s) (auto split: option.splits)

text \<open>What no step of a writer touches.\<close>

definition c_rest :: "csys \<Rightarrow> u64 \<times> (nat, slot_handle \<times> string) omap \<times> (slot_handle \<times> string) list" where
  "c_rest s = (c_size s, c_readers s, c_acc s)"

lemma copy_loop:
  assumes "map_of (c_writers s) w = Some (Copying c d k)" "k + j = length d"
    "c_slot s c < length (c_slots s)" "length d \<le> length (sl_data (slot_at s c))"
  shows "\<exists>s'. crun (replicate j (WByte w)) s = Some s' \<and>
    map_of (c_writers s') w = Some (Copying c d (length d)) \<and>
    (\<forall>u. u \<noteq> w \<longrightarrow> map_of (c_writers s') u = map_of (c_writers s) u) \<and>
    c_slots s' = (c_slots s)[c_slot s c := (slot_at s c)\<lparr>sl_data :=
      take k (sl_data (slot_at s c)) @ drop k d @ drop (length d) (sl_data (slot_at s c))\<rparr>] \<and>
    c_count s' = c_count s \<and> c_cursor s' = c_cursor s \<and> c_pub s' = c_pub s \<and> c_rest s' = c_rest s"
  using assms
proof (induction j arbitrary: s k)
  case 0
  then have "k = length d" by simp
  then have "(slot_at s c)\<lparr>sl_data := take k (sl_data (slot_at s c)) @ drop k d @
      drop (length d) (sl_data (slot_at s c))\<rparr> = slot_at s c"
    by simp
  then show ?case using 0 by (simp add: slot_at_def)
next
  case (Suc j)
  define s1 where "s1 = (upd_slot (c_slot s c) (\<lambda>sl. sl\<lparr>sl_data := (sl_data sl)[k := d ! k]\<rparr>) s)
    \<lparr>c_writers := om_put w (Copying c d (k + 1)) (c_writers s)\<rparr>"
  have k: "k < length d" using Suc.prems(2) by simp
  have st: "cstep (WByte w) s = Some s1" using Suc.prems(1) k by (simp add: s1_def)
  have at: "slot_at s1 c = (slot_at s c)\<lparr>sl_data := (sl_data (slot_at s c))[k := d ! k]\<rparr>"
      "c_slot s1 c = c_slot s c" "length (c_slots s1) = length (c_slots s)"
    using Suc.prems(3) by (simp_all add: s1_def slot_at_def c_slot_def upd_slot_def)
  have "\<exists>s'. crun (replicate j (WByte w)) s1 = Some s' \<and>
    map_of (c_writers s') w = Some (Copying c d (length d)) \<and>
    (\<forall>u. u \<noteq> w \<longrightarrow> map_of (c_writers s') u = map_of (c_writers s1) u) \<and>
    c_slots s' = (c_slots s1)[c_slot s1 c := (slot_at s1 c)\<lparr>sl_data :=
      take (k + 1) (sl_data (slot_at s1 c)) @ drop (k + 1) d @ drop (length d) (sl_data (slot_at s1 c))\<rparr>] \<and>
    c_count s' = c_count s1 \<and> c_cursor s' = c_cursor s1 \<and> c_pub s' = c_pub s1 \<and> c_rest s' = c_rest s1"
    using Suc.prems at by (intro Suc.IH) (simp_all add: s1_def)
  then obtain s' where s': "crun (replicate j (WByte w)) s1 = Some s'"
      "map_of (c_writers s') w = Some (Copying c d (length d))"
      "\<forall>u. u \<noteq> w \<longrightarrow> map_of (c_writers s') u = map_of (c_writers s1) u"
      "c_slots s' = (c_slots s1)[c_slot s1 c := (slot_at s1 c)\<lparr>sl_data :=
        take (k + 1) (sl_data (slot_at s1 c)) @ drop (k + 1) d @ drop (length d) (sl_data (slot_at s1 c))\<rparr>]"
      "c_count s' = c_count s1 \<and> c_cursor s' = c_cursor s1 \<and> c_pub s' = c_pub s1 \<and> c_rest s' = c_rest s1"
    by blast
  have "take (k + 1) ((sl_data (slot_at s c))[k := d ! k]) = take k (sl_data (slot_at s c)) @ [d ! k]"
    using k Suc.prems(4) by (simp add: take_Suc_conv_app_nth take_update_swap list_update_append)
  moreover have "drop k d = d ! k # drop (k + 1) d" using k by (simp add: Cons_nth_drop_Suc)
  ultimately have "(slot_at s1 c)\<lparr>sl_data := take (k + 1) (sl_data (slot_at s1 c)) @ drop (k + 1) d @
        drop (length d) (sl_data (slot_at s1 c))\<rparr> =
      (slot_at s c)\<lparr>sl_data := take k (sl_data (slot_at s c)) @ drop k d @
        drop (length d) (sl_data (slot_at s c))\<rparr>"
    using k by (simp add: at)
  then have "c_slots s' = (c_slots s)[c_slot s c := (slot_at s c)\<lparr>sl_data :=
      take k (sl_data (slot_at s c)) @ drop k d @ drop (length d) (sl_data (slot_at s c))\<rparr>]"
    using s'(4) at(2) by (simp add: s1_def upd_slot_def)
  then show ?case using s' st by (auto simp: s1_def upd_slot_def c_rest_def)
qed

lemma one_write:
  assumes "geo_ok s" "map_of (c_writers s) w = None" "length d \<le> unat (c_size s)"
  shows "\<exists>s'. crun (whole_write w d) s = Some s' \<and>
    c_slots s' = (c_slots s)[c_slot s (c_cursor s) := written (c_cursor s) d (slot_at s (c_cursor s))] \<and>
    c_cursor s' = c_cursor s + 1 \<and> map_of (c_writers s') = map_of (c_writers s) \<and>
    c_pub s' = (handle_for (c_count s) (c_cursor s) d, d) # c_pub s \<and>
    c_count s' = c_count s \<and> c_rest s' = c_rest s"
proof -
  define c where "c = c_cursor s"
  define s1 where "s1 = s\<lparr>c_cursor := c + 1, c_writers := om_put w (Taken c d) (c_writers s)\<rparr>"
  define s2 where "s2 = (upd_slot (c_slot s1 c) (\<lambda>sl. sl\<lparr>sl_seq := begin_seq c\<rparr>) s1)
    \<lparr>c_writers := om_put w (Copying c d 0) (c_writers s1)\<rparr>"
  have i: "c_slot s c < length (c_slots s)" by (rule c_slot_less [OF assms(1)])
  have len: "length (sl_data (slot_at s c)) = unat (c_size s)"
    using assms(1) i by (simp add: geo_ok_def slot_at_def)
  have e: "c_slot s2 c = c_slot s c" "slot_at s2 c = (slot_at s c)\<lparr>sl_seq := begin_seq c\<rparr>"
      "length (c_slots s2) = length (c_slots s)" "c_count s2 = c_count s"
    using i by (simp_all add: s2_def s1_def slot_at_def c_slot_def upd_slot_def)
  have w2: "map_of (c_writers s2) w = Some (Copying c d 0)" by (simp add: s2_def)
  have g: "c_slots s2 = (c_slots s)[c_slot s c := (slot_at s c)\<lparr>sl_seq := begin_seq c\<rparr>]"
      "c_cursor s2 = c + 1" "c_pub s2 = c_pub s" "c_rest s2 = c_rest s"
      "u \<noteq> w \<Longrightarrow> map_of (c_writers s2) u = map_of (c_writers s) u" for u
    by (simp_all add: s2_def s1_def upd_slot_def slot_at_def c_slot_def c_rest_def)
  have run2: "crun [WTake w d, WMark w] s = Some s2"
    using assms(2,3) by (simp add: s1_def s2_def c_def)
  obtain s3 where s3: "crun (replicate (length d) (WByte w)) s2 = Some s3"
      "map_of (c_writers s3) w = Some (Copying c d (length d))"
      "\<forall>u. u \<noteq> w \<longrightarrow> map_of (c_writers s3) u = map_of (c_writers s2) u"
      "c_slots s3 = (c_slots s2)[c_slot s c := (slot_at s c)\<lparr>sl_seq := begin_seq c, sl_data :=
        d @ drop (length d) (sl_data (slot_at s c))\<rparr>]"
      "c_count s3 = c_count s2" "c_cursor s3 = c_cursor s2" "c_pub s3 = c_pub s2" "c_rest s3 = c_rest s2"
    using copy_loop [OF w2, of "length d"] i len assms(3) e by auto
  have "c_slot s3 c = c_slot s c" by (simp add: c_slot_def s3(5) e(4))
  then have "\<exists>s'. cstep (WCommit w) s3 = Some s' \<and>
      c_slots s' = (c_slots s)[c_slot s c := written c d (slot_at s c)] \<and>
      c_cursor s' = c + 1 \<and> map_of (c_writers s') = map_of (c_writers s) \<and>
      c_pub s' = (handle_for (c_count s) c d, d) # c_pub s \<and> c_count s' = c_count s \<and> c_rest s' = c_rest s"
    using s3 i assms(2) g by (auto simp: c_rest_def upd_slot_def written_def e slot_all_fields fun_eq_iff)
  then obtain s' where s': "cstep (WCommit w) s3 = Some s'"
      "c_slots s' = (c_slots s)[c_slot s c := written c d (slot_at s c)]"
      "c_cursor s' = c + 1 \<and> map_of (c_writers s') = map_of (c_writers s) \<and>
       c_pub s' = (handle_for (c_count s) c d, d) # c_pub s \<and> c_count s' = c_count s \<and> c_rest s' = c_rest s"
    by blast
  have "crun [WCommit w] s3 = Some s'" by (simp only: crun.simps s'(1) option.case)
  then have "crun (whole_write w d) s = Some s'"
    by (simp only: whole_write_def crun_append run2 s3(1) option.case)
  then show ?thesis using s'(2,3) unfolding c_def [symmetric] by blast
qed

section \<open>Properties\<close>

text \<open>
  C3: the ring's lock-free protocol is sound while no unfinished writer is a whole lap
  behind. However the steps of any number of writers and readers interleave (byte copies
  included, reservations abandoned half way included), a reader whose two sequence checks
  pass has copied exactly the payload that was published under its handle.
\<close>

theorem accepted_reads_published:
  assumes "n \<noteq> 0" "unat n < 2 ^ 32" "unat sz < 2 ^ 32"
    and "crun_windowed ls (cinit n sz)" "crun ls (cinit n sz) = Some s"
  shows "set (c_acc s) \<subseteq> set (c_pub s)"
proof -
  have "windowed (cinit n sz)" using assms(4) by (cases ls) auto
  then have "creach (cinit n sz) s"
    using creach_run [OF creach_init assms(4,5)] by blast
  then show ?thesis using creach_inv cinv_init [OF assms(1-3)] cinv_parts(6) by blast
qed

definition race_run :: "cstep_label list" where
  "race_run = [WTake 0 ''A'', WMark 0, WTake 1 ''B'', WMark 1, WByte 1, WByte 0, WCommit 1, WCommit 0,
     RBegin 0 (handle_for 2 0 ''A''), RByte 0, WTake 0 ''C'', RFinish 0, WMark 0]"

theorem accepted_reads_published_witness:
  "case crun race_run (cinit 2 4) of None \<Rightarrow> False
   | Some s \<Rightarrow> c_acc s = [(handle_for 2 0 ''A'', ''A'')] \<and> set (c_acc s) \<subseteq> set (c_pub s)"
proof -
  have w: "crun_windowed race_run (cinit 2 4)" by code_simp
  have r: "case crun race_run (cinit 2 4) of None \<Rightarrow> False
      | Some s \<Rightarrow> c_acc s = [(handle_for 2 0 ''A'', ''A'')]"
    by code_simp
  then obtain s where s: "crun race_run (cinit 2 4) = Some s" by (auto split: option.splits)
  have "set (c_acc s) \<subseteq> set (c_pub s)"
    by (rule accepted_reads_published [OF _ _ _ w s]) simp_all
  with r s show ?thesis by simp
qed

text \<open>
  C14: the steps of one write, run with nothing in between, have the effect of the
  sequential \<open>write\<close>: the slot of the ticket gets its end sequence, the size and the
  payload's bytes over the old ones, no other slot changes, and the handle is published.
\<close>

theorem whole_write_refines:
  assumes "geo_ok s" "map_of (c_writers s) w = None" "length d \<le> unat (c_size s)"
  shows "\<exists>s'. crun (whole_write w d) s = Some s' \<and>
    c_slots s' = (c_slots s)[c_slot s (c_cursor s) := written (c_cursor s) d (slot_at s (c_cursor s))] \<and>
    c_cursor s' = c_cursor s + 1 \<and> map_of (c_writers s') = map_of (c_writers s) \<and>
    c_pub s' = (handle_for (c_count s) (c_cursor s) d, d) # c_pub s"
  using one_write [OF assms] by blast

theorem whole_write_refines_witness:
  "\<exists>s'. crun (whole_write 0 ''abc'') (cinit 4 8) = Some s' \<and> c_cursor s' = 1 \<and>
     c_pub s' = [(handle_for 4 0 ''abc'', ''abc'')]"
  using whole_write_refines [of "cinit 4 8" 0 "''abc''"]
  by (auto simp: cinit_def geo_ok_def zero_slot_def)

section \<open>A stalled writer spoils an accepted read\<close>

lemma written_length: "length d \<le> length (sl_data sl) \<Longrightarrow> length (sl_data (written c d sl)) = length (sl_data sl)"
  by (simp add: written_def)

lemma one_write_geo:
  assumes "geo_ok s" "length d \<le> unat (c_size s)" "c_count s' = c_count s" "c_rest s' = c_rest s"
    and "c_slots s' = (c_slots s)[c_slot s c := written c d (slot_at s c)]"
  shows "geo_ok s'"
proof -
  have i: "c_slot s c < length (c_slots s)" by (rule c_slot_less [OF assms(1)])
  then have "length (sl_data (slot_at s c)) = unat (c_size s)"
    using assms(1) by (simp add: geo_ok_def slot_at_def)
  then have "length (sl_data (written c d (slot_at s c))) = unat (c_size s)"
    using assms(2) by (simp add: written_length)
  then show ?thesis using assms i by (auto simp: geo_ok_def c_rest_def nth_list_update)
qed

text \<open>A run of writes of one writer, and a run of bytes of one reader.\<close>

lemma many_writes:
  assumes "geo_ok s" "map_of (c_writers s) w = None" "\<forall>d \<in> set ds. length d \<le> unat (c_size s)"
  shows "\<exists>s'. crun (concat (map (whole_write w) ds)) s = Some s' \<and> geo_ok s' \<and>
    c_cursor s' = c_cursor s + of_nat (length ds) \<and> map_of (c_writers s') = map_of (c_writers s) \<and>
    c_count s' = c_count s \<and> c_rest s' = c_rest s \<and>
    (\<forall>h d. (h, d) \<in> set (c_pub s') \<longrightarrow> (h, d) \<in> set (c_pub s) \<or>
       (\<exists>i < length ds. h_seq h = end_seq (begin_seq (c_cursor s + of_nat i))))"
  using assms
proof (induction ds arbitrary: s)
  case Nil
  then show ?case by simp
next
  case (Cons d ds)
  have fit: "length d \<le> unat (c_size s)" using Cons.prems(3) by simp
  obtain s1 where s1: "crun (whole_write w d) s = Some s1"
      "c_slots s1 = (c_slots s)[c_slot s (c_cursor s) := written (c_cursor s) d (slot_at s (c_cursor s))]"
      "c_cursor s1 = c_cursor s + 1" "map_of (c_writers s1) = map_of (c_writers s)"
      "c_pub s1 = (handle_for (c_count s) (c_cursor s) d, d) # c_pub s" "c_count s1 = c_count s" "c_rest s1 = c_rest s"
    using one_write [OF Cons.prems(1,2) fit] by blast
  have geo: "geo_ok s1" by (rule one_write_geo [OF Cons.prems(1) fit s1(6,7,2)])
  have "c_size s1 = c_size s" using s1(7) by (simp add: c_rest_def)
  then obtain s' where s': "crun (concat (map (whole_write w) ds)) s1 = Some s'" "geo_ok s'"
      "c_cursor s' = c_cursor s1 + of_nat (length ds)" "map_of (c_writers s') = map_of (c_writers s1)"
      "c_count s' = c_count s1" "c_rest s' = c_rest s1"
      "\<forall>h d. (h, d) \<in> set (c_pub s') \<longrightarrow> (h, d) \<in> set (c_pub s1) \<or>
         (\<exists>i < length ds. h_seq h = end_seq (begin_seq (c_cursor s1 + of_nat i)))"
    using Cons.IH [OF geo] Cons.prems(2,3) s1(4) by auto
  have run: "crun (concat (map (whole_write w) (d # ds))) s = Some s'"
    using s1(1) s'(1) by (simp add: crun_append)
  have pub: "(h, e) \<in> set (c_pub s) \<or> (\<exists>i < length (d # ds). h_seq h = end_seq (begin_seq (c_cursor s + of_nat i)))"
    if in': "(h, e) \<in> set (c_pub s')" for h e
  proof -
    consider "(h, e) \<in> set (c_pub s1)" | i where "i < length ds" "h_seq h = end_seq (begin_seq (c_cursor s1 + of_nat i))"
      using s'(7) in' by blast
    then show ?thesis
    proof cases
      case 1
      then show ?thesis unfolding s1(5) by (auto simp: handle_for_def)
    next
      case (2 i)
      then show ?thesis by (intro disjI2 exI [of _ "Suc i"]) (simp add: s1(3) add.assoc)
    qed
  qed
  have rest: "geo_ok s'" "c_cursor s' = c_cursor s + of_nat (length (d # ds))"
      "map_of (c_writers s') = map_of (c_writers s)" "c_count s' = c_count s" "c_rest s' = c_rest s"
    using s'(2-6) s1(3,4,6,7) by simp_all
  show ?case using run rest pub by blast
qed

lemma read_loop:
  assumes "map_of (c_readers s) r = Some (h, bs)" "length bs + j = unat (h_size h)"
    and "sl_data (c_slots s ! unat (h_index h)) = data" "unat (h_size h) \<le> length data"
  shows "\<exists>s'. crun (replicate j (RByte r)) s = Some s' \<and>
    map_of (c_readers s') r = Some (h, bs @ take j (drop (length bs) data)) \<and>
    c_slots s' = c_slots s \<and> c_pub s' = c_pub s"
  using assms(1-3)
proof (induction j arbitrary: s bs)
  case 0
  then show ?case by simp
next
  case (Suc j)
  let ?s1 = "s\<lparr>c_readers := om_put r (h, bs @ [data ! length bs]) (c_readers s)\<rparr>"
  have st: "cstep (RByte r) s = Some ?s1" using Suc.prems by simp
  obtain s' where s': "crun (replicate j (RByte r)) ?s1 = Some s'"
      "map_of (c_readers s') r = Some (h, (bs @ [data ! length bs]) @ take j (drop (length (bs @ [data ! length bs])) data))"
      "c_slots s' = c_slots s" "c_pub s' = c_pub s"
    using Suc.IH [of ?s1 "bs @ [data ! length bs]"] Suc.prems(2,3) by auto
  have "length bs < length data" using Suc.prems(2) assms(4) by simp
  then have "drop (length bs) data = data ! length bs # drop (Suc (length bs)) data" by (simp add: Cons_nth_drop_Suc)
  then show ?case using s' st by (intro exI [of _ s']) simp
qed

text \<open>
  A writer w reserves and stalls before its copy; another completes a lap of writes, the last
  of B; a reader takes B's handle, w's copy of A lands, and the reader copies and checks.
\<close>

definition lap_run :: "nat \<Rightarrow> nat \<Rightarrow> nat \<Rightarrow> string \<Rightarrow> string list \<Rightarrow> string \<Rightarrow> slot_handle \<Rightarrow> cstep_label list" where
  "lap_run w v r A ds B h = [WTake w A, WMark w] @ concat (map (whole_write v) ds) @ whole_write v B @ [RBegin r h] @
     replicate (length A) (WByte w) @ replicate (length B) (RByte r) @ [RFinish r]"

lemma end_seq_even: "\<not> is_odd_seq (end_seq (begin_seq c))"
  by (simp add: is_odd_seq_def begin_seq_def end_seq_def and_one_eq)

lemma stalled_copy:
  assumes geo: "geo_ok s" and w: "map_of (c_writers s) w = Some (Copying c A 0)" and free: "map_of (c_readers s) r = None"
    and h: "(h, B) \<in> set (c_pub s)" "unat (h_index h) = c_slot s c" "sl_seq (slot_at s c) = h_seq h" "\<not> is_odd_seq (h_seq h)"
      "unat (h_size h) = length B"
    and B: "take (length B) (sl_data (slot_at s c)) = B" "length A \<le> length B" "length B \<le> unat (c_size s)"
  shows "\<exists>s'. crun ([RBegin r h] @ replicate (length A) (WByte w) @ replicate (length B) (RByte r) @ [RFinish r]) s = Some s' \<and>
    c_pub s' = c_pub s \<and> (h, A @ drop (length A) B) \<in> set (c_acc s')"
proof -
  define s1 where "s1 = s\<lparr>c_readers := om_put r (h, []) (c_readers s)\<rparr>"
  have i: "c_slot s c < length (c_slots s)" by (rule c_slot_less [OF geo])
  have len: "length (sl_data (slot_at s c)) = unat (c_size s)" using geo i by (simp add: geo_ok_def slot_at_def)
  have "h \<in> fst ` set (c_pub s)" using h(1) by force
  then have load: "crun [RBegin r h] s = Some s1"
    using free h(2-4) by (simp add: s1_def slot_at_def)
  have same: "c_slot s1 c = c_slot s c" "slot_at s1 c = slot_at s c" "c_slots s1 = c_slots s"
      "map_of (c_writers s1) w = Some (Copying c A 0)" "map_of (c_readers s1) r = Some (h, [])" "c_pub s1 = c_pub s"
    using w by (simp_all add: s1_def c_slot_def slot_at_def)
  let ?data = "A @ drop (length A) (sl_data (slot_at s c))"
  obtain s2 where s2: "crun (replicate (length A) (WByte w)) s1 = Some s2"
      "c_slots s2 = (c_slots s)[c_slot s c := (slot_at s c)\<lparr>sl_data := ?data\<rparr>]" "c_pub s2 = c_pub s" "c_rest s2 = c_rest s1"
    using copy_loop [OF same(4), of "length A"] i B(2,3) len unfolding same(1-3,6) by auto
  have reader: "map_of (c_readers s2) r = Some (h, [])" using s2(4) same(5) by (simp add: c_rest_def)
  have slot: "c_slots s2 ! unat (h_index h) = (slot_at s c)\<lparr>sl_data := ?data\<rparr>" using i by (simp add: s2(2) h(2))
  have data: "sl_data (c_slots s2 ! unat (h_index h)) = ?data" by (simp add: slot)
  obtain s3 where s3: "crun (replicate (length B) (RByte r)) s2 = Some s3"
      "map_of (c_readers s3) r = Some (h, take (length B) ?data)" "c_slots s3 = c_slots s2" "c_pub s3 = c_pub s2"
    using read_loop [OF reader _ data, of "length B"] h(5) B(2,3) len by auto
  have "take (length B) ?data = A @ drop (length A) (take (length B) (sl_data (slot_at s c)))"
    using B(2) by (simp add: drop_take)
  then have bytes: "take (length B) ?data = A @ drop (length A) B" by (simp only: B(1))
  have "length (A @ drop (length A) B) = length B" using B(2) by simp
  then have "\<exists>s'. cstep (RFinish r) s3 = Some s' \<and> c_pub s' = c_pub s \<and> (h, A @ drop (length A) B) \<in> set (c_acc s')"
    using s3(2-4) s2(3) h(3,5) slot unfolding bytes by simp
  then obtain s' where s': "cstep (RFinish r) s3 = Some s'" "c_pub s' = c_pub s" "(h, A @ drop (length A) B) \<in> set (c_acc s')"
    by blast
  have "crun [RFinish r] s3 = Some s'" by (simp only: crun.simps s'(1) option.case)
  then have "crun ([RBegin r h] @ replicate (length A) (WByte w) @ replicate (length B) (RByte r) @ [RFinish r]) s = Some s'"
    by (simp only: crun_append load s2(1) s3(1) option.case)
  then show ?thesis using s'(2,3) by blast
qed

text \<open>From the reservation of the stalled writer to the last of the other's writes.\<close>

lemma whole_lap:
  assumes geo: "geo_ok s" and idle: "map_of (c_writers s) w = None" "map_of (c_writers s) v = None" "w \<noteq> v"
    and lap: "length ds + 1 = unat (c_count s)" and fit: "\<forall>d \<in> set (A # B # ds). length d \<le> unat (c_size s)"
    and room: "unat (c_cursor s) + unat (c_count s) < 2 ^ 64"
  obtains s' where "crun ([WTake w A, WMark w] @ concat (map (whole_write v) ds) @ whole_write v B) s = Some s'"
    "geo_ok s'" "map_of (c_writers s') w = Some (Copying (c_cursor s) A 0)" "c_rest s' = c_rest s" "c_count s' = c_count s"
    "sl_seq (slot_at s' (c_cursor s)) = end_seq (begin_seq (c_cursor s + c_count s))"
    "take (length B) (sl_data (slot_at s' (c_cursor s))) = B"
    "c_slot s' (c_cursor s) = unat (slot_of (c_cursor s + c_count s) (c_count s))"
    "(handle_for (c_count s) (c_cursor s + c_count s) B, B) \<in> set (c_pub s')"
    "\<forall>h d. (h, d) \<in> set (c_pub s') \<longrightarrow> (h, d) \<in> set (c_pub s) \<or> (h, d) = (handle_for (c_count s) (c_cursor s + c_count s) B, B) \<or>
       (\<exists>i < length ds. h_seq h = end_seq (begin_seq (c_cursor s + 1 + of_nat i)))"
proof -
  let ?c = "c_cursor s" and ?e = "c_cursor s + c_count s"
  define s1 where "s1 = s\<lparr>c_cursor := ?c + 1, c_writers := om_put w (Taken ?c A) (c_writers s)\<rparr>"
  define s2 where "s2 = (upd_slot (c_slot s1 ?c) (\<lambda>sl. sl\<lparr>sl_seq := begin_seq ?c\<rparr>) s1)
    \<lparr>c_writers := om_put w (Copying ?c A 0) (c_writers s1)\<rparr>"
  have reserve: "crun [WTake w A, WMark w] s = Some s2"
    using idle(1) fit by (simp add: s1_def s2_def)
  have eq2: "c_count s2 = c_count s" "c_rest s2 = c_rest s" "c_size s2 = c_size s" "c_cursor s2 = ?c + 1" "c_pub s2 = c_pub s"
      "map_of (c_writers s2) w = Some (Copying ?c A 0)" "map_of (c_writers s2) v = None"
    using idle(2,3) by (simp_all add: s2_def s1_def upd_slot_def c_rest_def)
  have geo2: "geo_ok s2"
    using geo c_slot_less [OF geo, of ?c] by (auto simp: geo_ok_def s2_def s1_def upd_slot_def c_slot_def nth_list_update)
  have fit2: "\<forall>d \<in> set ds. length d \<le> unat (c_size s2)" using fit eq2(3) by simp
  obtain s3 where s3: "crun (concat (map (whole_write v) ds)) s2 = Some s3" "geo_ok s3"
      "c_cursor s3 = ?c + 1 + of_nat (length ds)" "map_of (c_writers s3) = map_of (c_writers s2)" "c_count s3 = c_count s"
      "c_rest s3 = c_rest s" "\<forall>h d. (h, d) \<in> set (c_pub s3) \<longrightarrow> (h, d) \<in> set (c_pub s) \<or>
         (\<exists>i < length ds. h_seq h = end_seq (begin_seq (?c + 1 + of_nat i)))"
    using many_writes [OF geo2 eq2(7) fit2] unfolding eq2(1,2,4,5) by blast
  have "c_size s3 = c_size s" using s3(6) by (simp add: c_rest_def)
  then have fitB: "length B \<le> unat (c_size s3)" using fit by simp
  have "(1 + of_nat (length ds) :: u64) = of_nat (length ds + 1)" by simp
  also have "\<dots> = c_count s" unfolding lap by simp
  finally have cur: "c_cursor s3 = ?e" by (simp add: s3(3) add.assoc)
  have v3: "map_of (c_writers s3) v = None" by (simp add: s3(4) eq2(7))
  obtain s4 where s4: "crun (whole_write v B) s3 = Some s4"
      "c_slots s4 = (c_slots s3)[c_slot s3 ?e := written ?e B (slot_at s3 ?e)]" "map_of (c_writers s4) = map_of (c_writers s3)"
      "c_pub s4 = (handle_for (c_count s) ?e B, B) # c_pub s3" "c_count s4 = c_count s3" "c_rest s4 = c_rest s3"
    using one_write [OF s3(2) v3 fitB] unfolding cur s3(5) by blast
  have geo4: "geo_ok s4" by (rule one_write_geo [OF s3(2) fitB s4(5,6,2)])
  have run: "crun ([WTake w A, WMark w] @ concat (map (whole_write v) ds) @ whole_write v B) s = Some s4"
    by (simp only: crun_append reserve s3(1) s4(1) option.case)
  have "unat ?e = unat ?c + unat (c_count s)" using room by (intro unat_add_small) simp
  then have "c_slot s ?e = c_slot s ?c"
    using geo unfolding c_slot_mod [OF geo] geo_ok_def by simp
  then have slots: "c_slot s4 ?c = c_slot s3 ?e" "c_slot s3 ?e = unat (slot_of ?e (c_count s))"
    by (simp_all add: c_slot_def s4(5) s3(5))
  have i: "c_slot s3 ?e < length (c_slots s3)" by (rule c_slot_less [OF s3(2)])
  then have at: "slot_at s4 ?c = written ?e B (slot_at s3 ?e)" by (simp add: slot_at_def slots(1) s4(2))
  have "length (sl_data (slot_at s3 ?e)) = unat (c_size s3)" using s3(2) i by (simp add: geo_ok_def slot_at_def)
  then have content: "sl_seq (slot_at s4 ?c) = end_seq (begin_seq ?e)" "take (length B) (sl_data (slot_at s4 ?c)) = B"
    by (simp_all add: at written_def)
  show thesis
  proof (rule that [OF run geo4 _ _ _ content])
    show "map_of (c_writers s4) w = Some (Copying ?c A 0)" by (simp add: s4(3) s3(4) eq2(6))
    show "c_rest s4 = c_rest s" "c_count s4 = c_count s" by (simp_all add: s4(5,6) s3(5,6))
    show "c_slot s4 ?c = unat (slot_of ?e (c_count s))" using slots by simp
    show "(handle_for (c_count s) ?e B, B) \<in> set (c_pub s4)" by (simp add: s4(4))
    show "\<forall>h d. (h, d) \<in> set (c_pub s4) \<longrightarrow> (h, d) \<in> set (c_pub s) \<or> (h, d) = (handle_for (c_count s) ?e B, B) \<or>
       (\<exists>i < length ds. h_seq h = end_seq (begin_seq (?c + 1 + of_nat i)))"
      using s3(7) unfolding s4(4) by auto
  qed
qed

text \<open>A handle's sequence number is its ticket's, so no older publication shares it.\<close>

lemma not_published:
  assumes inv: "cinv s" and room: "unat (c_cursor s) + unat (c_count s) + 1 < 2 ^ 63" and lap: "length ds + 1 = unat (c_count s)"
    and h: "h = handle_for (c_count s) (c_cursor s + c_count s) B" and new: "m \<noteq> B"
    and pub: "(h, m) \<in> P \<longrightarrow> (h, m) \<in> set (c_pub s) \<or> (h, m) = (h, B) \<or>
       (\<exists>i < length ds. h_seq h = end_seq (begin_seq (c_cursor s + 1 + of_nat i)))"
  shows "(h, m) \<notin> P"
proof
  let ?c = "c_cursor s" and ?e = "c_cursor s + c_count s"
  have e: "unat ?e = unat ?c + unat (c_count s)" using room by (intro unat_add_small) simp
  have differs: "h_seq h \<noteq> end_seq (begin_seq c)" if "unat c < unat ?e" for c
    using seq_facts(2) [of ?e c] that room e by (auto simp: h handle_for_def)
  assume "(h, m) \<in> P"
  then consider (old) "(h, m) \<in> set (c_pub s)" | (lap) i where "i < length ds" "h_seq h = end_seq (begin_seq (?c + 1 + of_nat i))"
    using pub new by blast
  then show False
  proof cases
    case old
    then obtain c where c: "pub_at s h m c" using cinv_parts(4) [OF inv] by blast
    then have "unat c < unat ?e" unfolding e by (simp add: pub_at_def)
    then show False using differs handle_size(2) [OF cinv_parts(1) [OF inv] c] by blast
  next
    case (lap i)
    have i: "unat (of_nat (1 + i) :: u64) = 1 + i" using lap(1) assms(3) room by (intro unat_of_nat_small) simp
    have "unat (?c + of_nat (1 + i)) = unat ?c + (1 + i)"
      using i lap(1) assms(3) room by (subst unat_add_small) simp_all
    then have "unat (?c + 1 + of_nat i) < unat ?e" using lap(1) assms(3) e by (simp add: add.assoc)
    then show False using differs lap(2) by blast
  qed
qed

text \<open>
  C33: two publishers of one topic write to one ring without excluding each other. From any
  state the protocol reaches, of a ring of any number of slots (A, B and the other payloads
  fit a slot, A is no longer than B and not its beginning, and fewer than 2 ^ 63 tickets are
  taken), let a writer w stall between
  its reservation and its copy of A while another completes as many writes as the ring has
  slots, the last of them B in the slot w reserved. If w goes on while a reader reads B, its
  bytes land in the slot that is already published; the reader's two sequence checks both
  pass all the same, and it accepts A over the beginning of B, a payload that was never
  published under that handle.
\<close>

theorem lapped_writer_spoils_read:
  assumes "creach (cinit n sz) s" "n \<noteq> 0" "unat n < 2 ^ 32" "unat sz < 2 ^ 32"
    and "map_of (c_writers s) w = None" "map_of (c_writers s) v = None" "w \<noteq> v" "map_of (c_readers s) r = None"
    and "length ds + 1 = unat (c_count s)" "\<forall>d \<in> set (A # B # ds). length d \<le> unat (c_size s)"
    and "length A \<le> length B" "A \<noteq> take (length A) B" "unat (c_cursor s) + unat (c_count s) + 1 < 2 ^ 63"
    and "h = handle_for (c_count s) (c_cursor s + c_count s) B"
  shows "\<exists>s'. crun (lap_run w v r A ds B h) s = Some s' \<and> (h, B) \<in> set (c_pub s') \<and>
    (h, A @ drop (length A) B) \<in> set (c_acc s') \<and> (h, A @ drop (length A) B) \<notin> set (c_pub s')"
proof -
  let ?c = "c_cursor s" and ?e = "c_cursor s + c_count s" and ?mix = "A @ drop (length A) B"
  have inv: "cinv s" using creach_inv [OF assms(1)] cinv_init [OF assms(2-4)] by blast
  note geo = cinv_parts(1) [OF inv]
  have "unat ?c + unat (c_count s) < 2 ^ 64" using assms(13) by simp
  then obtain s1 where s1: "crun ([WTake w A, WMark w] @ concat (map (whole_write v) ds) @ whole_write v B) s = Some s1"
    "geo_ok s1" "map_of (c_writers s1) w = Some (Copying ?c A 0)" "c_rest s1 = c_rest s" "c_count s1 = c_count s"
    "sl_seq (slot_at s1 ?c) = end_seq (begin_seq ?e)" "take (length B) (sl_data (slot_at s1 ?c)) = B"
    "c_slot s1 ?c = unat (slot_of ?e (c_count s))" "(handle_for (c_count s) ?e B, B) \<in> set (c_pub s1)"
    "\<forall>h d. (h, d) \<in> set (c_pub s1) \<longrightarrow> (h, d) \<in> set (c_pub s) \<or> (h, d) = (handle_for (c_count s) ?e B, B) \<or>
       (\<exists>i < length ds. h_seq h = end_seq (begin_seq (?c + 1 + of_nat i)))"
    by (rule whole_lap [OF geo assms(5-7,9,10)])
  have rest: "c_readers s1 = c_readers s" "c_size s1 = c_size s" using s1(4) by (simp_all add: c_rest_def)
  have "length B < 2 ^ LENGTH(32)" using assms(10) geo by (simp add: geo_ok_def)
  then have h: "(h, B) \<in> set (c_pub s1)" "unat (h_index h) = c_slot s1 ?c" "sl_seq (slot_at s1 ?c) = h_seq h"
      "\<not> is_odd_seq (h_seq h)" "unat (h_size h) = length B"
    using s1(6,8,9) by (simp_all add: assms(14) handle_for_def unat_of_nat_small begin_seq_def end_seq_def)
  have free: "map_of (c_readers s1) r = None" and fitB: "length B \<le> unat (c_size s1)"
    using assms(8,10) by (simp_all add: rest)
  obtain s' where s': "crun ([RBegin r h] @ replicate (length A) (WByte w) @ replicate (length B) (RByte r) @ [RFinish r]) s1 = Some s'"
      "c_pub s' = c_pub s1" "(h, ?mix) \<in> set (c_acc s')"
    using stalled_copy [OF s1(2,3) free h s1(7) assms(11) fitB] by blast
  have "lap_run w v r A ds B h = ([WTake w A, WMark w] @ concat (map (whole_write v) ds) @ whole_write v B) @
      [RBegin r h] @ replicate (length A) (WByte w) @ replicate (length B) (RByte r) @ [RFinish r]"
    by (simp add: lap_run_def)
  then have run: "crun (lap_run w v r A ds B h) s = Some s'"
    by (simp only: crun_append [of "[WTake w A, WMark w] @ concat (map (whole_write v) ds) @ whole_write v B"] s1(1) s'(1) option.case)
  have "take (length A) ?mix = A" by simp
  then have "?mix \<noteq> B" using assms(12) by metis
  then have "(h, ?mix) \<notin> set (c_pub s1)"
    by (rule not_published [OF inv assms(13,9,14) _ s1(10) [folded assms(14), rule_format, of h ?mix, THEN impI]])
  then show ?thesis using run h(1) s'(2,3) by auto
qed

theorem lapped_writer_spoils_read_witness:
  "\<exists>s'. crun (lap_run 0 1 0 ''A'' [''p'', ''q'', ''r''] ''Big'' (handle_for 4 4 ''Big'')) (cinit 4 8) = Some s' \<and>
     (handle_for 4 4 ''Big'', ''Big'') \<in> set (c_pub s') \<and> (handle_for 4 4 ''Big'', ''Aig'') \<in> set (c_acc s') \<and>
     (handle_for 4 4 ''Big'', ''Aig'') \<notin> set (c_pub s')"
proof -
  have "creach (cinit 4 8) (cinit 4 8)" by (rule creach_init) (simp add: windowed_def cinit_def)
  from lapped_writer_spoils_read [OF this, of 0 1 0 "[''p'', ''q'', ''r'']" "''A''" "''Big''" "handle_for 4 4 ''Big''"]
  show ?thesis by (simp add: cinit_def)
qed

end
