(* ===== verification/AdvertiseOptions.thy ===== *)
theory AdvertiseOptions
  imports Prelude
begin

text \<open>
  Advertise options (include/trans/advertise_options.hpp): the scope of an endpoint, the
  rate limit and shared-memory flag of a message publisher, their equality operators and
  their printed form. Inheritance is record extension; copying a derived object into a
  base object (slicing) is \<open>adv_opts.truncate\<close>.
\<close>

datatype scope = SCOPE_PROCESS | SCOPE_HOST | SCOPE_ALL

text \<open>The values of the enumeration, ordered by how far they reach.\<close>

fun scope_value :: "scope \<Rightarrow> nat" where
  "scope_value SCOPE_PROCESS = 0"
| "scope_value SCOPE_HOST = 1"
| "scope_value SCOPE_ALL = 2"

lemma scope_value_inj: "scope_value a = scope_value b \<longleftrightarrow> a = b"
  by (cases a; cases b) simp_all

instantiation scope :: linorder
begin

definition less_eq_scope :: "scope \<Rightarrow> scope \<Rightarrow> bool" where
  "less_eq_scope a b \<longleftrightarrow> scope_value a \<le> scope_value b"

definition less_scope :: "scope \<Rightarrow> scope \<Rightarrow> bool" where
  "less_scope a b \<longleftrightarrow> scope_value a < scope_value b"

instance
  by standard (auto simp: less_eq_scope_def less_scope_def scope_value_inj)

end

definition kUnthrottled :: u64 where
  "kUnthrottled = - 1"

record adv_opts =
  opt_scope :: scope

record adv_msg_opts = adv_opts +
  opt_rate :: u64
  opt_shm :: bool

type_synonym adv_srv_opts = adv_opts

definition new_opts :: adv_opts where
  "new_opts = \<lparr>opt_scope = SCOPE_ALL\<rparr>"

definition new_msg_opts :: adv_msg_opts where
  "new_msg_opts = \<lparr>opt_scope = SCOPE_ALL, opt_rate = kUnthrottled, opt_shm = False\<rparr>"

definition eq_opts :: "'a adv_opts_scheme \<Rightarrow> 'b adv_opts_scheme \<Rightarrow> bool" where
  "eq_opts a b \<longleftrightarrow> opt_scope a = opt_scope b"

definition eq_msg_opts :: "adv_msg_opts \<Rightarrow> adv_msg_opts \<Rightarrow> bool" where
  "eq_msg_opts a b \<longleftrightarrow> eq_opts a b \<and> opt_rate a = opt_rate b \<and> opt_shm a = opt_shm b"

definition eq_srv_opts :: "adv_srv_opts \<Rightarrow> adv_srv_opts \<Rightarrow> bool" where
  "eq_srv_opts a b \<longleftrightarrow> eq_opts a b"

definition throttled :: "adv_msg_opts \<Rightarrow> bool" where
  "throttled o1 \<longleftrightarrow> opt_rate o1 \<noteq> kUnthrottled"

definition print_opts :: "'a adv_opts_scheme \<Rightarrow> string" where
  "print_opts o1 = ''Advertise options:'' @ nl @ tab @ ''Scope: '' @
     (if opt_scope o1 = SCOPE_PROCESS then ''Process'' @ nl
      else if opt_scope o1 = SCOPE_HOST then ''Host'' @ nl
      else ''All'' @ nl)"

definition print_msg_opts :: "adv_msg_opts \<Rightarrow> string" where
  "print_msg_opts o1 = print_opts (adv_opts.truncate o1) @
     (if throttled o1
      then tab @ ''Throttled? Yes'' @ nl @ tab @ ''Rate: '' @ dec (unat (opt_rate o1)) @ '' msgs/sec'' @ nl
      else tab @ ''Throttled? No'' @ nl) @
     tab @ ''Shared memory? '' @ (if opt_shm o1 then ''Yes'' else ''No'') @ nl"

definition print_srv_opts :: "adv_srv_opts \<Rightarrow> string" where
  "print_srv_opts o1 = print_opts (adv_opts.truncate o1)"

text \<open>The equality operators decide equality of the option values.\<close>

lemma eq_msg_opts_iff: "eq_msg_opts a b \<longleftrightarrow> a = b"
  by (cases a; cases b) (auto simp: eq_msg_opts_def eq_opts_def)

lemma eq_srv_opts_iff: "eq_srv_opts a b \<longleftrightarrow> a = b"
  by (cases a; cases b) (auto simp: eq_srv_opts_def eq_opts_def)

lemma new_msg_opts_simps [simp]:
  "opt_scope new_msg_opts = SCOPE_ALL" "opt_rate new_msg_opts = kUnthrottled"
  "opt_shm new_msg_opts = False" "\<not> throttled new_msg_opts"
  by (simp_all add: new_msg_opts_def throttled_def)

end
