(* ===== verification/PublisherInfo.thy ===== *)
theory PublisherInfo
  imports AdvertiseOptions
begin

text \<open>
  Endpoint descriptions and their discovery form: PublisherInfo, MessagePublisherInfo and
  ServicePublisherInfo (include/trans/details/publisher_info.hpp, src/publisher_info.cc)
  and the Discovery message of msgs/discovery.proto. A derived class extends the record of
  its base, so it holds the base's \<open>p_opts\<close> and its own options, as the class does.
\<close>

section \<open>The Discovery message\<close>

datatype disc_type =
  UNINITIALIZED | ADVERTISE | SUBSCRIBE | UNADVERTISE | HEARTBEAT | BYE
  | NEW_CONNECTION | END_CONNECTION

definition disc_type_toString :: "disc_type \<Rightarrow> string" where
  "disc_type_toString t = (case t of
     UNINITIALIZED \<Rightarrow> ''UNINITIALIZED''
   | ADVERTISE \<Rightarrow> ''ADVERTISE''
   | SUBSCRIBE \<Rightarrow> ''SUBSCRIBE''
   | UNADVERTISE \<Rightarrow> ''UNADVERTISE''
   | HEARTBEAT \<Rightarrow> ''HEARTBEAT''
   | BYE \<Rightarrow> ''BYE''
   | NEW_CONNECTION \<Rightarrow> ''NEW_CONNECTION''
   | END_CONNECTION \<Rightarrow> ''END_CONNECTION'')"

datatype proto_scope = PbPROCESS | PbHOST | PbALL | PbOther int

record pb_msg_pub =
  pb_ctrl :: string
  pb_msg_type :: string
  pb_throttled :: bool
  pb_msgs_per_sec :: u64
  pb_use_shm :: bool

record pb_srv_pub =
  pb_socket_id :: string
  pb_request_type :: string
  pb_response_type :: string

datatype pub_type = NoPubType | MsgPub pb_msg_pub | SrvPub pb_srv_pub

record pb_pub =
  pb_topic :: string
  pb_address :: string
  pb_node_uuid :: string
  pb_scope :: proto_scope
  pb_pub_type :: pub_type

datatype disc_contents = NoContents | SubC string | PubC pb_pub

record disc_msg =
  dm_version :: u32
  dm_process_uuid :: string
  dm_type :: disc_type
  dm_process_name :: string
  dm_contents :: disc_contents

text \<open>
  The accessors the generated class gives for the schema: an unset field reads as its
  default (empty string, zero, the first enum value), \<open>mutable_x\<close> of an unset or
  different member of a oneof replaces it by a default message.
\<close>

definition pb_msg_pub_default :: pb_msg_pub where
  "pb_msg_pub_default = \<lparr>pb_ctrl = [], pb_msg_type = [], pb_throttled = False,
     pb_msgs_per_sec = 0, pb_use_shm = False\<rparr>"

definition pb_srv_pub_default :: pb_srv_pub where
  "pb_srv_pub_default = \<lparr>pb_socket_id = [], pb_request_type = [], pb_response_type = []\<rparr>"

definition pb_pub_default :: pb_pub where
  "pb_pub_default = \<lparr>pb_topic = [], pb_address = [], pb_node_uuid = [],
     pb_scope = PbPROCESS, pb_pub_type = NoPubType\<rparr>"

definition disc_msg_default :: disc_msg where
  "disc_msg_default = \<lparr>dm_version = 0, dm_process_uuid = [], dm_type = UNINITIALIZED,
     dm_process_name = [], dm_contents = NoContents\<rparr>"

definition has_sub :: "disc_msg \<Rightarrow> bool" where
  "has_sub m \<longleftrightarrow> (case dm_contents m of SubC _ \<Rightarrow> True | _ \<Rightarrow> False)"

definition has_pub :: "disc_msg \<Rightarrow> bool" where
  "has_pub m \<longleftrightarrow> (case dm_contents m of PubC _ \<Rightarrow> True | _ \<Rightarrow> False)"

definition sub_topic :: "disc_msg \<Rightarrow> string" where
  "sub_topic m = (case dm_contents m of SubC t \<Rightarrow> t | _ \<Rightarrow> [])"

definition get_pub :: "disc_msg \<Rightarrow> pb_pub" where
  "get_pub m = (case dm_contents m of PubC p \<Rightarrow> p | _ \<Rightarrow> pb_pub_default)"

definition get_msg_pub :: "pb_pub \<Rightarrow> pb_msg_pub" where
  "get_msg_pub p = (case pb_pub_type p of MsgPub q \<Rightarrow> q | _ \<Rightarrow> pb_msg_pub_default)"

definition get_srv_pub :: "pb_pub \<Rightarrow> pb_srv_pub" where
  "get_srv_pub p = (case pb_pub_type p of SrvPub q \<Rightarrow> q | _ \<Rightarrow> pb_srv_pub_default)"

definition set_pub :: "(pb_pub \<Rightarrow> pb_pub) \<Rightarrow> disc_msg \<Rightarrow> disc_msg" where
  "set_pub f m = m\<lparr>dm_contents := PubC (f (get_pub m))\<rparr>"

definition set_sub_topic :: "string \<Rightarrow> disc_msg \<Rightarrow> disc_msg" where
  "set_sub_topic t m = m\<lparr>dm_contents := SubC t\<rparr>"

lemmas pb_defs = has_sub_def has_pub_def sub_topic_def get_pub_def get_msg_pub_def
  get_srv_pub_def set_pub_def set_sub_topic_def

section \<open>Endpoint descriptions\<close>

record pub_info =
  p_topic :: string
  p_addr :: string
  p_proc :: string
  p_pname :: string
  p_node :: string
  p_opts :: adv_opts

record msg_pub = pub_info +
  m_ctrl :: string
  m_type :: string
  m_opts :: adv_msg_opts

record srv_pub = pub_info +
  s_sock :: string
  s_req :: string
  s_rep :: string
  s_opts :: adv_srv_opts

definition mkPublisherInfo :: "string \<Rightarrow> string \<Rightarrow> string \<Rightarrow> string \<Rightarrow> adv_opts \<Rightarrow> pub_info" where
  "mkPublisherInfo topic addr proc node o1 =
     \<lparr>p_topic = topic, p_addr = addr, p_proc = proc, p_pname = [],
      p_node = node, p_opts = o1\<rparr>"

definition mkMessagePublisherInfo ::
  "string \<Rightarrow> string \<Rightarrow> string \<Rightarrow> string \<Rightarrow> string \<Rightarrow> string \<Rightarrow> adv_msg_opts \<Rightarrow> msg_pub" where
  "mkMessagePublisherInfo topic addr ctrl proc node mtype o1 =
     pub_info.extend (mkPublisherInfo topic addr proc node (adv_opts.truncate o1))
       (msg_pub.fields ctrl mtype o1)"

definition mkServicePublisherInfo ::
  "string \<Rightarrow> string \<Rightarrow> string \<Rightarrow> string \<Rightarrow> string \<Rightarrow> string \<Rightarrow> string \<Rightarrow> adv_srv_opts \<Rightarrow> srv_pub" where
  "mkServicePublisherInfo topic addr sock proc node req rep o1 =
     pub_info.extend (mkPublisherInfo topic addr proc node (adv_opts.truncate o1))
       (srv_pub.fields sock req rep o1)"

text \<open>The default constructors.\<close>

definition new_pub_info :: pub_info where
  "new_pub_info = \<lparr>p_topic = [], p_addr = [], p_proc = [], p_pname = [],
     p_node = [], p_opts = new_opts\<rparr>"

definition new_msg_pub :: msg_pub where
  "new_msg_pub = pub_info.extend new_pub_info (msg_pub.fields [] [] new_msg_opts)"

definition new_srv_pub :: srv_pub where
  "new_srv_pub = pub_info.extend new_pub_info (srv_pub.fields [] [] [] new_opts)"

definition eq_pub_info :: "'a pub_info_scheme \<Rightarrow> 'b pub_info_scheme \<Rightarrow> bool" where
  "eq_pub_info a b \<longleftrightarrow> p_topic a = p_topic b \<and> p_addr a = p_addr b \<and>
     p_proc a = p_proc b \<and> p_node a = p_node b \<and>
     eq_opts (p_opts a) (p_opts b)"

definition eq_msg_pub :: "msg_pub \<Rightarrow> msg_pub \<Rightarrow> bool" where
  "eq_msg_pub a b \<longleftrightarrow> eq_pub_info a b \<and> m_ctrl a = m_ctrl b \<and>
     m_type a = m_type b \<and> eq_msg_opts (m_opts a) (m_opts b)"

definition eq_srv_pub :: "srv_pub \<Rightarrow> srv_pub \<Rightarrow> bool" where
  "eq_srv_pub a b \<longleftrightarrow> eq_pub_info a b \<and> s_sock a = s_sock b \<and>
     s_req a = s_req b \<and> s_rep a = s_rep b"

section \<open>To and from the Discovery message\<close>

definition scope_to_pb :: "scope \<Rightarrow> proto_scope" where
  "scope_to_pb s = (case s of
     SCOPE_PROCESS \<Rightarrow> PbPROCESS
   | SCOPE_HOST \<Rightarrow> PbHOST
   | SCOPE_ALL \<Rightarrow> PbALL)"

definition scope_of_pb :: "proto_scope \<Rightarrow> scope" where
  "scope_of_pb s = (case s of
     PbPROCESS \<Rightarrow> SCOPE_PROCESS
   | PbHOST \<Rightarrow> SCOPE_HOST
   | PbALL \<Rightarrow> SCOPE_ALL
   | PbOther _ \<Rightarrow> SCOPE_ALL)"

definition fillDiscovery :: "'a pub_info_scheme \<Rightarrow> disc_msg \<Rightarrow> disc_msg" where
  "fillDiscovery p m = set_pub (\<lambda>pub. pub\<lparr>pb_topic := p_topic p, pb_address := p_addr p,
     pb_node_uuid := p_node p, pb_scope := scope_to_pb (opt_scope (p_opts p))\<rparr>) m"

definition setFromDiscovery :: "disc_msg \<Rightarrow> 'a pub_info_scheme \<Rightarrow> 'a pub_info_scheme" where
  "setFromDiscovery m p =
     (if has_sub m then p\<lparr>p_topic := sub_topic m\<rparr>
      else if has_pub m then
        p\<lparr>p_topic := pb_topic (get_pub m),
          p_addr := pb_address (get_pub m),
          p_proc := dm_process_uuid m,
          p_pname := dm_process_name m,
          p_node := pb_node_uuid (get_pub m),
          p_opts := (p_opts p)\<lparr>opt_scope := scope_of_pb (pb_scope (get_pub m))\<rparr>\<rparr>
      else p)"

definition fillDiscovery_msg :: "msg_pub \<Rightarrow> disc_msg \<Rightarrow> disc_msg" where
  "fillDiscovery_msg p m = set_pub (\<lambda>pub. pub\<lparr>pb_pub_type := MsgPub
     \<lparr>pb_ctrl = m_ctrl p, pb_msg_type = m_type p, pb_throttled = throttled (m_opts p),
      pb_msgs_per_sec = opt_rate (m_opts p), pb_use_shm = opt_shm (m_opts p)\<rparr>\<rparr>) (fillDiscovery p m)"

definition setFromDiscovery_msg :: "disc_msg \<Rightarrow> msg_pub \<Rightarrow> msg_pub" where
  "setFromDiscovery_msg m p =
     (let b = setFromDiscovery m p; mp = get_msg_pub (get_pub m)
      in b\<lparr>m_ctrl := pb_ctrl mp,
           m_type := pb_msg_type mp,
           m_opts := (m_opts b)\<lparr>opt_scope := opt_scope (p_opts b),
             opt_rate := (if \<not> pb_throttled mp then kUnthrottled else pb_msgs_per_sec mp),
             opt_shm := pb_use_shm mp\<rparr>\<rparr>)"

definition fillDiscovery_srv :: "srv_pub \<Rightarrow> disc_msg \<Rightarrow> disc_msg" where
  "fillDiscovery_srv p m = set_pub (\<lambda>pub. pub\<lparr>pb_pub_type := SrvPub
     \<lparr>pb_socket_id = s_sock p, pb_request_type = s_req p, pb_response_type = s_rep p\<rparr>\<rparr>)
     (fillDiscovery p m)"

definition setFromDiscovery_srv :: "disc_msg \<Rightarrow> srv_pub \<Rightarrow> srv_pub" where
  "setFromDiscovery_srv m p =
     (let b = setFromDiscovery m p; sp = get_srv_pub (get_pub m)
      in b\<lparr>s_opts := (s_opts b)\<lparr>opt_scope := opt_scope (p_opts b)\<rparr>,
           s_sock := pb_socket_id sp,
           s_req := pb_request_type sp,
           s_rep := pb_response_type sp\<rparr>)"

section \<open>Printed form\<close>

definition print_pub_info :: "'a pub_info_scheme \<Rightarrow> string" where
  "print_pub_info p = ''Publisher:'' @ nl
     @ tab @ ''Topic: ['' @ p_topic p @ '']'' @ nl
     @ tab @ ''Address: '' @ p_addr p @ nl
     @ tab @ ''Process UUID: '' @ p_proc p @ nl
     @ tab @ ''Node UUID: '' @ p_node p @ nl
     @ print_opts (p_opts p)"

definition print_msg_pub :: "msg_pub \<Rightarrow> string" where
  "print_msg_pub p = ''Publisher:'' @ nl
     @ tab @ ''Topic: ['' @ p_topic p @ '']'' @ nl
     @ tab @ ''Address: '' @ p_addr p @ nl
     @ tab @ ''Process UUID: '' @ p_proc p @ nl
     @ tab @ ''Node UUID: '' @ p_node p @ nl
     @ tab @ ''Control addr: '' @ m_ctrl p @ nl
     @ tab @ ''Message type: '' @ m_type p @ nl
     @ print_msg_opts (m_opts p)"

definition print_srv_pub :: "srv_pub \<Rightarrow> string" where
  "print_srv_pub p = ''Publisher:'' @ nl
     @ tab @ ''Topic: ['' @ p_topic p @ '']'' @ nl
     @ tab @ ''Address: '' @ p_addr p @ nl
     @ tab @ ''Process UUID: '' @ p_proc p @ nl
     @ tab @ ''Node UUID: '' @ p_node p @ nl
     @ tab @ ''Socket ID: '' @ s_sock p @ nl
     @ tab @ '' Request type: '' @ s_req p @ nl
     @ tab @ '' Response type: '' @ s_rep p @ nl
     @ print_srv_opts (s_opts p)"

section \<open>Lemmas\<close>

text \<open>
  Constructors copy the same options into the base and the derived part, and decoding sets
  both scopes alike; an endpoint that keeps them equal is well formed.
\<close>

definition msg_pub_wf :: "msg_pub \<Rightarrow> bool" where
  "msg_pub_wf p \<longleftrightarrow> opt_scope (p_opts p) = opt_scope (m_opts p)"

definition srv_pub_wf :: "srv_pub \<Rightarrow> bool" where
  "srv_pub_wf p \<longleftrightarrow> p_opts p = s_opts p"

lemma adv_opts_eqI: "opt_scope a = opt_scope b \<Longrightarrow> a = (b :: adv_opts)"
  by (cases a; cases b) simp

lemma scope_pb_inverse [simp]: "scope_of_pb (scope_to_pb s) = s"
  by (cases s) (simp_all add: scope_to_pb_def scope_of_pb_def)

lemma mk_msg_pub_simps [simp]:
  "p_topic (mkMessagePublisherInfo t a c u n y o1) = t"
  "p_addr (mkMessagePublisherInfo t a c u n y o1) = a"
  "p_proc (mkMessagePublisherInfo t a c u n y o1) = u"
  "p_pname (mkMessagePublisherInfo t a c u n y o1) = []"
  "p_node (mkMessagePublisherInfo t a c u n y o1) = n"
  "p_opts (mkMessagePublisherInfo t a c u n y o1) = adv_opts.truncate o1"
  "m_ctrl (mkMessagePublisherInfo t a c u n y o1) = c"
  "m_type (mkMessagePublisherInfo t a c u n y o1) = y"
  "m_opts (mkMessagePublisherInfo t a c u n y o1) = o1"
  by (simp_all add: mkMessagePublisherInfo_def mkPublisherInfo_def pub_info.defs msg_pub.defs)

lemma mk_srv_pub_simps [simp]:
  "p_topic (mkServicePublisherInfo t a c u n y z o1) = t"
  "p_addr (mkServicePublisherInfo t a c u n y z o1) = a"
  "p_proc (mkServicePublisherInfo t a c u n y z o1) = u"
  "p_node (mkServicePublisherInfo t a c u n y z o1) = n"
  "p_opts (mkServicePublisherInfo t a c u n y z o1) = adv_opts.truncate o1"
  "s_sock (mkServicePublisherInfo t a c u n y z o1) = c"
  "s_req (mkServicePublisherInfo t a c u n y z o1) = y"
  "s_rep (mkServicePublisherInfo t a c u n y z o1) = z"
  "s_opts (mkServicePublisherInfo t a c u n y z o1) = o1"
  by (simp_all add: mkServicePublisherInfo_def mkPublisherInfo_def pub_info.defs srv_pub.defs)

lemma new_msg_pub_simps [simp]:
  "p_topic new_msg_pub = []" "p_addr new_msg_pub = []" "p_proc new_msg_pub = []"
  "p_node new_msg_pub = []" "m_ctrl new_msg_pub = []" "m_opts new_msg_pub = new_msg_opts"
  by (simp_all add: new_msg_pub_def new_pub_info_def pub_info.defs msg_pub.defs)

lemma truncate_scope [simp]: "opt_scope (adv_opts.truncate o1) = opt_scope o1"
  by (simp add: adv_opts.defs)

lemma truncate_srv_opts [simp]: "adv_opts.truncate o1 = (o1 :: adv_srv_opts)"
  by (cases o1) (simp add: adv_opts.defs)

lemma mk_msg_pub_wf [simp, intro]: "msg_pub_wf (mkMessagePublisherInfo t a c u n y o1)"
  by (simp add: msg_pub_wf_def)

lemma mk_srv_pub_wf [simp, intro]: "srv_pub_wf (mkServicePublisherInfo t a c u n y z o1)"
  by (simp add: srv_pub_wf_def)

lemma fill_header [simp]:
  "dm_process_uuid (fillDiscovery p m) = dm_process_uuid m"
  "dm_process_name (fillDiscovery p m) = dm_process_name m"
  "dm_type (fillDiscovery p m) = dm_type m"
  "dm_process_uuid (fillDiscovery_msg q m) = dm_process_uuid m"
  "dm_process_name (fillDiscovery_msg q m) = dm_process_name m"
  "dm_type (fillDiscovery_msg q m) = dm_type m"
  "dm_process_uuid (fillDiscovery_srv r m) = dm_process_uuid m"
  "dm_process_name (fillDiscovery_srv r m) = dm_process_name m"
  "dm_type (fillDiscovery_srv r m) = dm_type m"
  by (simp_all add: fillDiscovery_def fillDiscovery_msg_def fillDiscovery_srv_def set_pub_def)

text \<open>Filling twice is filling once: Discovery fills before and inside its switch.\<close>

lemma fill_msg_idem [simp]: "fillDiscovery_msg p (fillDiscovery_msg p m) = fillDiscovery_msg p m"
  by (simp add: fillDiscovery_msg_def fillDiscovery_def pb_defs)

lemma fill_srv_idem [simp]: "fillDiscovery_srv p (fillDiscovery_srv p m) = fillDiscovery_srv p m"
  by (simp add: fillDiscovery_srv_def fillDiscovery_def pb_defs)

lemma set_msg_wf [simp, intro]: "msg_pub_wf (setFromDiscovery_msg m p)"
  by (simp add: msg_pub_wf_def setFromDiscovery_msg_def Let_def)

lemma set_srv_wf [simp, intro]: "srv_pub_wf (setFromDiscovery_srv m p)"
  by (simp add: srv_pub_wf_def setFromDiscovery_srv_def Let_def)

lemma rate_of_throttled [simp]:
  "(if \<not> throttled o1 then kUnthrottled else opt_rate o1) = opt_rate o1"
  by (simp add: throttled_def)

lemma msg_roundtrip:
  assumes "msg_pub_wf p" "dm_process_uuid m = p_proc p"
  shows "setFromDiscovery_msg (fillDiscovery_msg p m) q = p\<lparr>p_pname := dm_process_name m\<rparr>"
proof -
  have "(p_opts q)\<lparr>opt_scope := opt_scope (p_opts p)\<rparr> = p_opts p"
    by (rule adv_opts_eqI) simp
  with assms show ?thesis
    by (cases p; cases q)
      (simp add: setFromDiscovery_msg_def fillDiscovery_msg_def setFromDiscovery_def
        fillDiscovery_def pb_defs msg_pub_wf_def Let_def throttled_def)
qed

lemma srv_roundtrip:
  assumes "srv_pub_wf p" "dm_process_uuid m = p_proc p"
  shows "setFromDiscovery_srv (fillDiscovery_srv p m) q = p\<lparr>p_pname := dm_process_name m\<rparr>"
proof -
  have "(p_opts q)\<lparr>opt_scope := opt_scope (p_opts p)\<rparr> = p_opts p"
    "(s_opts q)\<lparr>opt_scope := opt_scope (p_opts p)\<rparr> = p_opts p"
    by (rule adv_opts_eqI, simp)+
  with assms show ?thesis
    by (cases p; cases q)
      (simp add: setFromDiscovery_srv_def fillDiscovery_srv_def setFromDiscovery_def
        fillDiscovery_def pb_defs srv_pub_wf_def Let_def)
qed

section \<open>The two endpoint classes behind one interface\<close>

text \<open>
  The templates TopicStorage and Discovery are instantiated with the two derived classes.
  What they call virtually is a record of functions, \<open>pub_class\<close>; the locale states what
  both instances promise.
\<close>

record 'p pub_class =
  pc_new :: "'p"
  pc_scope :: "'p \<Rightarrow> scope"
  pc_fill :: "'p \<Rightarrow> disc_msg \<Rightarrow> disc_msg"
  pc_set :: "disc_msg \<Rightarrow> 'p \<Rightarrow> 'p"

definition msg_class :: "msg_pub pub_class" where
  "msg_class = \<lparr>pc_new = new_msg_pub, pc_scope = (\<lambda>p. opt_scope (m_opts p)),
     pc_fill = fillDiscovery_msg, pc_set = setFromDiscovery_msg\<rparr>"

definition srv_class :: "srv_pub pub_class" where
  "srv_class = \<lparr>pc_new = new_srv_pub, pc_scope = (\<lambda>p. opt_scope (s_opts p)),
     pc_fill = fillDiscovery_srv, pc_set = setFromDiscovery_srv\<rparr>"

definition pub_key :: "'a pub_info_scheme \<Rightarrow> string \<times> string \<times> string \<times> string" where
  "pub_key p = (p_topic p, p_proc p, p_addr p, p_node p)"

locale endpoint_class =
  fixes C :: "'a pub_info_scheme pub_class"
    and wf :: "'a pub_info_scheme \<Rightarrow> bool"
  assumes decoded_wf: "wf (pc_set C m p)"
    and decoded_key: "pub_key (pc_set C m p) = pub_key (setFromDiscovery m p)"
    and decoded_scope: "pc_scope C (pc_set C m p) = opt_scope (p_opts (setFromDiscovery m p))"
    and fill_uuid: "dm_process_uuid (pc_fill C p m) = dm_process_uuid m"
    and fill_type: "dm_type (pc_fill C p m) = dm_type m"
    and fill_pub: "has_pub (pc_fill C p m)"
    and fill_twice: "pc_fill C p (pc_fill C p m) = pc_fill C p m"
    and roundtrip: "wf p \<Longrightarrow> dm_process_uuid m = p_proc p \<Longrightarrow>
      pc_set C (pc_fill C p m) q = p\<lparr>p_pname := dm_process_name m\<rparr>"
    and fill_scope: "wf p \<Longrightarrow> pc_scope C (pc_set C (pc_fill C p m) q) = pc_scope C p"
    and scope_pname: "pc_scope C (p\<lparr>p_pname := n\<rparr>) = pc_scope C p"
begin

text \<open>A decoded publisher message names its sender as the owning process.\<close>

lemma decoded_proc:
  assumes "has_pub m"
  shows "p_proc (pc_set C m p) = dm_process_uuid m"
proof -
  from assms have "\<not> has_sub m" by (auto simp: pb_defs split: disc_contents.splits)
  with assms have "p_proc (setFromDiscovery m p) = dm_process_uuid m"
    by (simp add: setFromDiscovery_def)
  then show ?thesis using decoded_key [of m p] by (simp add: pub_key_def)
qed

text \<open>What one process fills, another decodes with the same key and scope.\<close>

lemma transfer:
  assumes "wf p" "dm_process_uuid m = p_proc p"
  shows "pub_key (pc_set C (pc_fill C p m) q) = pub_key p"
    and "pc_scope C (pc_set C (pc_fill C p m) q) = pc_scope C p"
  using roundtrip [OF assms] by (simp_all add: pub_key_def scope_pname)

end

lemma fill_has_pub [simp]:
  "has_pub (fillDiscovery p m)" "has_pub (fillDiscovery_msg q m)" "has_pub (fillDiscovery_srv r m)"
  by (simp_all add: fillDiscovery_def fillDiscovery_msg_def fillDiscovery_srv_def pb_defs)

lemma decoded_msg [simp]:
  "pub_key (setFromDiscovery_msg m p) = pub_key (setFromDiscovery m p)"
  "opt_scope (m_opts (setFromDiscovery_msg m p)) = opt_scope (p_opts (setFromDiscovery m p))"
  by (simp_all add: setFromDiscovery_msg_def pub_key_def Let_def)

lemma decoded_srv [simp]:
  "pub_key (setFromDiscovery_srv m p) = pub_key (setFromDiscovery m p)"
  "opt_scope (s_opts (setFromDiscovery_srv m p)) = opt_scope (p_opts (setFromDiscovery m p))"
  by (simp_all add: setFromDiscovery_srv_def pub_key_def Let_def)

lemma fill_scope_msg: "msg_pub_wf p \<Longrightarrow>
    opt_scope (p_opts (setFromDiscovery (fillDiscovery_msg p m) q)) = opt_scope (m_opts p)"
  by (simp add: fillDiscovery_msg_def setFromDiscovery_def
      fillDiscovery_def pb_defs msg_pub_wf_def Let_def)

lemma fill_scope_srv: "srv_pub_wf p \<Longrightarrow>
    opt_scope (p_opts (setFromDiscovery (fillDiscovery_srv p m) q)) = opt_scope (s_opts p)"
  by (simp add: fillDiscovery_srv_def setFromDiscovery_def
      fillDiscovery_def pb_defs srv_pub_wf_def Let_def)

interpretation mc: endpoint_class msg_class msg_pub_wf
  by unfold_locales (simp_all add: msg_class_def msg_roundtrip set_msg_wf fill_scope_msg)

interpretation sc: endpoint_class srv_class srv_pub_wf
  by unfold_locales (simp_all add: srv_class_def srv_roundtrip set_srv_wf fill_scope_srv)

end
