(* ===== verification/TopicStorage.thy ===== *)
theory TopicStorage
  imports PublisherInfo
begin

text \<open>
  TopicStorage<Pub> (include/trans/details/topic_storage.hpp): the two-level map
  topic -> process uuid -> endpoints in order of arrival. Every operation of the class is
  one definition; one that changes the map returns the new map with the method's result.
  The mutex makes each operation atomic, so operations of several threads appear as a
  sequence of these functions.
\<close>

section \<open>The storage and its operations\<close>

type_synonym 'p proc_map = "(string, 'p list) omap"
type_synonym 'p topic_map = "(string, 'p proc_map) omap"

definition kGenericMessageType :: string where
  "kGenericMessageType = ''google.protobuf.Message''"

definition addPublisher ::
  "'a pub_info_scheme \<Rightarrow> 'a pub_info_scheme topic_map \<Rightarrow> 'a pub_info_scheme topic_map \<times> bool" where
  "addPublisher pub d =
     (let mp = om_get [] (p_topic pub) d;
          pub_list = om_get [] (p_proc pub) mp
      in if om_has (p_proc pub) mp \<and>
            list_ex (\<lambda>q. p_addr q = p_addr pub \<and> p_node q = p_node pub) pub_list
         then (om_put (p_topic pub) mp d, False)
         else (om_put (p_topic pub) (om_put (p_proc pub) (pub_list @ [pub]) mp) d, True))"

definition hasTopic :: "string \<Rightarrow> 'p topic_map \<Rightarrow> bool" where
  "hasTopic topic d \<longleftrightarrow> om_has topic d"

definition hasTopic_type :: "string \<Rightarrow> string \<Rightarrow> msg_pub topic_map \<Rightarrow> bool" where
  "hasTopic_type topic mtype d =
     (if \<not> hasTopic topic d then False
      else list_ex (\<lambda>(pid, pub_list).
             list_ex (\<lambda>pub. m_type pub = mtype \<or> m_type pub = kGenericMessageType) pub_list)
           (om_get [] topic d))"

definition hasAnyPublishers :: "string \<Rightarrow> string \<Rightarrow> 'p topic_map \<Rightarrow> bool" where
  "hasAnyPublishers topic p_uuid d =
     (if \<not> hasTopic topic d then False else om_has p_uuid (om_get [] topic d))"

definition hasPublisher :: "string \<Rightarrow> 'a pub_info_scheme topic_map \<Rightarrow> bool" where
  "hasPublisher addr d =
     list_ex (\<lambda>(t, procs). list_ex (\<lambda>(u, pubs). list_ex (\<lambda>pub. p_addr pub = addr) pubs) procs) d"

definition getPublisher ::
  "string \<Rightarrow> string \<Rightarrow> string \<Rightarrow> 'a pub_info_scheme topic_map \<Rightarrow> 'a pub_info_scheme option" where
  "getPublisher topic p_uuid n_uuid d =
     (case map_of d topic of
        None \<Rightarrow> None
      | Some mp \<Rightarrow> (case map_of mp p_uuid of
          None \<Rightarrow> None
        | Some pub_list \<Rightarrow> List.find (\<lambda>pub. p_node pub = n_uuid) pub_list))"

definition getPublishers :: "string \<Rightarrow> 'p topic_map \<Rightarrow> 'p proc_map option" where
  "getPublishers topic d = (if \<not> hasTopic topic d then None else Some (om_get [] topic d))"

definition delPublishersByNode ::
  "string \<Rightarrow> string \<Rightarrow> string \<Rightarrow> 'a pub_info_scheme topic_map \<Rightarrow> 'a pub_info_scheme topic_map \<times> bool" where
  "delPublishersByNode topic p_uuid n_uuid d =
     (case map_of d topic of
        None \<Rightarrow> (d, False)
      | Some mp \<Rightarrow> (case map_of mp p_uuid of
          None \<Rightarrow> (d, False)
        | Some pub_list \<Rightarrow>
            (let kept = filter (\<lambda>pub. p_node pub \<noteq> n_uuid) pub_list;
                 count = length pub_list - length kept;
                 mp' = (if kept = [] then om_erase p_uuid mp else om_put p_uuid kept mp);
                 d' = (if mp' = [] then om_erase topic d else om_put topic mp' d)
             in (d', 0 < count))))"

fun delProc_loop :: "string \<Rightarrow> 'p topic_map \<Rightarrow> 'p topic_map \<times> nat" where
  "delProc_loop p_uuid [] = ([], 0)"
| "delProc_loop p_uuid ((t, mp) # d) =
     (let erased = (if om_has p_uuid mp then 1 else 0);
          mp' = om_erase p_uuid mp;
          (rest, count) = delProc_loop p_uuid d
      in (if mp' = [] then rest else (t, mp') # rest, erased + count))"

definition delPublishersByProc :: "string \<Rightarrow> 'p topic_map \<Rightarrow> 'p topic_map \<times> bool" where
  "delPublishersByProc p_uuid d = (let (d', count) = delProc_loop p_uuid d in (d', 0 < count))"

definition push_by_node ::
  "('a pub_info_scheme) proc_map \<Rightarrow> 'a pub_info_scheme \<Rightarrow> ('a pub_info_scheme) proc_map" where
  "push_by_node pubs pub = om_put (p_node pub) (om_get [] (p_node pub) pubs @ [pub]) pubs"

definition getPublishersByProc ::
  "string \<Rightarrow> 'a pub_info_scheme topic_map \<Rightarrow> ('a pub_info_scheme) proc_map" where
  "getPublishersByProc p_uuid d =
     foldl (\<lambda>pubs (t, mp). foldl push_by_node pubs
       (case map_of mp p_uuid of None \<Rightarrow> [] | Some pub_list \<Rightarrow> pub_list)) [] d"

definition getPublishersByNode ::
  "string \<Rightarrow> string \<Rightarrow> 'a pub_info_scheme topic_map \<Rightarrow> 'a pub_info_scheme list" where
  "getPublishersByNode p_uuid n_uuid d =
     concat (map (\<lambda>(t, mp). case map_of mp p_uuid of
         None \<Rightarrow> []
       | Some pub_list \<Rightarrow> filter (\<lambda>pub. p_node pub = n_uuid) pub_list) d)"

definition getTopicList :: "'p topic_map \<Rightarrow> string list" where
  "getTopicList d = map fst d"

definition print_storage :: "('p \<Rightarrow> string) \<Rightarrow> 'p topic_map \<Rightarrow> string" where
  "print_storage show_pub d = ''---'' @ nl @
     concat (map (\<lambda>(t, m). ''['' @ t @ '']'' @ nl @
       concat (map (\<lambda>(u, v). tab @ ''Proc. UUID: '' @ u @ nl @ concat (map show_pub v)) m)) d)"

definition clear_storage :: "'p topic_map \<Rightarrow> 'p topic_map" where
  "clear_storage d = []"

section \<open>Well-formedness and the set it stands for\<close>

text \<open>
  No empty inner container is kept, every endpoint sits under its own topic and process,
  and within a process no two entries share address and node.
\<close>

definition pm_wf :: "string \<Rightarrow> 'a pub_info_scheme proc_map \<Rightarrow> bool" where
  "pm_wf t mp \<longleftrightarrow> om_wf mp \<and> (\<forall>(u, pl) \<in> set mp. pl \<noteq> [] \<and> distinct (map pub_key pl) \<and>
     (\<forall>p \<in> set pl. p_topic p = t \<and> p_proc p = u))"

definition ts_wf :: "'a pub_info_scheme topic_map \<Rightarrow> bool" where
  "ts_wf d \<longleftrightarrow> om_wf d \<and> (\<forall>(t, mp) \<in> set d. mp \<noteq> [] \<and> pm_wf t mp)"

definition ts_view :: "'p topic_map \<Rightarrow> 'p set" where
  "ts_view d = (\<Union>(t, mp) \<in> set d. \<Union>(u, pl) \<in> set mp. set pl)"

definition entries :: "'p topic_map \<Rightarrow> string \<Rightarrow> string \<Rightarrow> 'p list" where
  "entries d t u = om_get [] u (om_get [] t d)"

lemma pm_wfI:
  assumes "om_wf mp"
    and "\<And>u pl. map_of mp u = Some pl \<Longrightarrow> pl \<noteq> [] \<and> distinct (map pub_key pl) \<and>
      (\<forall>p \<in> set pl. p_topic p = t \<and> p_proc p = u)"
  shows "pm_wf t mp"
  using assms by (fastforce simp: pm_wf_def om_wf_lookup)

lemma pm_wfD:
  assumes "pm_wf t mp" "map_of mp u = Some pl"
  shows "pl \<noteq> []" "distinct (map pub_key pl)" "p \<in> set pl \<Longrightarrow> p_topic p = t"
    "p \<in> set pl \<Longrightarrow> p_proc p = u"
  using assms map_of_SomeD [OF assms(2)] by (fastforce simp: pm_wf_def)+

lemma pm_wf_om [simp]: "pm_wf t mp \<Longrightarrow> om_wf mp"
  by (simp add: pm_wf_def)

lemma pm_wf_Nil [simp]: "pm_wf t []"
  by (simp add: pm_wf_def)

lemma ts_wfI:
  assumes "om_wf d" and "\<And>t mp. map_of d t = Some mp \<Longrightarrow> mp \<noteq> [] \<and> pm_wf t mp"
  shows "ts_wf d"
  using assms by (fastforce simp: ts_wf_def om_wf_lookup)

lemma ts_wfD:
  assumes "ts_wf d" "map_of d t = Some mp"
  shows "mp \<noteq> []" "pm_wf t mp"
  using assms map_of_SomeD [OF assms(2)] by (fastforce simp: ts_wf_def)+

lemma ts_wf_om [simp]: "ts_wf d \<Longrightarrow> om_wf d"
  by (simp add: ts_wf_def)

lemma ts_wf_Nil [simp, intro]: "ts_wf []"
  by (simp add: ts_wf_def)

lemma ts_view_lookup:
  assumes "ts_wf d"
  shows "p \<in> ts_view d \<longleftrightarrow>
    (\<exists>t u mp pl. map_of d t = Some mp \<and> map_of mp u = Some pl \<and> p \<in> set pl)"
proof -
  have "p \<in> ts_view d \<longleftrightarrow> (\<exists>t mp u pl. (t, mp) \<in> set d \<and> (u, pl) \<in> set mp \<and> p \<in> set pl)"
    by (simp add: ts_view_def Bex_def split_def)
  also have "\<dots> \<longleftrightarrow> (\<exists>t mp u pl. map_of d t = Some mp \<and> (u, pl) \<in> set mp \<and> p \<in> set pl)"
    by (simp only: om_wf_lookup [OF ts_wf_om [OF assms]])
  also have "\<dots> \<longleftrightarrow> (\<exists>t mp u pl. map_of d t = Some mp \<and> map_of mp u = Some pl \<and> p \<in> set pl)"
    using om_wf_lookup [OF pm_wf_om [OF ts_wfD(2) [OF assms]]] by blast
  finally show ?thesis by blast
qed

lemma entries_iff:
  "p \<in> set (entries d t u) \<longleftrightarrow> (\<exists>mp pl. map_of d t = Some mp \<and> map_of mp u = Some pl \<and> p \<in> set pl)"
  by (cases "map_of d t"; cases "map_of (the (map_of d t)) u") (simp_all add: entries_def om_get_def)

lemma entries_key:
  assumes "ts_wf d" "p \<in> set (entries d t u)"
  shows "p_topic p = t" "p_proc p = u"
  using assms(2) pm_wfD(3,4) [OF ts_wfD(2) [OF assms(1)]] by (auto simp only: entries_iff)

lemma ts_view_entries:
  assumes "ts_wf d"
  shows "p \<in> ts_view d \<longleftrightarrow> p \<in> set (entries d (p_topic p) (p_proc p))"
proof -
  have "p \<in> ts_view d \<longleftrightarrow> (\<exists>t u. p \<in> set (entries d t u))"
    unfolding ts_view_lookup [OF assms] entries_iff by blast
  then show ?thesis using entries_key [OF assms] by metis
qed

lemma entries_distinct:
  assumes "ts_wf d"
  shows "distinct (map pub_key (entries d t u))"
proof (cases "entries d t u")
  case (Cons p pl)
  then have "p \<in> set (entries d t u)" by simp
  then obtain mp pl' where *: "map_of d t = Some mp" "map_of mp u = Some pl'"
    by (auto simp only: entries_iff)
  then have "entries d t u = pl'" by (simp add: entries_def om_get_def)
  with pm_wfD(2) [OF ts_wfD(2) [OF assms *(1)] *(2)] show ?thesis by simp
qed simp

section \<open>Effect of the operations\<close>

definition same_slot :: "'a pub_info_scheme \<Rightarrow> 'a pub_info_scheme \<Rightarrow> bool" where
  "same_slot p q \<longleftrightarrow> p_addr q = p_addr p \<and> p_node q = p_node p"

definition is_dup :: "'a pub_info_scheme \<Rightarrow> 'a pub_info_scheme topic_map \<Rightarrow> bool" where
  "is_dup p d \<longleftrightarrow> list_ex (same_slot p) (entries d (p_topic p) (p_proc p))"

lemma addPublisher_eq:
  "addPublisher p d =
     (if is_dup p d then (om_put (p_topic p) (om_get [] (p_topic p) d) d, False)
      else (om_put (p_topic p)
              (om_put (p_proc p) (entries d (p_topic p) (p_proc p) @ [p]) (om_get [] (p_topic p) d)) d, True))"
  by (cases "map_of (om_get [] (p_topic p) d) (p_proc p)")
    (simp_all add: addPublisher_def Let_def is_dup_def entries_def same_slot_def [abs_def] om_has_def om_get_def)

lemma addPublisher_result: "snd (addPublisher p d) \<longleftrightarrow> \<not> is_dup p d"
  by (simp add: addPublisher_eq)

lemma entries_add:
  "entries (fst (addPublisher p d)) t u =
     (if t = p_topic p \<and> u = p_proc p \<and> \<not> is_dup p d then entries d t u @ [p] else entries d t u)"
  by (simp add: addPublisher_eq) (simp add: entries_def)

lemma om_put_same: "om_wf m \<Longrightarrow> map_of m k = Some v \<Longrightarrow> om_put k v m = m"
  by (rule om_ext) (simp_all add: fun_upd_idem)

text \<open>A rejected endpoint leaves the map as it was.\<close>

lemma add_dup_unchanged:
  assumes "ts_wf d" "is_dup p d"
  shows "fst (addPublisher p d) = d"
proof -
  from assms(2) obtain q where "q \<in> set (entries d (p_topic p) (p_proc p))"
    by (auto simp: is_dup_def list_ex_iff)
  then obtain mp where "map_of d (p_topic p) = Some mp" by (auto simp only: entries_iff)
  with assms show ?thesis
    by (simp add: addPublisher_eq om_get_def om_put_same)
qed

lemma is_dup_view:
  assumes "ts_wf d"
  shows "is_dup p d \<longleftrightarrow> (\<exists>q \<in> ts_view d. pub_key q = pub_key p)"
proof
  assume "is_dup p d"
  then obtain q where q: "q \<in> set (entries d (p_topic p) (p_proc p))" "same_slot p q"
    by (auto simp: is_dup_def list_ex_iff)
  then have "pub_key q = pub_key p" "q \<in> ts_view d"
    using entries_key [OF assms q(1)] by (simp_all add: ts_view_entries [OF assms] same_slot_def pub_key_def)
  then show "\<exists>q \<in> ts_view d. pub_key q = pub_key p" by blast
next
  assume "\<exists>q \<in> ts_view d. pub_key q = pub_key p"
  then obtain q where "q \<in> set (entries d (p_topic q) (p_proc q))" "pub_key q = pub_key p"
    using ts_view_entries [OF assms] by blast
  then show "is_dup p d" by (auto simp: is_dup_def list_ex_iff same_slot_def pub_key_def)
qed

lemma pm_wf_put:
  assumes "pm_wf t mp" "pl \<noteq> []" "distinct (map pub_key pl)"
    and "\<forall>p \<in> set pl. p_topic p = t \<and> p_proc p = u"
  shows "pm_wf t (om_put u pl mp)"
  using assms pm_wfD [OF assms(1)] by (intro pm_wfI) (auto split: if_splits)

lemma pm_wf_erase: "pm_wf t mp \<Longrightarrow> pm_wf t (om_erase u mp)"
  using pm_wfD by (intro pm_wfI) (auto split: if_splits)

lemma ts_wf_put:
  "ts_wf d \<Longrightarrow> mp \<noteq> [] \<Longrightarrow> pm_wf t mp \<Longrightarrow> ts_wf (om_put t mp d)"
  using ts_wfD by (intro ts_wfI) (auto split: if_splits)

lemma ts_wf_erase: "ts_wf d \<Longrightarrow> ts_wf (om_erase t d)"
  using ts_wfD by (intro ts_wfI) (auto split: if_splits)

lemma pm_wf_at: "ts_wf d \<Longrightarrow> pm_wf t (om_get [] t d)"
  using ts_wfD(2) by (auto simp: om_get_def split: option.splits)

lemma ts_wf_add [store_laws]:
  assumes "ts_wf d"
  shows "ts_wf (fst (addPublisher p d))"
proof (cases "is_dup p d")
  case True
  then show ?thesis using assms by (simp add: add_dup_unchanged)
next
  case False
  let ?pl = "entries d (p_topic p) (p_proc p)"
  have "pub_key p \<notin> pub_key ` set ?pl"
    using False entries_key [OF assms] by (auto simp: is_dup_def list_ex_iff same_slot_def pub_key_def)
  then have "pm_wf (p_topic p) (om_put (p_proc p) (?pl @ [p]) (om_get [] (p_topic p) d))"
    using assms entries_key [OF assms] entries_distinct [OF assms]
    by (intro pm_wf_put pm_wf_at) auto
  with False show ?thesis
    using assms by (simp add: addPublisher_eq ts_wf_put)
qed

lemma ts_view_add [store_laws]:
  assumes "ts_wf d"
  shows "ts_view (fst (addPublisher p d)) =
    (if \<exists>q \<in> ts_view d. pub_key q = pub_key p then ts_view d else insert p (ts_view d))"
proof (cases "is_dup p d")
  case True
  then show ?thesis using assms by (simp add: add_dup_unchanged flip: is_dup_view)
next
  case False
  then have "q \<in> ts_view (fst (addPublisher p d)) \<longleftrightarrow> q = p \<or> q \<in> ts_view d" for q
    by (auto simp: ts_view_entries assms ts_wf_add entries_add)
  then show ?thesis using False by (auto simp flip: is_dup_view [OF assms])
qed

lemma entries_delNode:
  "entries (fst (delPublishersByNode topic u n d)) t u' =
     (if t = topic \<and> u' = u then filter (\<lambda>pub. p_node pub \<noteq> n) (entries d t u') else entries d t u')"
proof (cases "map_of d topic")
  case None
  then show ?thesis by (simp add: delPublishersByNode_def entries_def om_get_def)
next
  case (Some mp)
  show ?thesis
  proof (cases "map_of mp u")
    case None
    with Some show ?thesis by (simp add: delPublishersByNode_def entries_def om_get_def)
  next
    case (Some pl)
    let ?kept = "filter (\<lambda>pub. p_node pub \<noteq> n) pl"
    let ?mp = "if ?kept = [] then om_erase u mp else om_put u ?kept mp"
    have "om_erase u mp = [] \<Longrightarrow> u' \<noteq> u \<Longrightarrow> map_of mp u' = None" by (rule om_erase_Nil_other)
    with \<open>map_of d topic = Some mp\<close> Some show ?thesis
      by (simp add: delPublishersByNode_def entries_def Let_def om_get_def)
  qed
qed

lemma ts_wf_delNode [store_laws]:
  assumes "ts_wf d"
  shows "ts_wf (fst (delPublishersByNode topic u n d))"
proof (cases "\<exists>mp pl. map_of d topic = Some mp \<and> map_of mp u = Some pl")
  case False
  then have "fst (delPublishersByNode topic u n d) = d"
    by (auto simp: delPublishersByNode_def split: option.split)
  then show ?thesis using assms by simp
next
  case True
  then obtain mp pl where *: "map_of d topic = Some mp" "map_of mp u = Some pl" by blast
  note mp = ts_wfD(2) [OF assms *(1)] and pl = pm_wfD [OF ts_wfD(2) [OF assms *(1)] *(2)]
  let ?kept = "filter (\<lambda>pub. p_node pub \<noteq> n) pl"
  have "distinct (map pub_key ?kept)" using pl(2) by (rule distinct_map_filter)
  then have "pm_wf topic (if ?kept = [] then om_erase u mp else om_put u ?kept mp)"
    using mp pl(3,4) by (auto intro: pm_wf_erase pm_wf_put)
  with * show ?thesis
    using assms by (simp add: delPublishersByNode_def Let_def ts_wf_put ts_wf_erase)
qed

lemma ts_view_delNode [store_laws]:
  assumes "ts_wf d"
  shows "ts_view (fst (delPublishersByNode topic u n d)) =
    {p \<in> ts_view d. \<not> (p_topic p = topic \<and> p_proc p = u \<and> p_node p = n)}"
  by (auto simp: ts_view_entries assms ts_wf_delNode entries_delNode split: if_splits)

lemma delNode_result_entries:
  "snd (delPublishersByNode topic u n d) \<longleftrightarrow> (\<exists>p \<in> set (entries d topic u). p_node p = n)"
proof (cases "map_of d topic")
  case (Some mp)
  then show ?thesis
    by (cases "map_of mp u")
      (simp_all add: delPublishersByNode_def Let_def entries_def om_get_def removed_some del: zero_less_diff)
qed (simp add: delPublishersByNode_def entries_def om_get_def)

lemma delNode_result:
  assumes "ts_wf d"
  shows "snd (delPublishersByNode topic u n d) \<longleftrightarrow>
    (\<exists>p \<in> ts_view d. p_topic p = topic \<and> p_proc p = u \<and> p_node p = n)"
  unfolding delNode_result_entries Bex_def ts_view_entries [OF assms]
  using entries_key [OF assms] by metis

subsection \<open>Removing a process\<close>

lemma fst_delProc_loop:
  "fst (delProc_loop u d) = filter (\<lambda>e. snd e \<noteq> []) (map (\<lambda>(t, mp). (t, om_erase u mp)) d)"
  by (induction u d rule: delProc_loop.induct) (simp_all add: Let_def split_def)

lemma snd_delProc_loop: "0 < snd (delProc_loop u d) \<longleftrightarrow> (\<exists>(t, mp) \<in> set d. om_has u mp)"
  by (induction u d rule: delProc_loop.induct) (auto simp add: Let_def split_def)

lemma map_of_delProc:
  assumes "om_wf d"
  shows "map_of (fst (delProc_loop u d)) t =
    (case map_of d t of None \<Rightarrow> None
     | Some mp \<Rightarrow> if om_erase u mp = [] then None else Some (om_erase u mp))"
  using assms
proof (induction d)
  case (Cons e d)
  obtain t' mp' where e: "e = (t', mp')" by (cases e)
  from Cons.prems e have "t' \<notin> fst ` set d" and wf: "om_wf d" by (auto simp: om_wf_Cons)
  then have "map_of d t' = None" by (simp add: map_of_eq_None_iff)
  with Cons.IH [OF wf] show ?case
    by (auto simp: e Let_def split_def split: option.splits)
qed simp

lemma om_wf_delProc: "om_wf d \<Longrightarrow> om_wf (fst (delProc_loop u d))"
  unfolding fst_delProc_loop om_wf_def sorted_wrt_map
  by (rule sorted_wrt_filter) (simp add: sorted_wrt_map split_def)

lemma ts_wf_delProc [store_laws]:
  assumes "ts_wf d"
  shows "ts_wf (fst (delPublishersByProc u d))"
  using assms ts_wfD(2) [OF assms]
  by (auto simp: delPublishersByProc_def split_def Let_def map_of_delProc om_wf_delProc pm_wf_erase
      intro!: ts_wfI split: option.splits if_splits)

lemma entries_delProc:
  assumes "om_wf d"
  shows "entries (fst (delPublishersByProc u d)) t u' = (if u' = u then [] else entries d t u')"
  using assms om_erase_Nil_other
  by (simp add: delPublishersByProc_def split_def Let_def entries_def om_get_def map_of_delProc split: option.split)
    fastforce

lemma ts_view_delProc [store_laws]:
  assumes "ts_wf d"
  shows "ts_view (fst (delPublishersByProc u d)) = {p \<in> ts_view d. p_proc p \<noteq> u}"
  using assms by (auto simp: ts_view_entries ts_wf_delProc entries_delProc split: if_splits)

lemma delProc_result:
  assumes "ts_wf d"
  shows "snd (delPublishersByProc u d) \<longleftrightarrow> (\<exists>p \<in> ts_view d. p_proc p = u)"
proof -
  have "snd (delPublishersByProc u d) \<longleftrightarrow> (\<exists>t mp. (t, mp) \<in> set d \<and> om_has u mp)"
    by (simp add: delPublishersByProc_def split_def Let_def snd_delProc_loop Bex_def)
  also have "\<dots> \<longleftrightarrow> (\<exists>t mp pl. map_of d t = Some mp \<and> map_of mp u = Some pl)"
    unfolding om_wf_lookup [OF ts_wf_om [OF assms]] om_has_def by blast
  also have "\<dots> \<longleftrightarrow> (\<exists>p \<in> ts_view d. p_proc p = u)"
  proof
    assume "\<exists>t mp pl. map_of d t = Some mp \<and> map_of mp u = Some pl"
    then obtain t mp pl where *: "map_of d t = Some mp" "map_of mp u = Some pl" by blast
    note pl = pm_wfD [OF ts_wfD(2) [OF assms *(1)] *(2)]
    obtain p where p: "p \<in> set pl" using pl(1) by (cases pl) auto
    with * have "p \<in> ts_view d" unfolding ts_view_lookup [OF assms] by blast
    with pl(4) [OF p] show "\<exists>p \<in> ts_view d. p_proc p = u" by blast
  next
    assume "\<exists>p \<in> ts_view d. p_proc p = u"
    then show "\<exists>t mp pl. map_of d t = Some mp \<and> map_of mp u = Some pl"
      unfolding Bex_def ts_view_entries [OF assms] entries_iff by metis
  qed
  finally show ?thesis .
qed

section \<open>Queries\<close>

lemma entries_nonempty:
  assumes "ts_wf d"
  shows "om_has u (om_get [] t d) \<longleftrightarrow> (\<exists>p \<in> ts_view d. p_topic p = t \<and> p_proc p = u)"
proof -
  have "om_has u (om_get [] t d) \<longleftrightarrow> entries d t u \<noteq> []"
    using pm_wfD(1) [OF ts_wfD(2) [OF assms]]
    by (force simp: om_has_def entries_def om_get_def split: option.splits)
  also have "\<dots> \<longleftrightarrow> (\<exists>p. p \<in> set (entries d t u))" by (cases "entries d t u") auto
  also have "\<dots> \<longleftrightarrow> (\<exists>p \<in> ts_view d. p_topic p = t \<and> p_proc p = u)"
    unfolding Bex_def ts_view_entries [OF assms] using entries_key [OF assms] by metis
  finally show ?thesis .
qed

lemma hasTopic_iff:
  assumes "ts_wf d"
  shows "hasTopic t d \<longleftrightarrow> (\<exists>p \<in> ts_view d. p_topic p = t)"
proof -
  have "om_has t d \<longleftrightarrow> (\<exists>u. om_has u (om_get [] t d))"
  proof (cases "map_of d t")
    case (Some mp)
    then obtain u pl where "(u, pl) \<in> set mp" using ts_wfD(1) [OF assms] by (cases mp) auto
    then have "map_of mp u \<noteq> None" by (auto simp: map_of_eq_None_iff rev_image_eqI)
    with Some show ?thesis by (auto simp: om_has_def om_get_def)
  qed (simp add: om_has_def om_get_def)
  then show ?thesis unfolding hasTopic_def entries_nonempty [OF assms] by blast
qed

lemma hasAnyPublishers_iff:
  "ts_wf d \<Longrightarrow> hasAnyPublishers t u d \<longleftrightarrow> (\<exists>p \<in> ts_view d. p_topic p = t \<and> p_proc p = u)"
  using hasTopic_iff entries_nonempty unfolding hasAnyPublishers_def by metis

lemma hasPublisher_iff: "hasPublisher a d \<longleftrightarrow> (\<exists>p \<in> ts_view d. p_addr p = a)"
  by (simp add: hasPublisher_def ts_view_def list_ex_iff split_def Bex_def) blast

lemma hasTopic_type_iff:
  assumes "ts_wf d"
  shows "hasTopic_type t y d \<longleftrightarrow>
    (\<exists>p \<in> ts_view d. p_topic p = t \<and> (m_type p = y \<or> m_type p = kGenericMessageType))"
proof -
  let ?ok = "\<lambda>p. m_type p = y \<or> m_type p = kGenericMessageType"
  have "hasTopic_type t y d \<longleftrightarrow> (\<exists>u pl. (u, pl) \<in> set (om_get [] t d) \<and> (\<exists>p \<in> set pl. ?ok p))"
    by (auto simp: hasTopic_type_def hasTopic_def om_has_def om_get_def list_ex_iff split: option.splits)
  also have "\<dots> \<longleftrightarrow> (\<exists>u. \<exists>p \<in> set (entries d t u). ?ok p)"
    unfolding om_wf_lookup [OF pm_wf_om [OF pm_wf_at [OF assms]]] Bex_def entries_iff
    by (auto simp: om_get_def split: option.splits)
  also have "\<dots> \<longleftrightarrow> (\<exists>p \<in> ts_view d. p_topic p = t \<and> ?ok p)"
    unfolding Bex_def ts_view_entries [OF assms] using entries_key [OF assms] by metis
  finally show ?thesis .
qed

lemma getPublisher_eq: "getPublisher t u n d = List.find (\<lambda>pub. p_node pub = n) (entries d t u)"
  by (cases "map_of d t"; cases "map_of (the (map_of d t)) u")
    (simp_all add: getPublisher_def entries_def om_get_def)

lemma getPublisher_Some:
  assumes "ts_wf d" "getPublisher t u n d = Some p"
  shows "p \<in> ts_view d" "p_topic p = t" "p_proc p = u" "p_node p = n"
proof -
  have "p \<in> set (entries d t u)" and n: "p_node p = n"
    using assms(2) unfolding getPublisher_eq by (auto simp: find_Some_iff)
  with entries_key [OF assms(1)] show "p \<in> ts_view d" "p_topic p = t" "p_proc p = u" "p_node p = n"
    by (auto simp: ts_view_entries [OF assms(1)])
qed

lemma getPublisher_None:
  "ts_wf d \<Longrightarrow> getPublisher t u n d = None \<longleftrightarrow>
    \<not> (\<exists>p \<in> ts_view d. p_topic p = t \<and> p_proc p = u \<and> p_node p = n)"
  unfolding getPublisher_eq find_None_iff Bex_def ts_view_entries
  using entries_key by metis

lemma getPublishers_entries:
  "om_get [] u (the (getPublishers t d)) = entries d t u" if "hasTopic t d"
  using that by (simp add: getPublishers_def entries_def)

lemma getPublishers_list:
  "concat (map (\<lambda>(u, pl). pl) (om_get [] t d)) = concat (map snd (om_get [] t d))"
  by (simp add: split_def comp_def)

subsection \<open>Listing a process\<close>

definition proc_list :: "string \<Rightarrow> 'p topic_map \<Rightarrow> 'p list" where
  "proc_list u d = concat (map (\<lambda>(t, mp). om_get [] u mp) d)"

lemma foldl_push: "om_get [] n (foldl push_by_node acc pl) = om_get [] n acc @ filter (\<lambda>p. p_node p = n) pl"
  by (induction pl arbitrary: acc) (auto simp: push_by_node_def)

lemma getPublishersByProc_fold: "getPublishersByProc u d = foldl push_by_node [] (proc_list u d)"
proof -
  have "foldl (\<lambda>pubs (t, mp). foldl push_by_node pubs (case map_of mp u of None \<Rightarrow> [] | Some pl \<Rightarrow> pl)) acc d
      = foldl push_by_node acc (proc_list u d)" for acc
    by (induction d arbitrary: acc) (auto simp: proc_list_def om_get_def)
  then show ?thesis by (simp add: getPublishersByProc_def)
qed

lemma getPublishersByNode_filter:
  "getPublishersByNode u n d = filter (\<lambda>p. p_node p = n) (proc_list u d)"
  by (induction d) (auto simp: getPublishersByNode_def proc_list_def om_get_def split: option.splits)

lemma proc_list_set:
  assumes "ts_wf d"
  shows "set (proc_list u d) = {p \<in> ts_view d. p_proc p = u}"
proof -
  have "p \<in> set (proc_list u d) \<longleftrightarrow> (\<exists>t mp. (t, mp) \<in> set d \<and> p \<in> set (om_get [] u mp))" for p
    by (auto simp: proc_list_def)
  then have "p \<in> set (proc_list u d) \<longleftrightarrow> (\<exists>t. p \<in> set (entries d t u))" for p
    unfolding om_wf_lookup [OF ts_wf_om [OF assms]] entries_iff in_om_get by blast
  then show ?thesis
    unfolding set_eq_iff mem_Collect_eq ts_view_entries [OF assms] using entries_key [OF assms] by metis
qed

lemma byProc_wf: "om_wf (foldl push_by_node acc pl)" if "om_wf acc"
  using that by (induction pl arbitrary: acc) (auto simp: push_by_node_def)

lemma byProc_set:
  assumes "ts_wf d"
  shows "(\<exists>n pl. (n, pl) \<in> set (getPublishersByProc u d) \<and> p \<in> set pl) \<longleftrightarrow> p \<in> ts_view d \<and> p_proc p = u"
proof -
  have wf: "om_wf (getPublishersByProc u d)"
    by (simp add: getPublishersByProc_fold byProc_wf)
  have "(\<exists>n pl. (n, pl) \<in> set (getPublishersByProc u d) \<and> p \<in> set pl)
      \<longleftrightarrow> (\<exists>n. p \<in> set (om_get [] n (getPublishersByProc u d)))"
    unfolding om_wf_lookup [OF wf] in_om_get
    by blast
  also have "\<dots> \<longleftrightarrow> p \<in> set (proc_list u d)"
    by (simp add: getPublishersByProc_fold foldl_push)
  finally show ?thesis by (simp add: proc_list_set [OF assms])
qed

section \<open>The contract: a set of endpoints with unique keys\<close>

datatype 'p reg_op = OpAdd 'p | OpDelNode string string string | OpDelProc string | OpClear

definition spec_op :: "'a pub_info_scheme reg_op \<Rightarrow> 'a pub_info_scheme set \<Rightarrow> 'a pub_info_scheme set" where
  "spec_op op V = (case op of
     OpAdd p \<Rightarrow> if \<exists>q \<in> V. pub_key q = pub_key p then V else insert p V
   | OpDelNode t u n \<Rightarrow> {p \<in> V. \<not> (p_topic p = t \<and> p_proc p = u \<and> p_node p = n)}
   | OpDelProc u \<Rightarrow> {p \<in> V. p_proc p \<noteq> u}
   | OpClear \<Rightarrow> {})"

definition ts_op :: "'a pub_info_scheme reg_op \<Rightarrow> 'a pub_info_scheme topic_map \<Rightarrow> 'a pub_info_scheme topic_map" where
  "ts_op op d = (case op of
     OpAdd p \<Rightarrow> fst (addPublisher p d)
   | OpDelNode t u n \<Rightarrow> fst (delPublishersByNode t u n d)
   | OpDelProc u \<Rightarrow> fst (delPublishersByProc u d)
   | OpClear \<Rightarrow> clear_storage d)"

definition op_proc :: "'a pub_info_scheme reg_op \<Rightarrow> string option" where
  "op_proc op = (case op of
     OpAdd p \<Rightarrow> Some (p_proc p) | OpDelNode t u n \<Rightarrow> Some u | OpDelProc u \<Rightarrow> Some u | OpClear \<Rightarrow> None)"

definition unique_keys :: "'a pub_info_scheme set \<Rightarrow> bool" where
  "unique_keys V \<longleftrightarrow> inj_on pub_key V"

text \<open>
  What the users of a registry (Discovery, MessageRuntime, DiscoveryObserver) rely on: the
  state stands for a set of endpoints, and every operation acts on that set as specified.
\<close>

locale endpoint_registry =
  fixes view :: "'s \<Rightarrow> 'a pub_info_scheme set"
    and invar :: "'s \<Rightarrow> bool"
    and exec :: "'a pub_info_scheme reg_op \<Rightarrow> 's \<Rightarrow> 's"
    and start :: "'s"
  assumes start_invar: "invar start"
    and start_view: "view start = {}"
    and exec_invar: "invar s \<Longrightarrow> invar (exec op s)"
    and exec_view: "invar s \<Longrightarrow> view (exec op s) = spec_op op (view s)"
begin

lemma run_invar: "invar s \<Longrightarrow> invar (fold exec ops s)"
  by (induction ops arbitrary: s) (simp_all add: exec_invar)

lemma run_view: "invar s \<Longrightarrow> view (fold exec ops s) = fold spec_op ops (view s)"
  by (induction ops arbitrary: s) (simp_all add: exec_invar exec_view)

lemma spec_unique:
  assumes "unique_keys V"
  shows "unique_keys (spec_op op V)"
proof (cases op)
  case (OpAdd p)
  show ?thesis
  proof (cases "\<exists>q \<in> V. pub_key q = pub_key p")
    case False
    then have "pub_key p \<notin> pub_key ` V" by (metis imageE)
    with False OpAdd assms show ?thesis by (auto simp: spec_op_def unique_keys_def)
  qed (use OpAdd assms in \<open>simp add: spec_op_def\<close>)
qed (use assms in \<open>auto simp: spec_op_def unique_keys_def intro: inj_on_subset\<close>)

lemma run_unique: "unique_keys (view (fold exec ops start))"
proof -
  have "unique_keys V \<Longrightarrow> unique_keys (fold spec_op ops V)" for V
    by (induction ops arbitrary: V) (simp_all add: spec_unique)
  then show ?thesis by (simp add: run_view start_invar start_view unique_keys_def)
qed

text \<open>Operations on one process leave the endpoints of every other process alone.\<close>

lemma isolation:
  assumes "invar s" "\<forall>op \<in> set ops. op_proc op = Some u"
  shows "{p \<in> view (fold exec ops s). p_proc p \<noteq> u} = {p \<in> view s. p_proc p \<noteq> u}"
proof -
  have step: "{p \<in> spec_op op V. p_proc p \<noteq> u} = {p \<in> V. p_proc p \<noteq> u}" if "op_proc op = Some u" for op V
    using that by (cases op) (auto simp: spec_op_def op_proc_def)
  have "{p \<in> fold spec_op ops V. p_proc p \<noteq> u} = {p \<in> V. p_proc p \<noteq> u}" for V
    using assms(2) by (induction ops arbitrary: V) (simp_all add: step)
  then show ?thesis by (simp add: run_view assms(1))
qed

text \<open>A process once removed stays absent until something adds it again.\<close>

lemma forgotten:
  assumes "invar s" "\<forall>op \<in> set ops. \<forall>p. op = OpAdd p \<longrightarrow> p_proc p \<noteq> u"
  shows "\<forall>p \<in> view (fold exec ops (exec (OpDelProc u) s)). p_proc p \<noteq> u"
proof -
  have "u \<notin> p_proc ` fold spec_op ops V" if "u \<notin> p_proc ` V" for V
    using assms(2) that
  proof (induction ops arbitrary: V)
    case (Cons op ops)
    have "u \<notin> p_proc ` spec_op op V"
      using Cons.prems by (cases op) (auto simp: spec_op_def)
    with Cons show ?case by simp
  qed simp
  moreover have "u \<notin> p_proc ` spec_op (OpDelProc u) (view s)" by (auto simp: spec_op_def)
  ultimately have "u \<notin> p_proc ` view (fold exec ops (exec (OpDelProc u) s))"
    by (simp add: run_view exec_invar exec_view assms(1))
  then show ?thesis by blast
qed

text \<open>The first advertisement under a key wins: a later one with other contents is ignored.\<close>

lemma first_wins:
  assumes "invar s" "pub_key q = pub_key p"
  shows "view (exec (OpAdd q) (exec (OpAdd p) s)) = view (exec (OpAdd p) s)"
proof -
  have "\<exists>r \<in> spec_op (OpAdd p) (view s). pub_key r = pub_key q"
    using assms(2) by (auto simp: spec_op_def)
  then have "spec_op (OpAdd q) (spec_op (OpAdd p) (view s)) = spec_op (OpAdd p) (view s)"
    by (simp add: spec_op_def [of "OpAdd q"])
  then show ?thesis by (simp add: exec_invar exec_view assms(1))
qed

end

interpretation tsr: endpoint_registry ts_view ts_wf ts_op "[]"
proof unfold_locales
  fix op and d :: "'a pub_info_scheme topic_map"
  assume d: "ts_wf d"
  then show "ts_wf (ts_op op d)"
    by (cases op) (simp_all add: ts_op_def clear_storage_def store_laws)
  from d show "ts_view (ts_op op d) = spec_op op (ts_view d)"
    by (cases op) (simp_all add: ts_op_def spec_op_def clear_storage_def store_laws, simp add: ts_view_def)
qed (simp_all add: ts_view_def)

end
