(* ===== verification/HandlerStorage.thy ===== *)
theory HandlerStorage
  imports TopicStorage
begin

text \<open>
  HandlerStorage<T> (include/trans/details/handler_storage.hpp), the map
  topic -> node uuid -> handler uuid -> handler, and HandlerWrapper (src/handler_wrapper.cc),
  which uses it for subscriptions. T is stored by shared_ptr: the stored value is the
  pointer (or, for handlers that never change, the handler itself). The accessors a
  template instance calls on T are arguments.
\<close>

section \<open>The storage and its operations\<close>

type_synonym 'h handler_map = "(string, 'h) omap"
type_synonym 'h node_handlers = "(string, 'h handler_map) omap"
type_synonym 'h topic_handlers = "(string, 'h node_handlers) omap"

definition hs_hasTopic :: "string \<Rightarrow> 'h topic_handlers \<Rightarrow> bool" where
  "hs_hasTopic topic d \<longleftrightarrow> om_has topic d"

definition addHandler ::
  "('h \<Rightarrow> string) \<Rightarrow> string \<Rightarrow> string \<Rightarrow> 'h \<Rightarrow> 'h topic_handlers \<Rightarrow> 'h topic_handlers" where
  "addHandler uid topic node_uuid handler d =
     (let mp = om_get [] topic d; nm = om_get [] node_uuid mp
      in om_put topic (om_put node_uuid (om_emplace (uid handler) handler nm) mp) d)"

definition getHandlers :: "string \<Rightarrow> 'h topic_handlers \<Rightarrow> 'h node_handlers option" where
  "getHandlers topic d = map_of d topic"

definition all_handlers :: "'h node_handlers \<Rightarrow> 'h list" where
  "all_handlers mp = concat (map (\<lambda>(node_uuid, node_map). map snd node_map) mp)"

definition getFirstHandler_types ::
  "('h \<Rightarrow> string) \<Rightarrow> ('h \<Rightarrow> string) \<Rightarrow> string \<Rightarrow> string \<Rightarrow> string \<Rightarrow> 'h topic_handlers \<Rightarrow> 'h option" where
  "getFirstHandler_types req_of rep_of topic req_type rep_type d =
     (case map_of d topic of
        None \<Rightarrow> None
      | Some mp \<Rightarrow> List.find (\<lambda>h. req_type = req_of h \<and> rep_type = rep_of h) (all_handlers mp))"

definition getFirstHandler_msg ::
  "('h \<Rightarrow> string) \<Rightarrow> string \<Rightarrow> string \<Rightarrow> 'h topic_handlers \<Rightarrow> 'h option" where
  "getFirstHandler_msg type_of_h topic mtype d =
     (case map_of d topic of
        None \<Rightarrow> None
      | Some mp \<Rightarrow> List.find (\<lambda>h. mtype = type_of_h h) (all_handlers mp))"

definition getHandler :: "string \<Rightarrow> string \<Rightarrow> string \<Rightarrow> 'h topic_handlers \<Rightarrow> 'h option" where
  "getHandler topic node_uuid handler_uuid d =
     (case map_of d topic of
        None \<Rightarrow> None
      | Some mp \<Rightarrow> (case map_of mp node_uuid of
          None \<Rightarrow> None
        | Some nm \<Rightarrow> map_of nm handler_uuid))"

definition hasHandlersForTopic :: "string \<Rightarrow> 'h topic_handlers \<Rightarrow> bool" where
  "hasHandlersForTopic topic d = (case map_of d topic of None \<Rightarrow> False | Some mp \<Rightarrow> mp \<noteq> [])"

definition hasHandlersForNode :: "string \<Rightarrow> string \<Rightarrow> 'h topic_handlers \<Rightarrow> bool" where
  "hasHandlersForNode topic node_uuid d =
     (case map_of d topic of None \<Rightarrow> False | Some mp \<Rightarrow> om_has node_uuid mp)"

text \<open>
  \<open>removeHandler\<close>: when the topic's map becomes empty the code erases the key \<open>topic\<close>
  from that inner map, not from \<open>data_\<close>; the model keeps that.
\<close>

definition removeHandler ::
  "string \<Rightarrow> string \<Rightarrow> string \<Rightarrow> 'h topic_handlers \<Rightarrow> 'h topic_handlers \<times> bool" where
  "removeHandler topic node_uuid req_uuid d =
     (case map_of d topic of
        None \<Rightarrow> (d, False)
      | Some mp \<Rightarrow> (case map_of mp node_uuid of
          None \<Rightarrow> (d, False)
        | Some nm \<Rightarrow>
            (let count = (if om_has req_uuid nm then 1 else 0 :: nat);
                 nm' = om_erase req_uuid nm;
                 mp1 = (if nm' = [] then om_erase node_uuid mp else om_put node_uuid nm' mp);
                 mp2 = (if mp1 = [] then om_erase topic mp1 else mp1)
             in (om_put topic mp2 d, 0 < count))))"

definition removeHandlersForNode ::
  "string \<Rightarrow> string \<Rightarrow> 'h topic_handlers \<Rightarrow> 'h topic_handlers \<times> bool" where
  "removeHandlersForNode topic node_uuid d =
     (case map_of d topic of
        None \<Rightarrow> (d, False)
      | Some mp \<Rightarrow>
          (let count = (if om_has node_uuid mp then 1 else 0 :: nat);
               mp' = om_erase node_uuid mp
           in (if mp' = [] then om_erase topic d else om_put topic mp' d, 0 < count)))"

section \<open>Well-formedness and lookup\<close>

definition nh_wf :: "('h \<Rightarrow> string) \<Rightarrow> 'h node_handlers \<Rightarrow> bool" where
  "nh_wf uid mp \<longleftrightarrow> om_wf mp \<and> (\<forall>(n, nm) \<in> set mp. nm \<noteq> [] \<and> om_wf nm \<and> (\<forall>(k, h) \<in> set nm. uid h = k))"

definition hs_wf :: "('h \<Rightarrow> string) \<Rightarrow> 'h topic_handlers \<Rightarrow> bool" where
  "hs_wf uid d \<longleftrightarrow> om_wf d \<and> (\<forall>(t, mp) \<in> set d. nh_wf uid mp)"

definition hs_tight :: "'h topic_handlers \<Rightarrow> bool" where
  "hs_tight d \<longleftrightarrow> (\<forall>(t, mp) \<in> set d. mp \<noteq> [])"

definition hlook :: "'h topic_handlers \<Rightarrow> string \<times> string \<times> string \<Rightarrow> 'h option" where
  "hlook d = (\<lambda>(t, n, k). getHandler t n k d)"

lemma nh_wfI:
  assumes "om_wf mp"
    and "\<And>n nm. map_of mp n = Some nm \<Longrightarrow> nm \<noteq> [] \<and> om_wf nm \<and> (\<forall>(k, h) \<in> set nm. uid h = k)"
  shows "nh_wf uid mp"
  unfolding nh_wf_def om_all [OF assms(1)] using assms by simp

lemma nh_wfD:
  assumes "nh_wf uid mp" "map_of mp n = Some nm"
  shows "nm \<noteq> []" "om_wf nm" "(k, h) \<in> set nm \<Longrightarrow> uid h = k"
proof -
  from assms(1) have "om_wf mp" by (simp add: nh_wf_def)
  with assms have *: "nm \<noteq> [] \<and> om_wf nm \<and> (\<forall>(k, h) \<in> set nm. uid h = k)"
    unfolding nh_wf_def om_all [OF \<open>om_wf mp\<close>] by blast
  then show "nm \<noteq> []" "om_wf nm" by simp_all
  show "(k, h) \<in> set nm \<Longrightarrow> uid h = k" using * by blast
qed

lemma nh_wf_om [simp]: "nh_wf uid mp \<Longrightarrow> om_wf mp"
  by (simp add: nh_wf_def)

lemma nh_wf_Nil [simp]: "nh_wf uid []"
  by (simp add: nh_wf_def)

lemma hs_wfI:
  assumes "om_wf d" and "\<And>t mp. map_of d t = Some mp \<Longrightarrow> nh_wf uid mp"
  shows "hs_wf uid d"
  using assms by (fastforce simp: hs_wf_def om_wf_lookup)

lemma hs_wfD: "hs_wf uid d \<Longrightarrow> map_of d t = Some mp \<Longrightarrow> nh_wf uid mp"
  by (auto simp: hs_wf_def dest!: map_of_SomeD)

lemma hs_wf_om [simp]: "hs_wf uid d \<Longrightarrow> om_wf d"
  by (simp add: hs_wf_def)

lemma hs_wf_Nil [simp, intro]: "hs_wf uid []"
  by (simp add: hs_wf_def)

lemma getHandler_get: "getHandler t n k d = map_of (om_get [] n (om_get [] t d)) k"
  by (cases "map_of d t"; cases "map_of (the (map_of d t)) n") (simp_all add: getHandler_def om_get_def)

lemma hlook_get: "hlook d (t, n, k) = map_of (om_get [] n (om_get [] t d)) k"
  by (simp add: hlook_def getHandler_get)

lemma nh_wf_put:
  assumes "nh_wf uid mp" "nm \<noteq> []" "om_wf nm" "\<forall>(k, h) \<in> set nm. uid h = k"
  shows "nh_wf uid (om_put n nm mp)"
  using assms(2-4) nh_wf_om [OF assms(1)] nh_wfD [OF assms(1)]
  by (intro nh_wfI) (auto split: if_splits)

lemma nh_wf_erase: "nh_wf uid mp \<Longrightarrow> nh_wf uid (om_erase n mp)"
  using nh_wfD by (intro nh_wfI) (fastforce split: if_splits)+

lemma hs_wf_put: "hs_wf uid d \<Longrightarrow> nh_wf uid mp \<Longrightarrow> hs_wf uid (om_put t mp d)"
  using hs_wfD by (intro hs_wfI) (auto split: if_splits)

lemma hs_wf_erase: "hs_wf uid d \<Longrightarrow> hs_wf uid (om_erase t d)"
  using hs_wfD by (intro hs_wfI) (auto split: if_splits)

lemma nh_wf_at: "hs_wf uid d \<Longrightarrow> nh_wf uid (om_get [] t d)"
  by (auto simp: om_get_def dest: hs_wfD split: option.splits)

lemma nm_at:
  assumes "hs_wf uid d"
  shows "om_wf (om_get [] n (om_get [] t d))" "(k, h) \<in> set (om_get [] n (om_get [] t d)) \<Longrightarrow> uid h = k"
proof -
  note wf = nh_wfD [OF nh_wf_at [OF assms, of t], of n]
  show "om_wf (om_get [] n (om_get [] t d))"
    by (rule om_getI) (auto intro: wf(2))
  assume "(k, h) \<in> set (om_get [] n (om_get [] t d))"
  then show "uid h = k" unfolding in_om_get using wf(3) by blast
qed

section \<open>Effect of the operations\<close>

lemma hlook_add [store_laws]:
  "hlook (addHandler uid t n h d) =
     (if hlook d (t, n, uid h) = None then (hlook d)((t, n, uid h) \<mapsto> h) else hlook d)"
proof (rule ext)
  fix x :: "string \<times> string \<times> string"
  obtain t' n' k' where x: "x = (t', n', k')" by (cases x)
  show "hlook (addHandler uid t n h d) x =
     (if hlook d (t, n, uid h) = None then (hlook d)((t, n, uid h) \<mapsto> h) else hlook d) x"
    by (auto simp: x hlook_get addHandler_def Let_def map_of_om_emplace)
qed

lemma om_emplace_nonempty [simp]: "om_emplace k v m \<noteq> []"
  by (auto simp: om_emplace_def split: option.split)

lemma set_om_emplace: "om_wf m \<Longrightarrow> set (om_emplace k v m) \<subseteq> insert (k, v) (set m)"
  by (auto simp: om_emplace_def set_om_put split: option.splits)

lemma hs_wf_add [store_laws]:
  assumes "hs_wf uid d"
  shows "hs_wf uid (addHandler uid t n h d)"
proof -
  let ?nm = "om_get [] n (om_get [] t d)"
  have "\<forall>(k, h') \<in> set (om_emplace (uid h) h ?nm). uid h' = k"
    using set_om_emplace [OF nm_at(1) [OF assms]] nm_at(2) [OF assms] by fast
  then have "nh_wf uid (om_put n (om_emplace (uid h) h ?nm) (om_get [] t d))"
    using nh_wf_at [OF assms] nm_at(1) [OF assms] by (intro nh_wf_put) auto
  then show ?thesis by (simp add: addHandler_def Let_def hs_wf_put assms)
qed

lemma removeHandler_eq:
  "removeHandler t n k d =
     (case map_of d t of None \<Rightarrow> (d, False)
      | Some mp \<Rightarrow> (case map_of mp n of None \<Rightarrow> (d, False)
        | Some nm \<Rightarrow> (om_put t (if om_erase k nm = [] then om_erase n mp else om_put n (om_erase k nm) mp) d,
            om_has k nm)))"
  by (simp add: removeHandler_def Let_def split: option.split)

lemma hlook_remove [store_laws]: "hlook (fst (removeHandler t n k d)) = (hlook d)((t, n, k) := None)"
proof (rule ext)
  fix x :: "string \<times> string \<times> string"
  obtain t' n' k' where x: "x = (t', n', k')" by (cases x)
  show "hlook (fst (removeHandler t n k d)) x = ((hlook d)((t, n, k) := None)) x"
  proof (cases "map_of d t")
    case (Some mp)
    then show ?thesis
      by (cases "map_of mp n") (auto simp: x hlook_get removeHandler_eq om_get_def om_erase_Nil_other)
  qed (simp add: x hlook_get removeHandler_eq om_get_def)
qed

lemma remove_result: "snd (removeHandler t n k d) \<longleftrightarrow> hlook d (t, n, k) \<noteq> None"
proof (cases "map_of d t")
  case (Some mp)
  then show ?thesis
    by (cases "map_of mp n") (simp_all add: hlook_get removeHandler_eq om_get_def om_has_def)
qed (simp add: hlook_get removeHandler_eq om_get_def)

lemma hs_wf_remove [store_laws]:
  assumes "hs_wf uid d"
  shows "hs_wf uid (fst (removeHandler t n k d))"
proof (cases "\<exists>mp nm. map_of d t = Some mp \<and> map_of mp n = Some nm")
  case False
  then have "fst (removeHandler t n k d) = d" by (auto simp: removeHandler_eq split: option.split)
  then show ?thesis using assms by simp
next
  case True
  then obtain mp nm where *: "map_of d t = Some mp" "map_of mp n = Some nm" by blast
  note wf = hs_wfD [OF assms *(1)] and nm = nh_wfD [OF hs_wfD [OF assms *(1)] *(2)]
  have "\<forall>(k', h) \<in> set (om_erase k nm). uid h = k'" using nm(3) by auto
  with wf nm(2) have "nh_wf uid (if om_erase k nm = [] then om_erase n mp else om_put n (om_erase k nm) mp)"
    by (auto intro: nh_wf_erase nh_wf_put)
  with * show ?thesis by (simp add: removeHandler_eq hs_wf_put assms)
qed

lemma hlook_removeNode [store_laws]:
  "hlook (fst (removeHandlersForNode t n d)) =
     (\<lambda>(t', n', k). if t' = t \<and> n' = n then None else hlook d (t', n', k))"
proof (rule ext)
  fix x :: "string \<times> string \<times> string"
  obtain t' n' k' where x: "x = (t', n', k')" by (cases x)
  show "hlook (fst (removeHandlersForNode t n d)) x =
     (case x of (t', n', k) \<Rightarrow> if t' = t \<and> n' = n then None else hlook d (t', n', k))"
  proof (cases "map_of d t")
    case (Some mp)
    have "om_erase n mp = [] \<Longrightarrow> n' \<noteq> n \<Longrightarrow> map_of mp n' = None" by (rule om_erase_Nil_other)
    with Some show ?thesis
      by (auto simp: x hlook_get removeHandlersForNode_def Let_def om_get_def split: option.split)
  qed (simp add: x hlook_get removeHandlersForNode_def om_get_def)
qed

lemma hs_wf_removeNode [store_laws]:
  assumes "hs_wf uid d"
  shows "hs_wf uid (fst (removeHandlersForNode t n d))"
proof (cases "map_of d t")
  case (Some mp)
  then show ?thesis
    by (simp add: removeHandlersForNode_def Let_def hs_wf_put hs_wf_erase nh_wf_erase hs_wfD [OF assms] assms)
qed (simp add: removeHandlersForNode_def assms)

lemma removeNode_result:
  assumes "hs_wf uid d"
  shows "snd (removeHandlersForNode t n d) \<longleftrightarrow> (\<exists>k. hlook d (t, n, k) \<noteq> None)"
proof (cases "map_of d t")
  case (Some mp)
  show ?thesis
  proof (cases "map_of mp n")
    case nm: (Some nm)
    have "nm \<noteq> []" using nh_wfD(1) [OF hs_wfD [OF assms Some] nm] .
    then obtain k h where "map_of nm k = Some h" using om_nonempty by blast
    with Some nm show ?thesis
      by (auto simp: removeHandlersForNode_def Let_def hlook_get om_get_def om_has_def)
  qed (use Some in \<open>simp add: removeHandlersForNode_def Let_def hlook_get om_get_def om_has_def\<close>)
qed (simp add: removeHandlersForNode_def hlook_get om_get_def)

section \<open>Queries\<close>

lemma in_all_handlers:
  assumes "nh_wf uid mp"
  shows "h \<in> set (all_handlers mp) \<longleftrightarrow> (\<exists>n k. map_of (om_get [] n mp) k = Some h)"
proof -
  have "h \<in> set (all_handlers mp) \<longleftrightarrow> (\<exists>e \<in> set mp. h \<in> snd ` set (snd e))"
    by (simp add: all_handlers_def split_def)
  also have "\<dots> \<longleftrightarrow> (\<exists>n nm k. (n, nm) \<in> set mp \<and> (k, h) \<in> set nm)"
    by (simp add: Bex_def image_iff split_paired_Ex)
  also have "\<dots> \<longleftrightarrow> (\<exists>n nm k. map_of mp n = Some nm \<and> (k, h) \<in> set nm)"
    unfolding om_wf_lookup [OF nh_wf_om [OF assms]] ..
  also have "\<dots> \<longleftrightarrow> (\<exists>n nm k. map_of mp n = Some nm \<and> map_of nm k = Some h)"
    by (intro iff_exI conj_cong refl om_wf_lookup nh_wfD(2) [OF assms])
  also have "\<dots> \<longleftrightarrow> (\<exists>n k. map_of (om_get [] n mp) k = Some h)"
    unfolding look_om_get by blast
  finally show ?thesis .
qed

lemma hasHandlersForTopic_iff:
  assumes "hs_wf uid d"
  shows "hasHandlersForTopic t d \<longleftrightarrow> (\<exists>n k. hlook d (t, n, k) \<noteq> None)"
proof -
  have "hasHandlersForTopic t d \<longleftrightarrow> om_get [] t d \<noteq> []"
    by (cases "map_of d t") (simp_all add: hasHandlersForTopic_def om_get_def)
  also have "\<dots> \<longleftrightarrow> (\<exists>n k. map_of (om_get [] n (om_get [] t d)) k \<noteq> None)"
  proof
    assume "om_get [] t d \<noteq> []"
    then obtain n nm where nm: "map_of (om_get [] t d) n = Some nm" using om_nonempty by blast
    then have "nm \<noteq> []" by (rule nh_wfD(1) [OF nh_wf_at [OF assms]])
    then obtain k h where "map_of nm k = Some h" using om_nonempty by blast
    with nm show "\<exists>n k. map_of (om_get [] n (om_get [] t d)) k \<noteq> None"
      unfolding look_om_get not_None_eq by blast
  qed auto
  finally show ?thesis by (simp add: hlook_get)
qed

lemma find_handler:
  assumes "hs_wf uid d"
  shows "(case map_of d t of None \<Rightarrow> None | Some mp \<Rightarrow> List.find P (all_handlers mp)) = Some h \<Longrightarrow>
      P h \<and> (\<exists>n k. hlook d (t, n, k) = Some h)"
    and "(case map_of d t of None \<Rightarrow> None | Some mp \<Rightarrow> List.find P (all_handlers mp)) = None \<longleftrightarrow>
      (\<forall>n k h. hlook d (t, n, k) = Some h \<longrightarrow> \<not> P h)"
proof -
  have eq: "(case map_of d t of None \<Rightarrow> None | Some mp \<Rightarrow> List.find P (all_handlers mp)) =
      List.find P (all_handlers (om_get [] t d))"
    by (cases "map_of d t") (simp_all add: om_get_def all_handlers_def)
  note mem = in_all_handlers [OF nh_wf_at [OF assms], of _ t, folded hlook_get]
  show "(case map_of d t of None \<Rightarrow> None | Some mp \<Rightarrow> List.find P (all_handlers mp)) = Some h \<Longrightarrow>
      P h \<and> (\<exists>n k. hlook d (t, n, k) = Some h)"
    unfolding eq using mem by (metis find_Some_iff nth_mem)
  show "(case map_of d t of None \<Rightarrow> None | Some mp \<Rightarrow> List.find P (all_handlers mp)) = None \<longleftrightarrow>
      (\<forall>n k h. hlook d (t, n, k) = Some h \<longrightarrow> \<not> P h)"
    unfolding eq find_None_iff using mem by blast
qed

lemma getFirst_types:
  assumes "hs_wf uid d"
  shows "getFirstHandler_types rqf rpf t rq rp d = Some h \<Longrightarrow>
      rqf h = rq \<and> rpf h = rp \<and> (\<exists>n k. hlook d (t, n, k) = Some h)"
    and "getFirstHandler_types rqf rpf t rq rp d = None \<longleftrightarrow>
      (\<forall>n k h. hlook d (t, n, k) = Some h \<longrightarrow> \<not> (rqf h = rq \<and> rpf h = rp))"
  unfolding getFirstHandler_types_def find_handler(2) [OF assms]
  by (auto dest!: find_handler(1) [OF assms])

lemma getFirst_msg:
  assumes "hs_wf uid d"
  shows "getFirstHandler_msg tyf t y d = Some h \<Longrightarrow>
      tyf h = y \<and> (\<exists>n k. hlook d (t, n, k) = Some h)"
    and "getFirstHandler_msg tyf t y d = None \<longleftrightarrow>
      (\<forall>n k h. hlook d (t, n, k) = Some h \<longrightarrow> tyf h \<noteq> y)"
  unfolding getFirstHandler_msg_def find_handler(2) [OF assms]
  by (auto dest!: find_handler(1) [OF assms])

section \<open>The contract: a partial map from (topic, node, handler uuid)\<close>

datatype 'h h_op = HAdd string string 'h | HRem string string string | HRemNode string string

definition spec_hop ::
  "('h \<Rightarrow> string) \<Rightarrow> 'h h_op \<Rightarrow> (string \<times> string \<times> string \<Rightarrow> 'h option) \<Rightarrow> (string \<times> string \<times> string \<Rightarrow> 'h option)" where
  "spec_hop uid op L = (case op of
     HAdd t n h \<Rightarrow> if L (t, n, uid h) = None then L((t, n, uid h) \<mapsto> h) else L
   | HRem t n k \<Rightarrow> L((t, n, k) := None)
   | HRemNode t n \<Rightarrow> (\<lambda>(t', n', k). if t' = t \<and> n' = n then None else L (t', n', k)))"

definition hs_op :: "('h \<Rightarrow> string) \<Rightarrow> 'h h_op \<Rightarrow> 'h topic_handlers \<Rightarrow> 'h topic_handlers" where
  "hs_op uid op d = (case op of
     HAdd t n h \<Rightarrow> addHandler uid t n h d
   | HRem t n k \<Rightarrow> fst (removeHandler t n k d)
   | HRemNode t n \<Rightarrow> fst (removeHandlersForNode t n d))"

definition hop_at :: "'h h_op \<Rightarrow> string \<times> string" where
  "hop_at op = (case op of HAdd t n h \<Rightarrow> (t, n) | HRem t n k \<Rightarrow> (t, n) | HRemNode t n \<Rightarrow> (t, n))"

definition keyed_by :: "('h \<Rightarrow> string) \<Rightarrow> (string \<times> string \<times> string \<Rightarrow> 'h option) \<Rightarrow> bool" where
  "keyed_by uid L \<longleftrightarrow> (\<forall>x h. L x = Some h \<longrightarrow> uid h = snd (snd x))"

lemma keyed_step: "keyed_by uid L \<Longrightarrow> keyed_by uid (spec_hop uid op L)"
  by (cases op) (auto simp: spec_hop_def keyed_by_def)

lemma keyed_empty: "keyed_by uid Map.empty"
  by (simp add: keyed_by_def)

locale handler_registry =
  fixes look :: "'s \<Rightarrow> string \<times> string \<times> string \<Rightarrow> 'h option"
    and uid :: "'h \<Rightarrow> string"
    and invar :: "'s \<Rightarrow> bool"
    and exec :: "'h h_op \<Rightarrow> 's \<Rightarrow> 's"
    and start :: "'s"
  assumes start_invar: "invar start"
    and start_look: "look start = Map.empty"
    and exec_invar: "invar s \<Longrightarrow> invar (exec op s)"
    and exec_look: "look (exec op s) = spec_hop uid op (look s)"
begin

lemma run_invar: "invar s \<Longrightarrow> invar (fold exec ops s)"
  by (induction ops arbitrary: s) (simp_all add: exec_invar)

lemma run_look: "look (fold exec ops s) = fold (spec_hop uid) ops (look s)"
  by (induction ops arbitrary: s) (simp_all add: exec_look)

text \<open>Handlers are found under their own uuid.\<close>

lemma run_keyed: "look (fold exec ops start) (t, n, k) = Some h \<Longrightarrow> uid h = k"
proof -
  have "keyed_by uid L \<Longrightarrow> keyed_by uid (fold (spec_hop uid) ops L)" for L
    by (induction ops arbitrary: L) (simp_all add: keyed_step)
  from this [OF keyed_empty] have "keyed_by uid (look (fold exec ops start))"
    by (simp only: run_look start_look)
  then show "look (fold exec ops start) (t, n, k) = Some h \<Longrightarrow> uid h = k"
    unfolding keyed_by_def by fastforce
qed

text \<open>Operations at other (topic, node) pairs do not touch a handler.\<close>

lemma frame:
  assumes "(t, n) \<notin> hop_at ` set ops"
  shows "look (fold exec ops s) (t, n, k) = look s (t, n, k)"
proof -
  have "fold (spec_hop uid) ops L (t, n, k) = L (t, n, k)" for L
    using assms
  proof (induction ops arbitrary: L)
    case (Cons op ops)
    have "spec_hop uid op L (t, n, k) = L (t, n, k)"
      using Cons.prems by (cases op) (auto simp: spec_hop_def hop_at_def)
    with Cons show ?case by simp
  qed simp
  then show ?thesis by (simp add: run_look)
qed

lemma add_then_found:
  "look s (t, n, uid h) = None \<Longrightarrow> look (exec (HAdd t n h) s) (t, n, uid h) = Some h"
  by (simp add: exec_look spec_hop_def)

end

interpretation hsr: handler_registry hlook uid "hs_wf uid" "hs_op uid" "[]"
  for uid :: "'h \<Rightarrow> string"
proof unfold_locales
  fix op and d :: "'h topic_handlers"
  show "hs_wf uid d \<Longrightarrow> hs_wf uid (hs_op uid op d)"
    by (cases op) (simp_all add: hs_op_def store_laws)
  show "hlook (hs_op uid op d) = spec_hop uid op (hlook d)"
    by (cases op) (simp_all add: hs_op_def spec_hop_def store_laws)
qed (auto simp: hlook_get)

subsection \<open>No empty topic, without removeHandler\<close>

lemma hs_tight_lookup:
  assumes "om_wf d"
  shows "hs_tight d \<longleftrightarrow> (\<forall>t mp. map_of d t = Some mp \<longrightarrow> mp \<noteq> [])"
  unfolding hs_tight_def by (rule om_all [OF assms])

lemma tight_add: "hs_wf uid d \<Longrightarrow> hs_tight d \<Longrightarrow> hs_tight (addHandler uid t n h d)"
  using hs_wf_add [of uid d t n h]
  by (auto simp: hs_tight_lookup addHandler_def Let_def split: if_splits)

lemma tight_removeNode: "hs_wf uid d \<Longrightarrow> hs_tight d \<Longrightarrow> hs_tight (fst (removeHandlersForNode t n d))"
  using hs_wf_removeNode [of uid d t n]
  by (auto simp: hs_tight_lookup removeHandlersForNode_def Let_def split: if_splits option.splits)

lemma tight_hasTopic:
  assumes "hs_wf uid d" "hs_tight d"
  shows "hs_hasTopic t d \<longleftrightarrow> hasHandlersForTopic t d"
  using assms(2) unfolding hs_tight_lookup [OF hs_wf_om [OF assms(1)]]
  by (auto simp: hs_hasTopic_def hasHandlersForTopic_def om_has_def split: option.split)

section \<open>Subscription handlers and HandlerWrapper\<close>

record sub_handler =
  sh_uuid :: string
  sh_node :: string
  sh_type :: string
  sh_cb :: bool

type_synonym subscribers = "sub_handler topic_handlers"

definition hasSubscriber_type :: "string \<Rightarrow> string \<Rightarrow> subscribers \<Rightarrow> bool" where
  "hasSubscriber_type topic mtype d \<longleftrightarrow> getFirstHandler_msg sh_type topic mtype d \<noteq> None"

definition hasSubscriber :: "string \<Rightarrow> subscribers \<Rightarrow> bool" where
  "hasSubscriber topic d \<longleftrightarrow> hasHandlersForTopic topic d"

definition getNodeUuids :: "string \<Rightarrow> string \<Rightarrow> subscribers \<Rightarrow> string list" where
  "getNodeUuids topic mtype d =
     (let handlers = (case getHandlers topic d of None \<Rightarrow> [] | Some m \<Rightarrow> m)
      in map sh_node (filter (\<lambda>h. sh_type h = mtype \<or> sh_type h = kGenericMessageType)
           (all_handlers handlers)))"

definition hw_removeHandlersForNode :: "string \<Rightarrow> string \<Rightarrow> subscribers \<Rightarrow> subscribers \<times> bool" where
  "hw_removeHandlersForNode topic node_uuid d = removeHandlersForNode topic node_uuid d"

text \<open>\<open>createMsg\<close>: a parse failure is logged and the message, as far as parsed, is returned.\<close>

definition sub_createMsg :: "(string \<Rightarrow> 'm \<times> bool) \<Rightarrow> string \<Rightarrow> 'm option" where
  "sub_createMsg parse data = (let (msg, ok) = parse data in Some msg)"

text \<open>\<open>runLocalCallback\<close>: the calls made of user code, as a list, and the result.\<close>

definition sub_runLocalCallback ::
  "sub_handler \<Rightarrow> 'm \<Rightarrow> string \<Rightarrow> string \<Rightarrow> (string \<times> 'm \<times> string \<times> string) list \<times> bool" where
  "sub_runLocalCallback h msg topic mtype =
     (if \<not> sh_cb h then ([], False) else ([(sh_uuid h, msg, topic, mtype)], True))"

lemma hasSubscriber_iff:
  "hs_wf sh_uuid d \<Longrightarrow> hasSubscriber t d \<longleftrightarrow> (\<exists>n k. hlook d (t, n, k) \<noteq> None)"
  unfolding hasSubscriber_def by (rule hasHandlersForTopic_iff)

lemma hasSubscriber_type_iff:
  assumes "hs_wf sh_uuid d"
  shows "hasSubscriber_type t y d \<longleftrightarrow> (\<exists>n k h. hlook d (t, n, k) = Some h \<and> sh_type h = y)"
  using getFirst_msg(2) [OF assms, of sh_type t y] by (auto simp: hasSubscriber_type_def)

lemma getNodeUuids_set:
  assumes "hs_wf sh_uuid d"
  shows "set (getNodeUuids t y d) =
    {sh_node h |h. (\<exists>n k. hlook d (t, n, k) = Some h) \<and> (sh_type h = y \<or> sh_type h = kGenericMessageType)}"
proof -
  have "(case getHandlers t d of None \<Rightarrow> [] | Some m \<Rightarrow> m) = om_get [] t d"
    by (simp add: getHandlers_def om_get_def)
  moreover note in_all_handlers [OF nh_wf_at [OF assms], of _ t, folded hlook_get]
  ultimately show ?thesis by (auto simp: getNodeUuids_def)
qed

end
