(* ===== verification/Discovery.thy ===== *)
theory Discovery
  imports TopicStorage
begin

text \<open>
  Discovery<Pub> (include/trans/details/discovery.hpp) with the host lookup it starts from
  (include/trans/details/net_utils.hpp): one process' view of the endpoints on the
  network. Every operation is a function from the state (and what the operating system
  answered) to the new state and the list of what it did: messages put on the multicast
  group and callbacks invoked, in order. The template parameter is the record
  \<open>pub_class\<close>; serialisation of the protobuf message and \<open>inet_pton\<close> are parameters.
\<close>

section \<open>Host and interface lookup\<close>

datatype addr_family = AF_NONE | AF_INET | AF_INET6 | AF_OTHER

record iface =
  if_family :: addr_family
  if_numeric :: "string option"
  if_multicast :: bool
  if_up :: bool

text \<open>\<open>AF_NONE\<close> is an entry without address, \<open>if_numeric\<close> what \<open>getnameinfo\<close> answered.\<close>

definition iface_ip :: "iface \<Rightarrow> string option" where
  "iface_ip i =
     (if if_family i \<noteq> AF_INET \<and> if_family i \<noteq> AF_INET6 then None
      else (case if_numeric i of
          None \<Rightarrow> None
        | Some ip \<Rightarrow>
            if ip = ''127.0.0.1'' \<or> CHR '':'' \<in> set ip then None
            else if \<not> if_multicast i then None
            else if \<not> if_up i then None
            else Some ip))"

fun collect_ifaces :: "string list \<Rightarrow> iface list \<Rightarrow> string list" where
  "collect_ifaces result [] = result"
| "collect_ifaces result (i # is) =
     (case iface_ip i of
        None \<Rightarrow> collect_ifaces result is
      | Some ip \<Rightarrow> collect_ifaces
          (if ip \<noteq> [] \<and> ip \<notin> set result then result @ [ip] else result) is)"

text \<open>\<open>None\<close>: \<open>getifaddrs\<close> failed and the function throws.\<close>

definition determineInterfaces :: "iface list option \<Rightarrow> string list option" where
  "determineInterfaces ifs = (case ifs of
     None \<Rightarrow> None
   | Some l \<Rightarrow> Some (let result = collect_ifaces [] l in if result = [] then [''127.0.0.1''] else result))"

definition determineHost :: "string option \<Rightarrow> iface list option \<Rightarrow> string option" where
  "determineHost rf_host_ip ifs =
     (case rf_host_ip of
        Some (c # s) \<Rightarrow> Some (c # s)
      | _ \<Rightarrow> (case determineInterfaces ifs of
          None \<Rightarrow> None
        | Some l \<Rightarrow> (case List.find (\<lambda>ip. ip \<noteq> ''127.0.0.1'') l of
            Some ip \<Rightarrow> Some ip
          | None \<Rightarrow> Some (hd l))))"

section \<open>State\<close>

definition kDefActivityInterval :: u32 where "kDefActivityInterval = 200"
definition kDefHeartbeatInterval :: u32 where "kDefHeartbeatInterval = 1000"
definition kDefSilenceInterval :: u32 where "kDefSilenceInterval = 3000"
definition kTimeout :: int where "kTimeout = 250"
definition kWireVersion :: u32 where "kWireVersion = 0"
definition kMaxRcvStr :: nat where "kMaxRcvStr = 65535"

text \<open>
  Time points are nanoseconds of the steady clock. A callback is a flag: whether one is
  installed; that it runs is an event. The atomics and the fields under the mutex are one
  record: each operation below reads and writes them in the code's order.
\<close>

record 'p disc =
  d_group :: string
  d_port :: int
  d_mcast :: "u32 \<times> u16"
  d_proc :: string
  d_pname :: string
  d_host :: string
  d_socks :: "nat list"
  d_silence :: u32
  d_activity :: u32
  d_heartbeat :: u32
  d_conn :: bool
  d_disc :: bool
  d_reg :: bool
  d_unreg :: bool
  d_pubs :: "'p topic_map"
  d_seen :: "(string, int) omap"
  d_next_hb :: int
  d_next_act :: int
  d_enabled :: bool
  d_exit :: bool
  d_thread :: bool

datatype 'p disc_ev =
    Multicast disc_msg
  | Connected 'p
  | Disconnected 'p
  | Registered 'p
  | Unregistered 'p

section \<open>Construction\<close>

datatype init_error = InvalidPort | InvalidGroup | HostLookupFailed | InitFailed string

record net_io =
  io_host_ip :: "string option"
  io_ifs :: "iface list option"
  io_pname :: string
  io_sock :: "nat option"
  io_mcast_if :: bool
  io_member :: bool
  io_reuseaddr :: bool
  io_reuseport :: bool
  io_bind :: bool

definition registerNetIface :: "net_io \<Rightarrow> 'p disc \<Rightarrow> 'p disc \<times> bool" where
  "registerNetIface io d = (case io_sock io of
     None \<Rightarrow> (d, False)
   | Some sock \<Rightarrow>
       if \<not> io_mcast_if io then (d, False)
       else if \<not> io_member io then (d, False)
       else (d\<lparr>d_socks := d_socks d @ [sock]\<rparr>, True))"

definition new_disc :: "string \<Rightarrow> string \<Rightarrow> int \<Rightarrow> string \<Rightarrow> 'p disc" where
  "new_disc p_uuid ip port pname = \<lparr>d_group = ip, d_port = port, d_mcast = (0, 0), d_proc = p_uuid,
     d_pname = pname, d_host = [], d_socks = [], d_silence = kDefSilenceInterval,
     d_activity = kDefActivityInterval, d_heartbeat = kDefHeartbeatInterval, d_conn = False,
     d_disc = False, d_reg = False, d_unreg = False, d_pubs = [], d_seen = [], d_next_hb = 0,
     d_next_act = 0, d_enabled = False, d_exit = False, d_thread = False\<rparr>"

unbundle bit_operations_syntax

text \<open>\<open>pton\<close> is \<open>inet_pton\<close> for IPv4, giving the address in host order.\<close>

definition mkDiscovery ::
  "(string \<Rightarrow> u32 option) \<Rightarrow> net_io \<Rightarrow> string \<Rightarrow> string \<Rightarrow> int \<Rightarrow> string \<Rightarrow> init_error + 'p disc" where
  "mkDiscovery pton io p_uuid ip port host_address =
     (let d0 = new_disc p_uuid ip port (io_pname io) in
      if port \<le> 0 \<or> 65535 < port then Inl InvalidPort
      else (case pton ip of
          None \<Rightarrow> Inl InvalidGroup
        | Some addr \<Rightarrow>
            if addr AND 0xf0000000 \<noteq> 0xe0000000 then Inl InvalidGroup
            else (case (if host_address = [] then determineHost (io_host_ip io) (io_ifs io)
                        else Some host_address) of
                None \<Rightarrow> Inl HostLookupFailed
              | Some host \<Rightarrow>
                  (case registerNetIface io (d0\<lparr>d_host := host\<rparr>) of
                     (d1, ok) \<Rightarrow>
                       if \<not> ok then Inl (InitFailed (''failed to configure multicast interface '' @ host))
                       else if \<not> io_reuseaddr io then Inl (InitFailed ''failed to set SO_REUSEADDR'')
                       else if \<not> io_reuseport io then Inl (InitFailed ''failed to set SO_REUSEPORT'')
                       else if \<not> io_bind io then
                         Inl (InitFailed (''failed to bind UDP port '' @ dec (nat port)))
                       else Inr (d1\<lparr>d_mcast := (addr, of_int port)\<rparr>)))))"

section \<open>Sending\<close>

text \<open>
  \<open>sendMsg\<close> is a template over the endpoint's class: its \<open>fillDiscovery\<close> and its topic are
  the arguments. The result is the message handed to \<open>sendMulticast\<close>, if any.
\<close>

definition sendMsg :: "disc_type \<Rightarrow> (disc_msg \<Rightarrow> disc_msg) \<Rightarrow> string \<Rightarrow> 'p disc \<Rightarrow> 'p disc_ev list" where
  "sendMsg t fill topic d =
     (let m0 = disc_msg_default\<lparr>dm_version := kWireVersion, dm_type := t,
            dm_process_uuid := d_proc d, dm_process_name := d_pname d\<rparr>;
          m1 = fill m0
      in case t of
           ADVERTISE \<Rightarrow> [Multicast (fill m1)]
         | UNADVERTISE \<Rightarrow> [Multicast (fill m1)]
         | NEW_CONNECTION \<Rightarrow> [Multicast (fill m1)]
         | END_CONNECTION \<Rightarrow> [Multicast (fill m1)]
         | SUBSCRIBE \<Rightarrow> [Multicast (set_sub_topic topic m1)]
         | HEARTBEAT \<Rightarrow> [Multicast m1]
         | BYE \<Rightarrow> [Multicast m1]
         | UNINITIALIZED \<Rightarrow> [])"

text \<open>A 16-bit length in network order, and the frame it heads.\<close>

definition htons :: "u16 \<Rightarrow> string" where
  "htons n = [char_of (unat n div 256), char_of (unat n mod 256)]"

definition ntohs :: "string \<Rightarrow> u16" where
  "ntohs s = of_nat (256 * of_char (s ! 0) + of_char (s ! 1))"

definition encode_frame :: "(disc_msg \<Rightarrow> string) \<Rightarrow> disc_msg \<Rightarrow> string option" where
  "encode_frame ser m =
     (let bytes = ser m in
      if kMaxRcvStr < length bytes + 2 then None
      else Some (htons (of_nat (length bytes)) @ bytes))"

datatype send_outcome = SendFull | SendTransient | SendFailed

text \<open>
  One \<open>sendto\<close> per socket: what each socket was handed. EPERM and ENOBUFS skip the socket,
  any other failure ends the loop.
\<close>

fun send_loop :: "string \<Rightarrow> (nat \<times> send_outcome) list \<Rightarrow> (nat \<times> string) list" where
  "send_loop buf [] = []"
| "send_loop buf ((sock, r) # rest) = (case r of
     SendFull \<Rightarrow> (sock, buf) # send_loop buf rest
   | SendTransient \<Rightarrow> send_loop buf rest
   | SendFailed \<Rightarrow> [])"

definition sendMulticast ::
  "(disc_msg \<Rightarrow> string) \<Rightarrow> (nat \<Rightarrow> send_outcome) \<Rightarrow> disc_msg \<Rightarrow> 'p disc \<Rightarrow> (nat \<times> string) list" where
  "sendMulticast ser outcome m d = (case encode_frame ser m of
     None \<Rightarrow> []
   | Some buf \<Rightarrow> send_loop buf (map (\<lambda>s. (s, outcome s)) (d_socks d)))"

section \<open>Local operations\<close>

definition disc_advertise ::
  "'a pub_info_scheme pub_class \<Rightarrow> 'a pub_info_scheme \<Rightarrow> 'a pub_info_scheme disc \<Rightarrow>
   'a pub_info_scheme disc \<times> 'a pub_info_scheme disc_ev list \<times> bool" where
  "disc_advertise C pub d =
     (if \<not> d_enabled d then (d, [], False)
      else (case addPublisher pub (d_pubs d) of (pubs, added) \<Rightarrow>
        if \<not> added then (d\<lparr>d_pubs := pubs\<rparr>, [], False)
        else (d\<lparr>d_pubs := pubs\<rparr>,
          (if d_conn d then [Connected pub] else []) @
          (if pc_scope C pub \<noteq> SCOPE_PROCESS then sendMsg ADVERTISE (pc_fill C pub) (p_topic pub) d else []),
          True)))"

definition disc_unadvertise ::
  "'a pub_info_scheme pub_class \<Rightarrow> string \<Rightarrow> string \<Rightarrow> 'a pub_info_scheme disc \<Rightarrow>
   'a pub_info_scheme disc \<times> 'a pub_info_scheme disc_ev list \<times> bool" where
  "disc_unadvertise C topic n_uuid d =
     (if \<not> d_enabled d then (d, [], False)
      else (case getPublisher topic (d_proc d) n_uuid (d_pubs d) of
          None \<Rightarrow> (d, [], True)
        | Some pub \<Rightarrow>
            (d\<lparr>d_pubs := fst (delPublishersByNode topic (d_proc d) n_uuid (d_pubs d))\<rparr>,
             (if pc_scope C pub \<noteq> SCOPE_PROCESS
              then sendMsg UNADVERTISE (pc_fill C pub) (p_topic pub) d else []),
             True)))"

definition disc_discover ::
  "'a pub_info_scheme pub_class \<Rightarrow> string \<Rightarrow> 'a pub_info_scheme disc \<Rightarrow>
   'a pub_info_scheme disc_ev list \<times> bool" where
  "disc_discover C topic d =
     (if \<not> d_enabled d then ([], False)
      else
        (let pub = (pc_new C)\<lparr>p_topic := topic, p_proc := d_proc d\<rparr>
         in (sendMsg SUBSCRIBE (pc_fill C pub) (p_topic pub) d @
             (case getPublishers topic (d_pubs d) of
                None \<Rightarrow> []
              | Some addresses \<Rightarrow>
                  concat (map (\<lambda>(u, nodes). concat (map (\<lambda>node.
                    if d_conn d then [Connected node] else []) nodes)) addresses)),
             True)))"

definition registerNode :: "msg_pub \<Rightarrow> 'p disc \<Rightarrow> 'p disc_ev list" where
  "registerNode pub d = sendMsg NEW_CONNECTION (fillDiscovery_msg pub) (p_topic pub) d"

definition unRegisterNode :: "msg_pub \<Rightarrow> 'p disc \<Rightarrow> 'p disc_ev list" where
  "unRegisterNode pub d = sendMsg END_CONNECTION (fillDiscovery_msg pub) (p_topic pub) d"

definition disc_getInfo :: "'p disc \<Rightarrow> 'p topic_map" where
  "disc_getInfo d = d_pubs d"

definition disc_getPublishers :: "string \<Rightarrow> 'p disc \<Rightarrow> 'p proc_map option" where
  "disc_getPublishers topic d = getPublishers topic (d_pubs d)"

definition disc_getTopicList :: "'p disc \<Rightarrow> string list" where
  "disc_getTopicList d = getTopicList (d_pubs d)"

definition getHostAddr :: "'p disc \<Rightarrow> string" where "getHostAddr d = d_host d"
definition getActivityInterval :: "'p disc \<Rightarrow> u32" where "getActivityInterval d = d_activity d"
definition setActivityInterval :: "u32 \<Rightarrow> 'p disc \<Rightarrow> 'p disc" where
  "setActivityInterval ms d = d\<lparr>d_activity := ms\<rparr>"
definition getHeartbeatInterval :: "'p disc \<Rightarrow> u32" where "getHeartbeatInterval d = d_heartbeat d"
definition setHeartbeatInterval :: "u32 \<Rightarrow> 'p disc \<Rightarrow> 'p disc" where
  "setHeartbeatInterval ms d = d\<lparr>d_heartbeat := ms\<rparr>"
definition getSilenceInterval :: "'p disc \<Rightarrow> u32" where "getSilenceInterval d = d_silence d"
definition setSilenceInterval :: "u32 \<Rightarrow> 'p disc \<Rightarrow> 'p disc" where
  "setSilenceInterval ms d = d\<lparr>d_silence := ms\<rparr>"
definition setConnectionCb :: "bool \<Rightarrow> 'p disc \<Rightarrow> 'p disc" where
  "setConnectionCb cb d = d\<lparr>d_conn := cb\<rparr>"
definition setDisconnectionCb :: "bool \<Rightarrow> 'p disc \<Rightarrow> 'p disc" where
  "setDisconnectionCb cb d = d\<lparr>d_disc := cb\<rparr>"
definition setRegistrationCb :: "bool \<Rightarrow> 'p disc \<Rightarrow> 'p disc" where
  "setRegistrationCb cb d = d\<lparr>d_reg := cb\<rparr>"
definition setUnregistrationCb :: "bool \<Rightarrow> 'p disc \<Rightarrow> 'p disc" where
  "setUnregistrationCb cb d = d\<lparr>d_unreg := cb\<rparr>"

section \<open>Receiving\<close>

definition is_sender_local :: "string \<Rightarrow> 'p disc \<Rightarrow> bool" where
  "is_sender_local from_ip d \<longleftrightarrow> from_ip = d_host d \<or> starts_with ''127.'' from_ip"

text \<open>The scope test that drops an advertisement on the receiver's side.\<close>

definition out_of_scope :: "scope \<Rightarrow> bool \<Rightarrow> bool" where
  "out_of_scope s sender_local \<longleftrightarrow> s = SCOPE_PROCESS \<or> (s = SCOPE_HOST \<and> \<not> sender_local)"

lemma in_scope: "\<not> out_of_scope s l \<longleftrightarrow> s = SCOPE_ALL \<or> s = SCOPE_HOST \<and> l"
  by (cases s) (simp_all add: out_of_scope_def)

text \<open>In the order of the scopes: what has to be exceeded to be heard, which widening keeps.\<close>

lemma out_of_scope_le: "out_of_scope s l \<longleftrightarrow> s \<le> (if l then SCOPE_PROCESS else SCOPE_HOST)"
  by (cases s) (simp_all add: out_of_scope_def less_eq_scope_def)

lemma wider_stays_in_scope: "s \<le> s' \<Longrightarrow> \<not> out_of_scope s l \<Longrightarrow> \<not> out_of_scope s' l"
  unfolding out_of_scope_le by (meson order_trans)

text \<open>
  \<open>dispatchDiscoveryMsg\<close> after a successful parse; \<open>now\<close> is the clock when the sender's
  last-seen time is stored. A type outside the schema's values is \<open>UNINITIALIZED\<close> here:
  both take the default branch.
\<close>

definition dispatch ::
  "'a pub_info_scheme pub_class \<Rightarrow> string \<Rightarrow> disc_msg \<Rightarrow> int \<Rightarrow> 'a pub_info_scheme disc \<Rightarrow>
   'a pub_info_scheme disc \<times> 'a pub_info_scheme disc_ev list" where
  "dispatch C from_ip m now d =
     (let u = dm_process_uuid m in
      if u = d_proc d then (d, [])
      else
        (let sender_local = is_sender_local from_ip d;
             d1 = d\<lparr>d_seen := om_put u now (d_seen d)\<rparr>;
             pub = pc_set C m (pc_new C)
         in (case dm_type m of
               ADVERTISE \<Rightarrow>
                 if out_of_scope (pc_scope C pub) sender_local then (d1, [])
                 else (case addPublisher pub (d_pubs d1) of (pubs, added) \<Rightarrow>
                   (d1\<lparr>d_pubs := pubs\<rparr>, if added \<and> d_conn d1 then [Connected pub] else []))
             | UNADVERTISE \<Rightarrow>
                 if out_of_scope (pc_scope C pub) sender_local then (d1, [])
                 else (d1\<lparr>d_pubs := fst (delPublishersByNode (p_topic pub) (p_proc pub) (p_node pub) (d_pubs d1))\<rparr>,
                   if d_disc d1 then [Disconnected pub] else [])
             | SUBSCRIBE \<Rightarrow>
                 if \<not> has_sub m then (d1, [])
                 else if \<not> hasAnyPublishers (sub_topic m) (d_proc d1) (d_pubs d1) then (d1, [])
                 else (case getPublishers (sub_topic m) (d_pubs d1) of
                     None \<Rightarrow> (d1, [])
                   | Some addresses \<Rightarrow>
                       (d1, concat (map (\<lambda>node.
                         if out_of_scope (pc_scope C node) sender_local then []
                         else sendMsg ADVERTISE (pc_fill C node) (p_topic node) d1)
                         (om_get [] (d_proc d1) addresses))))
             | NEW_CONNECTION \<Rightarrow> (d1, if d_reg d1 then [Registered pub] else [])
             | END_CONNECTION \<Rightarrow> (d1, if d_unreg d1 then [Unregistered pub] else [])
             | HEARTBEAT \<Rightarrow> (d1, [])
             | BYE \<Rightarrow>
                 (d1\<lparr>d_seen := om_erase u (d_seen d1), d_pubs := fst (delPublishersByProc u (d_pubs d1))\<rparr>,
                  if d_disc d1 then [Disconnected ((pc_new C)\<lparr>p_proc := u\<rparr>)] else [])
             | UNINITIALIZED \<Rightarrow> (d1, []))))"

definition dispatchDiscoveryMsg ::
  "'a pub_info_scheme pub_class \<Rightarrow> (string \<Rightarrow> disc_msg option) \<Rightarrow> string \<Rightarrow> string \<Rightarrow> int \<Rightarrow>
   'a pub_info_scheme disc \<Rightarrow> 'a pub_info_scheme disc \<times> 'a pub_info_scheme disc_ev list" where
  "dispatchDiscoveryMsg C parse from_ip bytes now d =
     (case parse bytes of None \<Rightarrow> (d, []) | Some m \<Rightarrow> dispatch C from_ip m now d)"

text \<open>
  One datagram: \<open>None\<close> when \<open>recvfrom\<close> failed, else the bytes that arrived, of which the
  buffer takes the first 65535, and the sender's address.
\<close>

definition recvDiscoveryMsg ::
  "'a pub_info_scheme pub_class \<Rightarrow> (string \<Rightarrow> disc_msg option) \<Rightarrow> (string \<times> string) option \<Rightarrow> int \<Rightarrow>
   'a pub_info_scheme disc \<Rightarrow> 'a pub_info_scheme disc \<times> 'a pub_info_scheme disc_ev list" where
  "recvDiscoveryMsg C parse dgram now d =
     (case dgram of
        None \<Rightarrow> (d, [])
      | Some (src_addr, bytes) \<Rightarrow>
          (let buf = take kMaxRcvStr bytes; received = length buf in
           if 2 \<le> received \<and> received = unat (ntohs buf) + 2
           then dispatchDiscoveryMsg C parse src_addr (drop 2 buf) now d
           else (d, [])))"

section \<open>Timers\<close>

definition ns_per_ms :: "int" where "ns_per_ms = 1000000"

text \<open>\<open>duration_cast<milliseconds>\<close> truncates towards zero.\<close>

definition to_ms :: "int \<Rightarrow> int" where
  "to_ms t = (if t < 0 then - ((- t) div ns_per_ms) else t div ns_per_ms)"

definition updateHeartbeat ::
  "'a pub_info_scheme pub_class \<Rightarrow> int \<Rightarrow> int \<Rightarrow> 'a pub_info_scheme disc \<Rightarrow>
   'a pub_info_scheme disc \<times> 'a pub_info_scheme disc_ev list" where
  "updateHeartbeat C now now2 d =
     (if now < d_next_hb d then (d, [])
      else
        (let pub = mkPublisherInfo [] [] (d_proc d) [] new_opts;
             nodes = getPublishersByProc (d_proc d) (d_pubs d)
         in (d\<lparr>d_next_hb := now2 + int (unat (d_heartbeat d)) * ns_per_ms\<rparr>,
             sendMsg HEARTBEAT (fillDiscovery pub) [] d @
             concat (map (\<lambda>(n, l). concat (map (\<lambda>node.
               if pc_scope C node \<noteq> SCOPE_PROCESS
               then sendMsg ADVERTISE (pc_fill C node) (p_topic node) d else []) l)) nodes))))"

definition expired :: "int \<Rightarrow> 'p disc \<Rightarrow> int \<Rightarrow> bool" where
  "expired now d seen \<longleftrightarrow> int (unat (d_silence d)) < to_ms (now - seen)"

fun expire_loop ::
  "(int \<Rightarrow> bool) \<Rightarrow> (string, int) omap \<Rightarrow> 'p topic_map \<Rightarrow> (string, int) omap \<times> 'p topic_map \<times> string list" where
  "expire_loop old [] pubs = ([], pubs, [])"
| "expire_loop old ((u, t) # seen) pubs =
     (if old t
      then (case expire_loop old seen (fst (delPublishersByProc u pubs)) of
          (seen', pubs', us) \<Rightarrow> (seen', pubs', u # us))
      else (case expire_loop old seen pubs of
          (seen', pubs', us) \<Rightarrow> ((u, t) # seen', pubs', us)))"

definition updateActivity ::
  "'a pub_info_scheme pub_class \<Rightarrow> int \<Rightarrow> int \<Rightarrow> 'a pub_info_scheme disc \<Rightarrow>
   'a pub_info_scheme disc \<times> 'a pub_info_scheme disc_ev list" where
  "updateActivity C now now2 d =
     (if now < d_next_act d then (d, [])
      else (case expire_loop (expired now d) (d_seen d) (d_pubs d) of (seen, pubs, us) \<Rightarrow>
        (d\<lparr>d_seen := seen, d_pubs := pubs, d_next_act := now2 + int (unat (d_activity d)) * ns_per_ms\<rparr>,
         if d_disc d then map (\<lambda>u. Disconnected ((pc_new C)\<lparr>p_proc := u\<rparr>)) us else [])))"

text \<open>The cast to a 32-bit int comes before the clamping.\<close>

definition nextTimeout :: "int \<Rightarrow> 'p disc \<Rightarrow> int" where
  "nextTimeout now d =
     (let until_hb = d_next_hb d - now; until_act = d_next_act d - now;
          t = sint (of_int (to_ms (min until_act until_hb)) :: u32);
          t2 = min t kTimeout
      in max t2 0)"

section \<open>The loop and the object's life\<close>

definition start_disc :: "int \<Rightarrow> 'p disc \<Rightarrow> 'p disc" where
  "start_disc now d = (if d_enabled d then d
     else d\<lparr>d_enabled := True, d_next_act := now, d_next_hb := now, d_thread := True\<rparr>)"

definition stop_disc :: "'p disc \<Rightarrow> 'p disc" where
  "stop_disc d = d\<lparr>d_exit := True, d_enabled := False, d_thread := False\<rparr>"

text \<open>
  One turn of the loop: what polling answered (\<open>Some\<close> when a datagram is to be read) and
  the clock at each point where it is read.
\<close>

record turn =
  tn_poll :: "(string \<times> string) option option"
  tn_recv :: int
  tn_hb :: int
  tn_hb2 :: int
  tn_act :: int
  tn_act2 :: int

definition loop_turn ::
  "'a pub_info_scheme pub_class \<Rightarrow> (string \<Rightarrow> disc_msg option) \<Rightarrow> turn \<Rightarrow> 'a pub_info_scheme disc \<Rightarrow>
   'a pub_info_scheme disc \<times> 'a pub_info_scheme disc_ev list" where
  "loop_turn C parse t d =
     (if d_exit d then (d, [])
      else
        (let (d1, e1) = (case tn_poll t of
               None \<Rightarrow> (d, [])
             | Some dgram \<Rightarrow> recvDiscoveryMsg C parse dgram (tn_recv t) d);
             (d2, e2) = updateHeartbeat C (tn_hb t) (tn_hb2 t) d1;
             (d3, e3) = updateActivity C (tn_act t) (tn_act2 t) d2
         in (d3, e1 @ e2 @ e3)))"

definition destroy_disc :: "'p disc \<Rightarrow> 'p disc \<times> 'p disc_ev list" where
  "destroy_disc d =
     (let d1 = stop_disc d; pub = mkPublisherInfo [] [] (d_proc d) [] new_opts
      in (d1\<lparr>d_socks := []\<rparr>, sendMsg BYE (fillDiscovery pub) [] d1))"

section \<open>The state as text\<close>

definition printCurrentState :: "('p \<Rightarrow> string) \<Rightarrow> int \<Rightarrow> 'p disc \<Rightarrow> string" where
  "printCurrentState show_pub now d =
     ''---------------'' @ nl @
     ''Enabled: '' @ (if d_enabled d then ''true'' else ''false'') @ nl @
     ''Discovery state'' @ nl @
     tab @ ''UUID: '' @ d_proc d @ nl @
     ''Settings'' @ nl @
     tab @ ''Activity: '' @ dec (unat (d_activity d)) @ '' ms.'' @ nl @
     tab @ ''Heartbeat: '' @ dec (unat (d_heartbeat d)) @ ''ms.'' @ nl @
     tab @ ''Silence: '' @ dec (unat (d_silence d)) @ '' ms.'' @ nl @
     ''Known information:'' @ nl @
     print_storage show_pub (d_pubs d) @
     ''Activity'' @ nl @
     (if d_seen d = [] then tab @ ''<empty>'' @ nl
      else concat (map (\<lambda>(u, t).
        tab @ u @ nl @ tab @ tab @ ''Since: '' @ show_int (to_ms (now - t)) @ '' ms. ago. '' @ nl) (d_seen d))) @
     ''---------------'' @ nl"

end
