(* ===== verification/MsgRuntime.thy ===== *)
theory MsgRuntime
  imports HandlerStorage Discovery ShmRing
begin

text \<open>
  MessageRuntime (src/message_runtime.cc, include/trans/details/message_runtime.hpp): one
  process' publish/subscribe engine. Its Discovery is part of the state, so that a call
  into it runs the callbacks the runtime installed. The shared-memory objects of the host
  are a second state, \<open>shm_os\<close>. What leaves the process (multicast messages, socket
  operations, user callbacks) is a list of events in program order. Each method, and each
  iteration of a loop thread, is one step; the mutexes make their parts atomic.
\<close>

section \<open>State\<close>

datatype sub_cmd_type = CmdConnect | CmdSubscribe | CmdUnsubscribe

record sub_cmd =
  sc_type :: sub_cmd_type
  sc_value :: string
  sc_regs :: "msg_pub list"

record 'm pub_details =
  pd_handlers :: "sub_handler list"
  pd_msg :: 'm
  pd_topic :: string
  pd_type :: string
  pd_node :: string

record remote_msg =
  rm_topic :: string
  rm_sender :: string
  rm_data :: string
  rm_type :: string
  rm_is_shm :: bool

record 'm msg_rt =
  mr_disc :: "msg_pub disc"
  mr_uuid :: string
  mr_host :: string
  mr_addr :: string
  mr_init :: bool
  mr_started :: bool
  mr_exit :: bool
  mr_rpubs :: "msg_pub topic_map"
  mr_rsubs :: "msg_pub topic_map"
  mr_local :: subscribers
  mr_cmds :: "sub_cmd list"
  mr_localq :: "'m pub_details list"
  mr_remoteq :: "remote_msg list"
  mr_wrings :: "(string, shm_ring) omap"
  mr_rrings :: "(string, shm_ring) omap"

text \<open>
  The protobuf class behind a message: its type name, its bytes (none when serialisation
  fails) and, for a type name, parsing, which yields a message in any case and says
  whether it succeeded. These are the generated code's, a parameter.
\<close>

record 'm proto =
  pr_size :: "'m \<Rightarrow> nat"
  pr_ser :: "'m \<Rightarrow> string option"
  pr_parse :: "string \<Rightarrow> string \<Rightarrow> 'm \<times> bool"

datatype 'm rt_ev =
    EMulticast disc_msg
  | ESend "string list"
  | EConnect string
  | ESubscribe string
  | EUnsubscribe string
  | ECallback string 'm string string

text \<open>The system calls behind one shared-memory operation: which of them succeed.\<close>

record shm_sys =
  sy_open :: bool
  sy_trunc :: bool
  sy_header :: bool
  sy_mmap :: bool

definition kMsgQueueLimit :: nat where "kMsgQueueLimit = 1000"

definition new_msg_rt :: "msg_pub disc \<Rightarrow> string \<Rightarrow> 'm msg_rt" where
  "new_msg_rt disc p_uuid = \<lparr>mr_disc = disc, mr_uuid = p_uuid, mr_host = [], mr_addr = [],
     mr_init = False, mr_started = False, mr_exit = False, mr_rpubs = [], mr_rsubs = [],
     mr_local = [], mr_cmds = [], mr_localq = [], mr_remoteq = [], mr_wrings = [], mr_rrings = []\<rparr>"

section \<open>Initialisation, start and stop\<close>

text \<open>
  \<open>bound\<close> is the endpoint the PUB socket got, and whether the call after that, the receive
  limit of the SUB socket, succeeded; it is nothing when an earlier socket call threw.
\<close>

definition mr_initialize :: "(string \<times> bool) option \<Rightarrow> 'm msg_rt \<Rightarrow> 'm msg_rt \<times> bool" where
  "mr_initialize bound rt =
     (if mr_init rt then (rt, True)
      else
        (let rt1 = rt\<lparr>mr_host := getHostAddr (mr_disc rt)\<rparr>
         in (case bound of
               None \<Rightarrow> (rt1, False)
             | Some (ep, ok) \<Rightarrow> if ok then (rt1\<lparr>mr_addr := ep, mr_init := True\<rparr>, True) else (rt1\<lparr>mr_addr := ep\<rparr>, False))))"

definition any_tcp_ep :: "'m msg_rt \<Rightarrow> string" where
  "any_tcp_ep rt = ''tcp://'' @ getHostAddr (mr_disc rt) @ '':*''"

definition mr_start :: "int \<Rightarrow> 'm msg_rt \<Rightarrow> 'm msg_rt" where
  "mr_start now rt =
     (if \<not> mr_init rt \<or> mr_started rt then rt
      else rt\<lparr>mr_disc := start_disc now (setUnregistrationCb True (setRegistrationCb True
          (setDisconnectionCb True (setConnectionCb True (mr_disc rt))))),
        mr_started := True\<rparr>)"

definition mr_stop :: "'m msg_rt \<Rightarrow> 'm msg_rt" where
  "mr_stop rt =
     (if \<not> mr_started rt then rt
      else rt\<lparr>mr_exit := True,
        mr_disc := setUnregistrationCb False (setRegistrationCb False
          (setDisconnectionCb False (setConnectionCb False (mr_disc rt)))),
        mr_started := False\<rparr>)"

section \<open>Discovery callbacks\<close>

definition enqueueSubscriberCommand ::
  "sub_cmd_type \<Rightarrow> string \<Rightarrow> msg_pub list \<Rightarrow> 'm msg_rt \<Rightarrow> 'm msg_rt" where
  "enqueueSubscriberCommand t v regs rt =
     rt\<lparr>mr_cmds := mr_cmds rt @ [\<lparr>sc_type = t, sc_value = v, sc_regs = regs\<rparr>]\<rparr>"

definition onPublisherConnected :: "msg_pub \<Rightarrow> 'm msg_rt \<Rightarrow> 'm msg_rt" where
  "onPublisherConnected pub rt =
     (let topic = p_topic pub; addr = p_addr pub; remote_proc_uuid = p_proc pub in
      if \<not> hasSubscriber topic (mr_local rt) \<or> remote_proc_uuid = mr_uuid rt then rt
      else
        (let registration = pub\<lparr>p_proc := mr_uuid rt, m_ctrl := p_proc pub\<rparr>;
             registrations = map (\<lambda>n. registration\<lparr>p_node := n\<rparr>) (getNodeUuids topic (m_type pub) (mr_local rt));
             rt1 = (if \<not> hasPublisher addr (mr_rpubs rt)
               then enqueueSubscriberCommand CmdConnect addr [] rt else rt);
             rt2 = enqueueSubscriberCommand CmdSubscribe topic registrations rt1
         in rt2\<lparr>mr_rpubs := fst (addPublisher pub (mr_rpubs rt2))\<rparr>))"

definition onPublisherDisconnected :: "msg_pub \<Rightarrow> 'm msg_rt \<Rightarrow> 'm msg_rt" where
  "onPublisherDisconnected pub rt =
     (let topic = p_topic pub; remote_proc_uuid = p_proc pub; node_uuid = p_node pub in
      if topic = [] \<and> node_uuid = [] then
        rt\<lparr>mr_rsubs := fst (delPublishersByProc remote_proc_uuid (mr_rsubs rt)),
           mr_rpubs := fst (delPublishersByProc remote_proc_uuid (mr_rpubs rt))\<rparr>
      else rt\<lparr>mr_rpubs := fst (delPublishersByNode topic remote_proc_uuid node_uuid (mr_rpubs rt))\<rparr>)"

definition onSubscriberRegistered :: "msg_pub \<Rightarrow> 'm msg_rt \<Rightarrow> 'm msg_rt" where
  "onSubscriberRegistered pub rt =
     (if m_ctrl pub \<noteq> mr_uuid rt then rt
      else rt\<lparr>mr_rsubs := fst (addPublisher pub (mr_rsubs rt))\<rparr>)"

definition onSubscriberUnregistered :: "msg_pub \<Rightarrow> 'm msg_rt \<Rightarrow> 'm msg_rt" where
  "onSubscriberUnregistered pub rt =
     (if m_ctrl pub \<noteq> [] \<and> m_ctrl pub \<noteq> mr_uuid rt then rt
      else rt\<lparr>mr_rsubs := fst (delPublishersByNode (p_topic pub) (p_proc pub) (p_node pub) (mr_rsubs rt))\<rparr>)"

text \<open>What a call into Discovery did: the callbacks run here, the messages go out.\<close>

definition disc_event :: "msg_pub disc_ev \<Rightarrow> 'm msg_rt \<times> 'm rt_ev list \<Rightarrow> 'm msg_rt \<times> 'm rt_ev list" where
  "disc_event e s = (case s of (rt, out) \<Rightarrow> (case e of
     Multicast m \<Rightarrow> (rt, out @ [EMulticast m])
   | Connected p \<Rightarrow> (onPublisherConnected p rt, out)
   | Disconnected p \<Rightarrow> (onPublisherDisconnected p rt, out)
   | Registered p \<Rightarrow> (onSubscriberRegistered p rt, out)
   | Unregistered p \<Rightarrow> (onSubscriberUnregistered p rt, out)))"

definition disc_events :: "msg_pub disc_ev list \<Rightarrow> 'm msg_rt \<Rightarrow> 'm msg_rt \<times> 'm rt_ev list" where
  "disc_events es rt = fold disc_event es (rt, [])"

definition with_disc :: "msg_pub disc \<times> msg_pub disc_ev list \<Rightarrow> 'm msg_rt \<Rightarrow> 'm msg_rt \<times> 'm rt_ev list" where
  "with_disc r rt = (case r of (d, es) \<Rightarrow> disc_events es (rt\<lparr>mr_disc := d\<rparr>))"

text \<open>The discovery thread: a received message and the two timers.\<close>

definition mr_discovery_msg :: "string \<Rightarrow> disc_msg \<Rightarrow> int \<Rightarrow> 'm msg_rt \<Rightarrow> 'm msg_rt \<times> 'm rt_ev list" where
  "mr_discovery_msg from_ip m now rt = with_disc (dispatch msg_class from_ip m now (mr_disc rt)) rt"

definition mr_heartbeat :: "int \<Rightarrow> int \<Rightarrow> 'm msg_rt \<Rightarrow> 'm msg_rt \<times> 'm rt_ev list" where
  "mr_heartbeat now now2 rt = with_disc (updateHeartbeat msg_class now now2 (mr_disc rt)) rt"

definition mr_activity :: "int \<Rightarrow> int \<Rightarrow> 'm msg_rt \<Rightarrow> 'm msg_rt \<times> 'm rt_ev list" where
  "mr_activity now now2 rt = with_disc (updateActivity msg_class now now2 (mr_disc rt)) rt"

section \<open>Subscribing and advertising\<close>

definition mr_unsubscribe :: "string \<Rightarrow> string \<Rightarrow> 'm msg_rt \<Rightarrow> 'm msg_rt \<times> 'm rt_ev list \<times> bool" where
  "mr_unsubscribe topic node_uuid rt =
     (let rt1 = rt\<lparr>mr_local := fst (hw_removeHandlersForNode topic node_uuid (mr_local rt))\<rparr>;
          rt2 = (if \<not> hasSubscriber topic (mr_local rt1)
            then enqueueSubscriberCommand CmdUnsubscribe topic [] rt1 else rt1);
          addresses = (case disc_getPublishers topic (mr_disc rt2) of None \<Rightarrow> [] | Some a \<Rightarrow> a);
          (rt3, out) = disc_events (concat (map (\<lambda>(publisher_process_uuid, publishers).
            unRegisterNode (mkMessagePublisherInfo topic (mr_addr rt2) publisher_process_uuid (mr_uuid rt2)
              node_uuid kGenericMessageType new_msg_opts) (mr_disc rt2)) addresses)) rt2
      in (rt3, out, True))"

definition mr_advertise ::
  "string \<Rightarrow> string \<Rightarrow> string \<Rightarrow> adv_msg_opts \<Rightarrow> 'm msg_rt \<Rightarrow> 'm msg_rt \<times> 'm rt_ev list \<times> msg_pub \<times> bool" where
  "mr_advertise topic node_uuid mtype options rt =
     (let publisher = mkMessagePublisherInfo topic (mr_addr rt) ''unused'' (mr_uuid rt) node_uuid mtype options
      in (case disc_advertise msg_class publisher (mr_disc rt) of (d, es, ok) \<Rightarrow>
            (case with_disc (d, es) rt of (rt', out) \<Rightarrow> (rt', out, publisher, ok))))"

definition mr_subscribe :: "string \<Rightarrow> string \<Rightarrow> sub_handler \<Rightarrow> 'm msg_rt \<Rightarrow> 'm msg_rt \<times> 'm rt_ev list \<times> bool" where
  "mr_subscribe topic node_uuid handler rt =
     (let rt1 = rt\<lparr>mr_local := addHandler sh_uuid topic node_uuid handler (mr_local rt)\<rparr>
      in (case disc_discover msg_class topic (mr_disc rt1) of (es, ok) \<Rightarrow>
            (case disc_events es rt1 of (rt2, out) \<Rightarrow> (rt2, out, ok))))"

definition hasSubscribers :: "string \<Rightarrow> string \<Rightarrow> 'm msg_rt \<Rightarrow> bool" where
  "hasSubscribers topic mtype rt \<longleftrightarrow>
     hasSubscriber_type topic mtype (mr_local rt) \<or> hasTopic_type topic mtype (mr_rsubs rt)"

definition getAdvertisedTopics :: "string \<Rightarrow> 'm msg_rt \<Rightarrow> string set" where
  "getAdvertisedTopics node_uuid rt =
     p_topic ` set (getPublishersByNode (mr_uuid rt) node_uuid (disc_getInfo (mr_disc rt)))"

definition getTopics :: "'m msg_rt \<Rightarrow> string list" where
  "getTopics rt = disc_getTopicList (mr_disc rt)"

section \<open>The shared-memory rings of a process\<close>

definition writerRingFor ::
  "(string \<Rightarrow> u64) \<Rightarrow> shm_sys \<Rightarrow> string \<Rightarrow> u64 \<Rightarrow> 'm msg_rt \<Rightarrow> shm_os \<Rightarrow> 'm msg_rt \<times> shm_os \<times> shm_ring option" where
  "writerRingFor hash sys topic required_size rt os =
     (case map_of (mr_wrings rt) topic of
        Some r \<Rightarrow> (rt, os, if r_slot_size r < required_size then None else Some r)
      | None \<Rightarrow>
          (let slot_size = ((required_size + kShmGranularity - 1) div kShmGranularity) * kShmGranularity;
               (r, os', ok) = createAsWriter (sy_open sys) (sy_trunc sys) (sy_mmap sys)
                 (new_ring (makeShmName hash topic (mr_uuid rt)) slot_size kDefaultSlotCount) os
           in if \<not> ok then (rt, os', None)
              else (rt\<lparr>mr_wrings := om_put topic r (mr_wrings rt)\<rparr>, os', Some r)))"

definition readerRingFor ::
  "shm_sys \<Rightarrow> string \<Rightarrow> shm_os \<Rightarrow> 'm msg_rt \<Rightarrow> 'm msg_rt \<times> shm_ring option" where
  "readerRingFor sys name os rt =
     (case map_of (mr_rrings rt) name of
        Some r \<Rightarrow> (rt, Some r)
      | None \<Rightarrow>
          (case openAsReader (sy_open sys) (sy_header sys) (sy_mmap sys) (new_ring name 0 kDefaultSlotCount) os of
             (r, ok) \<Rightarrow>
               if \<not> ok then (rt, None)
               else (rt\<lparr>mr_rrings := om_put name r (mr_rrings rt)\<rparr>, Some r)))"

definition removeWriterRing :: "string \<Rightarrow> 'm msg_rt \<Rightarrow> shm_os \<Rightarrow> 'm msg_rt \<times> shm_os" where
  "removeWriterRing topic rt os =
     (rt\<lparr>mr_wrings := om_erase topic (mr_wrings rt)\<rparr>,
      case map_of (mr_wrings rt) topic of None \<Rightarrow> os | Some r \<Rightarrow> destroy_ring r os)"

definition mr_unadvertise ::
  "string \<Rightarrow> string \<Rightarrow> 'm msg_rt \<Rightarrow> shm_os \<Rightarrow> 'm msg_rt \<times> shm_os \<times> 'm rt_ev list \<times> bool" where
  "mr_unadvertise topic node_uuid rt os =
     (case removeWriterRing topic rt os of (rt1, os1) \<Rightarrow>
        (case disc_unadvertise msg_class topic node_uuid (mr_disc rt1) of (d, es, ok) \<Rightarrow>
           (case with_disc (d, es) rt1 of (rt2, out) \<Rightarrow> (rt2, os1, out, ok))))"

section \<open>The descriptor on the wire\<close>

text \<open>
  \<open>ShmDescriptor\<close> as the compiler lays it out on a 64-bit little-endian host: 64 bytes of
  name, a 32-bit index, 4 bytes of padding, a 64-bit sequence number, a 32-bit size and 4
  bytes of padding. The padding of the zero-initialised struct is taken as zero.
\<close>

definition sizeof_ShmDescriptor :: nat where "sizeof_ShmDescriptor = 88"

fun le_bytes :: "nat \<Rightarrow> nat \<Rightarrow> string" where
  "le_bytes 0 n = []"
| "le_bytes (Suc k) n = char_of (n mod 256) # le_bytes k (n div 256)"

fun le_value :: "string \<Rightarrow> nat" where
  "le_value [] = 0"
| "le_value (c # cs) = of_char c + 256 * le_value cs"

definition name_field :: "string \<Rightarrow> string" where
  "name_field name = (let copied = take (min (length name + 1) 63) (name @ [CHR 0x00])
     in copied @ replicate (64 - length copied) (CHR 0x00))"

definition desc_bytes :: "shm_descriptor \<Rightarrow> string" where
  "desc_bytes d = name_field (sd_name d) @ le_bytes 4 (unat (sd_index d)) @ replicate 4 (CHR 0x00) @
     le_bytes 8 (unat (sd_seq d)) @ le_bytes 4 (unat (sd_size d)) @ replicate 4 (CHR 0x00)"

definition desc_of_bytes :: "string \<Rightarrow> shm_descriptor option" where
  "desc_of_bytes s =
     (if length s \<noteq> sizeof_ShmDescriptor then None
      else Some \<lparr>sd_name = takeWhile (\<lambda>c. c \<noteq> CHR 0x00) (take 63 s),
        sd_index = of_nat (le_value (take 4 (drop 64 s))),
        sd_seq = of_nat (le_value (take 8 (drop 72 s))),
        sd_size = of_nat (le_value (take 4 (drop 80 s)))\<rparr>)"

section \<open>Publishing\<close>

text \<open>One four-part message on the PUB socket; \<open>zok\<close> says whether the sends succeed.\<close>

definition publishRemote ::
  "bool \<Rightarrow> string \<Rightarrow> string \<Rightarrow> string \<Rightarrow> 'm msg_rt \<Rightarrow> 'm rt_ev list \<times> bool" where
  "publishRemote zok topic data mtype rt =
     (if \<not> zok then ([], False) else ([ESend [topic, mr_addr rt, data, mtype]], True))"

definition put_wring :: "string \<Rightarrow> shm_ring \<Rightarrow> 'm msg_rt \<Rightarrow> 'm msg_rt" where
  "put_wring topic r rt = rt\<lparr>mr_wrings := om_put topic r (mr_wrings rt)\<rparr>"

definition publishRemoteShm ::
  "'m proto \<Rightarrow> (string \<Rightarrow> u64) \<Rightarrow> shm_sys \<Rightarrow> bool \<Rightarrow> msg_pub \<Rightarrow> 'm \<Rightarrow> 'm msg_rt \<Rightarrow> shm_os \<Rightarrow>
   fault + ('m msg_rt \<times> shm_os \<times> 'm rt_ev list \<times> bool)" where
  "publishRemoteShm P hash sys zok publisher msg rt os =
     (let topic = p_topic publisher; mtype = m_type publisher; msg_size = of_nat (pr_size P msg) :: u64
      in (case writerRingFor hash sys topic msg_size rt os of
            (rt1, os1, None) \<Rightarrow> Inr (rt1, os1, [], False)
          | (rt1, os1, Some ring) \<Rightarrow>
              (case reserveWrite msg_size ring os1 of
                 Inl f \<Rightarrow> Inl f
               | Inr (ring2, os2, None) \<Rightarrow> Inr (put_wring topic ring2 rt1, os2, [], False)
               | Inr (ring2, os2, Some rv) \<Rightarrow>
                   (case pr_ser P msg of
                      None \<Rightarrow> Inr (put_wring topic ring2 rt1, os2, [], False)
                    | Some bytes \<Rightarrow>
                        (case put_payload rv bytes ring2 os2 of
                           Inl f \<Rightarrow> Inl f
                         | Inr os3 \<Rightarrow>
                             (case commitWrite rv msg_size ring2 os3 of
                                Inl f \<Rightarrow> Inl f
                              | Inr (os4, h) \<Rightarrow>
                                  (let descriptor = \<lparr>sd_name = r_name ring2, sd_index = h_index h,
                                         sd_seq = h_seq h, sd_size = h_size h\<rparr>;
                                       tagged = kShmMsgTypeMarker # mtype;
                                       rt2 = put_wring topic ring2 rt1
                                   in if \<not> zok then Inr (rt2, os4, [], False)
                                      else Inr (rt2, os4,
                                        [ESend [topic, mr_addr rt2, desc_bytes descriptor, tagged]], True))))))))"

definition localHandlers :: "string \<Rightarrow> 'm msg_rt \<Rightarrow> sub_handler node_handlers \<times> bool" where
  "localHandlers topic rt = (case getHandlers topic (mr_local rt) of None \<Rightarrow> ([], False) | Some m \<Rightarrow> (m, True))"

text \<open>\<open>subscribers\<close>: the local handlers, whether there are any, and whether a remote one is known.\<close>

definition rt_subscribers :: "string \<Rightarrow> string \<Rightarrow> 'm msg_rt \<Rightarrow> (sub_handler node_handlers \<times> bool) \<times> bool" where
  "rt_subscribers topic mtype rt = (localHandlers topic rt, hasTopic_type topic mtype (mr_rsubs rt))"

definition enqueue_local :: "msg_pub \<Rightarrow> 'm \<Rightarrow> sub_handler node_handlers \<times> bool \<Rightarrow> 'm msg_rt \<Rightarrow> 'm msg_rt" where
  "enqueue_local publisher msg info rt =
     (if \<not> snd info then rt
      else rt\<lparr>mr_localq := mr_localq rt @
        [\<lparr>pd_handlers = filter (\<lambda>h. sh_type h = m_type publisher) (all_handlers (fst info)),
          pd_msg = msg, pd_topic = p_topic publisher, pd_type = m_type publisher,
          pd_node = p_node publisher\<rparr>]\<rparr>)"

definition mr_publish ::
  "'m proto \<Rightarrow> (string \<Rightarrow> u64) \<Rightarrow> shm_sys \<Rightarrow> bool \<Rightarrow> msg_pub \<Rightarrow> 'm \<Rightarrow> 'm msg_rt \<Rightarrow> shm_os \<Rightarrow>
   fault + ('m msg_rt \<times> shm_os \<times> 'm rt_ev list \<times> bool)" where
  "mr_publish P hash sys zok publisher msg rt os =
     (let topic = p_topic publisher; mtype = m_type publisher;
          (local_info, have_remote) = rt_subscribers topic mtype rt;
          use_shm = (opt_shm (m_opts publisher) \<and> opt_scope (m_opts publisher) = SCOPE_HOST)
      in if \<not> have_remote then Inr (enqueue_local publisher msg local_info rt, os, [], True)
         else
           (case (if use_shm then publishRemoteShm P hash sys zok publisher msg rt os
                  else Inr (rt, os, [], False)) of
              Inl f \<Rightarrow> Inl f
            | Inr (rt1, os1, out, sent_via_shm) \<Rightarrow>
                if sent_via_shm then Inr (enqueue_local publisher msg local_info rt1, os1, out, True)
                else (case pr_ser P msg of
                    None \<Rightarrow> Inr (rt1, os1, out, False)
                  | Some data \<Rightarrow>
                      (case publishRemote zok topic data mtype rt1 of
                         (out2, ok) \<Rightarrow>
                           if \<not> ok then Inr (rt1, os1, out @ out2, False)
                           else Inr (enqueue_local publisher msg local_info rt1, os1, out @ out2, True)))))"

section \<open>Local dispatch\<close>

definition call_event :: "string \<times> 'm \<times> string \<times> string \<Rightarrow> 'm rt_ev" where
  "call_event c = (case c of (uid, msg, topic, mtype) \<Rightarrow> ECallback uid msg topic mtype)"

definition run_handler :: "'m \<Rightarrow> string \<Rightarrow> string \<Rightarrow> sub_handler \<Rightarrow> 'm rt_ev list" where
  "run_handler msg topic mtype h = map call_event (fst (sub_runLocalCallback h msg topic mtype))"

definition localDispatch :: "'m msg_rt \<Rightarrow> 'm msg_rt \<times> 'm rt_ev list" where
  "localDispatch rt =
     (if mr_exit rt then (rt, [])
      else (rt\<lparr>mr_localq := []\<rparr>,
        concat (map (\<lambda>d. concat (map (run_handler (pd_msg d) (pd_topic d) (pd_type d)) (pd_handlers d)))
          (mr_localq rt))))"

section \<open>The receive thread\<close>

text \<open>\<open>zfail c\<close>: the socket call of command c throws, which is logged and skips the rest of it.\<close>

definition apply_cmd :: "(sub_cmd \<Rightarrow> bool) \<Rightarrow> sub_cmd \<Rightarrow> 'm msg_rt \<Rightarrow> 'm rt_ev list" where
  "apply_cmd zfail c rt =
     (case sc_type c of
        CmdConnect \<Rightarrow> if zfail c then [] else [EConnect (sc_value c)]
      | CmdSubscribe \<Rightarrow>
          if \<not> hasSubscriber (sc_value c) (mr_local rt) \<or> zfail c then []
          else ESubscribe (sc_value c) #
            snd (disc_events (concat (map (\<lambda>r. registerNode r (mr_disc rt)) (sc_regs c))) rt)
      | CmdUnsubscribe \<Rightarrow>
          if hasSubscriber (sc_value c) (mr_local rt) \<or> zfail c then []
          else [EUnsubscribe (sc_value c)])"

definition applySubscriberCommands :: "(sub_cmd \<Rightarrow> bool) \<Rightarrow> 'm msg_rt \<Rightarrow> 'm msg_rt \<times> 'm rt_ev list" where
  "applySubscriberCommands zfail rt =
     (rt\<lparr>mr_cmds := []\<rparr>, concat (map (\<lambda>c. apply_cmd zfail c (rt\<lparr>mr_cmds := []\<rparr>)) (mr_cmds rt)))"

text \<open>
  The parts successive \<open>recv\<close> calls yield, up to the first that fails; parts after the
  fourth stay in the socket for the next turn.
\<close>

definition receiveMessage :: "string list \<Rightarrow> 'm msg_rt \<Rightarrow> 'm msg_rt" where
  "receiveMessage frames rt =
     (case frames of
        topic # sender # data # t # _ \<Rightarrow>
          (let is_shm = (t \<noteq> [] \<and> hd t = kShmMsgTypeMarker);
               msg = \<lparr>rm_topic = topic, rm_sender = sender, rm_data = data,
                 rm_type = (if is_shm then tl t else t), rm_is_shm = is_shm\<rparr>;
               q = mr_remoteq rt @ [msg]
           in rt\<lparr>mr_remoteq := (if kMsgQueueLimit < length q then tl q else q)\<rparr>)
      | _ \<Rightarrow> rt)"

definition receive_turn :: "(sub_cmd \<Rightarrow> bool) \<Rightarrow> string list option \<Rightarrow> 'm msg_rt \<Rightarrow> 'm msg_rt \<times> 'm rt_ev list" where
  "receive_turn zfail polled rt =
     (if mr_exit rt then (rt, [])
      else (case applySubscriberCommands zfail rt of (rt1, out) \<Rightarrow>
        (case polled of None \<Rightarrow> rt1 | Some frames \<Rightarrow> receiveMessage frames rt1, out)))"

section \<open>Remote dispatch\<close>

text \<open>
  The two nested loops over the handlers: the first handler of the message's type parses
  it, all of them are handed the result; a failed parse or an overwritten slot
  (\<open>valid\<close> is false) ends both loops.
\<close>

fun deliver ::
  "'m proto \<Rightarrow> string \<Rightarrow> string \<Rightarrow> string \<Rightarrow> bool \<Rightarrow> sub_handler list \<Rightarrow> 'm option \<Rightarrow> 'm rt_ev list" where
  "deliver P topic mtype payload valid [] msg = []"
| "deliver P topic mtype payload valid (h # hs) msg =
     (if sh_type h \<noteq> mtype then deliver P topic mtype payload valid hs msg
      else (case msg of
          Some m \<Rightarrow> run_handler m topic mtype h @ deliver P topic mtype payload valid hs msg
        | None \<Rightarrow>
            (case sub_createMsg (pr_parse P (sh_type h)) payload of
               None \<Rightarrow> []
             | Some m \<Rightarrow>
                 if \<not> valid then []
                 else run_handler m topic mtype h @ deliver P topic mtype payload valid hs (Some m))))"

text \<open>
  One message. The memory is \<open>os\<close> when the slot is looked at and parsed, \<open>os'\<close> when the
  sequence number is checked again; without a handler of the type neither is done.
\<close>

definition dispatch_message ::
  "'m proto \<Rightarrow> shm_sys \<Rightarrow> shm_os \<Rightarrow> shm_os \<Rightarrow> remote_msg \<Rightarrow> 'm msg_rt \<Rightarrow> fault + ('m msg_rt \<times> 'm rt_ev list)" where
  "dispatch_message P sys os os' msg rt =
     (case localHandlers (rm_topic msg) rt of (handlers, have_local) \<Rightarrow>
        if \<not> have_local then Inr (rt, [])
        else if \<not> rm_is_shm msg then
          Inr (rt, deliver P (rm_topic msg) (rm_type msg) (rm_data msg) True (all_handlers handlers) None)
        else (case desc_of_bytes (rm_data msg) of
            None \<Rightarrow> Inr (rt, [])
          | Some d \<Rightarrow>
              (case readerRingFor sys (sd_name d) os rt of
                 (rt1, None) \<Rightarrow> Inr (rt1, [])
               | (rt1, Some ring) \<Rightarrow>
                   (let h = \<lparr>h_index = sd_index d, h_seq = sd_seq d, h_size = sd_size d\<rparr>
                    in (case beginRead h ring os of
                          Inl f \<Rightarrow> Inl f
                        | Inr None \<Rightarrow> Inr (rt1, [])
                        | Inr (Some p) \<Rightarrow>
                            if \<not> list_ex (\<lambda>s. sh_type s = rm_type msg) (all_handlers handlers) then Inr (rt1, [])
                            else (case (peek_bytes p, finishRead h ring os') of
                               (Inl f, _) \<Rightarrow> Inl f
                             | (_, Inl f) \<Rightarrow> Inl f
                             | (Inr payload, Inr valid) \<Rightarrow>
                                 Inr (rt1, deliver P (rm_topic msg) (rm_type msg) payload valid
                                   (all_handlers handlers) None)))))))"

fun dispatch_all ::
  "'m proto \<Rightarrow> shm_sys \<Rightarrow> (remote_msg \<Rightarrow> shm_os \<times> shm_os) \<Rightarrow> remote_msg list \<Rightarrow> 'm msg_rt \<Rightarrow>
   fault + ('m msg_rt \<times> 'm rt_ev list)" where
  "dispatch_all P sys mem [] rt = Inr (rt, [])"
| "dispatch_all P sys mem (m # ms) rt =
     (case dispatch_message P sys (fst (mem m)) (snd (mem m)) m rt of
        Inl f \<Rightarrow> Inl f
      | Inr (rt1, out1) \<Rightarrow>
          (case dispatch_all P sys mem ms rt1 of
             Inl f \<Rightarrow> Inl f
           | Inr (rt2, out2) \<Rightarrow> Inr (rt2, out1 @ out2)))"

definition remoteDispatch ::
  "'m proto \<Rightarrow> shm_sys \<Rightarrow> (remote_msg \<Rightarrow> shm_os \<times> shm_os) \<Rightarrow> 'm msg_rt \<Rightarrow>
   fault + ('m msg_rt \<times> 'm rt_ev list)" where
  "remoteDispatch P sys mem rt =
     (if mr_exit rt then Inr (rt, [])
      else dispatch_all P sys mem (mr_remoteq rt) (rt\<lparr>mr_remoteq := []\<rparr>))"

end
