(* ===== verification/DiscoveryProps.thy ===== *)
theory DiscoveryProps
  imports Discovery
begin

text \<open>
  What Discovery<Pub> guarantees. An arbitrary history of one object is a list of
  \<open>disc_op\<close>: local calls, received messages and timer ticks, in the order in which they
  took effect. The lemmas are proved once for both endpoint classes, in the context of
  \<open>endpoint_class\<close>; the properties are their instances for messages and services.
\<close>

section \<open>Histories\<close>

datatype 'p disc_op =
    OAdvertise 'p
  | OUnadvertise string string
  | ODiscover string
  | ORegister msg_pub
  | OUnregister msg_pub
  | ORecv string disc_msg int
  | OHeartbeat int int
  | OActivity int int
  | OCallbacks bool bool bool bool
  | OIntervals u32 u32 u32
  | OStart int
  | OStop

definition disc_op ::
  "'a pub_info_scheme pub_class \<Rightarrow> 'a pub_info_scheme disc_op \<Rightarrow> 'a pub_info_scheme disc \<Rightarrow>
   'a pub_info_scheme disc \<times> 'a pub_info_scheme disc_ev list" where
  "disc_op C op d = (case op of
     OAdvertise p \<Rightarrow> (case disc_advertise C p d of (d', es, ok) \<Rightarrow> (d', es))
   | OUnadvertise t n \<Rightarrow> (case disc_unadvertise C t n d of (d', es, ok) \<Rightarrow> (d', es))
   | ODiscover t \<Rightarrow> (d, fst (disc_discover C t d))
   | ORegister p \<Rightarrow> (d, registerNode p d)
   | OUnregister p \<Rightarrow> (d, unRegisterNode p d)
   | ORecv from_ip m now \<Rightarrow> dispatch C from_ip m now d
   | OHeartbeat now now2 \<Rightarrow> updateHeartbeat C now now2 d
   | OActivity now now2 \<Rightarrow> updateActivity C now now2 d
   | OCallbacks a b c e \<Rightarrow>
       (setUnregistrationCb e (setRegistrationCb c (setDisconnectionCb b (setConnectionCb a d))), [])
   | OIntervals a h s \<Rightarrow> (setSilenceInterval s (setHeartbeatInterval h (setActivityInterval a d)), [])
   | OStart now \<Rightarrow> (start_disc now d, [])
   | OStop \<Rightarrow> (stop_disc d, []))"

fun disc_run ::
  "'a pub_info_scheme pub_class \<Rightarrow> 'a pub_info_scheme disc_op list \<Rightarrow> 'a pub_info_scheme disc \<Rightarrow>
   'a pub_info_scheme disc \<times> 'a pub_info_scheme disc_ev list" where
  "disc_run C [] d = (d, [])"
| "disc_run C (op # ops) d =
     (let (d1, e1) = disc_op C op d; (d2, e2) = disc_run C ops d1 in (d2, e1 @ e2))"

definition disc_ok :: "('a pub_info_scheme \<Rightarrow> bool) \<Rightarrow> 'a pub_info_scheme disc \<Rightarrow> bool" where
  "disc_ok good d \<longleftrightarrow> ts_wf (d_pubs d) \<and> om_wf (d_seen d) \<and> (\<forall>p \<in> ts_view (d_pubs d). good p)"

text \<open>Every endpoint of another process has a last-seen time, so it can expire.\<close>

definition tracked :: "'a pub_info_scheme disc \<Rightarrow> bool" where
  "tracked d \<longleftrightarrow> (\<forall>p \<in> ts_view (d_pubs d). p_proc p \<noteq> d_proc d \<longrightarrow>
     map_of (d_seen d) (p_proc p) \<noteq> None)"

fun op_ok :: "('a pub_info_scheme \<Rightarrow> bool) \<Rightarrow> 'a pub_info_scheme disc_op \<Rightarrow> bool" where
  "op_ok good (OAdvertise p) = good p"
| "op_ok good _ = True"

text \<open>Its own endpoints carry its own uuid, and an ADVERTISE names a publisher.\<close>

fun op_own :: "string \<Rightarrow> 'a pub_info_scheme disc_op \<Rightarrow> bool" where
  "op_own u (OAdvertise p) = (p_proc p = u)"
| "op_own u (ORecv ip m now) = (dm_type m = ADVERTISE \<longrightarrow> has_pub m)"
| "op_own u _ = True"

section \<open>Sent messages\<close>

definition header :: "disc_type \<Rightarrow> 'p disc \<Rightarrow> disc_msg" where
  "header t d = disc_msg_default\<lparr>dm_version := kWireVersion, dm_type := t,
     dm_process_uuid := d_proc d, dm_process_name := d_pname d\<rparr>"

lemma header_simps [simp]:
  "dm_type (header t d) = t" "dm_process_uuid (header t d) = d_proc d"
  "dm_process_name (header t d) = d_pname d"
  by (simp_all add: header_def)

lemma sendMsg_simps:
  "sendMsg SUBSCRIBE fill topic d = [Multicast (set_sub_topic topic (fill (header SUBSCRIBE d)))]"
  "sendMsg HEARTBEAT fill topic d = [Multicast (fill (header HEARTBEAT d))]"
  "sendMsg BYE fill topic d = [Multicast (fill (header BYE d))]"
  "t \<in> {ADVERTISE, UNADVERTISE, NEW_CONNECTION, END_CONNECTION} \<Longrightarrow>
     sendMsg t fill topic d = [Multicast (fill (fill (header t d)))]"
  by (auto simp: sendMsg_def header_def Let_def)

text \<open>Carries an advertisement of a PROCESS-scope endpoint to the network.\<close>

definition leaks :: "'a pub_info_scheme pub_class \<Rightarrow> 'a pub_info_scheme disc_ev \<Rightarrow> bool" where
  "leaks C ev \<longleftrightarrow> (case ev of
     Multicast m \<Rightarrow> dm_type m \<in> {ADVERTISE, UNADVERTISE} \<and> pc_scope C (pc_set C m (pc_new C)) = SCOPE_PROCESS
   | _ \<Rightarrow> False)"

lemma leaks_simps [simp]:
  "\<not> leaks C (Connected p)" "\<not> leaks C (Disconnected p)" "\<not> leaks C (Registered p)"
  "\<not> leaks C (Unregistered p)"
  "dm_type m \<notin> {ADVERTISE, UNADVERTISE} \<Longrightarrow> \<not> leaks C (Multicast m)"
  by (simp_all add: leaks_def)

section \<open>The expiry loop\<close>

lemma expire_loop_eq:
  "expire_loop old seen pubs = (filter (\<lambda>(u, t). \<not> old t) seen,
     fold (\<lambda>u q. fst (delPublishersByProc u q)) (map fst (filter (\<lambda>(u, t). old t) seen)) pubs,
     map fst (filter (\<lambda>(u, t). old t) seen))"
  by (induction old seen pubs rule: expire_loop.induct) (auto split: prod.splits)

lemma del_all:
  assumes "ts_wf d"
  shows "ts_wf (fold (\<lambda>u q. fst (delPublishersByProc u q)) us d)"
    and "ts_view (fold (\<lambda>u q. fst (delPublishersByProc u q)) us d) = {p \<in> ts_view d. p_proc p \<notin> set us}"
  using assms by (induction us arbitrary: d) (auto simp: store_laws)

lemma om_wf_filter: "om_wf m \<Longrightarrow> om_wf (filter P m)"
  by (induction m) (auto simp: om_wf_Cons)

lemma map_of_filter:
  assumes "om_wf m"
  shows "map_of (filter (\<lambda>(k, v). P v) m) k = (case map_of m k of None \<Rightarrow> None
    | Some v \<Rightarrow> if P v then Some v else None)"
  using assms
proof (induction m)
  case (Cons e m)
  obtain k' v' where e: "e = (k', v')" by fastforce
  show ?case
  proof (cases "k = k'")
    case True
    have "k' \<notin> fst ` set m" using Cons.prems by (auto simp: e om_wf_Cons)
    then have "map_of m k' = None" by (simp add: map_of_eq_None_iff)
    then show ?thesis using Cons True by (simp add: e om_wf_Cons)
  next
    case False
    then show ?thesis using Cons by (simp add: e om_wf_Cons)
  qed
qed simp

section \<open>Dispatch, case by case\<close>

definition seen_by :: "disc_msg \<Rightarrow> int \<Rightarrow> 'p disc \<Rightarrow> 'p disc" where
  "seen_by m now d = d\<lparr>d_seen := om_put (dm_process_uuid m) now (d_seen d)\<rparr>"

lemma seen_by_simps [simp]:
  "d_pubs (seen_by m now d) = d_pubs d" "d_proc (seen_by m now d) = d_proc d"
  "d_conn (seen_by m now d) = d_conn d" "d_disc (seen_by m now d) = d_disc d"
  "d_host (seen_by m now d) = d_host d" "d_pname (seen_by m now d) = d_pname d"
  "d_seen (seen_by m now d) = om_put (dm_process_uuid m) now (d_seen d)"
  "header t (seen_by m now d) = header t d"
  by (simp_all add: seen_by_def header_def)

lemma dispatch_own: "dm_process_uuid m = d_proc d \<Longrightarrow> dispatch C ip m now d = (d, [])"
  by (simp add: dispatch_def)

lemma dispatch_advertise:
  assumes "dm_process_uuid m \<noteq> d_proc d" "dm_type m = ADVERTISE"
  shows "dispatch C ip m now d =
    (if out_of_scope (pc_scope C (pc_set C m (pc_new C))) (is_sender_local ip d) then (seen_by m now d, [])
     else ((seen_by m now d)\<lparr>d_pubs := fst (addPublisher (pc_set C m (pc_new C)) (d_pubs d))\<rparr>,
       if snd (addPublisher (pc_set C m (pc_new C)) (d_pubs d)) \<and> d_conn d
       then [Connected (pc_set C m (pc_new C))] else []))"
  using assms by (simp add: dispatch_def Let_def seen_by_def split_def)

lemma dispatch_unadvertise:
  assumes "dm_process_uuid m \<noteq> d_proc d" "dm_type m = UNADVERTISE"
  shows "dispatch C ip m now d = (let p = pc_set C m (pc_new C) in
    if out_of_scope (pc_scope C p) (is_sender_local ip d) then (seen_by m now d, [])
    else ((seen_by m now d)\<lparr>d_pubs := fst (delPublishersByNode (p_topic p) (p_proc p) (p_node p) (d_pubs d))\<rparr>,
      if d_disc d then [Disconnected p] else []))"
  using assms by (simp add: dispatch_def Let_def seen_by_def)

lemma dispatch_subscribe:
  assumes "dm_process_uuid m \<noteq> d_proc d" "dm_type m = SUBSCRIBE"
  shows "dispatch C ip m now d = (seen_by m now d,
    if has_sub m then concat (map (\<lambda>node.
      if out_of_scope (pc_scope C node) (is_sender_local ip d) then []
      else sendMsg ADVERTISE (pc_fill C node) (p_topic node) d)
      (entries (d_pubs d) (sub_topic m) (d_proc d))) else [])"
proof -
  have send: "sendMsg ADVERTISE f t (seen_by m now d) = sendMsg ADVERTISE f t d" for f t
    by (simp add: sendMsg_simps(4))
  show ?thesis
    using assms send
    by (simp add: dispatch_def Let_def getPublishers_def hasAnyPublishers_def entries_def hasTopic_def
        seen_by_def [symmetric] om_has_def om_get_def split: option.split cong: if_cong)
qed

lemma dispatch_other:
  assumes "dm_process_uuid m \<noteq> d_proc d" "dm_type m \<in> {NEW_CONNECTION, END_CONNECTION, HEARTBEAT, UNINITIALIZED}"
  shows "fst (dispatch C ip m now d) = seen_by m now d \<and>
    set (snd (dispatch C ip m now d)) \<subseteq> {Registered (pc_set C m (pc_new C)), Unregistered (pc_set C m (pc_new C))}"
  using assms by (auto simp: dispatch_def Let_def seen_by_def)

lemma dispatch_bye:
  assumes "dm_process_uuid m \<noteq> d_proc d" "dm_type m = BYE"
  shows "dispatch C ip m now d =
    ((seen_by m now d)\<lparr>d_seen := om_erase (dm_process_uuid m) (d_seen (seen_by m now d)),
       d_pubs := fst (delPublishersByProc (dm_process_uuid m) (d_pubs d))\<rparr>,
     if d_disc d then [Disconnected ((pc_new C)\<lparr>p_proc := dm_process_uuid m\<rparr>)] else [])"
  using assms by (simp add: dispatch_def Let_def seen_by_def)

lemma dm_type_cases:
  obtains "dm_type m = ADVERTISE" | "dm_type m = UNADVERTISE" | "dm_type m = SUBSCRIBE" | "dm_type m = BYE"
    | "dm_type m \<in> {NEW_CONNECTION, END_CONNECTION, HEARTBEAT, UNINITIALIZED}"
  by (cases "dm_type m") auto

section \<open>Both endpoint classes\<close>

context endpoint_class
begin

lemma no_leak_fill:
  assumes "wf p" "pc_scope C p \<noteq> SCOPE_PROCESS"
  shows "\<not> leaks C (Multicast (pc_fill C p (pc_fill C p m)))"
  using fill_scope [OF assms(1)] assms(2) by (simp add: leaks_def fill_twice)

lemma no_leak_send:
  assumes "t = ADVERTISE \<or> t = UNADVERTISE" "wf p" "pc_scope C p \<noteq> SCOPE_PROCESS"
  shows "\<forall>ev \<in> set (sendMsg t (pc_fill C p) topic d). \<not> leaks C ev"
  using assms no_leak_fill [OF assms(2,3)] by (auto simp: sendMsg_simps(4))

lemma ok_advertise:
  assumes "disc_ok wf d" "wf p"
  shows "disc_ok wf (fst (disc_advertise C p d)) \<and>
    (\<forall>ev \<in> set (fst (snd (disc_advertise C p d))). \<not> leaks C ev)"
proof -
  have "ts_wf (fst (addPublisher p (d_pubs d)))" "\<forall>q \<in> ts_view (fst (addPublisher p (d_pubs d))). wf q"
    using assms by (auto simp: disc_ok_def store_laws)
  then show ?thesis
    using assms no_leak_send [OF disjI1 [OF refl] assms(2), of "p_topic p" d]
    by (auto simp: disc_advertise_def disc_ok_def split: prod.splits)
qed

lemma ok_unadvertise:
  assumes "disc_ok wf d"
  shows "disc_ok wf (fst (disc_unadvertise C t n d)) \<and>
    (\<forall>ev \<in> set (fst (snd (disc_unadvertise C t n d))). \<not> leaks C ev)"
proof (cases "getPublisher t (d_proc d) n (d_pubs d)")
  case (Some p)
  then have "wf p" using assms getPublisher_Some(1) unfolding disc_ok_def by blast
  with Some show ?thesis
    using assms no_leak_send [OF disjI2 [OF refl], of p "p_topic p" d]
    by (auto simp: disc_unadvertise_def disc_ok_def store_laws)
qed (use assms in \<open>simp add: disc_unadvertise_def\<close>)

lemma ok_discover: "\<forall>ev \<in> set (fst (disc_discover C t d)). \<not> leaks C ev"
proof -
  have "dm_type (set_sub_topic topic (pc_fill C p (header SUBSCRIBE d))) = SUBSCRIBE" for topic p
    by (simp add: set_sub_topic_def fill_type)
  then show ?thesis
    by (auto simp: disc_discover_def sendMsg_simps Let_def split: option.splits if_splits)
qed

lemma no_leak_register:
  "\<forall>ev \<in> set (registerNode p d). \<not> leaks C ev" "\<forall>ev \<in> set (unRegisterNode p d). \<not> leaks C ev"
  by (simp_all add: registerNode_def unRegisterNode_def sendMsg_simps(4))

lemma ok_dispatch:
  assumes "disc_ok wf d"
  shows "disc_ok wf (fst (dispatch C ip m now d)) \<and>
    (\<forall>ev \<in> set (snd (dispatch C ip m now d)). \<not> leaks C ev)"
proof (cases "dm_process_uuid m = d_proc d")
  case False
  have ok1: "disc_ok wf (seen_by m now d)" using assms by (simp add: disc_ok_def)
  have add: "disc_ok wf ((seen_by m now d)\<lparr>d_pubs := fst (addPublisher (pc_set C m (pc_new C)) (d_pubs d))\<rparr>)"
    using ok1 decoded_wf by (auto simp: disc_ok_def store_laws)
  have del: "disc_ok wf ((seen_by m now d)\<lparr>d_pubs := fst (delPublishersByNode a b c (d_pubs d))\<rparr>)" for a b c
    using ok1 by (auto simp: disc_ok_def store_laws)
  have bye: "disc_ok wf ((seen_by m now d)\<lparr>d_seen := om_erase u (d_seen (seen_by m now d)),
      d_pubs := fst (delPublishersByProc u (d_pubs d))\<rparr>)" for u
    using ok1 by (auto simp: disc_ok_def store_laws)
  have reply: "\<not> leaks C ev"
    if "node \<in> set (entries (d_pubs d) t (d_proc d))" "\<not> out_of_scope (pc_scope C node) l"
      "ev \<in> set (sendMsg ADVERTISE (pc_fill C node) (p_topic node) d)" for t node l ev
  proof -
    have "ts_wf (d_pubs d)" using assms by (simp add: disc_ok_def)
    then have "node \<in> ts_view (d_pubs d)" using that(1) entries_key [of "d_pubs d"] by (auto simp: ts_view_entries)
    then have "wf node" using assms by (simp add: disc_ok_def)
    moreover have "pc_scope C node \<noteq> SCOPE_PROCESS" using that(2) by (simp add: out_of_scope_def)
    ultimately show ?thesis using no_leak_send [OF disjI1 [OF refl]] that(3) by blast
  qed
  show ?thesis
  proof (cases rule: dm_type_cases [of m])
    case 1
    show ?thesis unfolding dispatch_advertise [OF False 1] using ok1 add by simp
  next
    case 2
    show ?thesis unfolding dispatch_unadvertise [OF False 2] Let_def using ok1 del by simp
  next
    case 3
    show ?thesis unfolding dispatch_subscribe [OF False 3]
      using ok1 reply [of _ "sub_topic m" "is_sender_local ip d"] by (simp split: if_splits) blast
  next
    case 4
    show ?thesis unfolding dispatch_bye [OF False 4] using bye by simp
  next
    case 5
    have "\<not> leaks C ev" if "ev \<in> set (snd (dispatch C ip m now d))" for ev
      using dispatch_other [OF False 5, of C ip now] that by (cases ev) auto
    then show ?thesis using dispatch_other [OF False 5, of C ip now] ok1 by simp
  qed
qed (use assms in \<open>simp add: dispatch_def\<close>)

lemma ok_heartbeat:
  assumes "disc_ok wf d"
  shows "disc_ok wf (fst (updateHeartbeat C now now2 d)) \<and>
    (\<forall>ev \<in> set (snd (updateHeartbeat C now now2 d)). \<not> leaks C ev)"
proof -
  have wf: "wf q" if "(n, l) \<in> set (getPublishersByProc (d_proc d) (d_pubs d))" "q \<in> set l" for n l q
    using byProc_set [of "d_pubs d" "d_proc d" q] assms that unfolding disc_ok_def by blast
  have "\<not> leaks C ev" if "(n, l) \<in> set (getPublishersByProc (d_proc d) (d_pubs d))" "q \<in> set l"
      "pc_scope C q \<noteq> SCOPE_PROCESS" "ev \<in> set (sendMsg ADVERTISE (pc_fill C q) (p_topic q) d)" for n l q ev
    using no_leak_send [OF disjI1 [OF refl] wf [OF that(1,2)] that(3)] that(4) by blast
  then show ?thesis
    using assms by (fastforce simp: updateHeartbeat_def sendMsg_simps Let_def disc_ok_def split: if_splits)
qed

lemma ok_activity:
  assumes "disc_ok wf d"
  shows "disc_ok wf (fst (updateActivity C now now2 d)) \<and>
    (\<forall>ev \<in> set (snd (updateActivity C now now2 d)). \<not> leaks C ev)"
  using assms
  by (auto simp: updateActivity_def expire_loop_eq disc_ok_def del_all om_wf_filter)

lemma ok_op:
  assumes "disc_ok wf d" "op_ok wf op"
  shows "disc_ok wf (fst (disc_op C op d)) \<and> (\<forall>ev \<in> set (snd (disc_op C op d)). \<not> leaks C ev)"
proof (cases op)
  case (OAdvertise p)
  then show ?thesis using ok_advertise [of d p] assms by (auto simp: disc_op_def split: prod.splits)
next
  case (OUnadvertise t n)
  then show ?thesis using ok_unadvertise [of d t n] assms by (auto simp: disc_op_def split: prod.splits)
next
  case (ODiscover t)
  then show ?thesis using ok_discover assms by (simp add: disc_op_def)
next
  case (ORecv ip m now)
  then show ?thesis using ok_dispatch assms by (simp add: disc_op_def)
next
  case (OHeartbeat a b)
  then show ?thesis using ok_heartbeat assms by (simp add: disc_op_def)
next
  case (OActivity a b)
  then show ?thesis using ok_activity assms by (simp add: disc_op_def)
qed (use assms no_leak_register in \<open>simp_all add: disc_op_def disc_ok_def setUnregistrationCb_def
  setRegistrationCb_def setDisconnectionCb_def setConnectionCb_def setSilenceInterval_def
  setHeartbeatInterval_def setActivityInterval_def start_disc_def stop_disc_def\<close>)

lemma ok_run:
  assumes "disc_ok wf d" "list_all (op_ok wf) ops"
  shows "disc_ok wf (fst (disc_run C ops d)) \<and> (\<forall>ev \<in> set (snd (disc_run C ops d)). \<not> leaks C ev)"
  using assms
proof (induction ops arbitrary: d)
  case (Cons op ops)
  obtain d1 e1 where 1: "disc_op C op d = (d1, e1)" by fastforce
  obtain d2 e2 where 2: "disc_run C ops d1 = (d2, e2)" by fastforce
  have "disc_ok wf d1" "\<forall>ev \<in> set e1. \<not> leaks C ev" using ok_op [of d op] Cons.prems 1 by auto
  moreover from this(1) have "disc_ok wf d2" "\<forall>ev \<in> set e2. \<not> leaks C ev"
    using Cons.IH [of d1] Cons.prems(2) 2 by auto
  ultimately show ?case using 1 2 by auto
qed simp

lemma tracked_subset:
  assumes "tracked d" "ts_view (d_pubs d') \<subseteq> ts_view (d_pubs d)" "d_proc d' = d_proc d"
    "dom (map_of (d_seen d)) \<subseteq> dom (map_of (d_seen d'))"
  shows "tracked d'"
  using assms unfolding tracked_def by (metis domIff subsetD)

lemma tracked_seen:
  assumes "tracked d"
  shows "tracked (seen_by m now d)"
  by (rule tracked_subset [OF assms]) auto

lemma tracked_dispatch:
  assumes ok: "disc_ok wf d" and tr: "tracked d" and pub: "dm_type m = ADVERTISE \<longrightarrow> has_pub m"
  shows "tracked (fst (dispatch C ip m now d))"
proof (cases "dm_process_uuid m = d_proc d")
  case False
  note seen = tracked_seen [OF tr, of m now]
  have ts: "ts_wf (d_pubs d)" using ok by (simp add: disc_ok_def)
  show ?thesis
  proof (cases rule: dm_type_cases [of m])
    case 1
    have "p_proc (pc_set C m (pc_new C)) = dm_process_uuid m" using decoded_proc pub 1 by simp
    then have "tracked ((seen_by m now d)\<lparr>d_pubs := fst (addPublisher (pc_set C m (pc_new C)) (d_pubs d))\<rparr>)"
      using seen by (auto simp: tracked_def ts_view_add [OF ts])
    then show ?thesis unfolding dispatch_advertise [OF False 1] using seen by simp
  next
    case 2
    have "tracked ((seen_by m now d)\<lparr>d_pubs := fst (delPublishersByNode a b c (d_pubs d))\<rparr>)" for a b c
      by (rule tracked_subset [OF seen]) (auto simp: ts_view_delNode [OF ts])
    then show ?thesis unfolding dispatch_unadvertise [OF False 2] Let_def using seen by simp
  next
    case 3
    then show ?thesis unfolding dispatch_subscribe [OF False 3] using seen by simp
  next
    case 4
    show ?thesis unfolding dispatch_bye [OF False 4]
      using tr by (auto simp: tracked_def ts_view_delProc [OF ts])
  next
    case 5
    show ?thesis using dispatch_other [OF False 5, of C ip now] seen by simp
  qed
qed (use tr in \<open>simp add: dispatch_own\<close>)

text \<open>One tick of the activity timer, in terms of the endpoints and the last-seen times.\<close>

lemma activity_tick:
  assumes ok: "disc_ok wf d" and due: "d_next_act d \<le> now"
  shows "ts_view (d_pubs (fst (updateActivity C now now2 d))) =
      {p \<in> ts_view (d_pubs d). \<not> (\<exists>t. map_of (d_seen d) (p_proc p) = Some t \<and> expired now d t)}"
    and "map_of (d_seen (fst (updateActivity C now now2 d))) u =
      (case map_of (d_seen d) u of None \<Rightarrow> None | Some t \<Rightarrow> if expired now d t then None else Some t)"
    and "snd (updateActivity C now now2 d) = (if d_disc d then
      map (\<lambda>(u, t). Disconnected ((pc_new C)\<lparr>p_proc := u\<rparr>)) (filter (\<lambda>(u, t). expired now d t) (d_seen d)) else [])"
proof -
  have ts: "ts_wf (d_pubs d)" and om: "om_wf (d_seen d)" using ok by (simp_all add: disc_ok_def)
  let ?us = "map fst (filter (\<lambda>(u, t). expired now d t) (d_seen d))"
  have us: "u \<in> set ?us \<longleftrightarrow> (\<exists>t. map_of (d_seen d) u = Some t \<and> expired now d t)" for u
  proof -
    have "u \<in> set ?us \<longleftrightarrow> (\<exists>t. (u, t) \<in> set (d_seen d) \<and> expired now d t)" by force
    then show ?thesis unfolding om_wf_lookup [OF om] .
  qed
  have act: "updateActivity C now now2 d =
      (d\<lparr>d_seen := filter (\<lambda>(u, t). \<not> expired now d t) (d_seen d),
         d_pubs := fold (\<lambda>u q. fst (delPublishersByProc u q)) ?us (d_pubs d),
         d_next_act := now2 + int (unat (d_activity d)) * ns_per_ms\<rparr>,
       if d_disc d then map (\<lambda>u. Disconnected ((pc_new C)\<lparr>p_proc := u\<rparr>)) ?us else [])"
    using due by (simp add: updateActivity_def expire_loop_eq)
  show "ts_view (d_pubs (fst (updateActivity C now now2 d))) =
      {p \<in> ts_view (d_pubs d). \<not> (\<exists>t. map_of (d_seen d) (p_proc p) = Some t \<and> expired now d t)}"
    unfolding act us [symmetric] using del_all(2) [OF ts, of ?us] by simp
  show "map_of (d_seen (fst (updateActivity C now now2 d))) u =
      (case map_of (d_seen d) u of None \<Rightarrow> None | Some t \<Rightarrow> if expired now d t then None else Some t)"
    unfolding act using map_of_filter [OF om, of "\<lambda>t. \<not> expired now d t" u]
    by (simp split: option.splits)
  show "snd (updateActivity C now now2 d) = (if d_disc d then
      map (\<lambda>(u, t). Disconnected ((pc_new C)\<lparr>p_proc := u\<rparr>)) (filter (\<lambda>(u, t). expired now d t) (d_seen d)) else [])"
    unfolding act by (simp add: split_def comp_def)
qed

lemma tracked_activity:
  assumes ok: "disc_ok wf d" and tr: "tracked d"
  shows "tracked (fst (updateActivity C now now2 d))"
proof (cases "now < d_next_act d")
  case False
  then have due: "d_next_act d \<le> now" by simp
  have own: "d_proc (fst (updateActivity C now now2 d)) = d_proc d"
    by (simp add: updateActivity_def split: prod.split)
  show ?thesis
    unfolding tracked_def own activity_tick(1) [OF ok due]
  proof (intro ballI impI)
    fix p assume p: "p \<in> {p \<in> ts_view (d_pubs d). \<not> (\<exists>t. map_of (d_seen d) (p_proc p) = Some t \<and> expired now d t)}"
      and other: "p_proc p \<noteq> d_proc d"
    then obtain t where "map_of (d_seen d) (p_proc p) = Some t" using tr by (auto simp: tracked_def)
    with p show "map_of (d_seen (fst (updateActivity C now now2 d))) (p_proc p) \<noteq> None"
      by (simp add: activity_tick(2) [OF ok due])
  qed
qed (use tr in \<open>simp add: updateActivity_def\<close>)

lemma tracked_op:
  assumes ok: "disc_ok wf d" and tr: "tracked d" and own: "op_own (d_proc d) op"
  shows "tracked (fst (disc_op C op d)) \<and> d_proc (fst (disc_op C op d)) = d_proc d"
proof -
  have ts: "ts_wf (d_pubs d)" using ok by (simp add: disc_ok_def)
  have del: "tracked (d\<lparr>d_pubs := fst (delPublishersByNode a b c (d_pubs d))\<rparr>)" for a b c
    by (rule tracked_subset [OF tr]) (auto simp: ts_view_delNode [OF ts])
  have keep: "tracked d'" if "d_pubs d' = d_pubs d" "d_seen d' = d_seen d" "d_proc d' = d_proc d" for d'
    using tr that by (simp add: tracked_def)
  show ?thesis
  proof (cases op)
    case (OAdvertise p)
    have "tracked (d\<lparr>d_pubs := fst (addPublisher p (d_pubs d))\<rparr>)"
      using tr own OAdvertise by (auto simp: tracked_def ts_view_add [OF ts])
    then show ?thesis using OAdvertise tr
      by (auto simp: disc_op_def disc_advertise_def split: prod.splits)
  next
    case (OUnadvertise t n)
    then show ?thesis using del tr
      by (auto simp: disc_op_def disc_unadvertise_def split: option.splits)
  next
    case (ORecv ip m now)
    have "d_proc (fst (dispatch C ip m now d)) = d_proc d"
      by (auto simp: dispatch_def Let_def split: disc_type.split prod.split option.split)
    then show ?thesis using ORecv tracked_dispatch [OF ok tr] own by (simp add: disc_op_def)
  next
    case (OHeartbeat a b)
    have "d_proc (fst (updateHeartbeat C a b d)) = d_proc d" by (simp add: updateHeartbeat_def Let_def)
    then show ?thesis using OHeartbeat keep by (simp add: disc_op_def updateHeartbeat_def Let_def)
  next
    case (OActivity a b)
    have "d_proc (fst (updateActivity C a b d)) = d_proc d"
      by (simp add: updateActivity_def split: prod.split)
    then show ?thesis using OActivity tracked_activity [OF ok tr] by (simp add: disc_op_def)
  qed (use keep tr in \<open>simp_all add: disc_op_def setUnregistrationCb_def setRegistrationCb_def
    setDisconnectionCb_def setConnectionCb_def setSilenceInterval_def setHeartbeatInterval_def
    setActivityInterval_def start_disc_def stop_disc_def\<close>)
qed

lemma tracked_run:
  assumes "disc_ok wf d" "tracked d" "list_all (op_ok wf) ops" "list_all (op_own (d_proc d)) ops"
  shows "tracked (fst (disc_run C ops d)) \<and> d_proc (fst (disc_run C ops d)) = d_proc d"
  using assms
proof (induction ops arbitrary: d)
  case (Cons op ops)
  obtain d1 e1 where 1: "disc_op C op d = (d1, e1)" by fastforce
  have "disc_ok wf d1" "tracked d1" "d_proc d1 = d_proc d"
    using ok_op [of d op] tracked_op [of d op] Cons.prems 1 by auto
  then have "tracked (fst (disc_run C ops d1)) \<and> d_proc (fst (disc_run C ops d1)) = d_proc d1"
    using Cons.IH [of d1] Cons.prems(3,4) by simp
  then show ?case using 1 \<open>d_proc d1 = d_proc d\<close> by (simp add: split_def Let_def)
qed simp

text \<open>What a due heartbeat sends.\<close>

lemma heartbeat_set:
  assumes "ts_wf (d_pubs d)" "d_next_hb d \<le> now"
  shows "set (snd (updateHeartbeat C now now2 d)) =
    insert (Multicast (fillDiscovery (mkPublisherInfo [] [] (d_proc d) [] new_opts) (header HEARTBEAT d)))
     ((\<lambda>p. Multicast (pc_fill C p (header ADVERTISE d))) `
        {p \<in> ts_view (d_pubs d). p_proc p = d_proc d \<and> pc_scope C p \<noteq> SCOPE_PROCESS})"
proof -
  let ?L = "getPublishersByProc (d_proc d) (d_pubs d)"
  have mem: "(\<exists>n l. (n, l) \<in> set ?L \<and> p \<in> set l) \<longleftrightarrow> p \<in> ts_view (d_pubs d) \<and> p_proc p = d_proc d" for p
    by (rule byProc_set [OF assms(1)])
  define E :: "'a pub_info_scheme disc_ev list" where "E = concat (map (\<lambda>(n, l). concat (map (\<lambda>node.
      if pc_scope C node \<noteq> SCOPE_PROCESS
      then [Multicast (pc_fill C node (header ADVERTISE d))] else []) l)) ?L)"
  have "snd (updateHeartbeat C now now2 d) = Multicast (fillDiscovery
      (mkPublisherInfo [] [] (d_proc d) [] new_opts) (header HEARTBEAT d)) # E"
    using assms(2) by (simp add: updateHeartbeat_def Let_def sendMsg_simps fill_twice E_def cong: if_cong)
  moreover have "set E = (\<lambda>p. Multicast (pc_fill C p (header ADVERTISE d))) `
      {p. (\<exists>n l. (n, l) \<in> set ?L \<and> p \<in> set l) \<and> pc_scope C p \<noteq> SCOPE_PROCESS}"
    unfolding E_def by (auto simp: image_iff split: if_splits)
  ultimately show ?thesis unfolding mem by (simp add: conj_assoc)
qed

text \<open>A silent process is gone after a tick: no endpoint of it is left.\<close>

lemma silent_gone:
  assumes "disc_ok wf d" "tracked d" "d_next_act d \<le> now" "u \<noteq> d_proc d"
    and "\<And>t. map_of (d_seen d) u = Some t \<Longrightarrow> expired now d t"
  shows "\<forall>p \<in> ts_view (d_pubs (fst (updateActivity C now now2 d))). p_proc p \<noteq> u"
proof
  fix p assume "p \<in> ts_view (d_pubs (fst (updateActivity C now now2 d)))"
  then have p: "p \<in> ts_view (d_pubs d)" "\<not> (\<exists>t. map_of (d_seen d) (p_proc p) = Some t \<and> expired now d t)"
    unfolding activity_tick(1) [OF assms(1,3)] by auto
  show "p_proc p \<noteq> u"
  proof
    assume u: "p_proc p = u"
    then obtain t where "map_of (d_seen d) u = Some t"
      using assms(2,4) p(1) by (auto simp: tracked_def)
    then show False using p(2) assms(5) u by blast
  qed
qed

end

end
