(* ===== verification/WireCodec.thy ===== *)
theory WireCodec
  imports PublisherInfo
begin

text \<open>
  One concrete serialisation. The code leaves serialisation to the generated protobuf
  classes, which are parameters of the model with the hypothesis that parsing what was
  serialised gives it back. This theory shows that hypothesis can hold: fields as
  length-prefixed strings, with the round trip proved. Nothing in it models code.
\<close>

section \<open>Lists of strings\<close>

definition put_field :: "string \<Rightarrow> string" where
  "put_field s = dec (length s) @ ''#'' @ s"

fun split_digits :: "string \<Rightarrow> string \<times> string" where
  "split_digits [] = ([], [])"
| "split_digits (c # cs) = (if is_digit c then (case split_digits cs of (a, b) \<Rightarrow> (c # a, b)) else ([], c # cs))"

definition get_field :: "string \<Rightarrow> (string \<times> string) option" where
  "get_field s = (case split_digits s of (ds, rest) \<Rightarrow>
     (case rest of
        [] \<Rightarrow> None
      | c # r \<Rightarrow> if ds = [] \<or> c \<noteq> CHR ''#'' \<or> length r < undec 0 ds then None
          else Some (take (undec 0 ds) r, drop (undec 0 ds) r)))"

fun get_fields :: "nat \<Rightarrow> string \<Rightarrow> string list option" where
  "get_fields 0 s = (if s = [] then Some [] else None)"
| "get_fields (Suc n) s = (case get_field s of
     None \<Rightarrow> None
   | Some (x, rest) \<Rightarrow> (case get_fields n rest of None \<Rightarrow> None | Some xs \<Rightarrow> Some (x # xs)))"

lemma split_digits_app:
  "list_all is_digit ds \<Longrightarrow> \<not> is_digit c \<Longrightarrow> split_digits (ds @ c # r) = (ds, c # r)"
  by (induction ds) auto

lemma get_put_field: "get_field (put_field s @ r) = Some (s, r)"
proof -
  have "\<not> is_digit CHR ''#''" by (simp add: is_digit_def)
  then have "split_digits (dec (length s) @ CHR ''#'' # s @ r) = (dec (length s), CHR ''#'' # s @ r)"
    by (intro split_digits_app dec_digits)
  then show ?thesis by (simp add: get_field_def put_field_def undec_dec)
qed

lemma get_put_fields: "get_fields (length xs) (concat (map put_field xs)) = Some xs"
  by (induction xs) (simp_all add: get_put_field)

section \<open>The discovery message as fields\<close>

definition type_code :: "disc_type \<Rightarrow> string" where
  "type_code t = disc_type_toString t"

definition type_of_code :: "string \<Rightarrow> disc_type" where
  "type_of_code s =
     (if s = ''ADVERTISE'' then ADVERTISE else if s = ''SUBSCRIBE'' then SUBSCRIBE
      else if s = ''UNADVERTISE'' then UNADVERTISE else if s = ''HEARTBEAT'' then HEARTBEAT
      else if s = ''BYE'' then BYE else if s = ''NEW_CONNECTION'' then NEW_CONNECTION
      else if s = ''END_CONNECTION'' then END_CONNECTION else UNINITIALIZED)"

lemma type_code_inverse [simp]: "type_of_code (type_code t) = t"
  by (cases t) (simp_all add: type_of_code_def type_code_def disc_type_toString_def)

definition scope_code :: "proto_scope \<Rightarrow> string" where
  "scope_code s = (case s of PbPROCESS \<Rightarrow> ''p'' | PbHOST \<Rightarrow> ''h'' | PbALL \<Rightarrow> ''a''
   | PbOther i \<Rightarrow> (if i < 0 then ''-'' @ dec (nat (- i)) else ''+'' @ dec (nat i)))"

definition scope_of_code :: "string \<Rightarrow> proto_scope" where
  "scope_of_code s = (case s of [] \<Rightarrow> PbALL
   | c # r \<Rightarrow> if c = CHR ''p'' then PbPROCESS else if c = CHR ''h'' then PbHOST
       else if c = CHR ''a'' then PbALL
       else if c = CHR ''-'' then PbOther (- int (undec 0 r)) else PbOther (int (undec 0 r)))"

lemma scope_code_inverse [simp]: "scope_of_code (scope_code s) = s"
  by (cases s) (simp_all add: scope_code_def scope_of_code_def undec_dec)

definition bool_code :: "bool \<Rightarrow> string" where
  "bool_code b = (if b then ''1'' else ''0'')"

definition kind_fields :: "pub_type \<Rightarrow> string list" where
  "kind_fields k = (case k of
     NoPubType \<Rightarrow> [''n'', [], [], [], [], []]
   | MsgPub m \<Rightarrow> [''m'', pb_ctrl m, pb_msg_type m, bool_code (pb_throttled m),
       dec (unat (pb_msgs_per_sec m)), bool_code (pb_use_shm m)]
   | SrvPub s \<Rightarrow> [''s'', pb_socket_id s, pb_request_type s, pb_response_type s, [], []])"

definition kind_of :: "string list \<Rightarrow> pub_type" where
  "kind_of f =
     (if f ! 0 = ''m'' then MsgPub \<lparr>pb_ctrl = f ! 1, pb_msg_type = f ! 2, pb_throttled = (f ! 3 = ''1''),
        pb_msgs_per_sec = of_nat (undec 0 (f ! 4)), pb_use_shm = (f ! 5 = ''1'')\<rparr>
      else if f ! 0 = ''s'' then SrvPub \<lparr>pb_socket_id = f ! 1, pb_request_type = f ! 2, pb_response_type = f ! 3\<rparr>
      else NoPubType)"

lemma kind_inverse [simp]: "kind_of (kind_fields k) = k"
  by (cases k) (simp_all add: kind_of_def kind_fields_def bool_code_def undec_dec)

definition content_fields :: "disc_contents \<Rightarrow> string list" where
  "content_fields c = (case c of
     NoContents \<Rightarrow> [''0'', [], [], [], []] @ kind_fields NoPubType
   | SubC t \<Rightarrow> [''1'', t, [], [], []] @ kind_fields NoPubType
   | PubC p \<Rightarrow> [''2'', pb_topic p, pb_address p, pb_node_uuid p, scope_code (pb_scope p)] @
       kind_fields (pb_pub_type p))"

definition contents_of :: "string list \<Rightarrow> disc_contents" where
  "contents_of f =
     (if f ! 0 = ''0'' then NoContents
      else if f ! 0 = ''1'' then SubC (f ! 1)
      else PubC \<lparr>pb_topic = f ! 1, pb_address = f ! 2, pb_node_uuid = f ! 3,
        pb_scope = scope_of_code (f ! 4), pb_pub_type = kind_of (drop 5 f)\<rparr>)"

lemma contents_inverse [simp]: "contents_of (content_fields c) = c"
  by (cases c) (simp_all add: contents_of_def content_fields_def)

definition msg_fields :: "disc_msg \<Rightarrow> string list" where
  "msg_fields m = [dec (unat (dm_version m)), dm_process_uuid m, type_code (dm_type m), dm_process_name m] @
     content_fields (dm_contents m)"

definition msg_of :: "string list \<Rightarrow> disc_msg" where
  "msg_of f = \<lparr>dm_version = of_nat (undec 0 (f ! 0)), dm_process_uuid = f ! 1,
     dm_type = type_of_code (f ! 2), dm_process_name = f ! 3, dm_contents = contents_of (drop 4 f)\<rparr>"

lemma msg_of_fields [simp]: "msg_of (msg_fields m) = m"
  by (simp add: msg_of_def msg_fields_def undec_dec)

lemma length_msg_fields [simp]: "length (msg_fields m) = 15"
  by (cases "dm_contents m")
    (auto simp: msg_fields_def content_fields_def kind_fields_def split: pub_type.split)

definition demo_ser :: "disc_msg \<Rightarrow> string" where
  "demo_ser m = concat (map put_field (msg_fields m))"

definition demo_parse :: "string \<Rightarrow> disc_msg option" where
  "demo_parse s = map_option msg_of (get_fields 15 s)"

lemma demo_roundtrip: "demo_parse (demo_ser m) = Some m"
  using get_put_fields [of "msg_fields m"] by (simp add: demo_parse_def demo_ser_def)

lemma length_dec: "length (dec n) \<le> Suc n"
proof (induction n rule: dec.induct)
  case (1 n)
  show ?case
  proof (cases "n < 10")
    case False
    then have "length (dec (n div 10)) \<le> Suc (n div 10)" using 1 by simp
    moreover have "Suc (n div 10) \<le> n" using False by linarith
    ultimately show ?thesis using False by (subst dec.simps) simp
  qed (subst dec.simps, simp)
qed

lemma demo_ser_length: "length (demo_ser m) \<le> 2 * length (concat (msg_fields m)) + 30"
proof -
  have "length (concat (map put_field xs)) \<le> 2 * length (concat xs) + 2 * length xs" for xs
  proof (induction xs)
    case (Cons x xs)
    then show ?case using length_dec [of "length x"] by (simp add: put_field_def)
  qed simp
  from this [of "msg_fields m"] show ?thesis by (simp add: demo_ser_def)
qed

end
