(* ===== verification/DiscoveryThms.thy ===== *)
theory DiscoveryThms
  imports DiscoveryProps WireCodec
begin

text \<open>
  The properties of Discovery<MessagePublisherInfo> and Discovery<ServicePublisherInfo>:
  construction, framing, delivery of an advertisement from one process to another, scope,
  expiry, and the branches for malformed and repeated messages.
\<close>

section \<open>Construction\<close>

lemma mkDiscovery_fields:
  assumes "mkDiscovery pton io u ip port host = Inr d"
  shows "d_pubs d = [] \<and> d_seen d = [] \<and> d_proc d = u \<and> \<not> d_enabled d \<and> \<not> d_exit d \<and>
    d_port d = port \<and> 0 < port \<and> port \<le> 65535 \<and> length (d_socks d) = 1 \<and>
    (\<exists>a. pton ip = Some a \<and> d_mcast d = (a, of_int port) \<and> a AND 0xf0000000 = 0xe0000000)"
  using assms
  by (auto simp: mkDiscovery_def new_disc_def registerNetIface_def Let_def
      split: if_splits option.splits prod.splits)

lemma fresh_ok:
  assumes "mkDiscovery pton io u ip port host = Inr d"
  shows "disc_ok good d" "tracked d"
  using mkDiscovery_fields [OF assms] by (auto simp: disc_ok_def tracked_def ts_view_def)

section \<open>Framing\<close>

lemma ntohs_htons: "ntohs (htons n @ bs) = n"
proof -
  have "unat n < 2 ^ LENGTH(16)" by (rule unsigned_less)
  then have "unat n div 256 < 256" by simp
  then have "of_char (char_of (unat n div 256) :: char) = unat n div 256"
    by (simp add: of_char_of take_bit_nat_eq_self_iff)
  moreover have "of_char (char_of (unat n mod 256) :: char) = unat n mod 256"
    by (simp add: of_char_of take_bit_nat_eq_self_iff)
  ultimately have "256 * of_char (char_of (unat n div 256) :: char) + of_char (char_of (unat n mod 256) :: char) = unat n"
    by simp
  then have "ntohs (htons n @ bs) = of_nat (unat n)"
    by (simp only: ntohs_def htons_def append_Cons nth_Cons_0 nth_Cons_Suc One_nat_def)
  then show ?thesis by (simp add: of_nat_unat)
qed

lemma recv_frame:
  assumes "encode_frame ser m = Some buf" "parse (ser m) = Some m"
  shows "recvDiscoveryMsg C parse (Some (ip, buf)) now d = dispatch C ip m now d"
proof -
  let ?b = "ser m"
  have len: "length ?b + 2 \<le> kMaxRcvStr" and buf: "buf = htons (of_nat (length ?b)) @ ?b"
    using assms(1) by (auto simp: encode_frame_def Let_def split: if_splits)
  have n: "unat (of_nat (length ?b) :: u16) = length ?b"
    using len by (intro unat_of_nat_small) (simp add: kMaxRcvStr_def)
  have h: "length (htons w) = 2" for w by (simp add: htons_def)
  have t: "take kMaxRcvStr buf = buf" using len buf h by simp
  have r: "unat (ntohs buf) = length ?b" unfolding buf by (simp add: ntohs_htons n)
  have l: "length buf = length ?b + 2" and dr: "drop 2 buf = ?b" using h by (simp_all add: buf)
  show ?thesis
    unfolding recvDiscoveryMsg_def dispatchDiscoveryMsg_def option.case prod.case t Let_def
    using assms(2) by (simp add: r l dr)
qed

definition node_disc :: "string \<Rightarrow> string \<Rightarrow> 'p disc" where
  "node_disc u host = (new_disc u ''224.0.0.1'' 10319 ''proc'')
     \<lparr>d_host := host, d_enabled := True, d_conn := True, d_disc := True, d_socks := [3]\<rparr>"

lemma node_disc_simps [simp]:
  "d_pubs (node_disc u h) = []" "d_seen (node_disc u h) = []" "d_proc (node_disc u h) = u"
  "d_enabled (node_disc u h)" "d_conn (node_disc u h)" "d_disc (node_disc u h)" "d_host (node_disc u h) = h"
  "d_next_act (node_disc u h) = 0" "d_silence (node_disc u h) = 3000" "d_pname (node_disc u h) = ''proc''"
  by (simp_all add: node_disc_def new_disc_def kDefSilenceInterval_def)

lemma node_disc_ok [simp]: "disc_ok good (node_disc u h)" "tracked (node_disc u h)"
  by (simp_all add: disc_ok_def tracked_def ts_view_def)

section \<open>Construction and lifetime\<close>

text \<open>
  a Discovery object comes into being exactly when the port is in 1..65535, the group
  is an IPv4 address of 224.0.0.0/4, a host address is given or found, and every socket
  call succeeds; every other input is one of the constructor's exceptions.
\<close>

theorem mkDiscovery_iff:
  "(\<exists>d. mkDiscovery pton io u ip port host = Inr d) \<longleftrightarrow>
     port \<in> {1..65535} \<and> (\<exists>a. pton ip = Some a \<and> a AND 0xf0000000 = 0xe0000000) \<and>
     (if host = [] then determineHost (io_host_ip io) (io_ifs io) else Some host) \<noteq> None \<and>
     io_sock io \<noteq> None \<and> io_mcast_if io \<and> io_member io \<and> io_reuseaddr io \<and> io_reuseport io \<and> io_bind io"
  by (auto simp: mkDiscovery_def registerNetIface_def Let_def split: option.splits)

section \<open>Scope\<close>

text \<open>
  C5: no endpoint of PROCESS scope ever reaches the network. Whatever a fresh message
  Discovery is asked to do or receives, in any order, each ADVERTISE and UNADVERTISE it
  multicasts decodes to an endpoint of scope HOST or ALL.
\<close>

theorem process_scope_stays_local:
  assumes "mkDiscovery pton io u ip port host = Inr d" "list_all (op_ok msg_pub_wf) ops"
    and "Multicast m \<in> set (snd (disc_run msg_class ops d))" "dm_type m \<in> {ADVERTISE, UNADVERTISE}"
  shows "opt_scope (m_opts (setFromDiscovery_msg m new_msg_pub)) \<noteq> SCOPE_PROCESS"
proof -
  have "\<not> leaks msg_class (Multicast m)"
    using mc.ok_run [OF fresh_ok(1) [OF assms(1)] assms(2)] assms(3) by blast
  then show ?thesis using assms(4) by (auto simp: leaks_def msg_class_def)
qed

definition all_opts :: adv_msg_opts where
  "all_opts = new_msg_opts\<lparr>opt_scope := SCOPE_ALL\<rparr>"

definition sample_pub :: "string \<Rightarrow> scope \<Rightarrow> msg_pub" where
  "sample_pub t s = mkMessagePublisherInfo t ''tcp://10.0.0.1:5'' [] ''uA'' ''n1'' ''demo.Msg''
     (new_msg_opts\<lparr>opt_scope := s, opt_rate := 5\<rparr>)"

lemma sample_pub_simps [simp]:
  "p_topic (sample_pub t s) = t" "p_proc (sample_pub t s) = ''uA''" "p_node (sample_pub t s) = ''n1''"
  "opt_scope (m_opts (sample_pub t s)) = s" "msg_pub_wf (sample_pub t s)"
  "p_addr (sample_pub t s) = ''tcp://10.0.0.1:5''"
  by (simp_all add: sample_pub_def msg_pub_wf_def)

definition sample_io :: net_io where
  "sample_io = \<lparr>io_host_ip = Some ''10.0.0.1'', io_ifs = None, io_pname = ''p'', io_sock = Some 3,
     io_mcast_if = True, io_member = True, io_reuseaddr = True, io_reuseport = True, io_bind = True\<rparr>"

definition sample_disc :: "msg_pub disc" where
  "sample_disc = (new_disc ''uA'' ''224.0.0.1'' 10319 ''p'')
     \<lparr>d_host := ''10.0.0.1'', d_socks := [3], d_mcast := (0xe0000001, 10319)\<rparr>"

lemma sample_disc_made:
  "mkDiscovery (\<lambda>_. Some 0xe0000001) sample_io ''uA'' ''224.0.0.1'' 10319 [] = Inr sample_disc"
  by (simp add: mkDiscovery_def sample_io_def sample_disc_def determineHost_def registerNetIface_def new_disc_def)

definition sample_msg :: disc_msg where
  "sample_msg = fillDiscovery_msg (sample_pub ''t'' SCOPE_HOST)
     (disc_msg_default\<lparr>dm_type := ADVERTISE, dm_process_uuid := ''uA'', dm_process_name := ''p''\<rparr>)"

theorem process_scope_stays_local_witness:
  "Multicast sample_msg \<in> set (snd (disc_run msg_class
       [OStart 0, OAdvertise (sample_pub ''s'' SCOPE_PROCESS), OAdvertise (sample_pub ''t'' SCOPE_HOST)] sample_disc)) \<and>
   opt_scope (m_opts (setFromDiscovery_msg sample_msg new_msg_pub)) \<noteq> SCOPE_PROCESS"
proof -
  have sent: "Multicast sample_msg \<in> set (snd (disc_run msg_class
       [OStart 0, OAdvertise (sample_pub ''s'' SCOPE_PROCESS), OAdvertise (sample_pub ''t'' SCOPE_HOST)] sample_disc))"
    by (simp add: disc_op_def start_disc_def disc_advertise_def sample_disc_def new_disc_def
        addPublisher_def om_get_def om_has_def sendMsg_def msg_class_def sample_msg_def kWireVersion_def
        disc_msg_default_def Let_def)
  have ops: "list_all (op_ok msg_pub_wf)
      [OStart 0, OAdvertise (sample_pub ''s'' SCOPE_PROCESS), OAdvertise (sample_pub ''t'' SCOPE_HOST)]"
    by simp
  have "dm_type sample_msg \<in> {ADVERTISE, UNADVERTISE}" by (simp add: sample_msg_def)
  from process_scope_stays_local [OF sample_disc_made ops sent this] sent show ?thesis by blast
qed

lemma concat_unless: "concat (map (\<lambda>p. if P p then [] else [f p]) xs) = map f (filter (\<lambda>p. \<not> P p) xs)"
  by (induction xs) simp_all

context endpoint_class
begin

lemma subscribe_answered:
  assumes "ts_wf (d_pubs d)" "dm_process_uuid m \<noteq> d_proc d" "dm_type m = SUBSCRIBE" "has_sub m"
  shows "\<exists>ps. dispatch C ip m now d = (d\<lparr>d_seen := om_put (dm_process_uuid m) now (d_seen d)\<rparr>,
       map (\<lambda>p. Multicast (pc_fill C p (header ADVERTISE d))) ps) \<and> distinct ps \<and>
     set ps = {p \<in> ts_view (d_pubs d). p_topic p = sub_topic m \<and> p_proc p = d_proc d \<and>
       (pc_scope C p = SCOPE_ALL \<or> pc_scope C p = SCOPE_HOST \<and> is_sender_local ip d)}"
proof -
  let ?ps = "filter (\<lambda>p. \<not> out_of_scope (pc_scope C p) (is_sender_local ip d)) (entries (d_pubs d) (sub_topic m) (d_proc d))"
  have own: "p \<in> set (entries (d_pubs d) (sub_topic m) (d_proc d)) \<longleftrightarrow>
      p \<in> ts_view (d_pubs d) \<and> p_topic p = sub_topic m \<and> p_proc p = d_proc d" for p
    using ts_view_entries [OF assms(1), of p] entries_key [OF assms(1), of p] by metis
  have "sendMsg ADVERTISE (pc_fill C p) t d = [Multicast (pc_fill C p (header ADVERTISE d))]" for p t
    by (simp add: sendMsg_simps(4) fill_twice)
  then have "dispatch C ip m now d = (seen_by m now d, map (\<lambda>p. Multicast (pc_fill C p (header ADVERTISE d))) ?ps)"
    using assms(4) by (simp add: dispatch_subscribe [OF assms(2,3)] concat_unless cong: if_cong)
  moreover have "distinct ?ps" using entries_distinct [OF assms(1)] by (simp add: distinct_map)
  moreover have "set ?ps = {p \<in> ts_view (d_pubs d). p_topic p = sub_topic m \<and> p_proc p = d_proc d \<and>
       (pc_scope C p = SCOPE_ALL \<or> pc_scope C p = SCOPE_HOST \<and> is_sender_local ip d)}"
    by (auto simp: own in_scope)
  ultimately show ?thesis unfolding seen_by_def by blast
qed

end

text \<open>
  C28: the answer to a SUBSCRIBE, of a discovery of messages (d) and of one of services (e).
  The receiver multicasts one ADVERTISE for each of those of its own endpoints on the topic
  that the asking host may see, and no other: never one of PROCESS scope, and one of HOST
  scope only to a sender on this host. It calls no callback, and nothing of its state changes
  but the sender's last-seen time.
\<close>

theorem subscribe_answer:
  assumes "ts_wf (d_pubs d)" "dm_process_uuid m \<noteq> d_proc d" "ts_wf (d_pubs e)" "dm_process_uuid m \<noteq> d_proc e"
    and "dm_type m = SUBSCRIBE" "has_sub m"
  shows "(\<exists>ps. dispatch msg_class ip m now d = (d\<lparr>d_seen := om_put (dm_process_uuid m) now (d_seen d)\<rparr>,
       map (\<lambda>p. Multicast (fillDiscovery_msg p (header ADVERTISE d))) ps) \<and> distinct ps \<and>
     set ps = {p \<in> ts_view (d_pubs d). p_topic p = sub_topic m \<and> p_proc p = d_proc d \<and>
       (opt_scope (m_opts p) = SCOPE_ALL \<or> opt_scope (m_opts p) = SCOPE_HOST \<and> is_sender_local ip d)}) \<and>
   (\<exists>ps. dispatch srv_class ip m now e = (e\<lparr>d_seen := om_put (dm_process_uuid m) now (d_seen e)\<rparr>,
       map (\<lambda>p. Multicast (fillDiscovery_srv p (header ADVERTISE e))) ps) \<and> distinct ps \<and>
     set ps = {p \<in> ts_view (d_pubs e). p_topic p = sub_topic m \<and> p_proc p = d_proc e \<and>
       (opt_scope (s_opts p) = SCOPE_ALL \<or> opt_scope (s_opts p) = SCOPE_HOST \<and> is_sender_local ip e)})"
  using mc.subscribe_answered [OF assms(1,2,5,6), of ip now] sc.subscribe_answered [OF assms(3-6), of ip now]
  by (simp add: msg_class_def srv_class_def)

definition sample_srv :: srv_pub where
  "sample_srv = mkServicePublisherInfo ''svc'' ''tcp://10.0.0.1:6'' ''sock'' ''uA'' ''n1'' ''demo.Req'' ''demo.Rep''
     (new_opts\<lparr>opt_scope := SCOPE_HOST\<rparr>)"

definition ask_msg :: disc_msg where
  "ask_msg = disc_msg_default\<lparr>dm_type := SUBSCRIBE, dm_process_uuid := ''uB'', dm_contents := SubC ''svc''\<rparr>"

lemma one_element: "distinct ps \<Longrightarrow> set ps = {x} \<Longrightarrow> ps = [x]"
  by (cases ps; cases "tl ps") auto

theorem subscribe_answer_witness:
  "dispatch srv_class ''127.0.0.1'' ask_msg 5 ((node_disc ''uA'' ''10.0.0.1'')\<lparr>d_pubs := fst (addPublisher sample_srv [])\<rparr>) =
     ((node_disc ''uA'' ''10.0.0.1'')\<lparr>d_pubs := fst (addPublisher sample_srv []), d_seen := [(''uB'', 5)]\<rparr>,
      [Multicast (fillDiscovery_srv sample_srv (header ADVERTISE (node_disc ''uA'' ''10.0.0.1'' :: srv_pub disc)))]) \<and>
   dispatch msg_class ''127.0.0.1'' ask_msg 5 (node_disc ''uA'' ''10.0.0.1'') =
     ((node_disc ''uA'' ''10.0.0.1'')\<lparr>d_seen := [(''uB'', 5)]\<rparr>, [])"
proof -
  define d where "d = (node_disc ''uA'' ''10.0.0.1'' :: msg_pub disc)"
  define e where "e = (node_disc ''uA'' ''10.0.0.1'')\<lparr>d_pubs := fst (addPublisher sample_srv [])\<rparr>"
  have view: "ts_view (d_pubs e) = {sample_srv}" and wf: "ts_wf (d_pubs e)"
    using ts_view_add [of "[]" sample_srv] ts_wf_add [of "[]" sample_srv] by (simp_all add: e_def ts_view_def)
  have s: "p_topic sample_srv = ''svc''" "p_proc sample_srv = ''uA''" "opt_scope (s_opts sample_srv) = SCOPE_HOST"
    by (simp_all add: sample_srv_def)
  have a: "sub_topic ask_msg = ''svc''" "dm_process_uuid ask_msg = ''uB''" "dm_type ask_msg = SUBSCRIBE" "has_sub ask_msg"
    by (simp_all add: ask_msg_def pb_defs)
  have d: "ts_wf (d_pubs d)" "ts_view (d_pubs d) = {}" "d_proc d = ''uA''" "d_seen d = []"
    by (simp_all add: d_def ts_view_def)
  have e: "d_proc e = ''uA''" "is_sender_local ''127.0.0.1'' e" "d_seen e = []"
      "header ADVERTISE e = header ADVERTISE (node_disc ''uA'' ''10.0.0.1'' :: srv_pub disc)"
    by (simp_all add: e_def is_sender_local_def header_def node_disc_def new_disc_def)
  have own: "{p \<in> {sample_srv}. p_topic p = ''svc'' \<and> p_proc p = ''uA'' \<and>
      (opt_scope (s_opts p) = SCOPE_ALL \<or> opt_scope (s_opts p) = SCOPE_HOST \<and> is_sender_local ''127.0.0.1'' e)} = {sample_srv}"
    using s e(2) by auto
  have ne: "dm_process_uuid ask_msg \<noteq> d_proc d" "dm_process_uuid ask_msg \<noteq> d_proc e" by (simp_all add: a d e)
  note both = subscribe_answer [OF d(1) ne(1) wf ne(2) a(3,4), of "''127.0.0.1''" 5, unfolded view a(1,2) d(2-4) e(1,3) own]
  have "dispatch srv_class ''127.0.0.1'' ask_msg 5 e = (e\<lparr>d_seen := [(''uB'', 5)]\<rparr>,
      [Multicast (fillDiscovery_srv sample_srv (header ADVERTISE e))])"
    using both [THEN conjunct2] by (auto dest: one_element)
  moreover have "dispatch msg_class ''127.0.0.1'' ask_msg 5 d = (d\<lparr>d_seen := [(''uB'', 5)]\<rparr>, [])"
    using both [THEN conjunct1] by auto
  ultimately show ?thesis unfolding e(4) by (simp add: d_def e_def)
qed

section \<open>From one process to another\<close>

lemma advertise_events:
  assumes "d_enabled a" "disc_ok msg_pub_wf a" "\<not> (\<exists>q \<in> ts_view (d_pubs a). pub_key q = pub_key pub)"
    and "opt_scope (m_opts pub) \<noteq> SCOPE_PROCESS"
  shows "disc_advertise msg_class pub a =
    (a\<lparr>d_pubs := fst (addPublisher pub (d_pubs a))\<rparr>,
     (if d_conn a then [Connected pub] else []) @ [Multicast (fillDiscovery_msg pub (header ADVERTISE a))], True)"
proof -
  have "snd (addPublisher pub (d_pubs a))"
    using assms(2,3) by (simp add: addPublisher_result disc_ok_def is_dup_view)
  then show ?thesis
    using assms(1,4) by (simp add: disc_advertise_def split_def msg_class_def sendMsg_simps(4))
qed

text \<open>What the ADVERTISE of an endpoint in scope and not yet known does at the receiver.\<close>

lemma advert_dispatched:
  assumes "ts_wf (d_pubs b)" "msg_pub_wf pub" "p_proc pub = d_proc a" "d_proc b \<noteq> d_proc a" "d_conn b"
    and "opt_scope (m_opts pub) = SCOPE_ALL \<or> opt_scope (m_opts pub) = SCOPE_HOST \<and> is_sender_local ip b"
    and "\<not> (\<exists>q \<in> ts_view (d_pubs b). pub_key q = pub_key pub)"
  shows "dispatch msg_class ip (fillDiscovery_msg pub (header ADVERTISE a)) now b =
      ((seen_by (fillDiscovery_msg pub (header ADVERTISE a)) now b)
         \<lparr>d_pubs := fst (addPublisher (pub\<lparr>p_pname := d_pname a\<rparr>) (d_pubs b))\<rparr>, [Connected (pub\<lparr>p_pname := d_pname a\<rparr>)])"
    and "ts_view (fst (addPublisher (pub\<lparr>p_pname := d_pname a\<rparr>) (d_pubs b))) =
      insert (pub\<lparr>p_pname := d_pname a\<rparr>) (ts_view (d_pubs b))"
proof -
  let ?m = "fillDiscovery_msg pub (header ADVERTISE a)" and ?q = "pub\<lparr>p_pname := d_pname a\<rparr>"
  have set: "setFromDiscovery_msg ?m x = ?q" for x
    using msg_roundtrip [OF assms(2), of "header ADVERTISE a" x] assms(3) by simp
  have new: "\<not> (\<exists>q \<in> ts_view (d_pubs b). pub_key q = pub_key ?q)" using assms(7) by (simp add: pub_key_def)
  then have "snd (addPublisher ?q (d_pubs b))" using is_dup_view [OF assms(1), of ?q] by (simp add: addPublisher_result)
  moreover have "\<not> out_of_scope (opt_scope (m_opts ?q)) (is_sender_local ip b)" using assms(6) by (simp add: in_scope)
  ultimately show "dispatch msg_class ip ?m now b = ((seen_by ?m now b)\<lparr>d_pubs := fst (addPublisher ?q (d_pubs b))\<rparr>, [Connected ?q])"
    using dispatch_advertise [of ?m b msg_class ip now] set assms(4,5) by (simp add: msg_class_def)
  show "ts_view (fst (addPublisher ?q (d_pubs b))) = insert ?q (ts_view (d_pubs b))"
    using ts_view_add [OF assms(1), of ?q] new by auto
qed

text \<open>
  C7: an advertisement crosses the wire. When a process advertises a new endpoint of scope
  ALL (or HOST with a receiver on the same host), the datagram it sends makes any other
  process that receives it know exactly that endpoint, every field as advertised and the
  sender's process name added; its connection callback runs once, with that endpoint.
\<close>

theorem advertise_delivered:
  assumes "disc_ok msg_pub_wf a" "d_enabled a" "msg_pub_wf pub" "p_proc pub = d_proc a"
    and "\<not> (\<exists>q \<in> ts_view (d_pubs a). pub_key q = pub_key pub)"
    and "opt_scope (m_opts pub) = SCOPE_ALL \<or> opt_scope (m_opts pub) = SCOPE_HOST \<and> is_sender_local ip b"
    and "disc_ok msg_pub_wf b" "d_proc b \<noteq> d_proc a" "d_conn b"
    and "\<not> (\<exists>q \<in> ts_view (d_pubs b). pub_key q = pub_key pub)"
    and "parse (ser (fillDiscovery_msg pub (header ADVERTISE a))) = Some (fillDiscovery_msg pub (header ADVERTISE a))"
    and "length (ser (fillDiscovery_msg pub (header ADVERTISE a))) \<le> 65533"
  shows "\<exists>a' es m buf b'. disc_advertise msg_class pub a = (a', es, True) \<and> Multicast m \<in> set es \<and>
    encode_frame ser m = Some buf \<and>
    recvDiscoveryMsg msg_class parse (Some (ip, buf)) now b = (b', [Connected (pub\<lparr>p_pname := d_pname a\<rparr>)]) \<and>
    ts_view (d_pubs b') = insert (pub\<lparr>p_pname := d_pname a\<rparr>) (ts_view (d_pubs b)) \<and>
    map_of (d_seen b') (d_proc a) = Some now"
proof -
  define m where "m = fillDiscovery_msg pub (header ADVERTISE a)"
  have scope: "opt_scope (m_opts pub) \<noteq> SCOPE_PROCESS" using assms(6) by auto
  note adv = advertise_events [OF assms(2,1,5) scope]
  have tsb: "ts_wf (d_pubs b)" using assms(7) by (simp add: disc_ok_def)
  note got = advert_dispatched(1) [OF tsb assms(3,4,8,9,6,10), of now, folded m_def]
    advert_dispatched(2) [OF tsb assms(3,4,8,9,6,10)]
  obtain buf where buf: "encode_frame ser m = Some buf"
    using assms(12) by (simp add: encode_frame_def Let_def kMaxRcvStr_def m_def)
  have "recvDiscoveryMsg msg_class parse (Some (ip, buf)) now b = dispatch msg_class ip m now b"
    using recv_frame [OF buf, of parse msg_class ip now b] assms(8,11) by (simp add: m_def)
  then show ?thesis using adv buf got by (auto simp: m_def)
qed

theorem advertise_delivered_witness:
  "\<exists>buf b'. encode_frame demo_ser (fillDiscovery_msg (sample_pub ''t'' SCOPE_ALL)
        (header ADVERTISE (node_disc ''uA'' ''10.0.0.1'' :: msg_pub disc))) = Some buf \<and>
     recvDiscoveryMsg msg_class demo_parse (Some (''10.0.0.1'', buf)) 7 (node_disc ''uB'' ''10.0.0.2'') =
       (b', [Connected ((sample_pub ''t'' SCOPE_ALL)\<lparr>p_pname := ''proc''\<rparr>)])"
proof -
  let ?a = "node_disc ''uA'' ''10.0.0.1'' :: msg_pub disc" and ?p = "sample_pub ''t'' SCOPE_ALL"
  let ?b = "node_disc ''uB'' ''10.0.0.2'' :: msg_pub disc"
  let ?m = "fillDiscovery_msg ?p (header ADVERTISE ?a)"
  have len: "length (demo_ser ?m) \<le> 65533"
  proof -
    have "length (concat (msg_fields ?m)) \<le> 200"
      by (simp add: msg_fields_def content_fields_def kind_fields_def fillDiscovery_msg_def
        fillDiscovery_def pb_defs header_def disc_msg_default_def pb_pub_default_def
        sample_pub_def type_code_def disc_type_toString_def scope_code_def scope_to_pb_def bool_code_def
        kWireVersion_def dec.simps digit_char_def new_msg_opts_def)
    then show ?thesis using demo_ser_length [of ?m] by linarith
  qed
  have "\<exists>a' es m buf b'. disc_advertise msg_class ?p ?a = (a', es, True) \<and> Multicast m \<in> set es \<and>
    encode_frame demo_ser m = Some buf \<and>
    recvDiscoveryMsg msg_class demo_parse (Some (''10.0.0.1'', buf)) 7 ?b = (b', [Connected (?p\<lparr>p_pname := d_pname ?a\<rparr>)]) \<and>
    ts_view (d_pubs b') = insert (?p\<lparr>p_pname := d_pname ?a\<rparr>) (ts_view (d_pubs ?b)) \<and>
    map_of (d_seen b') (d_proc ?a) = Some 7"
    by (rule advertise_delivered) (use len in \<open>simp_all add: demo_roundtrip ts_view_def\<close>)
  moreover have "disc_advertise msg_class ?p ?a = (a', es, True) \<Longrightarrow> Multicast m \<in> set es \<Longrightarrow> m = ?m" for a' es m
    using advertise_events [of ?a ?p] by (simp add: ts_view_def) auto
  ultimately show ?thesis by fastforce
qed

text \<open>
  an ADVERTISE in scope from another process leads to the connection callback exactly
  when no endpoint with its topic, process, address and node is known yet. A repeated
  one (the periodic re-advertisement) only refreshes the sender's last-seen time: it runs
  no callback and does not update the stored endpoint.
\<close>

theorem readvertise_silent:
  assumes "disc_ok msg_pub_wf b" "dm_process_uuid m \<noteq> d_proc b" "dm_type m = ADVERTISE"
    and "\<exists>q \<in> ts_view (d_pubs b). pub_key q = pub_key (setFromDiscovery_msg m new_msg_pub)"
  shows "snd (dispatch msg_class ip m now b) = [] \<and>
    fst (dispatch msg_class ip m now b) = b\<lparr>d_seen := om_put (dm_process_uuid m) now (d_seen b)\<rparr>"
proof -
  let ?p = "setFromDiscovery_msg m new_msg_pub"
  have ts: "ts_wf (d_pubs b)" using assms(1) by (simp add: disc_ok_def)
  have dup: "is_dup ?p (d_pubs b)" using assms(4) is_dup_view [OF ts] by blast
  then have "fst (addPublisher ?p (d_pubs b)) = d_pubs b" "\<not> snd (addPublisher ?p (d_pubs b))"
    using add_dup_unchanged [OF ts] by (simp_all add: addPublisher_result)
  then show ?thesis
    using dispatch_advertise [OF assms(2,3), of msg_class ip now]
    by (simp add: msg_class_def seen_by_def)
qed

theorem readvertise_silent_witness:
  "snd (dispatch msg_class ''10.0.0.1'' sample_msg 9
     ((node_disc ''uB'' ''10.0.0.1'')\<lparr>d_pubs := fst (addPublisher (sample_pub ''t'' SCOPE_HOST) [])\<rparr>)) = []"
proof -
  let ?p = "sample_pub ''t'' SCOPE_HOST"
  define b where "b = (node_disc ''uB'' ''10.0.0.1'')\<lparr>d_pubs := fst (addPublisher ?p [])\<rparr>"
  have view: "ts_view (d_pubs b) = {?p}"
    using ts_view_add [of "[]" ?p] by (simp add: b_def ts_view_def)
  have ok: "disc_ok msg_pub_wf b"
    using ts_wf_add [of "[]" ?p] view by (simp add: disc_ok_def b_def)
  have key: "pub_key (setFromDiscovery_msg sample_msg new_msg_pub) = pub_key ?p"
    using mc.transfer(1) [of ?p "disc_msg_default\<lparr>dm_type := ADVERTISE, dm_process_uuid := ''uA'', dm_process_name := ''p''\<rparr>"]
    by (simp add: sample_msg_def msg_class_def)
  have m: "dm_process_uuid sample_msg = ''uA''" "dm_type sample_msg = ADVERTISE" "d_proc b = ''uB''"
    by (simp_all add: sample_msg_def b_def)
  have "snd (dispatch msg_class ''10.0.0.1'' sample_msg 9 b) = []"
    by (rule conjunct1 [OF readvertise_silent [OF ok]]) (use m key view in simp_all)
  then show ?thesis by (simp add: b_def)
qed

text \<open>
  C9: withdrawing an endpoint crosses the wire too: both sides forget exactly the
  endpoints of that topic, process and node, and the receiver's disconnection callback
  runs with the endpoint as it was advertised.
\<close>

theorem unadvertise_delivered:
  assumes "disc_ok msg_pub_wf a" "d_enabled a" "getPublisher t (d_proc a) n (d_pubs a) = Some pub"
    and "opt_scope (m_opts pub) = SCOPE_ALL \<or> opt_scope (m_opts pub) = SCOPE_HOST \<and> is_sender_local ip b"
    and "disc_ok msg_pub_wf b" "d_proc b \<noteq> d_proc a" "d_disc b"
    and "parse (ser (fillDiscovery_msg pub (header UNADVERTISE a))) = Some (fillDiscovery_msg pub (header UNADVERTISE a))"
    and "length (ser (fillDiscovery_msg pub (header UNADVERTISE a))) \<le> 65533"
  shows "\<exists>a' m buf b'. disc_unadvertise msg_class t n a = (a', [Multicast m], True) \<and>
    encode_frame ser m = Some buf \<and>
    recvDiscoveryMsg msg_class parse (Some (ip, buf)) now b = (b', [Disconnected (pub\<lparr>p_pname := d_pname a\<rparr>)]) \<and>
    ts_view (d_pubs a') = {p \<in> ts_view (d_pubs a). \<not> (p_topic p = t \<and> p_proc p = d_proc a \<and> p_node p = n)} \<and>
    ts_view (d_pubs b') = {p \<in> ts_view (d_pubs b). \<not> (p_topic p = t \<and> p_proc p = d_proc a \<and> p_node p = n)}"
proof -
  define m where "m = fillDiscovery_msg pub (header UNADVERTISE a)"
  define q where "q = pub\<lparr>p_pname := d_pname a\<rparr>"
  have tsa: "ts_wf (d_pubs a)" and tsb: "ts_wf (d_pubs b)" using assms(1,5) by (simp_all add: disc_ok_def)
  have scope: "opt_scope (m_opts pub) \<noteq> SCOPE_PROCESS" using assms(4) by auto
  note pub = getPublisher_Some [OF tsa assms(3)]
  have wf: "msg_pub_wf pub" using pub(1) assms(1) by (simp add: disc_ok_def)
  have set: "setFromDiscovery_msg m x = q" for x
    using msg_roundtrip [OF wf, of "header UNADVERTISE a" x] pub(3) by (simp add: m_def q_def)
  obtain buf where buf: "encode_frame ser m = Some buf"
    using assms(9) by (simp add: encode_frame_def Let_def kMaxRcvStr_def m_def)
  have hdr: "dm_process_uuid m = d_proc a" "dm_type m = UNADVERTISE" by (simp_all add: m_def)
  have neq: "dm_process_uuid m \<noteq> d_proc b" using hdr(1) assms(6) by simp
  have inscope: "\<not> out_of_scope (opt_scope (m_opts q)) (is_sender_local ip b)"
    using assms(4) by (auto simp: q_def out_of_scope_def)
  have un: "disc_unadvertise msg_class t n a =
      (a\<lparr>d_pubs := fst (delPublishersByNode t (d_proc a) n (d_pubs a))\<rparr>, [Multicast m], True)"
    using assms(2,3) scope by (simp add: disc_unadvertise_def msg_class_def sendMsg_simps(4) m_def)
  have "recvDiscoveryMsg msg_class parse (Some (ip, buf)) now b =
      ((seen_by m now b)\<lparr>d_pubs := fst (delPublishersByNode t (d_proc a) n (d_pubs b))\<rparr>, [Disconnected q])"
    using recv_frame [OF buf, of parse msg_class ip now b] assms(7,8)
      dispatch_unadvertise [OF neq hdr(2), of msg_class ip now] set inscope pub
    by (simp add: msg_class_def m_def [symmetric] q_def [symmetric] Let_def) (simp add: q_def)
  then show ?thesis
    unfolding q_def [symmetric] using un buf ts_view_delNode [OF tsa] ts_view_delNode [OF tsb] by auto
qed

lemma view_single: "ts_view (fst (addPublisher p [])) = {p}"
  using ts_view_add [of "[]" p] by (simp add: ts_view_def)

lemma ok_single: "good p \<Longrightarrow> disc_ok good ((node_disc u h)\<lparr>d_pubs := fst (addPublisher p [])\<rparr>)"
  using ts_wf_add [of "[]" p] by (simp add: disc_ok_def view_single)

theorem unadvertise_delivered_witness:
  "\<exists>a' m buf b'. disc_unadvertise msg_class ''t'' ''n1''
        ((node_disc ''uA'' ''10.0.0.1'')\<lparr>d_pubs := fst (addPublisher (sample_pub ''t'' SCOPE_ALL) [])\<rparr>) =
        (a', [Multicast m], True) \<and> encode_frame demo_ser m = Some buf \<and>
     recvDiscoveryMsg msg_class demo_parse (Some (''10.0.0.1'', buf)) 7
        ((node_disc ''uB'' ''10.0.0.2'')\<lparr>d_pubs := fst (addPublisher (sample_pub ''t'' SCOPE_ALL) [])\<rparr>) =
       (b', [Disconnected ((sample_pub ''t'' SCOPE_ALL)\<lparr>p_pname := ''proc''\<rparr>)]) \<and>
     ts_view (d_pubs b') = {}"
proof -
  let ?p = "sample_pub ''t'' SCOPE_ALL"
  let ?a = "(node_disc ''uA'' ''10.0.0.1'')\<lparr>d_pubs := fst (addPublisher ?p [])\<rparr>"
  let ?b = "(node_disc ''uB'' ''10.0.0.2'')\<lparr>d_pubs := fst (addPublisher ?p [])\<rparr>"
  let ?m = "fillDiscovery_msg ?p (header UNADVERTISE ?a)"
  have "length (concat (msg_fields ?m)) \<le> 200"
    by (simp add: msg_fields_def content_fields_def kind_fields_def fillDiscovery_msg_def
      fillDiscovery_def pb_defs header_def disc_msg_default_def pb_pub_default_def
      sample_pub_def type_code_def disc_type_toString_def scope_code_def scope_to_pb_def bool_code_def
      kWireVersion_def dec.simps digit_char_def new_msg_opts_def)
  then have len: "length (demo_ser ?m) \<le> 65533" using demo_ser_length [of ?m] by linarith
  have found: "getPublisher ''t'' (d_proc ?a) ''n1'' (d_pubs ?a) = Some ?p"
    by (simp add: getPublisher_def addPublisher_def om_get_def om_has_def)
  have "\<exists>a' m buf b'. disc_unadvertise msg_class ''t'' ''n1'' ?a = (a', [Multicast m], True) \<and>
    encode_frame demo_ser m = Some buf \<and>
    recvDiscoveryMsg msg_class demo_parse (Some (''10.0.0.1'', buf)) 7 ?b = (b', [Disconnected (?p\<lparr>p_pname := d_pname ?a\<rparr>)]) \<and>
    ts_view (d_pubs a') = {p \<in> ts_view (d_pubs ?a). \<not> (p_topic p = ''t'' \<and> p_proc p = d_proc ?a \<and> p_node p = ''n1'')} \<and>
    ts_view (d_pubs b') = {p \<in> ts_view (d_pubs ?b). \<not> (p_topic p = ''t'' \<and> p_proc p = d_proc ?a \<and> p_node p = ''n1'')}"
    by (rule unadvertise_delivered) (use found len in \<open>simp_all add: ok_single demo_roundtrip\<close>)
  then show ?thesis by (auto simp: view_single)
qed

text \<open>
  Malformed datagrams change nothing and run nothing: one shorter than its length
  field, one whose length field is not its length, one that does not parse, and one that
  carries the receiver's own process uuid.
\<close>

theorem bad_datagram_ignored:
  assumes "length bytes < 2 \<or> length (take kMaxRcvStr bytes) \<noteq> unat (ntohs bytes) + 2 \<or>
    parse (drop 2 (take kMaxRcvStr bytes)) = None \<or>
    (\<exists>m. parse (drop 2 (take kMaxRcvStr bytes)) = Some m \<and> dm_process_uuid m = d_proc d)"
  shows "recvDiscoveryMsg msg_class parse (Some (ip, bytes)) now d = (d, [])"
proof -
  have "ntohs (take kMaxRcvStr bytes) = ntohs bytes"
    by (simp add: ntohs_def kMaxRcvStr_def)
  then show ?thesis
    using assms by (auto simp: recvDiscoveryMsg_def dispatchDiscoveryMsg_def dispatch_own Let_def
        split: option.splits)
qed

theorem bad_datagram_ignored_witness:
  "recvDiscoveryMsg msg_class demo_parse (Some (''10.0.0.1'', ''a'')) 3 (node_disc ''uA'' ''h'') = (node_disc ''uA'' ''h'', [])"
  using bad_datagram_ignored [of "''a''"] by simp

section \<open>Timers\<close>

text \<open>
  The poll timeout is always between 0 and 250 milliseconds, whatever the two next
  deadlines are, so the loop looks at its exit flag at least four times a second.
\<close>

theorem timeout_bounds: "0 \<le> nextTimeout now d \<and> nextTimeout now d \<le> kTimeout"
  by (simp add: nextTimeout_def kTimeout_def Let_def)

text \<open>
  the millisecond count is cast to a 32-bit int before it is clamped: with both
  deadlines 2147483648 ms away (an interval the setters accept) the timeout is 0 instead
  of 250, so the loop spins without sleeping.
\<close>

theorem timeout_overflow:
  "nextTimeout 0 (d\<lparr>d_next_hb := 2147483648 * ns_per_ms, d_next_act := 2147483648 * ns_per_ms\<rparr>) = 0 \<and>
   nextTimeout 0 (d\<lparr>d_next_hb := 2147483647 * ns_per_ms, d_next_act := 2147483647 * ns_per_ms\<rparr>) = 250"
  by (simp add: nextTimeout_def kTimeout_def ns_per_ms_def to_ms_def Let_def)

text \<open>
  The activity tick. When it is due it removes exactly the endpoints of the processes
  whose last-seen time is older than the silence interval, forgets exactly those last-seen
  times, and runs the disconnection callback once for each of those processes, in order.
\<close>

theorem activity_expires_exactly:
  assumes "disc_ok msg_pub_wf d" "d_next_act d \<le> now"
  shows "ts_view (d_pubs (fst (updateActivity msg_class now now2 d))) =
      {p \<in> ts_view (d_pubs d). \<not> (\<exists>t. map_of (d_seen d) (p_proc p) = Some t \<and> expired now d t)} \<and>
    (\<forall>u. map_of (d_seen (fst (updateActivity msg_class now now2 d))) u =
      (case map_of (d_seen d) u of None \<Rightarrow> None | Some t \<Rightarrow> if expired now d t then None else Some t)) \<and>
    snd (updateActivity msg_class now now2 d) = (if d_disc d then
      map (\<lambda>(u, t). Disconnected (new_msg_pub\<lparr>p_proc := u\<rparr>)) (filter (\<lambda>(u, t). expired now d t) (d_seen d)) else [])"
  using mc.activity_tick [OF assms] by (simp add: msg_class_def)

theorem activity_expires_exactly_witness:
  "snd (updateActivity msg_class (4000 * ns_per_ms) 0 ((node_disc ''uB'' ''h'')
      \<lparr>d_seen := [(''uA'', 0), (''uC'', 2000 * ns_per_ms)]\<rparr>)) = [Disconnected (new_msg_pub\<lparr>p_proc := ''uA''\<rparr>)]"
proof -
  let ?d = "(node_disc ''uB'' ''h'')\<lparr>d_seen := [(''uA'', 0), (''uC'', 2000 * ns_per_ms)]\<rparr>"
  have "disc_ok msg_pub_wf ?d" by (simp add: disc_ok_def ts_view_def om_wf_def less_char_def)
  from activity_expires_exactly [OF this, of "4000 * ns_per_ms" 0] show ?thesis
    by (simp add: expired_def to_ms_def ns_per_ms_def)
qed

text \<open>
  C13: no silent process lives on. After any history of a message Discovery (own endpoints
  under its own uuid, every received ADVERTISE with a publisher in it), a due activity
  tick at which all that was ever heard of process u is older than the silence interval
  leaves no endpoint of u.
\<close>

theorem silent_process_forgotten:
  assumes "mkDiscovery pton io own ip port host = Inr d0"
    and "list_all (op_ok msg_pub_wf) ops" "list_all (op_own own) ops"
    and "d = fst (disc_run msg_class ops d0)" "d_next_act d \<le> now" "u \<noteq> own"
    and "\<And>t. map_of (d_seen d) u = Some t \<Longrightarrow> expired now d t"
  shows "\<forall>p \<in> ts_view (d_pubs (fst (updateActivity msg_class now now2 d))). p_proc p \<noteq> u"
proof -
  have own: "d_proc d0 = own" using mkDiscovery_fields [OF assms(1)] by simp
  have ok: "disc_ok msg_pub_wf d"
    using mc.ok_run [OF fresh_ok(1) [OF assms(1)] assms(2)] assms(4) by simp
  have "tracked d \<and> d_proc d = own"
    using mc.tracked_run [OF fresh_ok(1) [OF assms(1)] fresh_ok(2) [OF assms(1)] assms(2)] assms(3,4) own by simp
  then show ?thesis using mc.silent_gone [OF ok _ assms(5) _ assms(7)] assms(6) by simp
qed

definition one_advert :: "msg_pub disc_op list" where
  "one_advert = [OStart 0, ORecv ''10.0.0.1'' sample_msg 0]"

definition sample_other :: "msg_pub disc" where
  "sample_other = sample_disc\<lparr>d_proc := ''uB''\<rparr>"

theorem silent_process_forgotten_witness:
  "ts_view (d_pubs (fst (disc_run msg_class one_advert sample_other))) \<noteq> {} \<and>
   {p \<in> ts_view (d_pubs (fst (updateActivity msg_class (3001 * ns_per_ms) 0 (fst (disc_run msg_class one_advert sample_other))))).
     p_proc p = ''uA''} = {}"
proof -
  have made: "mkDiscovery (\<lambda>_. Some 0xe0000001) sample_io ''uB'' ''224.0.0.1'' 10319 [] = Inr sample_other"
    by (simp add: mkDiscovery_def sample_io_def sample_disc_def sample_other_def determineHost_def
        registerNetIface_def new_disc_def)
  let ?d1 = "start_disc 0 sample_other"
  have d1: "d_proc ?d1 = ''uB''" "d_pubs ?d1 = []" "d_seen ?d1 = []" "d_next_act ?d1 = 0"
      "d_silence ?d1 = 3000" "is_sender_local ''10.0.0.1'' ?d1" "d_conn ?d1 = False"
    by (simp_all add: start_disc_def sample_other_def sample_disc_def new_disc_def
        kDefSilenceInterval_def is_sender_local_def)
  have neq: "dm_process_uuid sample_msg \<noteq> d_proc ?d1" and ty: "dm_type sample_msg = ADVERTISE"
      and uu: "dm_process_uuid sample_msg = ''uA''" and hp: "has_pub sample_msg"
    using d1 by (simp_all add: sample_msg_def)
  have sc: "opt_scope (p_opts (setFromDiscovery sample_msg new_msg_pub)) = SCOPE_HOST"
    using fill_scope_msg [of "sample_pub ''t'' SCOPE_HOST"] by (simp add: sample_msg_def)
  let ?p = "setFromDiscovery_msg sample_msg new_msg_pub"
  have run: "fst (disc_run msg_class one_advert sample_other) =
      (seen_by sample_msg 0 ?d1)\<lparr>d_pubs := fst (addPublisher ?p [])\<rparr>"
    using dispatch_advertise [OF neq ty, of msg_class "''10.0.0.1''" 0] d1 sc
    by (simp add: one_advert_def disc_op_def msg_class_def out_of_scope_def split_def)
  have view: "ts_view (d_pubs (fst (disc_run msg_class one_advert sample_other))) \<noteq> {}"
    unfolding run by (simp add: view_single)
  have "\<forall>p \<in> ts_view (d_pubs (fst (updateActivity msg_class (3001 * ns_per_ms) 0
      (fst (disc_run msg_class one_advert sample_other))))). p_proc p \<noteq> ''uA''"
  proof (rule silent_process_forgotten [OF made _ _ refl])
    show "list_all (op_ok msg_pub_wf) one_advert" by (simp add: one_advert_def)
    show "list_all (op_own ''uB'') one_advert" using hp by (simp add: one_advert_def)
    show "d_next_act (fst (disc_run msg_class one_advert sample_other)) \<le> 3001 * ns_per_ms"
      unfolding run using d1 by (simp add: ns_per_ms_def seen_by_def)
    show "expired (3001 * ns_per_ms) (fst (disc_run msg_class one_advert sample_other)) t"
      if "map_of (d_seen (fst (disc_run msg_class one_advert sample_other))) ''uA'' = Some t" for t
      using that d1 uu unfolding run by (simp add: expired_def seen_by_def to_ms_def ns_per_ms_def split: if_splits)
  qed simp
  with view show ?thesis by blast
qed

text \<open>
  An ADVERTISE without a publisher in it is stored all the same, as an endpoint with
  an empty topic and an empty process uuid. No last-seen time stands for that uuid, so no
  BYE of its sender and no activity tick ever removes it.
\<close>

theorem stray_advertise_immortal:
  assumes "d_proc b \<noteq> u" "u \<noteq> []" "d_proc b \<noteq> []" "d_pubs b = []" "d_seen b = []"
    and "b1 = fst (dispatch msg_class ip (disc_msg_default\<lparr>dm_type := ADVERTISE, dm_process_uuid := u\<rparr>) t0 b)"
    and "b2 = fst (dispatch msg_class ip (disc_msg_default\<lparr>dm_type := BYE, dm_process_uuid := u\<rparr>) t1 b1)"
  shows "ts_view (d_pubs b1) = {new_msg_pub} \<and>
    ts_view (d_pubs (fst (updateActivity msg_class now now2 b2))) = {new_msg_pub}"
proof -
  let ?m = "disc_msg_default\<lparr>dm_type := ADVERTISE, dm_process_uuid := u\<rparr>"
  let ?bye = "disc_msg_default\<lparr>dm_type := BYE, dm_process_uuid := u\<rparr>"
  have set: "setFromDiscovery_msg ?m new_msg_pub = new_msg_pub"
    by (simp add: setFromDiscovery_msg_def setFromDiscovery_def pb_defs disc_msg_default_def
        pb_pub_default_def pb_msg_pub_default_def new_msg_pub_def new_pub_info_def pub_info.defs
        msg_pub.defs new_msg_opts_def new_opts_def adv_opts.defs Let_def)
  have sc: "opt_scope (m_opts new_msg_pub) = SCOPE_ALL" "p_proc new_msg_pub = []"
    by (simp_all add: new_msg_opts_def)
  have b1: "b1 = (seen_by ?m t0 b)\<lparr>d_pubs := fst (addPublisher new_msg_pub [])\<rparr>"
    unfolding assms(6) using dispatch_advertise [of ?m b msg_class ip t0] assms(1,4) set sc
    by (auto simp: msg_class_def out_of_scope_def)
  have v1: "ts_view (d_pubs b1) = {new_msg_pub}" and w1: "ts_wf (d_pubs b1)"
    unfolding b1 using ts_wf_add [of "[]" new_msg_pub] by (simp_all add: view_single)
  have b2: "b2 = (seen_by ?bye t1 b1)\<lparr>d_seen := om_erase u (d_seen (seen_by ?bye t1 b1)),
      d_pubs := fst (delPublishersByProc u (d_pubs b1))\<rparr>"
    unfolding assms(7) using dispatch_bye [of ?bye b1 msg_class ip t1] assms(1) b1 by simp
  have v2: "ts_view (d_pubs b2) = {new_msg_pub}" and s2: "d_seen b2 = []"
    unfolding b2 using ts_view_delProc [OF w1, of u] v1 sc(2) assms(2,5)
    by (auto simp: b1 om_erase_def)
  have w2: "ts_wf (d_pubs b2)" unfolding b2 using ts_wf_delProc [OF w1] by simp
  have "ts_view (d_pubs (fst (updateActivity msg_class now now2 b2))) = {new_msg_pub}"
    using v2 s2 by (simp add: updateActivity_def)
  with v1 show ?thesis by blast
qed

theorem stray_advertise_immortal_witness:
  "ts_view (d_pubs (fst (dispatch msg_class ''10.0.0.9'' (disc_msg_default\<lparr>dm_type := ADVERTISE, dm_process_uuid := ''uX''\<rparr>) 0
     (node_disc ''uB'' ''h'')))) = {new_msg_pub}"
  using stray_advertise_immortal [of "node_disc ''uB'' ''h''" "''uX''", OF _ _ _ _ _ refl refl] by simp

text \<open>
  What a heartbeat sends: one HEARTBEAT, and an ADVERTISE for exactly the endpoints of
  this process whose scope is not PROCESS; nothing of other processes is repeated.
\<close>

theorem heartbeat_sends:
  assumes "ts_wf (d_pubs d)" "d_next_hb d \<le> now"
  shows "set (snd (updateHeartbeat srv_class now now2 d)) =
    insert (Multicast (fillDiscovery (mkPublisherInfo [] [] (d_proc d) [] new_opts) (header HEARTBEAT d)))
     ((\<lambda>p. Multicast (fillDiscovery_srv p (header ADVERTISE d))) `
        {p \<in> ts_view (d_pubs d). p_proc p = d_proc d \<and> opt_scope (s_opts p) \<noteq> SCOPE_PROCESS})"
  using sc.heartbeat_set [OF assms] by (simp add: srv_class_def)

theorem heartbeat_sends_witness:
  "Multicast (fillDiscovery_srv sample_srv (header ADVERTISE (node_disc ''uA'' ''h'' :: srv_pub disc))) \<in>
   set (snd (updateHeartbeat srv_class 0 0 ((node_disc ''uA'' ''h'')\<lparr>d_pubs := fst (addPublisher sample_srv [])\<rparr>)))"
proof -
  let ?d = "(node_disc ''uA'' ''h'')\<lparr>d_pubs := fst (addPublisher sample_srv [])\<rparr>"
  have w: "ts_wf (d_pubs ?d)" "d_next_hb ?d \<le> 0"
    using ts_wf_add [of "[]" sample_srv] by (simp_all add: node_disc_def new_disc_def)
  have h: "header ADVERTISE ?d = header ADVERTISE (node_disc ''uA'' ''h'' :: srv_pub disc)"
    by (simp add: header_def)
  have "sample_srv \<in> {p \<in> ts_view (d_pubs ?d). p_proc p = d_proc ?d \<and> opt_scope (s_opts p) \<noteq> SCOPE_PROCESS}"
    by (simp add: view_single) (simp add: sample_srv_def)
  then show ?thesis
    unfolding heartbeat_sends [OF w, of 0] h by blast
qed

text \<open>
  discovering a topic multicasts one SUBSCRIBE for it and runs the connection callback
  for exactly the endpoints of the topic that are already known.
\<close>

theorem discover_reports_known:
  assumes "ts_wf (d_pubs d)" "d_enabled d" "d_conn d"
  shows "\<exists>m es. disc_discover msg_class t d = (Multicast m # es, True) \<and> dm_type m = SUBSCRIBE \<and>
    has_sub m \<and> sub_topic m = t \<and> set es = Connected ` {p \<in> ts_view (d_pubs d). p_topic p = t}"
proof -
  let ?pub = "new_msg_pub\<lparr>p_topic := t, p_proc := d_proc d\<rparr>"
  define m where "m = set_sub_topic t (fillDiscovery_msg ?pub (header SUBSCRIBE d))"
  define es where "es = (case getPublishers t (d_pubs d) of None \<Rightarrow> []
    | Some a \<Rightarrow> concat (map (\<lambda>(u, nodes). concat (map (\<lambda>node. [Connected node]) nodes)) a))"
  have "disc_discover msg_class t d = (Multicast m # es, True)"
    using assms(2,3) by (simp add: disc_discover_def msg_class_def sendMsg_simps m_def es_def Let_def split: option.split)
  moreover have "dm_type m = SUBSCRIBE" "has_sub m" "sub_topic m = t"
    by (simp_all add: m_def pb_defs fillDiscovery_msg_def fillDiscovery_def)
  moreover have "set es = Connected ` {p \<in> ts_view (d_pubs d). p_topic p = t}"
  proof -
    have om: "om_wf (om_get [] t (d_pubs d))" using pm_wf_om [OF pm_wf_at [OF assms(1)]] .
    have mem: "(u, l) \<in> set (om_get [] t (d_pubs d)) \<longleftrightarrow> map_of (om_get [] t (d_pubs d)) u = Some l" for u l
      by (rule om_wf_lookup [OF om])
    have ent: "p \<in> set (entries (d_pubs d) t u) \<longleftrightarrow>
        (\<exists>l. map_of (om_get [] t (d_pubs d)) u = Some l \<and> p \<in> set l)" for p u
      unfolding entries_def by (rule in_om_get)
    have "es = concat (map (\<lambda>(u, nodes). map Connected nodes) (om_get [] t (d_pubs d)))"
      by (simp add: es_def getPublishers_def hasTopic_def om_has_def om_get_def concat_map_singleton
          split: option.split)
    then have "x \<in> set es \<longleftrightarrow> (\<exists>u l. (u, l) \<in> set (om_get [] t (d_pubs d)) \<and> x \<in> Connected ` set l)" for x
      by auto
    then have "x \<in> set es \<longleftrightarrow> (\<exists>u l p. (u, l) \<in> set (om_get [] t (d_pubs d)) \<and> p \<in> set l \<and> x = Connected p)" for x
      by (simp add: image_iff Bex_def)
    then have "x \<in> set es \<longleftrightarrow> (\<exists>u p. p \<in> set (entries (d_pubs d) t u) \<and> x = Connected p)" for x
      unfolding mem ent by metis
    moreover have "(\<exists>u. p \<in> set (entries (d_pubs d) t u)) \<longleftrightarrow> p \<in> ts_view (d_pubs d) \<and> p_topic p = t" for p
      using ts_view_entries [OF assms(1), of p] entries_key [OF assms(1), of p t] by metis
    ultimately show ?thesis by auto
  qed
  ultimately show ?thesis by blast
qed

theorem discover_reports_known_witness:
  "\<exists>m es. disc_discover msg_class ''t'' ((node_disc ''uB'' ''h'')
       \<lparr>d_pubs := fst (addPublisher (sample_pub ''t'' SCOPE_ALL) [])\<rparr>) = (Multicast m # es, True) \<and>
     set es = {Connected (sample_pub ''t'' SCOPE_ALL)}"
proof -
  let ?p = "sample_pub ''t'' SCOPE_ALL"
  let ?d = "(node_disc ''uB'' ''h'')\<lparr>d_pubs := fst (addPublisher ?p [])\<rparr>"
  have "ts_wf (d_pubs ?d)" using ts_wf_add [of "[]" ?p] by simp
  then obtain m es where "disc_discover msg_class ''t'' ?d = (Multicast m # es, True)"
      "set es = Connected ` {p \<in> ts_view (d_pubs ?d). p_topic p = ''t''}"
    using discover_reports_known [of ?d "''t''"] by auto
  moreover have "{p \<in> ts_view (d_pubs ?d). p_topic p = ''t''} = {?p}" by (auto simp: view_single)
  ultimately show ?thesis by auto
qed

end
