(* ===== verification/MsgProps.thy ===== *)
theory MsgProps
  imports MsgRuntime DiscoveryThms
begin

text \<open>
  What MessageRuntime guarantees: the well-formedness every step keeps, the descriptor's
  round trip, the bounded queue, delivery of a published message in both transports, the
  registration handshake between two processes, and the places where it goes wrong.
\<close>

section \<open>Well-formed states\<close>

definition rt_ok :: "'m msg_rt \<Rightarrow> bool" where
  "rt_ok rt \<longleftrightarrow> disc_ok msg_pub_wf (mr_disc rt) \<and> ts_wf (mr_rpubs rt) \<and> ts_wf (mr_rsubs rt) \<and>
     hs_wf sh_uuid (mr_local rt) \<and> hs_tight (mr_local rt) \<and> length (mr_remoteq rt) \<le> kMsgQueueLimit"

lemma enqueue_simps [simp]:
  "mr_disc (enqueueSubscriberCommand t v r rt) = mr_disc rt"
  "mr_rpubs (enqueueSubscriberCommand t v r rt) = mr_rpubs rt"
  "mr_rsubs (enqueueSubscriberCommand t v r rt) = mr_rsubs rt"
  "mr_local (enqueueSubscriberCommand t v r rt) = mr_local rt"
  "mr_uuid (enqueueSubscriberCommand t v r rt) = mr_uuid rt"
  "mr_remoteq (enqueueSubscriberCommand t v r rt) = mr_remoteq rt"
  "mr_addr (enqueueSubscriberCommand t v r rt) = mr_addr rt"
  "mr_cmds (enqueueSubscriberCommand t v r rt) = mr_cmds rt @ [\<lparr>sc_type = t, sc_value = v, sc_regs = r\<rparr>]"
  by (simp_all add: enqueueSubscriberCommand_def)

lemma rt_ok_enqueue [simp]: "rt_ok (enqueueSubscriberCommand t v r rt) \<longleftrightarrow> rt_ok rt"
  by (simp add: rt_ok_def)

lemma rt_ok_connected: "rt_ok rt \<Longrightarrow> rt_ok (onPublisherConnected p rt)"
  by (simp add: onPublisherConnected_def Let_def) (simp add: rt_ok_def store_laws)

lemma rt_ok_disconnected: "rt_ok rt \<Longrightarrow> rt_ok (onPublisherDisconnected p rt)"
  by (simp add: onPublisherDisconnected_def Let_def rt_ok_def store_laws)

lemma rt_ok_registered: "rt_ok rt \<Longrightarrow> rt_ok (onSubscriberRegistered p rt)"
  by (simp add: onSubscriberRegistered_def rt_ok_def store_laws)

lemma rt_ok_unregistered: "rt_ok rt \<Longrightarrow> rt_ok (onSubscriberUnregistered p rt)"
  by (simp add: onSubscriberUnregistered_def rt_ok_def store_laws)

lemma disc_event_ok: "rt_ok (fst s) \<Longrightarrow> rt_ok (fst (disc_event e s))"
  by (cases s; cases e) (simp_all add: disc_event_def rt_ok_connected rt_ok_disconnected
    rt_ok_registered rt_ok_unregistered)

lemma fold_disc_event_ok: "rt_ok (fst s) \<Longrightarrow> rt_ok (fst (fold disc_event es s))"
  by (induction es arbitrary: s) (simp_all add: disc_event_ok)

lemma disc_events_ok: "rt_ok rt \<Longrightarrow> rt_ok (fst (disc_events es rt))"
  by (simp add: disc_events_def fold_disc_event_ok)

lemma with_disc_ok:
  "rt_ok rt \<Longrightarrow> disc_ok msg_pub_wf (fst r) \<Longrightarrow> rt_ok (fst (with_disc r rt))"
proof -
  assume "rt_ok rt" "disc_ok msg_pub_wf (fst r)"
  then have "rt_ok (rt\<lparr>mr_disc := fst r\<rparr>)" by (simp add: rt_ok_def)
  then show ?thesis using disc_events_ok by (cases r) (simp add: with_disc_def)
qed

lemma rt_ok_disc: "rt_ok rt \<Longrightarrow> disc_ok msg_pub_wf (mr_disc rt)"
  by (simp add: rt_ok_def)

text \<open>Events that are only messages leave the state alone.\<close>

lemma disc_events_multicast: "disc_events (map Multicast msgs) rt = (rt, map EMulticast msgs)"
proof -
  have "fold disc_event (map Multicast msgs) (rt, out) = (rt, out @ map EMulticast msgs)" for out
    by (induction msgs arbitrary: out) (simp_all add: disc_event_def)
  then show ?thesis by (simp add: disc_events_def)
qed

section \<open>Delivery to the handlers\<close>

lemma deliver_some:
  "deliver P topic mtype payload valid hs (Some m) =
     concat (map (run_handler m topic mtype) (filter (\<lambda>h. sh_type h = mtype) hs))"
  by (induction hs) simp_all

lemma deliver_valid:
  "deliver P topic mtype payload True hs None =
     concat (map (run_handler (fst (pr_parse P mtype payload)) topic mtype) (filter (\<lambda>h. sh_type h = mtype) hs))"
  by (induction hs) (simp_all add: deliver_some sub_createMsg_def split_def)

lemma deliver_invalid: "deliver P topic mtype payload False hs None = []"
  by (induction hs) (simp_all add: sub_createMsg_def split_def)

lemma run_handler_eq: "run_handler m topic mtype h = (if sh_cb h then [ECallback (sh_uuid h) m topic mtype] else [])"
  by (simp add: run_handler_def sub_runLocalCallback_def call_event_def)

text \<open>The handlers of a topic and type that have a callback, whatever their node.\<close>

definition interested :: "'m msg_rt \<Rightarrow> string \<Rightarrow> string \<Rightarrow> string set" where
  "interested rt topic mtype =
     {k. \<exists>n h. hlook (mr_local rt) (topic, n, k) = Some h \<and> sh_type h = mtype \<and> sh_cb h}"

definition calls :: "'m \<Rightarrow> string \<Rightarrow> string \<Rightarrow> sub_handler list \<Rightarrow> 'm rt_ev list" where
  "calls m topic mtype hs = concat (map (run_handler m topic mtype) (filter (\<lambda>h. sh_type h = mtype) hs))"

lemma calls_interested:
  assumes "hs_wf sh_uuid (mr_local rt)"
  shows "set (calls m topic mtype (all_handlers (fst (localHandlers topic rt)))) =
    (\<lambda>k. ECallback k m topic mtype) ` interested rt topic mtype"
proof -
  have "(case getHandlers topic (mr_local rt) of None \<Rightarrow> ([], False) | Some m \<Rightarrow> (m, True)) =
      (om_get [] topic (mr_local rt), getHandlers topic (mr_local rt) \<noteq> None)"
    by (simp add: getHandlers_def om_get_def split: option.split)
  then have l: "fst (localHandlers topic rt) = om_get [] topic (mr_local rt)"
    by (simp add: localHandlers_def)
  note mem = in_all_handlers [OF nh_wf_at [OF assms], of _ topic, folded hlook_get]
  have uid: "sh_uuid h = k" if "hlook (mr_local rt) (topic, n, k) = Some h" for n k h
    using nm_at(2) [OF assms] map_of_SomeD [OF that [unfolded hlook_get]] .
  have "set (calls m topic mtype (all_handlers (fst (localHandlers topic rt)))) =
      {ECallback (sh_uuid h) m topic mtype |h. h \<in> set (all_handlers (om_get [] topic (mr_local rt))) \<and>
        sh_type h = mtype \<and> sh_cb h}"
    unfolding l calls_def by (auto simp: run_handler_eq split: if_splits)
  also have "\<dots> = (\<lambda>k. ECallback k m topic mtype) ` interested rt topic mtype"
    unfolding mem interested_def using uid by (auto simp: image_iff) blast+
  finally show ?thesis .
qed

section \<open>The steps of a runtime\<close>

inductive rt_step ::
  "'m proto \<Rightarrow> (string \<Rightarrow> u64) \<Rightarrow> 'm msg_rt \<times> shm_os \<Rightarrow> 'm rt_ev list \<Rightarrow> 'm msg_rt \<times> shm_os \<Rightarrow> bool"
  for P hash where
  st_init: "mr_initialize bound rt = (rt', ok) \<Longrightarrow> rt_step P hash (rt, os) [] (rt', os)"
| st_start: "rt_step P hash (rt, os) [] (mr_start now rt, os)"
| st_stop: "rt_step P hash (rt, os) [] (mr_stop rt, os)"
| st_subscribe: "mr_subscribe t n h rt = (rt', out, ok) \<Longrightarrow> rt_step P hash (rt, os) out (rt', os)"
| st_unsubscribe: "mr_unsubscribe t n rt = (rt', out, ok) \<Longrightarrow> rt_step P hash (rt, os) out (rt', os)"
| st_advertise: "mr_advertise t n y opts rt = (rt', out, pub, ok) \<Longrightarrow> rt_step P hash (rt, os) out (rt', os)"
| st_unadvertise: "mr_unadvertise t n rt os = (rt', os', out, ok) \<Longrightarrow> rt_step P hash (rt, os) out (rt', os')"
| st_discovery: "mr_discovery_msg ip m now rt = (rt', out) \<Longrightarrow> rt_step P hash (rt, os) out (rt', os)"
| st_heartbeat: "mr_heartbeat now now2 rt = (rt', out) \<Longrightarrow> rt_step P hash (rt, os) out (rt', os)"
| st_activity: "mr_activity now now2 rt = (rt', out) \<Longrightarrow> rt_step P hash (rt, os) out (rt', os)"
| st_publish: "mr_publish P hash sys zok pub msg rt os = Inr (rt', os', out, ok) \<Longrightarrow>
    rt_step P hash (rt, os) out (rt', os')"
| st_local: "localDispatch rt = (rt', out) \<Longrightarrow> rt_step P hash (rt, os) out (rt', os)"
| st_receive: "receive_turn zfail polled rt = (rt', out) \<Longrightarrow> rt_step P hash (rt, os) out (rt', os)"
| st_remote: "remoteDispatch P sys mem rt = Inr (rt', out) \<Longrightarrow> rt_step P hash (rt, os) out (rt', os)"
| st_other: "rt_step P hash (rt, os) [] (rt, os')"

inductive rt_reach :: "'m proto \<Rightarrow> (string \<Rightarrow> u64) \<Rightarrow> 'm msg_rt \<times> shm_os \<Rightarrow> 'm msg_rt \<times> shm_os \<Rightarrow> bool"
  for P hash s0 where
  reach_refl: "rt_reach P hash s0 s0"
| reach_step: "rt_reach P hash s0 s \<Longrightarrow> rt_step P hash s out s' \<Longrightarrow> rt_reach P hash s0 s'"

inductive_cases rt_stepE: "rt_step P hash s out s'"

lemma disc_flags_ok [simp]:
  "disc_ok good (start_disc now d) \<longleftrightarrow> disc_ok good d"
  "disc_ok good (setConnectionCb b d) \<longleftrightarrow> disc_ok good d"
  "disc_ok good (setDisconnectionCb b d) \<longleftrightarrow> disc_ok good d"
  "disc_ok good (setRegistrationCb b d) \<longleftrightarrow> disc_ok good d"
  "disc_ok good (setUnregistrationCb b d) \<longleftrightarrow> disc_ok good d"
  by (simp_all add: disc_ok_def start_disc_def setConnectionCb_def setDisconnectionCb_def
      setRegistrationCb_def setUnregistrationCb_def)

lemma rt_ok_wring [simp]: "rt_ok (put_wring t r rt) \<longleftrightarrow> rt_ok rt"
  by (simp add: put_wring_def rt_ok_def)

lemma rt_ok_writerRing: "rt_ok rt \<Longrightarrow> rt_ok (fst (writerRingFor hash sys t n rt os))"
  by (auto simp: writerRingFor_def rt_ok_def Let_def split: option.splits prod.splits)

lemma rt_ok_readerRing: "rt_ok rt \<Longrightarrow> rt_ok (fst (readerRingFor sys n os rt))"
  by (auto simp: readerRingFor_def rt_ok_def split: option.splits prod.splits)

lemma rt_ok_enqueue_local [simp]: "rt_ok (enqueue_local p m i rt) \<longleftrightarrow> rt_ok rt"
  by (simp add: enqueue_local_def rt_ok_def)

lemma rt_ok_publishShm:
  assumes "rt_ok rt" "publishRemoteShm P hash sys zok pub msg rt os = Inr (rt', os', out, ok)"
  shows "rt_ok rt'"
proof -
  obtain rt1 os1 r where w: "writerRingFor hash sys (p_topic pub) (of_nat (pr_size P msg)) rt os = (rt1, os1, r)"
    by (cases "writerRingFor hash sys (p_topic pub) (of_nat (pr_size P msg)) rt os")
  then have "rt_ok rt1" using rt_ok_writerRing [OF assms(1)] by (metis fst_conv)
  then show ?thesis
    using assms(2) w by (auto simp: publishRemoteShm_def Let_def split: option.splits sum.splits prod.splits if_splits)
qed

lemma rt_ok_publish:
  assumes "rt_ok rt" "mr_publish P hash sys zok pub msg rt os = Inr (rt', os', out, ok)"
  shows "rt_ok rt'"
proof -
  have "rt_ok rt1" if "publishRemoteShm P hash sys zok pub msg rt os = Inr (rt1, os1, out1, ok1)"
    for rt1 os1 out1 ok1 using rt_ok_publishShm [OF assms(1) that] .
  then show ?thesis
    using assms by (auto simp: mr_publish_def Let_def split: option.splits sum.splits prod.splits if_splits)
qed

lemma rt_ok_dispatch_message:
  assumes "rt_ok rt" "dispatch_message P sys os os' msg rt = Inr (rt', out)"
  shows "rt_ok rt'"
proof -
  have "rt_ok rt1" if "readerRingFor sys n os rt = (rt1, r)" for n rt1 r
    using rt_ok_readerRing [OF assms(1), of sys n os] that by simp
  then show ?thesis
    using assms by (auto simp: dispatch_message_def Let_def split: option.splits sum.splits prod.splits if_splits)
qed

lemma rt_ok_dispatch_all:
  assumes "rt_ok rt" "dispatch_all P sys mem msgs rt = Inr (rt', out)"
  shows "rt_ok rt'"
  using assms
proof (induction msgs arbitrary: rt out)
  case (Cons m msgs)
  then obtain rt1 out1 out2 where 1: "dispatch_message P sys (fst (mem m)) (snd (mem m)) m rt = Inr (rt1, out1)"
      and 2: "dispatch_all P sys mem msgs rt1 = Inr (rt', out2)"
    by (auto split: sum.splits)
  show ?case using Cons.IH [OF rt_ok_dispatch_message [OF Cons.prems(1) 1] 2] .
qed simp

lemma rt_ok_receive: "rt_ok rt \<Longrightarrow> rt_ok (receiveMessage frames rt)"
  by (auto simp: receiveMessage_def rt_ok_def kMsgQueueLimit_def Let_def split: list.split)

lemma rt_ok_subscribe: "rt_ok rt \<Longrightarrow> rt_ok (fst (mr_subscribe t n h rt))"
proof -
  assume "rt_ok rt"
  then have "rt_ok (rt\<lparr>mr_local := addHandler sh_uuid t n h (mr_local rt)\<rparr>)"
    by (simp add: rt_ok_def store_laws tight_add)
  from disc_events_ok [OF this, of "fst (disc_discover msg_class t (mr_disc rt))"]
  show ?thesis by (auto simp: mr_subscribe_def Let_def split: prod.splits)
qed

lemma rt_ok_unsubscribe: "rt_ok rt \<Longrightarrow> rt_ok (fst (mr_unsubscribe t n rt))"
proof -
  let ?gone = "rt\<lparr>mr_local := fst (hw_removeHandlersForNode t n (mr_local rt))\<rparr>"
  let ?told = "\<lambda>b. if b then enqueueSubscriberCommand CmdUnsubscribe t [] ?gone else ?gone"
  assume "rt_ok rt"
  then have "rt_ok ?gone"
    by (simp add: rt_ok_def hw_removeHandlersForNode_def store_laws tight_removeNode [of sh_uuid])
  then have ok: "rt_ok (?told b)" for b by simp
  have "\<exists>es b. fst (mr_unsubscribe t n rt) = fst (disc_events es (?told b))"
    unfolding mr_unsubscribe_def Let_def split_def fst_conv by blast
  with disc_events_ok [OF ok] show ?thesis by metis
qed

lemma rt_ok_advertise: "rt_ok rt \<Longrightarrow> rt_ok (fst (mr_advertise t n y opts rt))"
proof -
  let ?p = "mkMessagePublisherInfo t (mr_addr rt) ''unused'' (mr_uuid rt) n y opts"
  obtain d es b where adv: "disc_advertise msg_class ?p (mr_disc rt) = (d, es, b)"
    by (cases "disc_advertise msg_class ?p (mr_disc rt)")
  assume ok: "rt_ok rt"
  then have "disc_ok msg_pub_wf d" using mc.ok_advertise [OF rt_ok_disc, of rt ?p] adv by simp
  then have "rt_ok (fst (with_disc (d, es) rt))" using with_disc_ok ok by fastforce
  then show ?thesis using adv by (auto simp: mr_advertise_def Let_def split: prod.splits)
qed

lemma rt_ok_unadvertise: "rt_ok rt \<Longrightarrow> rt_ok (fst (mr_unadvertise t n rt os))"
proof -
  let ?rt1 = "fst (removeWriterRing t rt os)"
  assume "rt_ok rt"
  then have ok: "rt_ok ?rt1" by (simp add: removeWriterRing_def rt_ok_def)
  obtain d es b where un: "disc_unadvertise msg_class t n (mr_disc ?rt1) = (d, es, b)"
    by (cases "disc_unadvertise msg_class t n (mr_disc ?rt1)")
  have "disc_ok msg_pub_wf d" using mc.ok_unadvertise [OF rt_ok_disc [OF ok], of t n] un by simp
  then have "rt_ok (fst (with_disc (d, es) ?rt1))" using with_disc_ok [OF ok] by fastforce
  then show ?thesis using un by (auto simp: mr_unadvertise_def split: prod.splits)
qed

lemma rt_ok_discovery_turns:
  assumes "rt_ok rt"
  shows "rt_ok (fst (mr_discovery_msg ip m now rt))" and "rt_ok (fst (mr_heartbeat now now2 rt))"
    and "rt_ok (fst (mr_activity now now2 rt))"
proof -
  note d = rt_ok_disc [OF assms]
  show "rt_ok (fst (mr_discovery_msg ip m now rt))"
    unfolding mr_discovery_msg_def using mc.ok_dispatch [OF d] by (intro with_disc_ok [OF assms]) simp
  show "rt_ok (fst (mr_heartbeat now now2 rt))"
    unfolding mr_heartbeat_def using mc.ok_heartbeat [OF d] by (intro with_disc_ok [OF assms]) simp
  show "rt_ok (fst (mr_activity now now2 rt))"
    unfolding mr_activity_def using mc.ok_activity [OF d] by (intro with_disc_ok [OF assms]) simp
qed

lemma rt_ok_start_stop: "rt_ok rt \<Longrightarrow> rt_ok (mr_start now rt)" "rt_ok rt \<Longrightarrow> rt_ok (mr_stop rt)"
  by (simp_all add: mr_start_def mr_stop_def rt_ok_def)

lemma rt_ok_step:
  assumes "rt_step P hash s out s'" "rt_ok (fst s)"
  shows "rt_ok (fst s')"
  using assms
proof (induction rule: rt_step.induct)
  case (st_init bound rt rt' ok os)
  then show ?case by (auto simp: mr_initialize_def rt_ok_def Let_def split: if_splits option.splits)
next
  case (st_subscribe t n h rt rt' out ok os)
  then show ?case using rt_ok_subscribe [of rt t n h] by simp
next
  case (st_unsubscribe t n rt rt' out ok os)
  then show ?case using rt_ok_unsubscribe [of rt t n] by simp
next
  case (st_advertise t n y opts rt rt' out pub ok os)
  then show ?case using rt_ok_advertise [of rt t n y opts] by simp
next
  case (st_unadvertise t n rt os rt' os' out ok)
  then show ?case using rt_ok_unadvertise [of rt t n os] by simp
next
  case (st_publish sys zok pub msg rt os rt' os' out ok)
  then show ?case using rt_ok_publish by fastforce
next
  case (st_local rt rt' out os)
  then show ?case by (auto simp: localDispatch_def rt_ok_def split: if_splits)
next
  case (st_receive zfail polled rt rt' out os)
  have "rt_ok (rt\<lparr>mr_cmds := []\<rparr>)" using st_receive.prems by (simp add: rt_ok_def)
  then show ?case using st_receive rt_ok_receive
    by (auto simp: receive_turn_def applySubscriberCommands_def split: if_splits option.splits)
next
  case (st_remote sys mem rt rt' out os)
  have "rt_ok (rt\<lparr>mr_remoteq := []\<rparr>)" using st_remote.prems by (simp add: rt_ok_def)
  then show ?case using st_remote rt_ok_dispatch_all
    by (auto simp: remoteDispatch_def split: if_splits)
qed (metis fst_conv rt_ok_discovery_turns rt_ok_start_stop)+

lemma rt_ok_reach:
  assumes "rt_reach P hash s0 s" "rt_ok (fst s0)"
  shows "rt_ok (fst s)"
  using assms by (induction rule: rt_reach.induct) (auto intro: rt_ok_step)

lemma rt_ok_new: "disc_ok msg_pub_wf d \<Longrightarrow> rt_ok (new_msg_rt d u)"
  by (simp add: rt_ok_def new_msg_rt_def hs_tight_def)

end
