(* ===== verification/MsgThms.thy ===== *)
theory MsgThms
  imports MsgProps
begin

text \<open>The properties of MessageRuntime, on the definitions of MsgRuntime.\<close>

section \<open>The descriptor\<close>

lemma length_le_bytes [simp]: "length (le_bytes k n) = k"
  by (induction k arbitrary: n) simp_all

lemma le_value_bytes: "le_value (le_bytes k n) = n mod 256 ^ k"
proof (induction k arbitrary: n)
  case (Suc k)
  have "of_char (char_of (n mod 256) :: char) = n mod 256"
    by (simp add: of_char_of take_bit_nat_eq_self_iff)
  then show ?case using Suc by (simp add: mod_mult2_eq)
qed simp

lemma word_from_bytes:
  "k * 8 = LENGTH('a::len) \<Longrightarrow> of_nat (le_value (le_bytes k (unat (w :: 'a word)))) = w"
proof -
  assume k: "k * 8 = LENGTH('a)"
  have "(256::nat) ^ k = 2 ^ (8 * k)" by (simp add: power_mult)
  then have "unat w < 256 ^ k" using unsigned_less [of w] k by (simp add: mult.commute)
  then show ?thesis by (simp add: le_value_bytes of_nat_unat)
qed

lemma length_name_field [simp]: "length (name_field name) = 64"
  by (simp add: name_field_def Let_def)

lemma name_field_read:
  assumes "list_all (\<lambda>c. c \<noteq> CHR 0x00) name" "length name \<le> 62"
  shows "takeWhile (\<lambda>c. c \<noteq> CHR 0x00) (take 63 (name_field name)) = name"
proof -
  have tw: "takeWhile (\<lambda>c. c \<noteq> CHR 0x00) (name @ CHR 0x00 # r) = name" for r
    using assms(1) by (induction name) auto
  obtain j where j: "63 - length name = Suc j" using assms(2) by (cases "63 - length name") auto
  have "min (length name + 1) 63 = length name + 1" using assms(2) by simp
  then have "name_field name = name @ CHR 0x00 # replicate (63 - length name) (CHR 0x00)"
    by (simp add: name_field_def Let_def)
  then have "take 63 (name_field name) = name @ take (Suc j) (CHR 0x00 # replicate (63 - length name) (CHR 0x00))"
    using assms(2) j by simp
  then show ?thesis by (simp add: tw)
qed

lemma desc_roundtrip:
  assumes "list_all (\<lambda>c. c \<noteq> CHR 0x00) (sd_name d)" "length (sd_name d) \<le> 62"
  shows "desc_of_bytes (desc_bytes d) = Some d"
proof -
  let ?s = "desc_bytes d" and ?n = "name_field (sd_name d)"
  have len: "length ?s = 88" by (simp add: desc_bytes_def)
  have "take 63 ?s = take 63 ?n" by (simp add: desc_bytes_def)
  then have nm: "takeWhile (\<lambda>c. c \<noteq> CHR 0x00) (take 63 ?s) = sd_name d"
    using name_field_read [OF assms] by simp
  have i: "take 4 (drop 64 ?s) = le_bytes 4 (unat (sd_index d))"
    and q: "take 8 (drop 72 ?s) = le_bytes 8 (unat (sd_seq d))"
    and z: "take 4 (drop 80 ?s) = le_bytes 4 (unat (sd_size d))"
    by (simp_all add: desc_bytes_def drop_append)
  have "of_nat (le_value (le_bytes 4 (unat (sd_index d)))) = sd_index d"
      "of_nat (le_value (le_bytes 8 (unat (sd_seq d)))) = sd_seq d"
      "of_nat (le_value (le_bytes 4 (unat (sd_size d)))) = sd_size d"
    by (rule word_from_bytes, simp)+
  then show ?thesis
    using len nm i q z by (simp add: desc_of_bytes_def sizeof_ShmDescriptor_def)
qed

lemma length_hex: "n < 16 ^ k \<Longrightarrow> 0 < k \<Longrightarrow> length (hex n) \<le> k"
proof (induction n arbitrary: k rule: hex.induct)
  case (1 n)
  show ?case
  proof (cases "n < 16")
    case False
    with "1.prems" have k: "k \<noteq> 1" by auto
    then obtain j where j: "k = Suc j" "0 < j" using "1.prems"(2) by (cases k) auto
    then have "n div 16 < 16 ^ j" using "1.prems"(1) by (simp add: less_mult_imp_div_less mult.commute)
    then show ?thesis using "1.IH" [OF False _ j(2)] False j(1) by (subst hex.simps) simp
  qed (use "1.prems" in \<open>subst hex.simps, simp\<close>)
qed

lemma shm_name_length: "length (makeShmName hash topic u) \<le> 33"
proof -
  have "unat (hash topic) < 2 ^ LENGTH(64)" by (rule unsigned_less)
  then have "length (hex (unat (hash topic))) \<le> 16" by (intro length_hex) simp_all
  then show ?thesis by (simp add: makeShmName_def)
qed


lemma no_nul_hex: "list_all (\<lambda>c. c \<noteq> CHR 0x00) (hex n)"
proof (induction n rule: hex.induct)
  case (1 n)
  have "digit_char k \<noteq> CHR 0x00" if "k < 16" for k
  proof
    assume "digit_char k = CHR 0x00"
    then have "(of_char (digit_char k) :: nat) = 0" by (simp only: of_char_Char) simp
    moreover have "(of_char (digit_char k) :: nat) = (if k < 10 then 48 + k else 87 + k)"
      using that by (auto simp: digit_char_def of_char_of)
    ultimately show False by (simp split: if_splits)
  qed
  then show ?case using 1 by (cases "n < 16") (simp_all add: hex.simps [of n])
qed

text \<open>
  The descriptor of a shared-memory message survives the wire. For the segment name a
  publisher derives from any topic and any process uuid without NUL characters, the 88
  bytes that are sent parse back to the same name, slot, sequence number and size.
\<close>

theorem descriptor_roundtrip:
  assumes "list_all (\<lambda>c. c \<noteq> CHR 0x00) p_uuid" "sd_name d = makeShmName hash topic p_uuid"
  shows "length (desc_bytes d) = sizeof_ShmDescriptor \<and> desc_of_bytes (desc_bytes d) = Some d"
proof -
  have "list_all (\<lambda>c. c \<noteq> CHR 0x00) (take 8 p_uuid)"
    using assms(1) in_set_takeD [of _ 8 p_uuid] by (auto simp: list_all_iff)
  then have "list_all (\<lambda>c. c \<noteq> CHR 0x00) (sd_name d)"
    using no_nul_hex by (simp add: assms(2) makeShmName_def)
  moreover have "length (sd_name d) \<le> 62" using shm_name_length [of hash topic p_uuid] assms(2) by simp
  ultimately show ?thesis
    using desc_roundtrip [of d] by (simp add: desc_bytes_def sizeof_ShmDescriptor_def)
qed

theorem descriptor_roundtrip_witness:
  "desc_of_bytes (desc_bytes \<lparr>sd_name = makeShmName (\<lambda>_. 255) ''topic'' ''0123456789'', sd_index = 3,
     sd_seq = 14, sd_size = 5\<rparr>) =
   Some \<lparr>sd_name = ''/rf_shm_ff_01234567'', sd_index = 3, sd_seq = 14, sd_size = 5\<rparr>"
proof -
  have "makeShmName (\<lambda>_. 255) ''topic'' ''0123456789'' = ''/rf_shm_ff_01234567''"
    by code_simp
  then show ?thesis
    using descriptor_roundtrip [of "''0123456789''" "\<lparr>sd_name = makeShmName (\<lambda>_. 255) ''topic'' ''0123456789'', sd_index = 3,
     sd_seq = 14, sd_size = 5\<rparr>" "\<lambda>_. 255" "''topic''"] by simp
qed

section \<open>The receive queue\<close>

text \<open>What a complete multipart message is taken for.\<close>

definition parts_msg :: "string list \<Rightarrow> remote_msg" where
  "parts_msg frames = (let t = frames ! 3; shm = (t \<noteq> [] \<and> hd t = kShmMsgTypeMarker) in
     \<lparr>rm_topic = frames ! 0, rm_sender = frames ! 1, rm_data = frames ! 2,
       rm_type = (if shm then tl t else t), rm_is_shm = shm\<rparr>)"

definition newest :: "nat \<Rightarrow> 'a list \<Rightarrow> 'a list" where
  "newest n xs = drop (length xs - n) xs"

lemma newest_snoc: "length q \<le> n \<Longrightarrow> 0 < n \<Longrightarrow>
    (if n < length (q @ [x]) then tl (q @ [x]) else q @ [x]) = newest n (q @ [x])"
proof -
  assume "length q \<le> n" "0 < n"
  show ?thesis
  proof (cases "length q = n")
    case True
    have "tl (q @ [x]) = drop 1 (q @ [x])" by (simp only: One_nat_def drop_Suc drop_0)
    then show ?thesis using True by (simp add: newest_def del: drop_append)
  qed (use \<open>length q \<le> n\<close> in \<open>simp add: newest_def\<close>)
qed

lemma newest_idem: "0 < n \<Longrightarrow> newest n (newest n xs @ ys) = newest n (xs @ ys)"
proof -
  have "length (newest n xs) = min n (length xs)" by (simp add: newest_def)
  then show ?thesis by (cases "length xs \<le> n") (simp_all add: newest_def add.commute)
qed

lemma receive_parts:
  "4 \<le> length fr \<Longrightarrow> length (mr_remoteq rt) \<le> kMsgQueueLimit \<Longrightarrow>
   mr_remoteq (receiveMessage fr rt) = newest kMsgQueueLimit (mr_remoteq rt @ [parts_msg fr])"
proof -
  assume l: "4 \<le> length fr" "length (mr_remoteq rt) \<le> kMsgQueueLimit"
  then obtain a b c d r where fr: "fr = a # b # c # d # r"
    by (auto simp: numeral_eq_Suc Suc_le_length_iff)
  have "0 < kMsgQueueLimit" by (simp add: kMsgQueueLimit_def)
  moreover have "mr_remoteq (receiveMessage fr rt) =
      (let q = mr_remoteq rt @ [parts_msg fr] in if kMsgQueueLimit < length q then tl q else q)"
    by (simp add: fr receiveMessage_def parts_msg_def Let_def)
  ultimately show ?thesis using newest_snoc [OF l(2), of "parts_msg fr"] by (simp only: Let_def)
qed

lemma receive_short: "length fr < 4 \<Longrightarrow> receiveMessage fr rt = rt"
  by (cases fr; cases "tl fr"; cases "tl (tl fr)"; cases "tl (tl (tl fr))") (auto simp: receiveMessage_def)

lemma keeps_newest:
  assumes "length (mr_remoteq rt) \<le> kMsgQueueLimit"
  shows "mr_remoteq (fold receiveMessage frs rt) =
    newest kMsgQueueLimit (mr_remoteq rt @ map parts_msg (filter (\<lambda>fr. 4 \<le> length fr) frs))"
  using assms
proof (induction frs arbitrary: rt)
  case Nil
  then show ?case by (simp add: newest_def)
next
  case (Cons fr frs)
  show ?case
  proof (cases "4 \<le> length fr")
    case True
    have q: "mr_remoteq (receiveMessage fr rt) = newest kMsgQueueLimit (mr_remoteq rt @ [parts_msg fr])"
      using receive_parts [OF True Cons.prems] .
    then have "length (mr_remoteq (receiveMessage fr rt)) \<le> kMsgQueueLimit"
      by (simp add: newest_def)
    from Cons.IH [OF this] show ?thesis
      using True q newest_idem [of kMsgQueueLimit "mr_remoteq rt @ [parts_msg fr]"]
      by (simp add: kMsgQueueLimit_def)
  next
    case False
    then show ?thesis using Cons by (simp add: receive_short)
  qed
qed

text \<open>
  C17: the queue between the receive thread and the dispatch thread is bounded and drops
  the oldest. Whatever each turn of the receive thread reads, in any number of turns, the
  queue is the newest 1000 of what was queued and what was read completely (four parts), in
  order of arrival; a turn whose recv fails earlier leaves no trace.
\<close>

theorem receive_keeps_newest:
  assumes "length (mr_remoteq rt) \<le> kMsgQueueLimit"
  shows "mr_remoteq (fold receiveMessage frs rt) =
    newest kMsgQueueLimit (mr_remoteq rt @ map parts_msg (filter (\<lambda>fr. 4 \<le> length fr) frs))"
  using assms by (rule keeps_newest)

theorem receive_keeps_newest_witness:
  "mr_remoteq (fold receiveMessage [[''t'', ''s''], [''t'', ''s'', ''d'', ''T''], [''t'', ''s'', ''e'', [CHR 0x01, CHR ''T'']]]
      (new_msg_rt (node_disc ''u'' ''h'') ''u'' :: string msg_rt)) =
   [\<lparr>rm_topic = ''t'', rm_sender = ''s'', rm_data = ''d'', rm_type = ''T'', rm_is_shm = False\<rparr>,
    \<lparr>rm_topic = ''t'', rm_sender = ''s'', rm_data = ''e'', rm_type = ''T'', rm_is_shm = True\<rparr>]"
  using receive_keeps_newest [of "new_msg_rt (node_disc ''u'' ''h'') ''u'' :: string msg_rt"
      "[[''t'', ''s''], [''t'', ''s'', ''d'', ''T''], [''t'', ''s'', ''e'', [CHR 0x01, CHR ''T'']]]"]
  by (simp add: new_msg_rt_def newest_def kMsgQueueLimit_def parts_msg_def kShmMsgTypeMarker_def)

section \<open>The invariant\<close>

text \<open>
  C15: every state a runtime reaches is well formed. From a constructed Discovery, through
  any sequence of its methods, discovery messages, timer ticks, receive, dispatch and
  publish steps, with other processes changing the shared memory in between: the endpoint
  and handler maps stay sorted and hold each endpoint under its own keys without empty
  lists, no topic is left without a handler, and the receive queue never exceeds its limit.
\<close>

theorem runtime_invariant:
  assumes "mkDiscovery pton io u ip port host = Inr d" "rt_reach P hash (new_msg_rt d u, os) s"
  shows "rt_ok (fst s)"
  by (rule rt_ok_reach [OF assms(2)]) (simp add: rt_ok_new [OF fresh_ok(1) [OF assms(1)]])

definition sample_handler :: "string \<Rightarrow> string \<Rightarrow> sub_handler" where
  "sample_handler k n = \<lparr>sh_uuid = k, sh_node = n, sh_type = ''T'', sh_cb = True\<rparr>"

definition text_proto :: "string proto" where
  "text_proto = \<lparr>pr_size = length, pr_ser = Some, pr_parse = (\<lambda>_ bytes. (bytes, True))\<rparr>"

theorem runtime_invariant_witness:
  "rt_ok (fst (mr_subscribe ''t'' ''n'' (sample_handler ''h'' ''n'') (new_msg_rt sample_disc ''uA'' :: string msg_rt)))"
proof -
  let ?s0 = "(new_msg_rt sample_disc ''uA'' :: string msg_rt, no_shm)"
  let ?r = "mr_subscribe ''t'' ''n'' (sample_handler ''h'' ''n'') (new_msg_rt sample_disc ''uA'' :: string msg_rt)"
  obtain rt' out ok where r: "?r = (rt', out, ok)" by (cases ?r)
  have "rt_reach text_proto (\<lambda>_. 0) ?s0 (rt', no_shm)"
    using reach_step [OF reach_refl st_subscribe [OF r]] .
  then show ?thesis using runtime_invariant [OF sample_disc_made, of text_proto "\<lambda>_. 0" no_shm] r
    by fastforce
qed

end
