(* ===== verification/MsgDelivery.thy ===== *)
theory MsgDelivery
  imports MsgThms "HOL-Library.Multiset"
begin

text \<open>
  Delivery of published messages: inside the process, over the socket and through shared
  memory, each followed from \<open>publish\<close> to the callbacks.
\<close>

section \<open>The handlers that are called\<close>

definition listeners :: "'m msg_rt \<Rightarrow> string \<Rightarrow> string \<Rightarrow> (string \<times> string) set" where
  "listeners rt t y = {(n, k). \<exists>h. hlook (mr_local rt) (t, n, k) = Some h \<and> sh_type h = y \<and> sh_cb h}"

definition keyed :: "sub_handler node_handlers \<Rightarrow> (string \<times> string \<times> sub_handler) list" where
  "keyed mp = concat (map (\<lambda>(n, nm). map (\<lambda>(k, h). (n, k, h)) nm) mp)"

lemma keyed_handlers: "all_handlers mp = map (\<lambda>(n, k, h). h) (keyed mp)"
  by (simp add: all_handlers_def keyed_def map_concat comp_def split_def)

lemma in_keyed: "(n, k, h) \<in> set (keyed mp) \<longleftrightarrow> (\<exists>nm. (n, nm) \<in> set mp \<and> (k, h) \<in> set nm)"
  by (auto simp: keyed_def)

lemma keyed_look:
  assumes "nh_wf uid mp"
  shows "(n, k, h) \<in> set (keyed mp) \<longleftrightarrow> map_of (om_get [] n mp) k = Some h"
proof -
  have "(n, nm) \<in> set mp \<longleftrightarrow> map_of mp n = Some nm" for nm
    using om_wf_lookup [OF nh_wf_om [OF assms]] .
  moreover have "(k, h) \<in> set nm \<longleftrightarrow> map_of nm k = Some h" if "map_of mp n = Some nm" for nm
    using om_wf_lookup [OF nh_wfD(2) [OF assms that]] .
  ultimately show ?thesis unfolding in_keyed look_om_get by blast
qed

lemma distinct_keyed:
  assumes "om_wf mp" "\<forall>(n, nm) \<in> set mp. om_wf nm"
  shows "distinct (map (\<lambda>(n, k, h). (n, k)) (keyed mp))"
  using assms
proof (induction mp)
  case (Cons e mp)
  obtain n nm where e: "e = (n, nm)" by (cases e)
  have "distinct (map fst nm)" using Cons.prems(2) om_wf_distinct by (auto simp: e)
  then have "distinct (map (\<lambda>(n, k, h). (n, k)) (map (\<lambda>(k, h). (n, k, h)) nm))"
    by (auto simp: distinct_map inj_on_def split_def)
  moreover have "n \<notin> fst ` set mp" using Cons.prems(1) by (auto simp: e om_wf_Cons)
  ultimately show ?case
    using Cons by (force simp: keyed_def e om_wf_Cons)
qed (simp add: keyed_def)

text \<open>Every listener is called once, and nobody else.\<close>

lemma finite_listeners: "finite (listeners rt t y)"
proof -
  let ?mp = "om_get [] t (mr_local rt)"
  have "listeners rt t y \<subseteq> (\<Union>e \<in> set ?mp. {fst e} \<times> fst ` set (snd e))"
  proof clarify
    fix n k assume "(n, k) \<in> listeners rt t y"
    then obtain h where "map_of (om_get [] n ?mp) k = Some h" by (auto simp: listeners_def hlook_get)
    then obtain nm where "map_of ?mp n = Some nm" "map_of nm k = Some h" using look_om_get by metis
    then show "(n, k) \<in> (\<Union>e \<in> set ?mp. {fst e} \<times> fst ` set (snd e))"
      using map_of_SomeD [of ?mp n nm] map_of_SomeD [of nm k h] by force
  qed
  then show ?thesis by (rule finite_subset) simp
qed

lemma calls_mset:
  assumes "hs_wf sh_uuid (mr_local rt)"
  shows "mset (calls m t y (all_handlers (fst (localHandlers t rt)))) =
    image_mset (\<lambda>(n, k). ECallback k m t y) (mset_set (listeners rt t y))"
proof -
  let ?mp = "om_get [] t (mr_local rt)"
  note wf = nh_wf_at [OF assms, of t]
  define ys where "ys = filter (\<lambda>(n, k, h). sh_type h = y \<and> sh_cb h) (keyed ?mp)"
  have lh: "fst (localHandlers t rt) = ?mp"
    by (simp add: localHandlers_def getHandlers_def om_get_def split: option.split)
  have look: "(n, k, h) \<in> set ys \<longleftrightarrow> hlook (mr_local rt) (t, n, k) = Some h \<and> sh_type h = y \<and> sh_cb h" for n k h
    using keyed_look [OF wf] by (simp add: ys_def hlook_get)
  have uid: "sh_uuid h = k" if "(n, k, h) \<in> set ys" for n k h
    using nm_at(2) [OF assms] map_of_SomeD that look unfolding hlook_get by metis
  have "calls m t y (map (\<lambda>(n, k, h). h) xs) =
      map (\<lambda>(n, k, h). ECallback (sh_uuid h) m t y) (filter (\<lambda>(n, k, h). sh_type h = y \<and> sh_cb h) xs)" for xs
    by (induction xs) (auto simp: calls_def run_handler_eq)
  then have "calls m t y (all_handlers ?mp) = map (\<lambda>(n, k, h). ECallback (sh_uuid h) m t y) ys"
    by (simp add: keyed_handlers ys_def)
  also have "\<dots> = map (\<lambda>(n, k). ECallback k m t y) (map (\<lambda>(n, k, h). (n, k)) ys)"
    using uid by auto
  finally have c: "mset (calls m t y (all_handlers ?mp)) =
      image_mset (\<lambda>(n, k). ECallback k m t y) (mset (map (\<lambda>(n, k, h). (n, k)) ys))"
    by (simp only: mset_map)
  have "distinct (map (\<lambda>(n, k, h). (n, k)) (keyed ?mp))"
    using wf by (intro distinct_keyed) (auto simp: nh_wf_def)
  then have "distinct (map (\<lambda>(n, k, h). (n, k)) ys)"
    unfolding ys_def by (rule distinct_map_filter)
  moreover have "set (map (\<lambda>(n, k, h). (n, k)) ys) = listeners rt t y"
    using look by (force simp: listeners_def)
  ultimately have "mset (map (\<lambda>(n, k, h). (n, k)) ys) = mset_set (listeners rt t y)"
    using mset_set_set by metis
  then show ?thesis using c lh by simp
qed


lemma local_flag: "snd (localHandlers t rt) \<longleftrightarrow> map_of (mr_local rt) t \<noteq> None"
  by (simp add: localHandlers_def getHandlers_def split: option.split)

lemma calls_none: "\<not> snd (localHandlers t rt) \<Longrightarrow> calls m t y (all_handlers (fst (localHandlers t rt))) = []"
  by (simp add: localHandlers_def calls_def all_handlers_def split: option.splits)

lemma dispatch_inline:
  "\<not> rm_is_shm msg \<Longrightarrow>
   dispatch_message P sys os os' msg rt = Inr (rt, calls (fst (pr_parse P (rm_type msg) (rm_data msg)))
     (rm_topic msg) (rm_type msg) (all_handlers (fst (localHandlers (rm_topic msg) rt))))"
  using calls_none [of "rm_topic msg" rt "fst (pr_parse P (rm_type msg) (rm_data msg))"]
  by (cases "localHandlers (rm_topic msg) rt"; cases "snd (localHandlers (rm_topic msg) rt)")
    (simp_all add: dispatch_message_def deliver_valid calls_def [symmetric])

lemma callbacks_cong:
  assumes "mr_local rt = mr_local rt'"
  shows "listeners rt t y = listeners rt' t y" "localHandlers t rt = localHandlers t rt'"
  using assms by (simp_all add: listeners_def localHandlers_def)

lemma receive_other [simp]:
  "mr_local (receiveMessage fr rt) = mr_local rt" "mr_exit (receiveMessage fr rt) = mr_exit rt"
  "mr_rrings (receiveMessage fr rt) = mr_rrings rt"
  by (auto simp: receiveMessage_def Let_def split: list.split)

section \<open>Over the socket\<close>

lemma publish_inline:
  assumes "hasTopic_type (p_topic pub) (m_type pub) (mr_rsubs a)"
    and "\<not> (opt_shm (m_opts pub) \<and> opt_scope (m_opts pub) = SCOPE_HOST)" "pr_ser P msg = Some bytes"
  shows "\<exists>a'. mr_publish P hash sys True pub msg a os =
    Inr (a', os, [ESend [p_topic pub, mr_addr a, bytes, m_type pub]], True)"
  using assms by (auto simp: mr_publish_def rt_subscribers_def publishRemote_def Let_def)

lemma receive_inline:
  assumes "pr_parse P y bytes = (msg, True)" "y = [] \<or> hd y \<noteq> kShmMsgTypeMarker"
    and "rt_ok b" "mr_remoteq b = []" "\<not> mr_exit b"
  shows "\<exists>b' out. remoteDispatch P sys mem (receiveMessage [t, s, bytes, y] b) = Inr (b', out) \<and>
    mset out = image_mset (\<lambda>(n, k). ECallback k msg t y) (mset_set (listeners b t y))"
proof -
  let ?fr = "[t, s, bytes, y]"
  have "mr_remoteq (receiveMessage ?fr b) = newest kMsgQueueLimit [parts_msg ?fr]"
    using receive_parts [of ?fr b] assms(4) by simp
  then have q: "mr_remoteq (receiveMessage ?fr b) = [parts_msg ?fr]"
    by (simp add: newest_def kMsgQueueLimit_def)
  have m: "parts_msg ?fr = \<lparr>rm_topic = t, rm_sender = s, rm_data = bytes, rm_type = y, rm_is_shm = False\<rparr>"
    using assms(2) by (auto simp: parts_msg_def)
  let ?b = "receiveMessage ?fr b\<lparr>mr_remoteq := []\<rparr>"
  let ?out = "calls msg t y (all_handlers (fst (localHandlers t ?b)))"
  have "remoteDispatch P sys mem (receiveMessage ?fr b) = Inr (?b, ?out)"
    using assms(1,5) q m by (simp add: remoteDispatch_def dispatch_inline)
  moreover have "mset ?out = image_mset (\<lambda>(n, k). ECallback k msg t y) (mset_set (listeners b t y))"
    using calls_mset [of b msg t y] assms(3) callbacks_cong [of ?b b] by (simp add: rt_ok_def)
  ultimately show ?thesis by blast
qed

text \<open>
  End-to-end delivery over the socket. When process a publishes on a topic of which it
  knows a remote subscriber (the topic not using shared memory), it sends one four-part
  message; a process b that receives and dispatches it calls exactly its handlers of that
  topic and type, each once, with the published message, whatever b's nodes are called
  and in whatever order they subscribed.
\<close>

theorem inline_delivery:
  assumes "hasTopic_type (p_topic pub) (m_type pub) (mr_rsubs a)"
    and "\<not> (opt_shm (m_opts pub) \<and> opt_scope (m_opts pub) = SCOPE_HOST)"
    and "pr_ser P msg = Some bytes" "pr_parse P (m_type pub) bytes = (msg, True)"
    and "m_type pub = [] \<or> hd (m_type pub) \<noteq> kShmMsgTypeMarker"
    and "rt_ok b" "mr_remoteq b = []" "\<not> mr_exit b"
  shows "\<exists>a' fr b' out. mr_publish P hash sys True pub msg a os = Inr (a', os, [ESend fr], True) \<and>
    remoteDispatch P sys' mem (receiveMessage fr b) = Inr (b', out) \<and>
    mset out = image_mset (\<lambda>(n, k). ECallback k msg (p_topic pub) (m_type pub))
      (mset_set (listeners b (p_topic pub) (m_type pub)))"
proof -
  obtain a' where "mr_publish P hash sys True pub msg a os =
      Inr (a', os, [ESend [p_topic pub, mr_addr a, bytes, m_type pub]], True)"
    using publish_inline [OF assms(1-3)] by blast
  then show ?thesis
    using receive_inline [OF assms(4-8), of sys' mem "p_topic pub" "mr_addr a"] by blast
qed

definition chat_pub :: "bool \<Rightarrow> msg_pub" where
  "chat_pub shm = mkMessagePublisherInfo ''t'' ''tcp://10.0.0.1:5'' ''unused'' ''uA'' ''n1'' ''T''
     (new_msg_opts\<lparr>opt_scope := SCOPE_HOST, opt_shm := shm\<rparr>)"

lemma chat_pub_simps [simp]:
  "p_topic (chat_pub shm) = ''t''" "p_proc (chat_pub shm) = ''uA''" "m_type (chat_pub shm) = ''T''"
  "opt_scope (m_opts (chat_pub shm)) = SCOPE_HOST" "opt_shm (m_opts (chat_pub shm)) = shm"
  "p_addr (chat_pub shm) = ''tcp://10.0.0.1:5''" "p_node (chat_pub shm) = ''n1''"
  by (simp_all add: chat_pub_def)

text \<open>A publisher's process that knows one subscriber, and a process with two handlers.\<close>

definition talker :: "bool \<Rightarrow> string msg_rt" where
  "talker shm = (new_msg_rt (node_disc ''uA'' ''10.0.0.1'') ''uA'')
     \<lparr>mr_addr := ''tcp://10.0.0.1:5'', mr_rsubs := fst (addPublisher ((chat_pub shm)\<lparr>p_proc := ''uB''\<rparr>) [])\<rparr>"

definition hearer :: "string msg_rt" where
  "hearer = (new_msg_rt (node_disc ''uB'' ''10.0.0.1'') ''uB'')
     \<lparr>mr_local := addHandler sh_uuid ''t'' ''n2'' (sample_handler ''h2'' ''n2'')
        (addHandler sh_uuid ''t'' ''n3'' (sample_handler ''h3'' ''n3'') [])\<rparr>"

lemma hearer_ok [simp]: "rt_ok hearer"
  using rt_ok_new [of "node_disc ''uB'' ''10.0.0.1''" "''uB''"]
  by (simp add: hearer_def rt_ok_def store_laws tight_add new_msg_rt_def)

lemma hearer_simps [simp]:
  "mr_rsubs hearer = []" "\<not> mr_exit hearer" "mr_localq hearer = []" "mr_remoteq hearer = []"
  "mr_rrings hearer = []" "mr_uuid hearer = ''uB''"
  by (simp_all add: hearer_def new_msg_rt_def)

lemma hearer_listeners: "listeners hearer ''t'' ''T'' = {(''n2'', ''h2''), (''n3'', ''h3'')}"
  by (auto simp: listeners_def hearer_def hlook_add sample_handler_def hlook_get split: if_splits)

lemma hearer_calls:
  "calls m ''t'' ''T'' (all_handlers (fst (localHandlers ''t'' hearer))) =
     [ECallback ''h2'' m ''t'' ''T'', ECallback ''h3'' m ''t'' ''T'']"
proof -
  have "all_handlers (fst (localHandlers ''t'' hearer)) = [sample_handler ''h2'' ''n2'', sample_handler ''h3'' ''n3'']"
    by (simp add: localHandlers_def getHandlers_def hearer_def new_msg_rt_def addHandler_def om_get_def
        om_emplace_def sample_handler_def all_handlers_def less_char_def)
  then show ?thesis by (simp add: calls_def run_handler_eq sample_handler_def)
qed

lemma talker_knows: "hasTopic_type ''t'' ''T'' (mr_rsubs (talker shm))"
  by (simp add: talker_def new_msg_rt_def addPublisher_def hasTopic_type_def hasTopic_def
      om_has_def om_get_def Let_def)

definition sys_ok :: shm_sys where
  "sys_ok = \<lparr>sy_open = True, sy_trunc = True, sy_header = True, sy_mmap = True\<rparr>"

theorem inline_delivery_witness:
  "\<exists>a' fr b' out. mr_publish text_proto (\<lambda>_. 7) sys_ok True (chat_pub False) ''hello'' (talker False) no_shm =
       Inr (a', no_shm, [ESend fr], True) \<and>
     remoteDispatch text_proto sys_ok (\<lambda>_. (no_shm, no_shm)) (receiveMessage fr hearer) = Inr (b', out) \<and>
     mset out = {#ECallback ''h2'' ''hello'' ''t'' ''T'', ECallback ''h3'' ''hello'' ''t'' ''T''#}"
  using inline_delivery [of "chat_pub False" "talker False" text_proto "''hello''" "''hello''" hearer
      "\<lambda>_. 7" sys_ok no_shm sys_ok "\<lambda>_. (no_shm, no_shm)"] talker_knows [of False] hearer_listeners
  by (simp add: text_proto_def kShmMsgTypeMarker_def)

text \<open>
  parsing is not checked. A message whose bytes do not parse as the handlers' type is
  delivered all the same: every handler of the topic and type is called once, with
  whatever the failed parse left in the message object.
\<close>

theorem unparsable_delivered:
  assumes "pr_parse P y bytes = (partial, False)" "rt_ok b"
  shows "\<exists>out. dispatch_message P sys os os' \<lparr>rm_topic = t, rm_sender = s, rm_data = bytes, rm_type = y,
        rm_is_shm = False\<rparr> b = Inr (b, out) \<and>
     mset out = image_mset (\<lambda>(n, k). ECallback k partial t y) (mset_set (listeners b t y))"
  using assms calls_mset [of b partial t y] by (simp add: dispatch_inline rt_ok_def)

theorem unparsable_delivered_witness:
  "\<exists>out. dispatch_message (text_proto\<lparr>pr_parse := (\<lambda>_ _. ([], False))\<rparr>) sys_ok no_shm no_shm
      \<lparr>rm_topic = ''t'', rm_sender = ''s'', rm_data = ''garbage'', rm_type = ''T'', rm_is_shm = False\<rparr> hearer =
      Inr (hearer, out) \<and>
    mset out = {#ECallback ''h2'' [] ''t'' ''T'', ECallback ''h3'' [] ''t'' ''T''#}"
  using unparsable_delivered [of "text_proto\<lparr>pr_parse := (\<lambda>_ _. ([], False))\<rparr>" "''T''" "''garbage''" "[]"
      hearer sys_ok no_shm no_shm "''t''" "''s''"] hearer_listeners
  by simp

section \<open>Inside the process\<close>

text \<open>Publishing a run of messages on topics without remote subscribers.\<close>

fun publish_local ::
  "'m proto \<Rightarrow> (string \<Rightarrow> u64) \<Rightarrow> shm_sys \<Rightarrow> (msg_pub \<times> 'm) list \<Rightarrow> 'm msg_rt \<Rightarrow> shm_os \<Rightarrow> fault + 'm msg_rt" where
  "publish_local P hash sys [] rt os = Inr rt"
| "publish_local P hash sys ((pub, msg) # ms) rt os =
     (case mr_publish P hash sys True pub msg rt os of
        Inl f \<Rightarrow> Inl f
      | Inr (rt', os', out, ok) \<Rightarrow> publish_local P hash sys ms rt' os')"

lemma publish_no_remote:
  "\<not> hasTopic_type (p_topic pub) (m_type pub) (mr_rsubs rt) \<Longrightarrow>
   mr_publish P hash sys zok pub msg rt os =
     Inr (enqueue_local pub msg (localHandlers (p_topic pub) rt) rt, os, [], True)"
  by (simp add: mr_publish_def rt_subscribers_def)

lemma enqueue_local_frame [simp]:
  "mr_local (enqueue_local pub msg i rt) = mr_local rt" "mr_rsubs (enqueue_local pub msg i rt) = mr_rsubs rt"
  "mr_exit (enqueue_local pub msg i rt) = mr_exit rt"
  by (simp_all add: enqueue_local_def)

definition local_calls :: "'m pub_details list \<Rightarrow> 'm rt_ev list" where
  "local_calls q = concat (map (\<lambda>d. concat (map (run_handler (pd_msg d) (pd_topic d) (pd_type d)) (pd_handlers d))) q)"

lemma local_calls_enqueue:
  "local_calls (mr_localq (enqueue_local pub msg (localHandlers (p_topic pub) rt) rt)) =
   local_calls (mr_localq rt) @ calls msg (p_topic pub) (m_type pub) (all_handlers (fst (localHandlers (p_topic pub) rt)))"
proof (cases "snd (localHandlers (p_topic pub) rt)")
  case False
  then show ?thesis using calls_none [of "p_topic pub" rt msg "m_type pub"] by (simp add: enqueue_local_def)
qed (simp add: enqueue_local_def local_calls_def calls_def)

text \<open>
  Delivery inside the process is complete and in order. Messages published one after
  the other, on any topics without remote subscribers, and then dispatched, call for each
  message in turn every handler its topic and type has in this process; nothing is
  dropped, whatever the number of messages.
\<close>

theorem local_delivery_fifo:
  assumes "\<forall>(pub, msg) \<in> set ms. \<not> hasTopic_type (p_topic pub) (m_type pub) (mr_rsubs rt)"
    and "\<not> mr_exit rt" "mr_localq rt = []"
  shows "\<exists>rt'. publish_local P hash sys ms rt os = Inr rt' \<and> mr_localq (fst (localDispatch rt')) = [] \<and>
    snd (localDispatch rt') = concat (map (\<lambda>(pub, msg). calls msg (p_topic pub) (m_type pub)
      (all_handlers (fst (localHandlers (p_topic pub) rt)))) ms)"
proof -
  have "\<exists>rt'. publish_local P hash sys ms r os = Inr rt' \<and> \<not> mr_exit rt' \<and>
      local_calls (mr_localq rt') = local_calls (mr_localq r) @ concat (map (\<lambda>(pub, msg). calls msg (p_topic pub) (m_type pub)
        (all_handlers (fst (localHandlers (p_topic pub) rt)))) ms)"
    if "mr_local r = mr_local rt" "mr_rsubs r = mr_rsubs rt" "\<not> mr_exit r" for r
    using assms(1) that
  proof (induction ms arbitrary: r)
    case (Cons e ms)
    obtain pub msg where e: "e = (pub, msg)" by (cases e)
    let ?r = "enqueue_local pub msg (localHandlers (p_topic pub) r) r"
    have "mr_publish P hash sys True pub msg r os = Inr (?r, os, [], True)"
      using Cons.prems(1,3) by (intro publish_no_remote) (simp add: e)
    moreover have "localHandlers (p_topic pub) r = localHandlers (p_topic pub) rt"
      using callbacks_cong(2) [OF Cons.prems(2)] .
    ultimately show ?case
      using Cons.IH [of ?r] Cons.prems local_calls_enqueue [of pub msg r] by (auto simp: e)
  qed simp
  from this [OF refl refl assms(2)] show ?thesis
    using assms(3) by (auto simp: localDispatch_def local_calls_def)
qed

theorem local_delivery_fifo_witness:
  "\<exists>rt'. publish_local text_proto (\<lambda>_. 7) sys_ok [(chat_pub True, ''one''), (chat_pub False, ''two'')] hearer no_shm = Inr rt' \<and>
     snd (localDispatch rt') =
       [ECallback ''h2'' ''one'' ''t'' ''T'', ECallback ''h3'' ''one'' ''t'' ''T'',
        ECallback ''h2'' ''two'' ''t'' ''T'', ECallback ''h3'' ''two'' ''t'' ''T'']"
  using local_delivery_fifo [of "[(chat_pub True, ''one''), (chat_pub False, ''two'')]" hearer text_proto
      "\<lambda>_. 7" sys_ok no_shm]
  by (auto simp: hasTopic_type_def hasTopic_def om_has_def hearer_calls)

end
