(* ===== verification/MsgShm.thy ===== *)
theory MsgShm
  imports MsgDelivery
begin

text \<open>
  Delivery through shared memory: the publishing runtime, its ring, the descriptors on the
  socket and the receiving runtime together.
\<close>

section \<open>Publishing into the ring\<close>

definition desc_for :: "string \<Rightarrow> slot_handle \<Rightarrow> shm_descriptor" where
  "desc_for nm h = \<lparr>sd_name = nm, sd_index = h_index h, sd_seq = h_seq h, sd_size = h_size h\<rparr>"

definition shm_frames :: "msg_pub \<Rightarrow> string \<Rightarrow> string \<Rightarrow> slot_handle \<Rightarrow> string list" where
  "shm_frames pub addr nm h = [p_topic pub, addr, desc_bytes (desc_for nm h), kShmMsgTypeMarker # m_type pub]"

definition via_shm :: "msg_pub \<Rightarrow> bool" where
  "via_shm pub \<longleftrightarrow> opt_shm (m_opts pub) \<and> opt_scope (m_opts pub) = SCOPE_HOST"

lemma write_ring_name: "write_ring d r os = Inr (r', os', h) \<Longrightarrow> r_name r' = r_name r"
  by (auto simp: write_ring_def reserveWrite_def Let_def split: sum.splits option.splits if_splits)

lemma reserve_refused: "reserveWrite sz r os = Inr (r', os', None) \<Longrightarrow> r_slot_size r < sz"
  by (auto simp: reserveWrite_def Let_def split: sum.splits if_splits)

lemma publishShm_write:
  assumes "writerRingFor hash sys (p_topic pub) (of_nat (length bytes)) rt os = (rt1, os1, Some ring)"
    and "pr_ser P msg = Some bytes" "pr_size P msg = length bytes"
    and "\<not> r_slot_size ring < of_nat (length bytes)"
    and "write_ring bytes ring os1 = Inr (ring2, os2, h)"
  shows "publishRemoteShm P hash sys True pub msg rt os =
    Inr (put_wring (p_topic pub) ring2 rt1, os2, [ESend (shm_frames pub (mr_addr rt1) (r_name ring) h)], True)"
proof -
  have "mr_addr (put_wring t r rt1) = mr_addr rt1" for t r by (simp add: put_wring_def)
  then show ?thesis
    using assms write_ring_name [OF assms(5)]
    by (auto simp: publishRemoteShm_def write_ring_def shm_frames_def desc_for_def Let_def
        split: sum.splits option.splits prod.splits dest: reserve_refused)
qed

lemma publish_shm:
  assumes "hasTopic_type (p_topic pub) (m_type pub) (mr_rsubs rt)" "via_shm pub"
    and "publishRemoteShm P hash sys zok pub msg rt os = Inr (rt1, os1, out, True)"
  shows "mr_publish P hash sys zok pub msg rt os =
    Inr (enqueue_local pub msg (localHandlers (p_topic pub) rt) rt1, os1, out, True)"
  using assms by (simp add: mr_publish_def rt_subscribers_def via_shm_def)

fun publish_seq ::
  "'m proto \<Rightarrow> (string \<Rightarrow> u64) \<Rightarrow> shm_sys \<Rightarrow> msg_pub \<Rightarrow> 'm list \<Rightarrow> 'm msg_rt \<Rightarrow> shm_os \<Rightarrow>
   fault + ('m msg_rt \<times> shm_os \<times> 'm rt_ev list)" where
  "publish_seq P hash sys pub [] rt os = Inr (rt, os, [])"
| "publish_seq P hash sys pub (m # ms) rt os =
     (case mr_publish P hash sys True pub m rt os of
        Inl f \<Rightarrow> Inl f
      | Inr (rt1, os1, out1, ok) \<Rightarrow>
          (case publish_seq P hash sys pub ms rt1 os1 of
             Inl f \<Rightarrow> Inl f
           | Inr (rt2, os2, out2) \<Rightarrow> Inr (rt2, os2, out1 @ out2)))"

text \<open>With the topic's ring in place, publishing is writing to the ring.\<close>

definition same_peer :: "'m msg_rt \<Rightarrow> 'm msg_rt \<Rightarrow> bool" where
  "same_peer rt rt' \<longleftrightarrow> mr_addr rt' = mr_addr rt \<and> mr_rsubs rt' = mr_rsubs rt \<and> mr_uuid rt' = mr_uuid rt \<and>
     mr_disc rt' = mr_disc rt"

lemma publish_seq_ring:
  assumes "map_of (mr_wrings rt) (p_topic pub) = Some r" "via_shm pub"
    and "hasTopic_type (p_topic pub) (m_type pub) (mr_rsubs rt)"
    and "\<forall>m \<in> set ms. pr_ser P m = Some (bytes m) \<and> pr_size P m = length (bytes m) \<and>
      \<not> r_slot_size r < of_nat (length (bytes m))"
    and "write_all (map bytes ms) r os = Inr (r', os', hs)"
  shows "\<exists>rt'. publish_seq P hash sys pub ms rt os =
      Inr (rt', os', map (\<lambda>h. ESend (shm_frames pub (mr_addr rt) (r_name r) h)) hs) \<and>
    map_of (mr_wrings rt') (p_topic pub) = Some r' \<and> same_peer rt rt'"
  using assms
proof (induction ms arbitrary: rt r os hs)
  case Nil
  then show ?case by (simp add: same_peer_def)
next
  case (Cons m ms)
  from Cons.prems(5) obtain r1 os1 h hs' where w: "write_ring (bytes m) r os = Inr (r1, os1, h)"
      "write_all (map bytes ms) r1 os1 = Inr (r', os', hs')" "hs = h # hs'"
    by (auto split: sum.splits prod.splits)
  have fit: "\<not> r_slot_size r < of_nat (length (bytes m))" using Cons.prems(4) by simp
  have "writerRingFor hash sys (p_topic pub) (of_nat (length (bytes m))) rt os = (rt, os, Some r)"
    using Cons.prems(1) fit by (simp add: writerRingFor_def)
  from publishShm_write [OF this _ _ fit w(1), of P m]
  have p: "publishRemoteShm P hash sys True pub m rt os =
      Inr (put_wring (p_topic pub) r1 rt, os1, [ESend (shm_frames pub (mr_addr rt) (r_name r) h)], True)"
    using Cons.prems(4) by simp
  let ?rt1 = "enqueue_local pub m (localHandlers (p_topic pub) rt) (put_wring (p_topic pub) r1 rt)"
  have 1: "map_of (mr_wrings ?rt1) (p_topic pub) = Some r1" "mr_addr ?rt1 = mr_addr rt"
      "mr_rsubs ?rt1 = mr_rsubs rt" "same_peer rt ?rt1"
    by (simp_all add: enqueue_local_def put_wring_def same_peer_def)
  have "r_slot_size r1 = r_slot_size r" using write_geometry [OF w(1)] by simp
  then have "\<exists>rt'. publish_seq P hash sys pub ms ?rt1 os1 =
      Inr (rt', os', map (\<lambda>h. ESend (shm_frames pub (mr_addr rt) (r_name r) h)) hs') \<and>
      map_of (mr_wrings rt') (p_topic pub) = Some r' \<and> same_peer ?rt1 rt'"
    using Cons.IH [OF 1(1) Cons.prems(2) _ _ w(2)] Cons.prems(3,4) 1(2,3) write_ring_name [OF w(1)] by simp
  then show ?case using publish_shm [OF Cons.prems(3,2) p] w(3) 1(4) by (auto simp: same_peer_def)
qed

text \<open>The first message of a topic creates the ring, in whole pages.\<close>

definition page_up :: "nat \<Rightarrow> nat" where
  "page_up n = (n + 4095) div 4096 * 4096"


lemma page_up_word:
  assumes "n < 2 ^ 32"
  shows "unat ((of_nat n + kShmGranularity - 1) div kShmGranularity * kShmGranularity) = page_up n"
proof -
  have "of_nat n + kShmGranularity - 1 = (of_nat (n + 4095) :: u64)"
    by (simp add: kShmGranularity_def)
  moreover have "unat (of_nat (n + 4095) :: u64) = n + 4095"
    by (rule unat_of_nat_small) (use assms in simp)
  moreover have "unat kShmGranularity = 4096" by (simp add: kShmGranularity_def)
  ultimately have d: "unat ((of_nat n + kShmGranularity - 1) div kShmGranularity) = (n + 4095) div 4096"
    by (simp only: unat_div)
  have "(n + 4095) div 4096 \<le> n + 4095" by simp
  then have "(n + 4095) div 4096 * 4096 < 2 ^ 64" using assms by simp
  then show ?thesis
    using d by (subst unat_mult_small) (simp_all add: page_up_def kShmGranularity_def)
qed

lemma page_up_le: "page_up n \<le> n + 4095"
  unfolding page_up_def by simp

lemma page_up_ge: "n \<le> page_up n"
  unfolding page_up_def by simp

text \<open>What a publisher leaves alone of the shared memory: every object but its own.\<close>

definition only_obj :: "nat \<Rightarrow> shm_os \<Rightarrow> shm_os \<Rightarrow> bool" where
  "only_obj obj os os' \<longleftrightarrow> (\<forall>b. b \<noteq> obj \<longrightarrow> map_of (os_objs os') b = map_of (os_objs os) b) \<and> os_next os' = Suc obj"

lemma store_obj: "r_base r = Some obj \<Longrightarrow> b \<noteq> obj \<Longrightarrow> map_of (os_objs (store_slot r i sl os)) b = map_of (os_objs os) b"
  by (simp add: store_slot_def mapped_def split: option.split)

lemma store_next: "os_next (store_slot r i sl os) = os_next os"
  by (simp add: store_slot_def split: option.split)

lemma write_ring_obj:
  assumes "write_ring d r os = Inr (r', os', h)" "r_base r = Some obj"
  shows "r_base r' = Some obj \<and> os_next os' = os_next os \<and>
    (b \<noteq> obj \<longrightarrow> map_of (os_objs os') b = map_of (os_objs os) b)"
proof -
  have "r_base (r\<lparr>r_cursor := c\<rparr>) = Some obj" for c using assms(2) by simp
  then show ?thesis
    using assms by (auto simp: write_ring_def reserveWrite_def put_payload_def commitWrite_def Let_def
        store_next store_obj [of _ obj] split: sum.splits option.splits if_splits)
qed

lemma write_all_obj:
  "write_all ds r os = Inr (r', os', hs) \<Longrightarrow> r_base r = Some obj \<Longrightarrow>
   os_next os' = os_next os \<and> (\<forall>b. b \<noteq> obj \<longrightarrow> map_of (os_objs os') b = map_of (os_objs os) b)"
proof (induction ds arbitrary: r os hs)
  case (Cons d ds)
  then obtain r1 os1 h hs' where w: "write_ring d r os = Inr (r1, os1, h)"
      "write_all ds r1 os1 = Inr (r', os', hs')"
    by (auto split: sum.splits prod.splits)
  show ?case using Cons.IH [OF w(2)] write_ring_obj [OF w(1) Cons.prems(2)] by metis
qed simp

lemma create_obj:
  "createAsWriter True True True rg os = (r, os1, True) \<Longrightarrow> only_obj (os_next os) os os1"
  by (auto simp: createAsWriter_def Let_def shm_unlink_def only_obj_def)

lemma writer_created:
  assumes "map_of (mr_wrings rt) t = None" "n < 2 ^ 32" "page_up n < 2 ^ 32"
  shows "\<exists>rt1 os1 r. writerRingFor hash sys_ok t (of_nat n) rt os = (rt1, os1, Some r) \<and>
    writerRingFor hash sys_ok t (of_nat n) rt1 os1 = (rt1, os1, Some r) \<and>
    rt1 = rt\<lparr>mr_wrings := om_put t r (mr_wrings rt)\<rparr> \<and> r_name r = makeShmName hash t (mr_uuid rt) \<and>
    ring_at r os1 (os_next os) (replicate 4 (zero_slot (page_up n))) \<and> r_cursor r = 0 \<and>
    r_slot_count r = 4 \<and> unat (r_slot_size r) = page_up n \<and> r_base r = Some (os_next os) \<and>
    map_of (os_names os1) (r_name r) = Some (os_next os) \<and> only_obj (os_next os) os os1 \<and> r_is_writer r"
proof -
  let ?s = "(of_nat n + kShmGranularity - 1) div kShmGranularity * kShmGranularity"
  let ?nm = "makeShmName hash t (mr_uuid rt)"
  have us: "unat ?s = page_up n" using page_up_word [OF assms(2)] .
  obtain r os1 where c: "createAsWriter True True True (new_ring ?nm ?s kDefaultSlotCount) os = (r, os1, True)"
      "ring_at r os1 (os_next os) (replicate (unat kDefaultSlotCount) (zero_slot (unat ?s)))" "r_cursor r = 0"
      "r_slot_count r = kDefaultSlotCount" "r_slot_size r = ?s" "r_name r = ?nm" "r_is_writer r"
      "map_of (os_names os1) ?nm = Some (os_next os)" "r_base r = Some (os_next os)"
    using create_at [of kDefaultSlotCount ?s ?nm os] us assms(3) by (auto simp: kDefaultSlotCount_def)
  have obj: "only_obj (os_next os) os os1" by (rule create_obj [OF c(1)])
  have "unat (of_nat n :: u64) = n" by (rule unat_of_nat_small) (use assms(2) in simp)
  then have fit: "\<not> r_slot_size r < of_nat n"
    using page_up_ge [of n] us c(5) by (simp add: word_less_nat_alt)
  then show ?thesis
    using assms(1) c us obj by (intro exI [of _ "rt\<lparr>mr_wrings := om_put t r (mr_wrings rt)\<rparr>"] exI [of _ os1] exI [of _ r])
      (simp add: writerRingFor_def sys_ok_def kDefaultSlotCount_def)
qed


section \<open>Reading from the ring\<close>

lemma dispatch_shm:
  assumes "rm_is_shm msg" "desc_of_bytes (rm_data msg) = Some d" "snd (localHandlers (rm_topic msg) rt)"
    and "readerRingFor sys (sd_name d) os rt = (rt1, Some ring)"
    and "read_ring \<lparr>h_index = sd_index d, h_seq = sd_seq d, h_size = sd_size d\<rparr> ring os = Inr res"
  shows "dispatch_message P sys os os msg rt = Inr (rt1, case res of None \<Rightarrow> []
    | Some bytes \<Rightarrow> calls (fst (pr_parse P (rm_type msg) bytes)) (rm_topic msg) (rm_type msg)
        (all_handlers (fst (localHandlers (rm_topic msg) rt))))"
proof -
  obtain hs where lh: "localHandlers (rm_topic msg) rt = (hs, True)"
    using assms(3) by (cases "localHandlers (rm_topic msg) rt") simp
  let ?h = "\<lparr>h_index = sd_index d, h_seq = sd_seq d, h_size = sd_size d\<rparr>"
  have none: "calls m (rm_topic msg) (rm_type msg) (all_handlers hs) = []"
    if "\<not> list_ex (\<lambda>s. sh_type s = rm_type msg) (all_handlers hs)" for m
  proof -
    have "filter (\<lambda>h. sh_type h = rm_type msg) (all_handlers hs) = []"
      using that by (simp add: filter_empty_conv list_ex_iff)
    then show ?thesis by (simp add: calls_def)
  qed
  from assms(5) consider (none) "beginRead ?h ring os = Inr None" "res = None"
    | (some) p bytes ok where "beginRead ?h ring os = Inr (Some p)" "peek_bytes p = Inr bytes"
        "finishRead ?h ring os = Inr ok" "res = (if ok then Some bytes else None)"
    by (auto simp: read_ring_def split: sum.splits option.splits)
  then show ?thesis
  proof cases
    case none
    then show ?thesis using assms(1,2,4) lh by (simp add: dispatch_message_def)
  next
    case some
    then show ?thesis
      using assms(1,2,4) lh none [of "fst (pr_parse P (rm_type msg) bytes)"]
      by (simp add: dispatch_message_def deliver_invalid deliver_valid calls_def)
  qed
qed

text \<open>The reader's ring of a name is the segment the name stands for, opened now or before.\<close>

definition attached :: "string \<Rightarrow> nat \<Rightarrow> 'm msg_rt \<Rightarrow> bool" where
  "attached nm obj rt \<longleftrightarrow> (\<forall>rd. map_of (mr_rrings rt) nm = Some rd \<longrightarrow> r_base rd = Some obj)"

lemma reader_attached:
  assumes "attached nm obj rt" "ring_at r os obj sls" "map_of (os_names os) nm = Some obj"
  shows "\<exists>rt1 rd. readerRingFor sys_ok nm os rt = (rt1, Some rd) \<and> r_base rd = Some obj \<and>
    attached nm obj rt1 \<and> mr_local rt1 = mr_local rt \<and> mr_exit rt1 = mr_exit rt"
proof (cases "map_of (mr_rrings rt) nm")
  case (Some rd)
  then show ?thesis using assms(1) by (simp add: readerRingFor_def attached_def)
next
  case None
  obtain rd where "openAsReader True True True (new_ring nm 0 kDefaultSlotCount) os = (rd, True)"
      "r_base rd = Some obj"
    using open_at [OF assms(2,3)] by blast
  then show ?thesis using None by (simp add: readerRingFor_def attached_def sys_ok_def)
qed

definition shm_msg :: "msg_pub \<Rightarrow> string \<Rightarrow> string \<Rightarrow> slot_handle \<Rightarrow> remote_msg" where
  "shm_msg pub addr nm h = \<lparr>rm_topic = p_topic pub, rm_sender = addr, rm_data = desc_bytes (desc_for nm h),
     rm_type = m_type pub, rm_is_shm = True\<rparr>"

lemma shm_msg_simps [simp]:
  "rm_topic (shm_msg pub addr nm h) = p_topic pub" "rm_type (shm_msg pub addr nm h) = m_type pub"
  "rm_is_shm (shm_msg pub addr nm h)" "rm_data (shm_msg pub addr nm h) = desc_bytes (desc_for nm h)"
  by (simp_all add: shm_msg_def)

lemma desc_handle: "\<lparr>h_index = sd_index (desc_for nm h), h_seq = sd_seq (desc_for nm h), h_size = sd_size (desc_for nm h)\<rparr> = h"
  by (simp add: desc_for_def)

lemma parts_shm: "parts_msg (shm_frames pub addr nm h) = shm_msg pub addr nm h"
  by (simp add: parts_msg_def shm_frames_def shm_msg_def)

lemma dispatch_all_ring:
  assumes at: "ring_at r os obj sls" and h: "hist ds sls" and nm: "map_of (os_names os) nm = Some obj"
    and len: "length ds < 2 ^ 63" "\<forall>d \<in> set ds. length d \<le> unat (r_slot_size r)"
    and name: "list_all (\<lambda>c. c \<noteq> CHR 0x00) nm" "length nm \<le> 62"
    and base: "r_base r = Some obj"
  shows "set js \<subseteq> {0..<length ds} \<Longrightarrow> attached nm obj rt \<Longrightarrow> snd (localHandlers (p_topic pub) rt) \<Longrightarrow>
    \<exists>rt'. dispatch_all P sys_ok (\<lambda>_. (os, os))
      (map (\<lambda>j. shm_msg pub addr nm (handle_for (r_slot_count r) (of_nat j) (ds ! j))) js) rt =
      Inr (rt', concat (map (\<lambda>j. if length ds \<le> j + length sls then
        calls (fst (pr_parse P (m_type pub) (ds ! j))) (p_topic pub) (m_type pub)
          (all_handlers (fst (localHandlers (p_topic pub) rt))) else []) js))"
proof (induction js arbitrary: rt)
  case (Cons j js)
  let ?h = "handle_for (r_slot_count r) (of_nat j) (ds ! j)"
  let ?msg = "shm_msg pub addr nm ?h"
  have j: "j < length ds" using Cons.prems(1) by simp
  obtain rt1 rd where rd: "readerRingFor sys_ok nm os rt = (rt1, Some rd)" "r_base rd = Some obj"
      "attached nm obj rt1" "mr_local rt1 = mr_local rt"
    using reader_attached [OF Cons.prems(2) at nm] by blast
  have lh: "localHandlers (p_topic pub) rt1 = localHandlers (p_topic pub) rt"
    using callbacks_cong(2) [OF rd(4)] .
  have read: "read_ring \<lparr>h_index = sd_index (desc_for nm ?h), h_seq = sd_seq (desc_for nm ?h),
      h_size = sd_size (desc_for nm ?h)\<rparr> rd os =
      Inr (if length ds \<le> j + length sls then Some (ds ! j) else None)"
    unfolding desc_handle using read_history [OF at h _ j len(1)] rd(2) base len(2) j by simp
  have desc: "desc_of_bytes (rm_data ?msg) = Some (desc_for nm ?h)"
    using desc_roundtrip [of "desc_for nm ?h"] name by (simp add: desc_for_def)
  have ring: "readerRingFor sys_ok (sd_name (desc_for nm ?h)) os rt = (rt1, Some rd)"
    using rd(1) by (simp add: desc_for_def)
  have "dispatch_message P sys_ok os os ?msg rt = Inr (rt1, if length ds \<le> j + length sls then
        calls (fst (pr_parse P (m_type pub) (ds ! j))) (p_topic pub) (m_type pub)
          (all_handlers (fst (localHandlers (p_topic pub) rt))) else [])"
    using dispatch_shm [OF _ desc _ ring read, of P] Cons.prems(3) by simp
  moreover have "\<exists>rt'. dispatch_all P sys_ok (\<lambda>_. (os, os))
      (map (\<lambda>j. shm_msg pub addr nm (handle_for (r_slot_count r) (of_nat j) (ds ! j))) js) rt1 =
      Inr (rt', concat (map (\<lambda>j. if length ds \<le> j + length sls then
        calls (fst (pr_parse P (m_type pub) (ds ! j))) (p_topic pub) (m_type pub)
          (all_handlers (fst (localHandlers (p_topic pub) rt))) else []) js))"
    using Cons.IH [of rt1] Cons.prems(1,3) rd(3) unfolding lh by simp
  ultimately show ?case by auto
qed simp

section \<open>From publish to callback\<close>

lemma publish_first:
  assumes "writerRingFor hash sys (p_topic pub) (of_nat (pr_size P m)) rt os = (rt1, os1, Some r)"
    and "writerRingFor hash sys (p_topic pub) (of_nat (pr_size P m)) rt1 os1 = (rt1, os1, Some r)"
    and "rt1 = rt\<lparr>mr_wrings := om_put (p_topic pub) r (mr_wrings rt)\<rparr>"
    and "via_shm pub" "hasTopic_type (p_topic pub) (m_type pub) (mr_rsubs rt)"
  shows "mr_publish P hash sys True pub m rt os = mr_publish P hash sys True pub m rt1 os1"
proof -
  have "publishRemoteShm P hash sys True pub m rt os = publishRemoteShm P hash sys True pub m rt1 os1"
    by (simp add: publishRemoteShm_def assms(1,2))
  moreover have "rt_subscribers (p_topic pub) (m_type pub) rt = rt_subscribers (p_topic pub) (m_type pub) rt1"
    by (simp add: rt_subscribers_def localHandlers_def assms(3))
  moreover have "snd (rt_subscribers (p_topic pub) (m_type pub) rt)"
    using assms(5) by (simp add: rt_subscribers_def)
  ultimately show ?thesis
    using assms(4) by (cases "rt_subscribers (p_topic pub) (m_type pub) rt1")
      (simp add: mr_publish_def via_shm_def Let_def)
qed

lemma newest_map: "newest n (map f xs) = map f (newest n xs)"
  by (simp add: newest_def drop_map)

lemma newest_upt: "newest n [0..<k] = [k - n..<k]"
  by (simp add: newest_def)

text \<open>Of the newest N positions, those among the newest n give the newest n elements.\<close>

lemma newest_index:
  assumes "n \<le> N"
  shows "concat (map (\<lambda>j. if length xs \<le> j + n then f (xs ! j) else []) (newest N [0..<length xs])) =
   concat (map f (newest n xs))"
proof -
  let ?g = "\<lambda>j. if length xs \<le> j + n then f (xs ! j) else []"
  let ?k = "length xs - n" and ?l = "length xs - N"
  have "concat (map ?g [?l..<?k]) = []" by auto
  moreover have "map ?g [?k..<length xs] = map f (drop ?k xs)"
    by (intro nth_equalityI) (auto simp: add.commute)
  moreover have "[?l..<length xs] = [?l..<?k] @ [?k..<length xs]"
    using upt_add_eq_append [of ?l ?k "length xs - ?k"] assms by simp
  ultimately show ?thesis unfolding newest_upt by (simp add: newest_def)
qed


lemma receive_all_shm:
  assumes "mr_remoteq b = []"
  shows "mr_remoteq (fold receiveMessage (map (shm_frames pub addr nm) hs) b) =
    map (shm_msg pub addr nm) (newest kMsgQueueLimit hs)"
proof -
  have "filter (\<lambda>fr. 4 \<le> length fr) (map (shm_frames pub addr nm) hs) = map (shm_frames pub addr nm) hs"
    by (rule filter_True) (auto simp: shm_frames_def)
  then show ?thesis
    using keeps_newest [of b "map (shm_frames pub addr nm) hs"] assms
    by (simp add: newest_map [symmetric] parts_shm comp_def)
qed

lemma fold_receive_other [simp]:
  "mr_local (fold receiveMessage frs rt) = mr_local rt" "mr_exit (fold receiveMessage frs rt) = mr_exit rt"
  "mr_rrings (fold receiveMessage frs rt) = mr_rrings rt"
  by (induction frs arbitrary: rt) simp_all

lemma shm_name_ok:
  assumes "list_all (\<lambda>c. c \<noteq> CHR 0x00) u"
  shows "list_all (\<lambda>c. c \<noteq> CHR 0x00) (makeShmName hash t u)" "length (makeShmName hash t u) \<le> 62"
  using no_nul_hex assms in_set_takeD [of _ 8 u] shm_name_length [of hash t u]
  by (auto simp: makeShmName_def list_all_iff)

text \<open>A run of messages on a topic that has no ring yet, for a publisher and its messages.\<close>

definition fits_pages :: "'m proto \<Rightarrow> ('m \<Rightarrow> string) \<Rightarrow> string \<Rightarrow> 'm \<Rightarrow> 'm list \<Rightarrow> bool" where
  "fits_pages P bytes y m0 ms \<longleftrightarrow> page_up (length (bytes m0)) < 2 ^ 32 \<and> length (m0 # ms) < 2 ^ 63 \<and>
     (\<forall>m \<in> set (m0 # ms). pr_ser P m = Some (bytes m) \<and> pr_size P m = length (bytes m) \<and>
        fst (pr_parse P y (bytes m)) = m \<and> length (bytes m) \<le> page_up (length (bytes m0)))"

lemma publish_fresh:
  assumes "via_shm pub" "hasTopic_type (p_topic pub) (m_type pub) (mr_rsubs a)"
    and "map_of (mr_wrings a) (p_topic pub) = None" "fits_pages P bytes (m_type pub) m0 ms"
    and ds: "ds = map bytes (m0 # ms)" and nm: "nm = makeShmName hash (p_topic pub) (mr_uuid a)"
  obtains a' os' r sls where
    "publish_seq P hash sys_ok pub (m0 # ms) a os =
       Inr (a', os', map ESend (map (shm_frames pub (mr_addr a) nm) (map (\<lambda>c. handle_for 4 (of_nat c) (ds ! c)) [0..<length ds])))"
    "ring_at r os' (os_next os) sls" "length sls = 4" "hist ds sls" "r_slot_count r = 4" "r_base r = Some (os_next os)"
    "\<forall>d \<in> set ds. length d \<le> unat (r_slot_size r)" "map_of (os_names os') nm = Some (os_next os)"
    "map_of (mr_wrings a') (p_topic pub) = Some r" "same_peer a a'" "only_obj (os_next os) os os'" "length ds < 2 ^ 63"
proof -
  let ?t = "p_topic pub" and ?y = "m_type pub" and ?n = "length (bytes m0)"
  note fp = assms(4) [unfolded fits_pages_def]
  have n32: "?n < 2 ^ 32" using page_up_ge [of ?n] fp by linarith
  obtain a1 os1 r where w: "writerRingFor hash sys_ok ?t (of_nat ?n) a os = (a1, os1, Some r)"
      "writerRingFor hash sys_ok ?t (of_nat ?n) a1 os1 = (a1, os1, Some r)"
      "a1 = a\<lparr>mr_wrings := om_put ?t r (mr_wrings a)\<rparr>" "r_name r = nm"
      "ring_at r os1 (os_next os) (replicate 4 (zero_slot (page_up ?n)))" "r_cursor r = 0"
      "r_slot_count r = 4" "unat (r_slot_size r) = page_up ?n" "r_base r = Some (os_next os)"
      "map_of (os_names os1) (r_name r) = Some (os_next os)" "only_obj (os_next os) os os1"
    using writer_created [OF assms(3) n32] fp nm by blast
  have fits: "\<forall>d \<in> set ds. length d \<le> unat (r_slot_size r)" using fp w(8) by (auto simp: ds)
  have len: "length ds < 2 ^ 63" using fp by (simp add: ds)
  obtain r' os' sls where wr: "write_all ds r os1 = Inr (r', os',
        map (\<lambda>c. handle_for (r_slot_count r) (of_nat c) (ds ! c)) [0..<length ds])"
      "ring_at r' os' (os_next os) sls" "length sls = 4" "hist ds sls" "r_base r' = r_base r"
    using write_all_hist [OF w(5) hist_zero, of ds] w(6) fits len by auto
  have geo: "r_slot_count r' = r_slot_count r" "r_slot_size r' = r_slot_size r"
    using write_all_geometry [OF wr(1)] by simp_all
  have ok: "pr_ser P m = Some (bytes m) \<and> pr_size P m = length (bytes m) \<and>
      \<not> r_slot_size r < of_nat (length (bytes m))" if "m \<in> set (m0 # ms)" for m
  proof -
    have "length (bytes m) \<le> page_up ?n" using fp that by blast
    moreover from this have "unat (of_nat (length (bytes m)) :: u64) = length (bytes m)"
      using fp by (intro unat_of_nat_small) simp
    ultimately show ?thesis using fp that w(8) by (auto simp: word_less_nat_alt)
  qed
  obtain a' where seq: "publish_seq P hash sys_ok pub (m0 # ms) a1 os1 = Inr (a', os',
      map (\<lambda>h. ESend (shm_frames pub (mr_addr a1) (r_name r) h))
        (map (\<lambda>c. handle_for (r_slot_count r) (of_nat c) (ds ! c)) [0..<length ds]))"
      "map_of (mr_wrings a') ?t = Some r'" "same_peer a1 a'"
    using publish_seq_ring [OF _ assms(1) _ _ wr(1) [unfolded ds], of a1 P hash sys_ok] ok assms(2) w(3)
    unfolding ds by auto
  have "mr_publish P hash sys_ok True pub m0 a os = mr_publish P hash sys_ok True pub m0 a1 os1"
    by (rule publish_first [OF _ _ w(3) assms(1,2)]) (use ok w(1,2) in simp_all)
  then have "publish_seq P hash sys_ok pub (m0 # ms) a os = publish_seq P hash sys_ok pub (m0 # ms) a1 os1"
    by simp
  then have pub: "publish_seq P hash sys_ok pub (m0 # ms) a os = Inr (a', os',
      map ESend (map (shm_frames pub (mr_addr a) nm) (map (\<lambda>c. handle_for 4 (of_nat c) (ds ! c)) [0..<length ds])))"
    using seq(1) w(3,4,7) by (simp add: comp_def del: upt_Suc)
  have "only_obj (os_next os) os os'"
    using write_all_obj [OF wr(1) w(9)] w(11) by (simp add: only_obj_def)
  moreover have "same_peer a a'" using seq(3) w(3) by (simp add: same_peer_def)
  moreover have "map_of (os_names os') nm = Some (os_next os)"
    using write_all_names [OF wr(1)] w(4,10) by simp
  ultimately show ?thesis
    using that [OF pub wr(2-4) _ _ _ _ seq(2)] geo w(7,9) wr(5) fits len by simp
qed

text \<open>
  C10: end-to-end delivery through shared memory. A process publishes any run of messages
  (fewer than 2 ^ 63) on a HOST topic that uses shared memory, that has a remote subscriber
  of the type and that it has not published on before; the first, below 4 GiB, sizes the
  ring in whole pages, the others fit, and each parses as what was serialised. It then
  sends exactly one multipart per message, whose data frame is the descriptor of its slot
  (segment name, index, sequence number, size) and not the payload. A process on the same
  host that has subscribed, has not opened the segment and has nothing queued, and that
  dispatches when all of them have arrived, calls its handlers with exactly the newest four
  messages, complete and in order, also when so many arrived that its queue dropped the
  oldest: the slots of the older messages have been reused, and those are dropped, never
  mixed up.
\<close>

theorem shm_delivery:
  assumes "via_shm pub" "hasTopic_type (p_topic pub) (m_type pub) (mr_rsubs a)"
    and "map_of (mr_wrings a) (p_topic pub) = None" "fits_pages P bytes (m_type pub) m0 ms"
    and "list_all (\<lambda>c. c \<noteq> CHR 0x00) (mr_uuid a)" "mr_remoteq b = []" "\<not> mr_exit b"
    and "map_of (mr_rrings b) (makeShmName hash (p_topic pub) (mr_uuid a)) = None"
    and "snd (localHandlers (p_topic pub) b)"
  shows "\<exists>a' os' frs b'. publish_seq P hash sys_ok pub (m0 # ms) a os = Inr (a', os', map ESend frs) \<and>
    frs = map (\<lambda>j. shm_frames pub (mr_addr a) (makeShmName hash (p_topic pub) (mr_uuid a))
      (handle_for 4 (of_nat j) (bytes ((m0 # ms) ! j)))) [0..<length (m0 # ms)] \<and>
    remoteDispatch P sys_ok (\<lambda>_. (os', os')) (fold receiveMessage frs b) = Inr (b',
      concat (map (\<lambda>m. calls m (p_topic pub) (m_type pub) (all_handlers (fst (localHandlers (p_topic pub) b))))
        (newest 4 (m0 # ms))))"
proof -
  let ?t = "p_topic pub" and ?y = "m_type pub"
  define ds where "ds = map bytes (m0 # ms)"
  define nm where "nm = makeShmName hash (p_topic pub) (mr_uuid a)"
  obtain a' os' r sls where p: "publish_seq P hash sys_ok pub (m0 # ms) a os =
       Inr (a', os', map ESend (map (shm_frames pub (mr_addr a) nm) (map (\<lambda>c. handle_for 4 (of_nat c) (ds ! c)) [0..<length ds])))"
    "ring_at r os' (os_next os) sls" "length sls = 4" "hist ds sls" "r_slot_count r = 4" "r_base r = Some (os_next os)"
    "\<forall>d \<in> set ds. length d \<le> unat (r_slot_size r)" "map_of (os_names os') nm = Some (os_next os)"
    "map_of (mr_wrings a') (p_topic pub) = Some r" "same_peer a a'" "only_obj (os_next os) os os'" "length ds < 2 ^ 63"
    by (rule publish_fresh [OF assms(1-4) ds_def nm_def, of os])
  define frs where "frs = map (shm_frames pub (mr_addr a) nm) (map (\<lambda>c. handle_for 4 (of_nat c) (ds ! c)) [0..<length ds])"
  let ?b = "fold receiveMessage frs b"
  let ?bq = "?b\<lparr>mr_remoteq := []\<rparr>"
  have lh: "localHandlers ?t ?bq = localHandlers ?t b" by (rule callbacks_cong) simp
  let ?js = "newest kMsgQueueLimit [0..<length ds]"
  have q: "mr_remoteq ?b = map (\<lambda>j. shm_msg pub (mr_addr a) nm (handle_for (r_slot_count r) (of_nat j) (ds ! j))) ?js"
    using receive_all_shm [OF assms(6), of pub "mr_addr a" nm "map (\<lambda>c. handle_for 4 (of_nat c) (ds ! c)) [0..<length ds]"]
    unfolding frs_def p(5) by (simp add: newest_map comp_def)
  note name = shm_name_ok [OF assms(5), of hash ?t, folded nm_def]
  have att: "attached nm (os_next os) ?bq" using assms(8) by (simp add: attached_def nm_def)
  have loc: "snd (localHandlers ?t ?bq)" unfolding lh by (rule assms(9))
  have sub: "set ?js \<subseteq> {0..<length ds}" unfolding newest_upt by auto
  obtain b' where d: "dispatch_all P sys_ok (\<lambda>_. (os', os')) (mr_remoteq ?b) ?bq = Inr (b',
      concat (map (\<lambda>j. if length ds \<le> j + 4 then calls (fst (pr_parse P ?y (ds ! j))) ?t ?y
        (all_handlers (fst (localHandlers ?t b))) else []) ?js))"
    using dispatch_all_ring [OF p(2,4,8,12,7) name p(6) sub att loc, of P "mr_addr a"] unfolding q lh p(3) ..
  have "newest 4 ds = map bytes (newest 4 (m0 # ms))" unfolding ds_def by (rule newest_map)
  moreover have "fst (pr_parse P ?y (bytes m)) = m" if "m \<in> set (newest 4 (m0 # ms))" for m
    using assms(4) that unfolding newest_def fits_pages_def by (meson in_set_dropD)
  moreover have lim: "4 \<le> kMsgQueueLimit" by (simp add: kMsgQueueLimit_def)
  ultimately have "remoteDispatch P sys_ok (\<lambda>_. (os', os')) ?b = Inr (b',
      concat (map (\<lambda>m. calls m ?t ?y (all_handlers (fst (localHandlers ?t b)))) (newest 4 (m0 # ms))))"
    using assms(7) d
    unfolding newest_index [OF lim, of ds "\<lambda>d. calls (fst (pr_parse P ?y d)) ?t ?y (all_handlers (fst (localHandlers ?t b)))"]
    by (simp add: remoteDispatch_def cong: map_cong)
  moreover have "frs = map (\<lambda>j. shm_frames pub (mr_addr a) nm (handle_for 4 (of_nat j) (bytes ((m0 # ms) ! j)))) [0..<length (m0 # ms)]"
    by (simp add: frs_def ds_def nth_Cons' del: upt_Suc)
  ultimately show ?thesis using p(1) unfolding frs_def [symmetric] nm_def [symmetric]
    by (intro exI [of _ a'] exI [of _ os'] exI [of _ frs] exI [of _ b']) simp
qed

theorem shm_delivery_witness:
  "\<exists>a' os' frs b'. publish_seq text_proto (\<lambda>_. 7) sys_ok (chat_pub True) [''a'', ''b'', ''c'', ''d'', ''e''] (talker True) no_shm =
       Inr (a', os', map ESend frs) \<and>
     frs = map (\<lambda>j. shm_frames (chat_pub True) (mr_addr (talker True)) (makeShmName (\<lambda>_. 7) ''t'' ''uA'')
       (handle_for 4 (of_nat j) ([''a'', ''b'', ''c'', ''d'', ''e''] ! j))) [0..<length [''a'', ''b'', ''c'', ''d'', ''e'']] \<and>
     remoteDispatch text_proto sys_ok (\<lambda>_. (os', os')) (fold receiveMessage frs hearer) =
       Inr (b', concat (map (\<lambda>m. [ECallback ''h2'' m ''t'' ''T'', ECallback ''h3'' m ''t'' ''T'']) [''b'', ''c'', ''d'', ''e'']))"
proof -
  have 1: "via_shm (chat_pub True)" "mr_wrings (talker True) = []" "mr_uuid (talker True) = ''uA''"
    by (simp_all add: via_shm_def talker_def new_msg_rt_def)
  have 2: "snd (localHandlers ''t'' hearer)"
    by (simp add: local_flag hearer_def addHandler_def Let_def)
  have "newest 4 [''a'', ''b'', ''c'', ''d'', ''e''] = [''b'', ''c'', ''d'', ''e'']"
    by (simp add: newest_def)
  then show ?thesis
    using shm_delivery [OF 1(1), of "talker True" text_proto id "''a''" "[''b'', ''c'', ''d'', ''e'']" hearer "\<lambda>_. 7" no_shm]
      1 2 talker_knows [of True]
    by (simp add: text_proto_def fits_pages_def page_up_def hearer_calls del: upt_Suc)
qed


section \<open>A segment that outlives its publisher\<close>

lemma unadvertise_peer:
  assumes "mr_unadvertise t n rt os = (rt', os', out, ok)" "map_of (mr_wrings rt) t = Some r"
  shows "mr_rsubs rt' = mr_rsubs rt" "mr_uuid rt' = mr_uuid rt" "mr_addr rt' = mr_addr rt"
    "map_of (mr_wrings rt') t = None" "os_objs os' = os_objs os" "os_next os' = os_next os"
proof -
  obtain d es b where un: "disc_unadvertise msg_class t n (mr_disc rt) = (d, es, b)"
    by (cases "disc_unadvertise msg_class t n (mr_disc rt)")
  then obtain msgs where es: "es = map Multicast msgs"
    by (auto simp: disc_unadvertise_def sendMsg_def Let_def split: if_splits option.splits
        intro: that [of "[]"] that [of "[_]"])
  have "rt' = rt\<lparr>mr_wrings := om_erase t (mr_wrings rt), mr_disc := d\<rparr>" "os' = destroy_ring r os"
    using assms un es by (auto simp: mr_unadvertise_def removeWriterRing_def with_disc_def disc_events_multicast)
  then show "mr_rsubs rt' = mr_rsubs rt" "mr_uuid rt' = mr_uuid rt" "mr_addr rt' = mr_addr rt"
    "map_of (mr_wrings rt') t = None" "os_objs os' = os_objs os" "os_next os' = os_next os"
    by (simp_all add: destroy_ring_def shm_unlink_def)
qed

lemma receive_one:
  "mr_remoteq b = [] \<Longrightarrow> mr_remoteq (receiveMessage (shm_frames pub addr nm h) b) = [shm_msg pub addr nm h]"
  using receive_all_shm [of b pub addr nm "[h]"] by (simp add: newest_def kMsgQueueLimit_def)

lemma dispatch_one:
  assumes "mr_remoteq b = []" "\<not> mr_exit b" "list_all (\<lambda>c. c \<noteq> CHR 0x00) nm" "length nm \<le> 62"
    and "snd (localHandlers (p_topic pub) b)" "readerRingFor sys_ok nm os (receiveMessage (shm_frames pub addr nm h) b\<lparr>mr_remoteq := []\<rparr>) = (b1, Some rd)"
    and "read_ring h rd os = Inr (Some bytes)"
  shows "remoteDispatch P sys_ok (\<lambda>_. (os, os)) (receiveMessage (shm_frames pub addr nm h) b) =
    Inr (b1, calls (fst (pr_parse P (m_type pub) bytes)) (p_topic pub) (m_type pub)
      (all_handlers (fst (localHandlers (p_topic pub) b))))"
proof -
  let ?bq = "receiveMessage (shm_frames pub addr nm h) b\<lparr>mr_remoteq := []\<rparr>"
  have lh: "localHandlers (p_topic pub) ?bq = localHandlers (p_topic pub) b" by (rule callbacks_cong) simp
  have desc: "desc_of_bytes (rm_data (shm_msg pub addr nm h)) = Some (desc_for nm h)"
    using desc_roundtrip [of "desc_for nm h"] assms(3,4) by (simp add: desc_for_def)
  have ring: "readerRingFor sys_ok (sd_name (desc_for nm h)) os ?bq = (b1, Some rd)"
    using assms(6) by (simp add: desc_for_def)
  have read: "read_ring \<lparr>h_index = sd_index (desc_for nm h), h_seq = sd_seq (desc_for nm h),
      h_size = sd_size (desc_for nm h)\<rparr> rd os = Inr (Some bytes)"
    unfolding desc_handle by (rule assms(7))
  show ?thesis
    using dispatch_shm [OF _ desc _ ring read, of P] receive_one [OF assms(1), of pub addr nm h] assms(2,5) lh
    by (simp add: remoteDispatch_def)
qed

text \<open>
  The first message on a topic: one descriptor, and whoever opens the segment reads the
  message under it for as long as the segment's object is left alone.
\<close>

lemma publish_one:
  assumes "via_shm pub" "hasTopic_type (p_topic pub) (m_type pub) (mr_rsubs a)"
    and "map_of (mr_wrings a) (p_topic pub) = None" "fits_pages P bytes (m_type pub) m []"
    and nm: "nm = makeShmName hash (p_topic pub) (mr_uuid a)"
  obtains a' os' r rd where
    "publish_seq P hash sys_ok pub [m] a os = Inr (a', os', [ESend (shm_frames pub (mr_addr a) nm (handle_for 4 0 (bytes m)))])"
    "map_of (mr_wrings a') (p_topic pub) = Some r" "same_peer a a'" "only_obj (os_next os) os os'"
    "openAsReader True True True (new_ring nm 0 kDefaultSlotCount) os' = (rd, True)"
    "\<forall>os''. map_of (os_objs os'') (os_next os) = map_of (os_objs os') (os_next os) \<longrightarrow>
       read_ring (handle_for 4 0 (bytes m)) rd os'' = Inr (Some (bytes m))"
proof -
  have ds: "[bytes m] = map bytes [m]" by simp
  obtain a' os' r sls where p: "publish_seq P hash sys_ok pub [m] a os =
       Inr (a', os', map ESend (map (shm_frames pub (mr_addr a) nm) (map (\<lambda>c. handle_for 4 (of_nat c) ([bytes m] ! c)) [0..<length [bytes m]])))"
    "ring_at r os' (os_next os) sls" "length sls = 4" "hist [bytes m] sls" "r_slot_count r = 4" "r_base r = Some (os_next os)"
    "\<forall>d \<in> set [bytes m]. length d \<le> unat (r_slot_size r)" "map_of (os_names os') nm = Some (os_next os)"
    "map_of (mr_wrings a') (p_topic pub) = Some r" "same_peer a a'" "only_obj (os_next os) os os'" "length [bytes m] < 2 ^ 63"
    by (rule publish_fresh [OF assms(1-4) ds nm, of os])
  obtain rd where o: "openAsReader True True True (new_ring nm 0 kDefaultSlotCount) os' = (rd, True)" "r_base rd = Some (os_next os)"
    using open_at [OF p(2,8)] by blast
  have read: "read_ring (handle_for 4 0 (bytes m)) rd os'' = Inr (Some (bytes m))"
    if "map_of (os_objs os'') (os_next os) = map_of (os_objs os') (os_next os)" for os''
  proof -
    have "mapped r os'' = mapped r os'" using that p(6) by (simp add: mapped_def)
    then have "ring_at r os'' (os_next os) sls" using p(2) unfolding ring_at_def by metis
    from read_history [OF this p(4), of rd 0] show ?thesis using p(3,5,6,7) o(2) by simp
  qed
  have "publish_seq P hash sys_ok pub [m] a os = Inr (a', os', [ESend (shm_frames pub (mr_addr a) nm (handle_for 4 0 (bytes m)))])"
    using p(1) by simp
  then show thesis using that p(9-11) o(1) read by blast
qed

text \<open>
  C36: a reader keeps the first segment it opened under a name for ever. A process
  publishes m1 on a shared-memory topic, and a subscriber on the host gets it; the topic
  is withdrawn, which unlinks the segment; the process publishes m2, of the same encoded
  length, on the same topic, in a new segment under the same name. The subscriber, still
  attached to the old one, finds the expected sequence number there and calls its handlers
  with m1 once more instead of m2.
\<close>

theorem stale_segment_replays:
  assumes "via_shm pub" "hasTopic_type (p_topic pub) (m_type pub) (mr_rsubs a)"
    and "map_of (mr_wrings a) (p_topic pub) = None" "fits_pages P bytes (m_type pub) m1 []"
    and "fits_pages P bytes (m_type pub) m2 []" "length (bytes m2) = length (bytes m1)"
    and "list_all (\<lambda>c. c \<noteq> CHR 0x00) (mr_uuid a)" "mr_remoteq b = []" "\<not> mr_exit b"
    and "map_of (mr_rrings b) (makeShmName hash (p_topic pub) (mr_uuid a)) = None"
    and "snd (localHandlers (p_topic pub) b)"
  shows "\<exists>a1 os1 f1 b1 a2 os2 out ok a3 os3 f2 b2.
    publish_seq P hash sys_ok pub [m1] a os = Inr (a1, os1, [ESend f1]) \<and>
    remoteDispatch P sys_ok (\<lambda>_. (os1, os1)) (receiveMessage f1 b) = Inr (b1, calls m1 (p_topic pub) (m_type pub)
      (all_handlers (fst (localHandlers (p_topic pub) b)))) \<and>
    mr_unadvertise (p_topic pub) n a1 os1 = (a2, os2, out, ok) \<and>
    publish_seq P hash sys_ok pub [m2] a2 os2 = Inr (a3, os3, [ESend f2]) \<and>
    remoteDispatch P sys_ok (\<lambda>_. (os3, os3)) (receiveMessage f2 b1) = Inr (b2, calls m1 (p_topic pub) (m_type pub)
      (all_handlers (fst (localHandlers (p_topic pub) b))))"
proof -
  let ?t = "p_topic pub" and ?y = "m_type pub" and ?h = "handle_for 4 0 (bytes m1)"
  define nm where "nm = makeShmName hash ?t (mr_uuid a)"
  note name = shm_name_ok [OF assms(7), of hash ?t, folded nm_def]
  obtain a1 os1 r rd where p: "publish_seq P hash sys_ok pub [m1] a os = Inr (a1, os1, [ESend (shm_frames pub (mr_addr a) nm ?h)])"
    "map_of (mr_wrings a1) ?t = Some r" "same_peer a a1" "only_obj (os_next os) os os1"
    "openAsReader True True True (new_ring nm 0 kDefaultSlotCount) os1 = (rd, True)"
    and read: "\<forall>os'. map_of (os_objs os') (os_next os) = map_of (os_objs os1) (os_next os) \<longrightarrow>
       read_ring ?h rd os' = Inr (Some (bytes m1))"
    by (rule publish_one [OF assms(1-4) nm_def, of os])
  obtain a2 os2 out ok where u: "mr_unadvertise ?t n a1 os1 = (a2, os2, out, ok)"
    by (cases "mr_unadvertise ?t n a1 os1")
  note un = unadvertise_peer [OF u p(2)]
  have subs2: "hasTopic_type ?t ?y (mr_rsubs a2)" and nm2: "nm = makeShmName hash ?t (mr_uuid a2)"
    using assms(2) un(1,2) p(3) by (simp_all add: same_peer_def nm_def)
  have same: "handle_for 4 0 (bytes m2) = ?h" by (simp add: handle_for_def assms(6))
  obtain a3 os3 where q: "publish_seq P hash sys_ok pub [m2] a2 os2 = Inr (a3, os3, [ESend (shm_frames pub (mr_addr a2) nm ?h)])"
    "only_obj (os_next os2) os2 os3"
    using publish_one [OF assms(1) subs2 un(4) assms(5) nm2, of os2] unfolding same by metis
  have "os_next os2 \<noteq> os_next os" using p(4) un(6) by (simp add: only_obj_def)
  then have old: "map_of (os_objs os3) (os_next os) = map_of (os_objs os1) (os_next os)"
    using q(2) un(5) by (simp add: only_obj_def)
  let ?b = "receiveMessage (shm_frames pub (mr_addr a) nm ?h) b\<lparr>mr_remoteq := []\<rparr>"
  let ?b1 = "?b\<lparr>mr_rrings := om_put nm rd (mr_rrings b)\<rparr>"
  have ring1: "readerRingFor sys_ok nm os1 ?b = (?b1, Some rd)"
    using assms(10) p(5) by (simp add: readerRingFor_def sys_ok_def nm_def)
  have d1: "remoteDispatch P sys_ok (\<lambda>_. (os1, os1)) (receiveMessage (shm_frames pub (mr_addr a) nm ?h) b) =
      Inr (?b1, calls m1 ?t ?y (all_handlers (fst (localHandlers ?t b))))"
    using dispatch_one [OF assms(8,9) name assms(11) ring1 read [rule_format, OF refl], of P] assms(4) by (simp add: fits_pages_def)
  have lh1: "localHandlers ?t ?b1 = localHandlers ?t b" by (rule callbacks_cong) simp
  have b1: "mr_remoteq ?b1 = []" "\<not> mr_exit ?b1" "snd (localHandlers ?t ?b1)"
    using assms(9,11) unfolding lh1 by simp_all
  let ?b2 = "receiveMessage (shm_frames pub (mr_addr a2) nm ?h) ?b1\<lparr>mr_remoteq := []\<rparr>"
  have ring2: "readerRingFor sys_ok nm os3 ?b2 = (?b2, Some rd)" by (simp add: readerRingFor_def)
  have d2: "remoteDispatch P sys_ok (\<lambda>_. (os3, os3)) (receiveMessage (shm_frames pub (mr_addr a2) nm ?h) ?b1) =
      Inr (?b2, calls m1 ?t ?y (all_handlers (fst (localHandlers ?t b))))"
    using dispatch_one [OF b1(1,2) name b1(3) ring2 read [rule_format, OF old], of P] assms(4) unfolding lh1
    by (simp add: fits_pages_def)
  show ?thesis using p(1) q(1) d1 d2 u by blast
qed


theorem stale_segment_replays_witness:
  "\<exists>a1 os1 f1 b1 a2 os2 out ok a3 os3 f2 b2.
    publish_seq text_proto (\<lambda>_. 7) sys_ok (chat_pub True) [''old''] (talker True) no_shm = Inr (a1, os1, [ESend f1]) \<and>
    remoteDispatch text_proto sys_ok (\<lambda>_. (os1, os1)) (receiveMessage f1 hearer) =
      Inr (b1, [ECallback ''h2'' ''old'' ''t'' ''T'', ECallback ''h3'' ''old'' ''t'' ''T'']) \<and>
    mr_unadvertise ''t'' ''n1'' a1 os1 = (a2, os2, out, ok) \<and>
    publish_seq text_proto (\<lambda>_. 7) sys_ok (chat_pub True) [''new''] a2 os2 = Inr (a3, os3, [ESend f2]) \<and>
    remoteDispatch text_proto sys_ok (\<lambda>_. (os3, os3)) (receiveMessage f2 b1) =
      Inr (b2, [ECallback ''h2'' ''old'' ''t'' ''T'', ECallback ''h3'' ''old'' ''t'' ''T''])"
proof -
  have f: "fits_pages text_proto id ''T'' m []" if "length m \<le> 4" for m
    using that page_up_ge [of "length m"] page_up_le [of "length m"]
    by (simp add: fits_pages_def text_proto_def kMsgQueueLimit_def)
  have 1: "via_shm (chat_pub True)" "mr_wrings (talker True) = []" "mr_uuid (talker True) = ''uA''"
    by (simp_all add: via_shm_def talker_def new_msg_rt_def)
  have 2: "snd (localHandlers ''t'' hearer)"
    by (simp add: local_flag hearer_def addHandler_def Let_def)
  show ?thesis
    using stale_segment_replays [OF 1(1), of "talker True" text_proto id "''old''" "''new''" hearer "\<lambda>_. 7" no_shm "''n1''"]
      1 2 talker_knows [of True] f [of "''old''"] f [of "''new''"]
    by (simp only: chat_pub_simps map_of.simps(1) hearer_simps hearer_calls) simp
qed

end
