(* ===== verification/MsgHandshake.thy ===== *)
theory MsgHandshake
  imports MsgShm
begin

text \<open>
  How a publisher learns of a subscriber in another process, and how it forgets one: the
  ADVERTISE, the subscriber's socket commands, its NEW_CONNECTION, the BYE.
\<close>

section \<open>The subscriber's side\<close>

definition registration :: "msg_pub \<Rightarrow> string \<Rightarrow> string \<Rightarrow> msg_pub" where
  "registration pub u n = pub\<lparr>p_proc := u, m_ctrl := p_proc pub, p_node := n\<rparr>"

lemma registration_simps [simp]:
  "p_topic (registration pub u n) = p_topic pub" "p_proc (registration pub u n) = u"
  "p_node (registration pub u n) = n" "m_ctrl (registration pub u n) = p_proc pub"
  "m_type (registration pub u n) = m_type pub" "p_addr (registration pub u n) = p_addr pub"
  "msg_pub_wf (registration pub u n) \<longleftrightarrow> msg_pub_wf pub"
  by (simp_all add: registration_def msg_pub_wf_def)

lemma connected_cmds:
  assumes "hasSubscriber (p_topic pub) (mr_local rt)" "p_proc pub \<noteq> mr_uuid rt" "mr_cmds rt = []"
  shows "mr_cmds (onPublisherConnected pub rt) =
      (if hasPublisher (p_addr pub) (mr_rpubs rt) then []
       else [\<lparr>sc_type = CmdConnect, sc_value = p_addr pub, sc_regs = []\<rparr>]) @
      [\<lparr>sc_type = CmdSubscribe, sc_value = p_topic pub,
        sc_regs = map (registration pub (mr_uuid rt)) (getNodeUuids (p_topic pub) (m_type pub) (mr_local rt))\<rparr>]"
    and "mr_local (onPublisherConnected pub rt) = mr_local rt" "mr_disc (onPublisherConnected pub rt) = mr_disc rt"
    and "mr_uuid (onPublisherConnected pub rt) = mr_uuid rt"
    and "mr_rpubs (onPublisherConnected pub rt) = fst (addPublisher pub (mr_rpubs rt))"
  using assms by (auto simp: onPublisherConnected_def Let_def registration_def)

lemma connected_frame:
  "mr_local (onPublisherConnected pub rt) = mr_local rt" "mr_remoteq (onPublisherConnected pub rt) = mr_remoteq rt"
  "mr_exit (onPublisherConnected pub rt) = mr_exit rt"
  by (simp_all add: onPublisherConnected_def Let_def enqueueSubscriberCommand_def)

lemma register_events:
  "disc_events (concat (map (\<lambda>x. registerNode (f x) d) xs)) rt =
     (rt, map (\<lambda>x. EMulticast (fillDiscovery_msg (f x) (header NEW_CONNECTION d))) xs)"
proof -
  have "concat (map (\<lambda>x. registerNode (f x) d) xs) =
      map Multicast (map (\<lambda>x. fillDiscovery_msg (f x) (header NEW_CONNECTION d)) xs)"
    by (induction xs) (simp_all add: registerNode_def sendMsg_simps(4))
  then show ?thesis
    using disc_events_multicast [of "map (\<lambda>x. fillDiscovery_msg (f x) (header NEW_CONNECTION d)) xs" rt]
    by (simp add: comp_def)
qed

definition hello_to :: "msg_pub \<Rightarrow> 'm msg_rt \<Rightarrow> string \<Rightarrow> disc_msg" where
  "hello_to pub rt n = fillDiscovery_msg (registration pub (mr_uuid rt) n) (header NEW_CONNECTION (mr_disc rt))"

lemma apply_connected:
  assumes "hasSubscriber (p_topic pub) (mr_local rt)" "p_proc pub \<noteq> mr_uuid rt" "mr_cmds rt = []"
  shows "snd (applySubscriberCommands (\<lambda>_. False) (onPublisherConnected pub rt)) =
      (if hasPublisher (p_addr pub) (mr_rpubs rt) then [] else [EConnect (p_addr pub)]) @
      ESubscribe (p_topic pub) #
      map (\<lambda>n. EMulticast (hello_to pub rt n)) (getNodeUuids (p_topic pub) (m_type pub) (mr_local rt))"
proof -
  note c = connected_cmds [OF assms]
  show ?thesis
    using assms(1) by (simp add: applySubscriberCommands_def apply_cmd_def c register_events comp_def hello_to_def)
qed

section \<open>The publisher's side\<close>

lemma hello_received:
  assumes "msg_pub_wf pub" "p_proc pub = mr_uuid a" "d_proc (mr_disc b) = mr_uuid b"
    and "mr_uuid b \<noteq> d_proc (mr_disc a)" "d_reg (mr_disc a)"
  shows "mr_discovery_msg ip (hello_to pub b n) now a =
    (a\<lparr>mr_disc := seen_by (hello_to pub b n) now (mr_disc a),
       mr_rsubs := fst (addPublisher ((registration pub (mr_uuid b) n)\<lparr>p_pname := d_pname (mr_disc b)\<rparr>) (mr_rsubs a))\<rparr>, [])"
proof -
  let ?m = "hello_to pub b n" and ?r = "registration pub (mr_uuid b) n"
  have u: "dm_process_uuid ?m = mr_uuid b" "dm_type ?m = NEW_CONNECTION" "dm_process_name ?m = d_pname (mr_disc b)"
    using assms(3) by (simp_all add: hello_to_def)
  have set: "setFromDiscovery_msg ?m new_msg_pub = ?r\<lparr>p_pname := d_pname (mr_disc b)\<rparr>"
    using msg_roundtrip [of ?r "header NEW_CONNECTION (mr_disc b)" new_msg_pub] assms(1,3)
    by (simp add: hello_to_def)
  have "dispatch msg_class ip ?m now (mr_disc a) =
      (seen_by ?m now (mr_disc a), [Registered (?r\<lparr>p_pname := d_pname (mr_disc b)\<rparr>)])"
    using u set assms(4,5) by (simp add: dispatch_def msg_class_def Let_def seen_by_def)
  then show ?thesis
    using assms(2) by (simp add: mr_discovery_msg_def with_disc_def disc_events_def disc_event_def onSubscriberRegistered_def)
qed


lemma hello_answered:
  assumes "msg_pub_wf pub" "p_proc pub = mr_uuid a" "d_proc (mr_disc b) = mr_uuid b" "mr_uuid b \<noteq> d_proc (mr_disc a)"
    and "d_reg (mr_disc a)" "rt_ok a" "\<forall>q \<in> ts_view (mr_rsubs a). p_proc q \<noteq> mr_uuid b"
  shows "hasTopic_type (p_topic pub) (m_type pub) (mr_rsubs (fst (mr_discovery_msg ip (hello_to pub b n) now a)))"
proof -
  let ?r = "(registration pub (mr_uuid b) n)\<lparr>p_pname := d_pname (mr_disc b)\<rparr>"
  have wf: "ts_wf (mr_rsubs a)" using assms(6) by (simp add: rt_ok_def)
  have "\<not> (\<exists>p \<in> ts_view (mr_rsubs a). pub_key p = pub_key ?r)"
    using assms(7) by (auto simp: pub_key_def registration_def)
  then have "?r \<in> ts_view (fst (addPublisher ?r (mr_rsubs a)))" using ts_view_add [OF wf, of ?r] by auto
  moreover have "p_topic ?r = p_topic pub" "m_type ?r = m_type pub" by (simp_all add: registration_def)
  ultimately have "hasTopic_type (p_topic pub) (m_type pub) (fst (addPublisher ?r (mr_rsubs a)))"
    using hasTopic_type_iff [OF ts_wf_add [OF wf, of ?r], of "p_topic pub" "m_type pub"] by blast
  then show ?thesis by (simp add: hello_received [OF assms(1-5), of ip n now])
qed

lemma handshake_core:
  assumes "rt_ok a" "rt_ok b" "d_proc (mr_disc a) = mr_uuid a" "d_proc (mr_disc b) = mr_uuid b"
    and "mr_uuid a \<noteq> mr_uuid b" "d_reg (mr_disc a)" "d_conn (mr_disc b)" "mr_cmds b = []"
    and "msg_pub_wf pub" "p_proc pub = mr_uuid a"
    and "opt_scope (m_opts pub) = SCOPE_ALL \<or> opt_scope (m_opts pub) = SCOPE_HOST \<and> is_sender_local ip (mr_disc b)"
    and "\<not> (\<exists>q \<in> ts_view (d_pubs (mr_disc b)). pub_key q = pub_key pub)"
    and "hlook (mr_local b) (p_topic pub, n, k) = Some h" "sh_type h = m_type pub"
    and "\<forall>q \<in> ts_view (mr_rsubs a). p_proc q \<noteq> mr_uuid b"
  shows "\<exists>b1 b2 out. mr_discovery_msg ip (fillDiscovery_msg pub (header ADVERTISE (mr_disc a))) now b = (b1, []) \<and>
    applySubscriberCommands (\<lambda>_. False) b1 = (b2, out) \<and>
    (\<exists>hellos. hellos \<noteq> [] \<and>
       out = (if hasPublisher (p_addr pub) (mr_rpubs b) then [] else [EConnect (p_addr pub)]) @
         ESubscribe (p_topic pub) # map EMulticast hellos \<and>
       (\<forall>m \<in> set hellos.
          hasTopic_type (p_topic pub) (m_type pub) (mr_rsubs (fst (mr_discovery_msg ip' m now' a))))) \<and>
    rt_ok b2 \<and> mr_local b2 = mr_local b \<and> mr_remoteq b2 = mr_remoteq b \<and> mr_exit b2 = mr_exit b"
proof -
  let ?m = "fillDiscovery_msg pub (header ADVERTISE (mr_disc a))" and ?t = "p_topic pub" and ?y = "m_type pub"
  define q where "q = pub\<lparr>p_pname := d_pname (mr_disc a)\<rparr>"
  have q: "p_topic q = ?t" "p_proc q = mr_uuid a" "m_type q = ?y" "p_addr q = p_addr pub" "msg_pub_wf q"
      "pub_key q = pub_key pub" "opt_scope (m_opts q) = opt_scope (m_opts pub)"
    using assms(9,10) by (simp_all add: q_def msg_pub_wf_def pub_key_def)
  have wfb: "ts_wf (d_pubs (mr_disc b))" "hs_wf sh_uuid (mr_local b)" and wfa: "ts_wf (mr_rsubs a)"
    using assms(1,2) by (simp_all add: rt_ok_def disc_ok_def)
  let ?d = "(seen_by ?m now (mr_disc b))\<lparr>d_pubs := fst (addPublisher q (d_pubs (mr_disc b)))\<rparr>"
  let ?b = "b\<lparr>mr_disc := ?d\<rparr>"
  have dispatched: "dispatch msg_class ip ?m now (mr_disc b) = (?d, [Connected q])"
    unfolding q_def by (rule advert_dispatched(1)) (use wfb assms(3-5,7,9-12) in simp_all)
  then have step: "mr_discovery_msg ip ?m now b = (onPublisherConnected q ?b, [])"
    by (simp add: mr_discovery_msg_def with_disc_def disc_events_def disc_event_def)
  have sub: "hasSubscriber (p_topic q) (mr_local ?b)" using hasSubscriber_iff [OF wfb(2), of ?t] assms(13) q(1) by auto
  have other: "p_proc q \<noteq> mr_uuid ?b" "mr_cmds ?b = []" using q(2) assms(5,8) by simp_all
  note out = apply_connected [OF sub other, unfolded q]
  obtain b2 where b2: "applySubscriberCommands (\<lambda>_. False) (onPublisherConnected q ?b) = (b2,
      snd (applySubscriberCommands (\<lambda>_. False) (onPublisherConnected q ?b)))"
    by (cases "applySubscriberCommands (\<lambda>_. False) (onPublisherConnected q ?b)") simp
  have node: "sh_node h \<in> set (getNodeUuids ?t ?y (mr_local ?b))"
    using getNodeUuids_set [OF wfb(2), of ?t ?y] assms(13,14) by auto
  have answered: "hasTopic_type ?t ?y (mr_rsubs (fst (mr_discovery_msg ip' (hello_to q ?b n') now' a)))" for n'
    using hello_answered [OF q(5,2), of ?b ip' n' now'] assms(1,3-6,15) by (simp add: q)
  let ?out = "snd (applySubscriberCommands (\<lambda>_. False) (onPublisherConnected q ?b))"
  let ?hellos = "map (hello_to q ?b) (getNodeUuids ?t ?y (mr_local ?b))"
  have "?hellos \<noteq> []" "\<forall>m \<in> set ?hellos. hasTopic_type ?t ?y (mr_rsubs (fst (mr_discovery_msg ip' m now' a)))"
    using node answered by auto
  moreover have "?out = (if hasPublisher (p_addr pub) (mr_rpubs b) then [] else [EConnect (p_addr pub)]) @
      ESubscribe ?t # map EMulticast ?hellos"
    unfolding out by (simp add: comp_def)
  moreover have "rt_ok b2"
  proof -
    have "disc_ok msg_pub_wf ?d"
      using mc.ok_dispatch [of "mr_disc b" ip ?m now] dispatched assms(2) by (simp add: rt_ok_def)
    then have "rt_ok ?b" using assms(2) by (simp add: rt_ok_def)
    then have "rt_ok (onPublisherConnected q ?b)" by (rule rt_ok_connected)
    then show ?thesis using b2 by (auto simp: applySubscriberCommands_def rt_ok_def)
  qed
  moreover have "mr_local b2 = mr_local b" "mr_remoteq b2 = mr_remoteq b" "mr_exit b2 = mr_exit b"
    using b2 by (auto simp: applySubscriberCommands_def connected_frame)
  ultimately show ?thesis using step b2 by blast
qed

text \<open>
  The subscription handshake. Process b has a handler for a topic and type that
  process a advertises, in scope and not known to b before. When b gets the ADVERTISE and
  its receive thread runs, b connects its socket to the publisher's address unless it
  already is, subscribes to the topic, and multicasts NEW_CONNECTION messages; any one of
  them that a receives makes a know that it has a subscriber, so that it sends.
\<close>

theorem subscription_handshake:
  assumes "rt_ok a" "rt_ok b" "d_proc (mr_disc a) = mr_uuid a" "d_proc (mr_disc b) = mr_uuid b"
    and "mr_uuid a \<noteq> mr_uuid b" "d_reg (mr_disc a)" "d_conn (mr_disc b)" "mr_cmds b = []"
    and "msg_pub_wf pub" "p_proc pub = mr_uuid a"
    and "opt_scope (m_opts pub) = SCOPE_ALL \<or> opt_scope (m_opts pub) = SCOPE_HOST \<and> is_sender_local ip (mr_disc b)"
    and "\<not> (\<exists>q \<in> ts_view (d_pubs (mr_disc b)). pub_key q = pub_key pub)"
    and "hlook (mr_local b) (p_topic pub, n, k) = Some h" "sh_type h = m_type pub"
    and "\<forall>q \<in> ts_view (mr_rsubs a). p_proc q \<noteq> mr_uuid b"
  shows "\<exists>b1 b2 out. mr_discovery_msg ip (fillDiscovery_msg pub (header ADVERTISE (mr_disc a))) now b = (b1, []) \<and>
    applySubscriberCommands (\<lambda>_. False) b1 = (b2, out) \<and>
    (EConnect (p_addr pub) \<in> set out \<longleftrightarrow> \<not> hasPublisher (p_addr pub) (mr_rpubs b)) \<and>
    ESubscribe (p_topic pub) \<in> set out \<and> (\<exists>m. EMulticast m \<in> set out) \<and>
    (\<forall>m. EMulticast m \<in> set out \<longrightarrow>
       hasSubscribers (p_topic pub) (m_type pub) (fst (mr_discovery_msg ip' m now' a)))"
proof -
  have up: "hasTopic_type t y (mr_rsubs x) \<Longrightarrow> hasSubscribers t y x" for t y and x :: "'a msg_rt"
    by (simp add: hasSubscribers_def)
  obtain b1 b2 out hellos where step: "mr_discovery_msg ip (fillDiscovery_msg pub (header ADVERTISE (mr_disc a))) now b = (b1, [])"
      "applySubscriberCommands (\<lambda>_. False) b1 = (b2, out)" and "hellos \<noteq> []"
    and out: "out = (if hasPublisher (p_addr pub) (mr_rpubs b) then [] else [EConnect (p_addr pub)]) @
         ESubscribe (p_topic pub) # map EMulticast hellos"
    and heard: "\<forall>m \<in> set hellos. hasTopic_type (p_topic pub) (m_type pub) (mr_rsubs (fst (mr_discovery_msg ip' m now' a)))"
    using handshake_core [OF assms, where ip' = ip' and now' = now'] by blast
  obtain m where "m \<in> set hellos" using \<open>hellos \<noteq> []\<close> by (cases hellos) auto
  then have "\<exists>m. EMulticast m \<in> set out" unfolding out by auto
  moreover have "m \<in> set hellos" if "EMulticast m \<in> set out" for m using that unfolding out by (auto split: if_splits)
  moreover have "EConnect (p_addr pub) \<in> set out \<longleftrightarrow> \<not> hasPublisher (p_addr pub) (mr_rpubs b)" "ESubscribe (p_topic pub) \<in> set out"
    unfolding out by auto
  ultimately show ?thesis using step heard up by (intro exI [of _ b1] exI [of _ b2] exI [of _ out] conjI allI impI) auto
qed

text \<open>
  A process that says BYE is forgotten completely: its endpoints among the known ones
  and the connected ones, and its subscriptions; those of every other process stay.
\<close>

theorem bye_forgets_peer:
  assumes "rt_ok rt" "dm_type m = BYE" "dm_process_uuid m = u" "u \<noteq> d_proc (mr_disc rt)" "d_disc (mr_disc rt)"
  shows "ts_view (d_pubs (mr_disc (fst (mr_discovery_msg ip m now rt)))) = {q \<in> ts_view (d_pubs (mr_disc rt)). p_proc q \<noteq> u} \<and>
    ts_view (mr_rpubs (fst (mr_discovery_msg ip m now rt))) = {q \<in> ts_view (mr_rpubs rt). p_proc q \<noteq> u} \<and>
    ts_view (mr_rsubs (fst (mr_discovery_msg ip m now rt))) = {q \<in> ts_view (mr_rsubs rt). p_proc q \<noteq> u}"
proof -
  have neq: "dm_process_uuid m \<noteq> d_proc (mr_disc rt)" using assms(3,4) by simp
  have wf: "ts_wf (d_pubs (mr_disc rt))" "ts_wf (mr_rpubs rt)" "ts_wf (mr_rsubs rt)"
    using assms(1) by (simp_all add: rt_ok_def disc_ok_def)
  have "p_topic (new_msg_pub\<lparr>p_proc := u\<rparr>) = []" "p_node (new_msg_pub\<lparr>p_proc := u\<rparr>) = []"
    by simp_all
  then show ?thesis
    using dispatch_bye [OF neq assms(2), of msg_class ip now] assms(3,5) wf
    by (simp add: mr_discovery_msg_def with_disc_def disc_events_def disc_event_def msg_class_def
        onPublisherDisconnected_def store_laws)
qed


text \<open>A publisher that has just started, and the subscriber's process \<^const>\<open>hearer\<close>.\<close>

definition starter :: "string msg_rt" where
  "starter = new_msg_rt ((node_disc ''uA'' ''10.0.0.1'')\<lparr>d_reg := True\<rparr>) ''uA''"

theorem subscription_handshake_witness:
  "\<exists>b1 b2 out. mr_discovery_msg ''10.0.0.1'' (fillDiscovery_msg (chat_pub False) (header ADVERTISE (mr_disc starter))) 5 hearer = (b1, []) \<and>
    applySubscriberCommands (\<lambda>_. False) b1 = (b2, out) \<and>
    EConnect ''tcp://10.0.0.1:5'' \<in> set out \<and> ESubscribe ''t'' \<in> set out \<and>
    (\<exists>m. EMulticast m \<in> set out \<and> hasSubscribers ''t'' ''T'' (fst (mr_discovery_msg ''10.0.0.1'' m 6 starter)))"
proof -
  have ok: "rt_ok starter" unfolding starter_def by (rule rt_ok_new) (simp add: disc_ok_def ts_view_def)
  have h: "hlook (mr_local hearer) (''t'', ''n2'', ''h2'') = Some (sample_handler ''h2'' ''n2'')"
    by (simp add: hearer_def hlook_add sample_handler_def hlook_get)
  have "msg_pub_wf (chat_pub False)" by (simp add: chat_pub_def)
  have d: "mr_disc hearer = node_disc ''uB'' ''10.0.0.1''" "mr_cmds hearer = []" "mr_rpubs hearer = []"
      "mr_disc starter = (node_disc ''uA'' ''10.0.0.1'')\<lparr>d_reg := True\<rparr>" "mr_uuid starter = ''uA''" "mr_rsubs starter = []"
    by (simp_all add: hearer_def starter_def new_msg_rt_def)
  have y: "sh_type (sample_handler ''h2'' ''n2'') = m_type (chat_pub False)" by (simp add: sample_handler_def)
  have "\<exists>b1 b2 out. mr_discovery_msg ''10.0.0.1'' (fillDiscovery_msg (chat_pub False) (header ADVERTISE (mr_disc starter))) 5 hearer = (b1, []) \<and>
    applySubscriberCommands (\<lambda>_. False) b1 = (b2, out) \<and>
    (EConnect (p_addr (chat_pub False)) \<in> set out \<longleftrightarrow> \<not> hasPublisher (p_addr (chat_pub False)) (mr_rpubs hearer)) \<and>
    ESubscribe (p_topic (chat_pub False)) \<in> set out \<and> (\<exists>m. EMulticast m \<in> set out) \<and>
    (\<forall>m. EMulticast m \<in> set out \<longrightarrow>
       hasSubscribers (p_topic (chat_pub False)) (m_type (chat_pub False)) (fst (mr_discovery_msg ''10.0.0.1'' m 6 starter)))"
    by (rule subscription_handshake [OF ok hearer_ok _ _ _ _ _ _ _ _ _ _ _ y])
      (use h \<open>msg_pub_wf (chat_pub False)\<close> in \<open>simp_all add: d is_sender_local_def ts_view_def\<close>)
  then show ?thesis by (simp add: d hasPublisher_def) blast
qed

theorem bye_forgets_peer_witness:
  "ts_view (mr_rsubs (fst (mr_discovery_msg ''10.0.0.1'' (disc_msg_default\<lparr>dm_type := BYE, dm_process_uuid := ''uB''\<rparr>) 5
     (talker True)))) = {} \<and> ts_view (mr_rsubs (talker True)) \<noteq> {}"
proof -
  let ?q = "(chat_pub True)\<lparr>p_proc := ''uB''\<rparr>"
  have v: "ts_view (mr_rsubs (talker True)) = {?q}" by (simp add: talker_def view_single)
  have ok: "rt_ok (talker True)"
    using rt_ok_new [of "node_disc ''uA'' ''10.0.0.1''" "''uA''"] ts_wf_add [of "[]" ?q]
    by (simp add: talker_def rt_ok_def new_msg_rt_def)
  have d: "mr_disc (talker True) = node_disc ''uA'' ''10.0.0.1''" by (simp add: talker_def new_msg_rt_def)
  have "ts_view (mr_rsubs (fst (mr_discovery_msg ''10.0.0.1'' (disc_msg_default\<lparr>dm_type := BYE, dm_process_uuid := ''uB''\<rparr>) 5
     (talker True)))) = {q \<in> ts_view (mr_rsubs (talker True)). p_proc q \<noteq> ''uB''}"
    using bye_forgets_peer [OF ok, of "disc_msg_default\<lparr>dm_type := BYE, dm_process_uuid := ''uB''\<rparr>" "''uB''" "''10.0.0.1''" 5] d
    by simp
  then show ?thesis using v by auto
qed

end
