(* ===== verification/SrvRuntime.thy ===== *)
theory SrvRuntime
  imports MsgRuntime
begin

text \<open>
  ServiceRuntime (src/service_runtime.cc, include/trans/details/service_runtime.hpp) and the
  handlers it keeps: requests waiting for an answer (req_handler.hpp) and services
  (rep_handler.hpp). Request handlers are shared and change, so they live on a heap; their
  address is their uuid, and the storage holds addresses. ROUTER sockets are inputs and
  events, as in MsgRuntime. \<open>requester_->connect\<close> is not inside a try block where it is
  called, so an exception of it leaves the method: the left side of a result.
\<close>

section \<open>Handlers\<close>

record 'm rq_handler =
  rq_uuid :: string
  rq_node :: string
  rq_req_type :: string
  rq_rep_type :: string
  rq_msg :: 'm
  rq_cb :: bool
  rq_rep :: string
  rq_result :: bool
  rq_requested :: bool
  rq_avail :: bool

record 'm rp_handler =
  rp_uuid :: string
  rp_req_type :: string
  rp_rep_type :: string
  rp_cb :: "('m \<Rightarrow> bool \<times> 'm) option"

definition new_rq :: "string \<Rightarrow> string \<Rightarrow> string \<Rightarrow> string \<Rightarrow> 'm \<Rightarrow> bool \<Rightarrow> 'm rq_handler" where
  "new_rq uuid node req_type rep_type msg cb = \<lparr>rq_uuid = uuid, rq_node = node, rq_req_type = req_type,
     rq_rep_type = rep_type, rq_msg = msg, rq_cb = cb, rq_rep = [], rq_result = False,
     rq_requested = False, rq_avail = False\<rparr>"

definition rq_serialize :: "'m proto \<Rightarrow> 'm rq_handler \<Rightarrow> string option" where
  "rq_serialize P h = pr_ser P (rq_msg h)"

definition rq_createMsg :: "'m proto \<Rightarrow> 'm rq_handler \<Rightarrow> string \<Rightarrow> 'm" where
  "rq_createMsg P h data = (let (msg, ok) = pr_parse P (rq_rep_type h) data in msg)"

definition setRequested :: "bool \<Rightarrow> 'm rq_handler \<Rightarrow> 'm rq_handler" where
  "setRequested v h = h\<lparr>rq_requested := v\<rparr>"

text \<open>\<open>waitFor\<close> answers, at the latest when its timeout is over, whether a reply has come.\<close>

definition waitFor :: "'m rq_handler \<Rightarrow> bool" where
  "waitFor h = rq_avail h"

definition rp_createMsg :: "'m proto \<Rightarrow> 'm rp_handler \<Rightarrow> string \<Rightarrow> 'm option" where
  "rp_createMsg P h data = (let (msg, ok) = pr_parse P (rp_req_type h) data in Some msg)"

definition rp_runLocalCallback :: "'m rp_handler \<Rightarrow> 'm \<Rightarrow> 'm option \<times> bool" where
  "rp_runLocalCallback h req = (case rp_cb h of
     None \<Rightarrow> (None, False)
   | Some cb \<Rightarrow> (let (ok, rep) = cb req in (Some rep, ok)))"

definition rp_runCallback :: "'m proto \<Rightarrow> 'm rp_handler \<Rightarrow> string \<Rightarrow> string \<times> bool" where
  "rp_runCallback P h req = (case rp_cb h of
     None \<Rightarrow> ([], False)
   | Some cb \<Rightarrow> (case rp_createMsg P h req of
       None \<Rightarrow> ([], False)
     | Some msg_req \<Rightarrow>
         (let (ok, msg_rep) = cb msg_req in
          if \<not> ok then ([], False)
          else (case pr_ser P msg_rep of None \<Rightarrow> ([], False) | Some rep \<Rightarrow> (rep, True)))))"

section \<open>State\<close>

record rem_request =
  rr_routing :: string
  rr_topic :: string
  rr_node :: string
  rr_uuid :: string
  rr_data :: string
  rr_req_type :: string
  rr_rep_type :: string

record rem_response =
  rs_topic :: string
  rs_node :: string
  rs_uuid :: string
  rs_data :: string
  rs_result :: string

record 'm srv_rt =
  sr_disc :: "srv_pub disc"
  sr_uuid :: string
  sr_host :: string
  sr_replier_id :: string
  sr_replier_addr :: string
  sr_conns :: "string set"
  sr_resp :: "'m rp_handler topic_handlers"
  sr_req :: "string topic_handlers"
  sr_heap :: "(string, 'm rq_handler) omap"
  sr_exit :: bool
  sr_init :: bool
  sr_started :: bool
  sr_requests :: "rem_request list"
  sr_responses :: "rem_response list"

datatype 'm sr_ev =
    SMulticast disc_msg
  | SConnect string
  | SRequest "string list"
  | SReply "string list"
  | SServe string string
  | SAnswer string 'm bool

datatype srv_throw = ConnectThrew string

definition new_srv_rt :: "srv_pub disc \<Rightarrow> string \<Rightarrow> string \<Rightarrow> string \<Rightarrow> 'm srv_rt" where
  "new_srv_rt disc p_uuid host replier_id = \<lparr>sr_disc = disc, sr_uuid = p_uuid, sr_host = host,
     sr_replier_id = replier_id, sr_replier_addr = [], sr_conns = {}, sr_resp = [], sr_req = [],
     sr_heap = [], sr_exit = False, sr_init = False, sr_started = False, sr_requests = [], sr_responses = []\<rparr>"

text \<open>
  \<open>bound\<close>: the endpoint the replier got, and whether the options of the requester could be
  set after that; nothing when an earlier socket call threw.
\<close>

definition sr_initialize :: "(string \<times> bool) option \<Rightarrow> 'm srv_rt \<Rightarrow> 'm srv_rt \<times> bool" where
  "sr_initialize bound rt =
     (if sr_init rt then (rt, True)
      else (case bound of
          None \<Rightarrow> (rt, False)
        | Some (ep, ok) \<Rightarrow> if ok then (rt\<lparr>sr_replier_addr := ep, sr_init := True\<rparr>, True) else (rt\<lparr>sr_replier_addr := ep\<rparr>, False)))"

definition sr_start :: "int \<Rightarrow> 'm srv_rt \<Rightarrow> 'm srv_rt" where
  "sr_start now rt =
     (if \<not> sr_init rt \<or> sr_started rt then rt
      else rt\<lparr>sr_disc := start_disc now (setDisconnectionCb True (setConnectionCb True (sr_disc rt))),
        sr_started := True\<rparr>)"

definition sr_stop :: "'m srv_rt \<Rightarrow> 'm srv_rt" where
  "sr_stop rt =
     (if \<not> sr_started rt then rt
      else rt\<lparr>sr_exit := True, sr_disc := setDisconnectionCb False (setConnectionCb False (sr_disc rt)),
        sr_started := False\<rparr>)"

section \<open>Sending requests\<close>

definition rq_at :: "'m srv_rt \<Rightarrow> string \<Rightarrow> 'm rq_handler" where
  "rq_at rt u = the (map_of (sr_heap rt) u)"

definition sr_getPublishers :: "string \<Rightarrow> 'm srv_rt \<Rightarrow> srv_pub proc_map option" where
  "sr_getPublishers topic rt = disc_getPublishers topic (sr_disc rt)"

text \<open>The first endpoint of the two types, process by process.\<close>

definition find_responder :: "string \<Rightarrow> string \<Rightarrow> srv_pub proc_map \<Rightarrow> srv_pub option" where
  "find_responder req_type rep_type addresses =
     List.find (\<lambda>p. s_req p = req_type \<and> s_rep p = rep_type) (concat (map snd addresses))"

definition sr_connect :: "(string \<Rightarrow> bool) \<Rightarrow> string \<Rightarrow> 'm srv_rt \<Rightarrow> srv_throw + ('m srv_rt \<times> 'm sr_ev list)" where
  "sr_connect zconn addr rt =
     (if addr \<in> sr_conns rt then Inr (rt, [])
      else if \<not> zconn addr then Inl (ConnectThrew addr)
      else Inr (rt\<lparr>sr_conns := insert addr (sr_conns rt)\<rparr>, [SConnect addr]))"

definition send_request ::
  "'m proto \<Rightarrow> (string list \<Rightarrow> bool) \<Rightarrow> srv_pub \<Rightarrow> string \<Rightarrow> string \<Rightarrow> string \<Rightarrow> string \<times> string \<Rightarrow>
   'm srv_rt \<times> 'm sr_ev list \<Rightarrow> 'm srv_rt \<times> 'm sr_ev list" where
  "send_request P zok responder topic req_type rep_type nk s =
     (case (nk, s) of ((node_uuid, request_uuid), (rt, out)) \<Rightarrow>
        (let h = rq_at rt request_uuid in
         if rq_requested h \<or> rq_req_type h \<noteq> req_type \<or> rq_rep_type h \<noteq> rep_type then (rt, out)
         else (case rq_serialize P h of
             None \<Rightarrow> (rt, out)
           | Some data \<Rightarrow>
               (let frames = [s_sock responder, topic, node_uuid, request_uuid, data, req_type, rep_type] in
                if \<not> zok frames then (rt, out)
                else (rt\<lparr>sr_heap := om_put request_uuid (setRequested True h) (sr_heap rt)\<rparr>,
                  out @ [SRequest frames])))))"

definition handler_keys :: "'h node_handlers \<Rightarrow> (string \<times> string) list" where
  "handler_keys mp = concat (map (\<lambda>(node_uuid, nm). map (\<lambda>(k, h). (node_uuid, k)) nm) mp)"

definition sendPendingRequests ::
  "'m proto \<Rightarrow> (string \<Rightarrow> bool) \<Rightarrow> (string list \<Rightarrow> bool) \<Rightarrow> string \<Rightarrow> string \<Rightarrow> string \<Rightarrow> 'm srv_rt \<Rightarrow>
   srv_throw + ('m srv_rt \<times> 'm sr_ev list)" where
  "sendPendingRequests P zconn zok topic req_type rep_type rt =
     (case find_responder req_type rep_type (case sr_getPublishers topic rt of None \<Rightarrow> [] | Some a \<Rightarrow> a) of
        None \<Rightarrow> Inr (rt, [])
      | Some responder \<Rightarrow>
          (case sr_connect zconn (p_addr responder) rt of
             Inl e \<Rightarrow> Inl e
           | Inr (rt1, out1) \<Rightarrow>
               (case getHandlers topic (sr_req rt1) of
                  None \<Rightarrow> Inr (rt1, out1)
                | Some handlers \<Rightarrow>
                    Inr (fold (send_request P zok responder topic req_type rep_type) (handler_keys handlers) (rt1, out1)))))"

section \<open>Discovery callbacks\<close>

definition onServiceConnected ::
  "'m proto \<Rightarrow> (string \<Rightarrow> bool) \<Rightarrow> (string list \<Rightarrow> bool) \<Rightarrow> srv_pub \<Rightarrow> 'm srv_rt \<Rightarrow> srv_throw + ('m srv_rt \<times> 'm sr_ev list)" where
  "onServiceConnected P zconn zok pub rt =
     (case sr_connect zconn (p_addr pub) rt of
        Inl e \<Rightarrow> Inl e
      | Inr (rt1, out1) \<Rightarrow>
          (case getFirstHandler_types (\<lambda>u. rq_req_type (rq_at rt1 u)) (\<lambda>u. rq_rep_type (rq_at rt1 u))
              (p_topic pub) (s_req pub) (s_rep pub) (sr_req rt1) of
             None \<Rightarrow> Inr (rt1, out1)
           | Some _ \<Rightarrow>
               (case sendPendingRequests P zconn zok (p_topic pub) (s_req pub) (s_rep pub) rt1 of
                  Inl e \<Rightarrow> Inl e
                | Inr (rt2, out2) \<Rightarrow> Inr (rt2, out1 @ out2))))"

definition onServiceDisconnected :: "srv_pub \<Rightarrow> 'm srv_rt \<Rightarrow> 'm srv_rt" where
  "onServiceDisconnected pub rt = rt\<lparr>sr_conns := sr_conns rt - {p_addr pub}\<rparr>"

text \<open>What a call into Discovery did; this runtime sets no registration callbacks.\<close>

fun sr_disc_events ::
  "'m proto \<Rightarrow> (string \<Rightarrow> bool) \<Rightarrow> (string list \<Rightarrow> bool) \<Rightarrow> srv_pub disc_ev list \<Rightarrow> 'm srv_rt \<Rightarrow> srv_throw + ('m srv_rt \<times> 'm sr_ev list)" where
  "sr_disc_events P zconn zok [] rt = Inr (rt, [])"
| "sr_disc_events P zconn zok (e # es) rt =
     (case (case e of
         Multicast m \<Rightarrow> Inr (rt, [SMulticast m])
       | Connected p \<Rightarrow> onServiceConnected P zconn zok p rt
       | Disconnected p \<Rightarrow> Inr (onServiceDisconnected p rt, [])
       | Registered p \<Rightarrow> Inr (rt, [])
       | Unregistered p \<Rightarrow> Inr (rt, [])) of
        Inl x \<Rightarrow> Inl x
      | Inr (rt1, out1) \<Rightarrow>
          (case sr_disc_events P zconn zok es rt1 of
             Inl x \<Rightarrow> Inl x
           | Inr (rt2, out2) \<Rightarrow> Inr (rt2, out1 @ out2)))"

definition sr_discovery_msg ::
  "'m proto \<Rightarrow> (string \<Rightarrow> bool) \<Rightarrow> (string list \<Rightarrow> bool) \<Rightarrow> string \<Rightarrow> disc_msg \<Rightarrow> int \<Rightarrow> 'm srv_rt \<Rightarrow> srv_throw + ('m srv_rt \<times> 'm sr_ev list)" where
  "sr_discovery_msg P zconn zok from_ip m now rt =
     (case dispatch srv_class from_ip m now (sr_disc rt) of
        (d, es) \<Rightarrow> sr_disc_events P zconn zok es (rt\<lparr>sr_disc := d\<rparr>))"

definition sr_heartbeat ::
  "'m proto \<Rightarrow> (string \<Rightarrow> bool) \<Rightarrow> (string list \<Rightarrow> bool) \<Rightarrow> int \<Rightarrow> int \<Rightarrow> 'm srv_rt \<Rightarrow> srv_throw + ('m srv_rt \<times> 'm sr_ev list)" where
  "sr_heartbeat P zconn zok now now2 rt =
     (case updateHeartbeat srv_class now now2 (sr_disc rt) of
        (d, es) \<Rightarrow> sr_disc_events P zconn zok es (rt\<lparr>sr_disc := d\<rparr>))"

definition sr_activity ::
  "'m proto \<Rightarrow> (string \<Rightarrow> bool) \<Rightarrow> (string list \<Rightarrow> bool) \<Rightarrow> int \<Rightarrow> int \<Rightarrow> 'm srv_rt \<Rightarrow> srv_throw + ('m srv_rt \<times> 'm sr_ev list)" where
  "sr_activity P zconn zok now now2 rt =
     (case updateActivity srv_class now now2 (sr_disc rt) of
        (d, es) \<Rightarrow> sr_disc_events P zconn zok es (rt\<lparr>sr_disc := d\<rparr>))"


section \<open>Advertising and requesting\<close>

definition sr_advertise ::
  "'m proto \<Rightarrow> (string \<Rightarrow> bool) \<Rightarrow> (string list \<Rightarrow> bool) \<Rightarrow> string \<Rightarrow> string \<Rightarrow> 'm rp_handler \<Rightarrow> string \<Rightarrow> string \<Rightarrow> adv_srv_opts \<Rightarrow> 'm srv_rt \<Rightarrow>
   srv_throw + ('m srv_rt \<times> 'm sr_ev list \<times> bool)" where
  "sr_advertise P zconn zok topic node_uuid handler req_type rep_type options rt =
     (let rt1 = rt\<lparr>sr_resp := addHandler rp_uuid topic node_uuid handler (sr_resp rt)\<rparr>;
          pub = mkServicePublisherInfo topic (sr_replier_addr rt) (sr_replier_id rt) (sr_uuid rt) node_uuid
            req_type rep_type options
      in (case disc_advertise srv_class pub (sr_disc rt1) of (d, es, ok) \<Rightarrow>
            (case sr_disc_events P zconn zok es (rt1\<lparr>sr_disc := d\<rparr>) of
               Inl x \<Rightarrow> Inl x
             | Inr (rt2, out) \<Rightarrow> Inr (rt2, out, ok))))"

definition sr_unadvertise ::
  "'m proto \<Rightarrow> (string \<Rightarrow> bool) \<Rightarrow> (string list \<Rightarrow> bool) \<Rightarrow> string \<Rightarrow> string \<Rightarrow> 'm srv_rt \<Rightarrow>
   srv_throw + ('m srv_rt \<times> 'm sr_ev list \<times> bool)" where
  "sr_unadvertise P zconn zok topic node_uuid rt =
     (let rt1 = rt\<lparr>sr_resp := fst (removeHandlersForNode topic node_uuid (sr_resp rt))\<rparr>
      in (case disc_unadvertise srv_class topic node_uuid (sr_disc rt1) of (d, es, ok) \<Rightarrow>
            (case sr_disc_events P zconn zok es (rt1\<lparr>sr_disc := d\<rparr>) of
               Inl x \<Rightarrow> Inl x
             | Inr (rt2, out) \<Rightarrow> Inr (rt2, out, ok))))"

definition hasService :: "string \<Rightarrow> 'm srv_rt \<Rightarrow> bool" where
  "hasService topic rt \<longleftrightarrow> hs_hasTopic topic (sr_resp rt) \<or> sr_getPublishers topic rt \<noteq> None"

definition sr_getTopics :: "'m srv_rt \<Rightarrow> string list" where
  "sr_getTopics rt = disc_getTopicList (sr_disc rt)"

definition getLocalHandler :: "string \<Rightarrow> string \<Rightarrow> string \<Rightarrow> 'm srv_rt \<Rightarrow> 'm rp_handler option" where
  "getLocalHandler topic req_type rep_type rt =
     getFirstHandler_types rp_req_type rp_rep_type topic req_type rep_type (sr_resp rt)"

definition sr_request ::
  "'m proto \<Rightarrow> (string \<Rightarrow> bool) \<Rightarrow> (string list \<Rightarrow> bool) \<Rightarrow> string \<Rightarrow> string \<Rightarrow> 'm rq_handler \<Rightarrow> 'm srv_rt \<Rightarrow>
   srv_throw + ('m srv_rt \<times> 'm sr_ev list \<times> bool)" where
  "sr_request P zconn zok topic node_uuid handler rt =
     (case sr_getPublishers topic rt of
        None \<Rightarrow> Inr (rt, [], False)
      | Some _ \<Rightarrow>
          (let rt1 = rt\<lparr>sr_heap := om_put (rq_uuid handler) handler (sr_heap rt),
                 sr_req := addHandler id topic node_uuid (rq_uuid handler) (sr_req rt)\<rparr>
           in (case sendPendingRequests P zconn zok topic (rq_req_type handler) (rq_rep_type handler) rt1 of
                 Inl x \<Rightarrow> Inl x
               | Inr (rt2, out) \<Rightarrow> Inr (rt2, out, True))))"

section \<open>The receive thread\<close>

text \<open>The parts successive \<open>recv\<close> calls yield, up to the first that fails.\<close>

definition receiveRequest :: "string list \<Rightarrow> 'm srv_rt \<Rightarrow> 'm srv_rt" where
  "receiveRequest parts rt = (case parts of
     routing # topic # node # uuid # data # req_type # rep_type # _ \<Rightarrow>
       rt\<lparr>sr_requests := sr_requests rt @ [\<lparr>rr_routing = routing, rr_topic = topic, rr_node = node, rr_uuid = uuid,
         rr_data = data, rr_req_type = req_type, rr_rep_type = rep_type\<rparr>]\<rparr>
   | _ \<Rightarrow> rt)"

definition receiveResponse :: "string list \<Rightarrow> 'm srv_rt \<Rightarrow> 'm srv_rt" where
  "receiveResponse parts rt = (case parts of
     ignored # topic # node # uuid # data # result # _ \<Rightarrow>
       rt\<lparr>sr_responses := sr_responses rt @ [\<lparr>rs_topic = topic, rs_node = node, rs_uuid = uuid,
         rs_data = data, rs_result = result\<rparr>]\<rparr>
   | _ \<Rightarrow> rt)"

definition sr_receive_turn :: "string list option \<Rightarrow> string list option \<Rightarrow> 'm srv_rt \<Rightarrow> 'm srv_rt" where
  "sr_receive_turn replier requester rt =
     (if sr_exit rt then rt
      else (let rt1 = (case replier of None \<Rightarrow> rt | Some parts \<Rightarrow> receiveRequest parts rt)
            in (case requester of None \<Rightarrow> rt1 | Some parts \<Rightarrow> receiveResponse parts rt1)))"

section \<open>The handler thread\<close>

definition handle_request ::
  "'m proto \<Rightarrow> (string list \<Rightarrow> bool) \<Rightarrow> 'm srv_rt \<Rightarrow> rem_request \<Rightarrow> 'm sr_ev list" where
  "handle_request P zok rt q =
     (case getFirstHandler_types rp_req_type rp_rep_type (rr_topic q) (rr_req_type q) (rr_rep_type q) (sr_resp rt) of
        None \<Rightarrow> []
      | Some h \<Rightarrow>
          (let (reply_data, ok) = rp_runCallback P h (rr_data q);
               result = (if ok then ''1'' else ''0'');
               frames = [rr_routing q, rr_topic q, rr_node q, rr_uuid q, reply_data, result]
           in SServe (rp_uuid h) (rr_data q) # (if zok frames then [SReply frames] else [])))"

definition handleRequests :: "'m proto \<Rightarrow> (string list \<Rightarrow> bool) \<Rightarrow> rem_request list \<Rightarrow> 'm srv_rt \<Rightarrow> 'm sr_ev list" where
  "handleRequests P zok qs rt = concat (map (handle_request P zok rt) qs)"

definition notifyResult :: "'m proto \<Rightarrow> string \<Rightarrow> bool \<Rightarrow> 'm rq_handler \<Rightarrow> 'm rq_handler \<times> 'm sr_ev list" where
  "notifyResult P rep result h =
     (if rq_cb h then (h\<lparr>rq_avail := True\<rparr>, [SAnswer (rq_uuid h) (rq_createMsg P h rep) result])
      else (h\<lparr>rq_rep := rep, rq_result := result, rq_avail := True\<rparr>, []))"

definition handle_response :: "'m proto \<Rightarrow> rem_response \<Rightarrow> 'm srv_rt \<times> 'm sr_ev list \<Rightarrow> 'm srv_rt \<times> 'm sr_ev list" where
  "handle_response P r s = (case s of (rt, out) \<Rightarrow>
     (case getHandler (rs_topic r) (rs_node r) (rs_uuid r) (sr_req rt) of
        None \<Rightarrow> (rt, out)
      | Some u \<Rightarrow>
          (case notifyResult P (rs_data r) (rs_result r = ''1'') (rq_at rt u) of (h, out1) \<Rightarrow>
             (rt\<lparr>sr_heap := om_put u h (sr_heap rt),
                sr_req := fst (removeHandler (rs_topic r) (rs_node r) (rs_uuid r) (sr_req rt))\<rparr>,
              out @ out1))))"

definition handleResponses :: "'m proto \<Rightarrow> rem_response list \<Rightarrow> 'm srv_rt \<Rightarrow> 'm srv_rt \<times> 'm sr_ev list" where
  "handleResponses P rs rt = fold (handle_response P) rs (rt, [])"

definition serviceHandle :: "'m proto \<Rightarrow> (string list \<Rightarrow> bool) \<Rightarrow> 'm srv_rt \<Rightarrow> 'm srv_rt \<times> 'm sr_ev list" where
  "serviceHandle P zok rt =
     (if sr_exit rt then (rt, [])
      else (let rt1 = rt\<lparr>sr_requests := [], sr_responses := []\<rparr>;
                out1 = handleRequests P zok (sr_requests rt) rt1;
                (rt2, out2) = handleResponses P (sr_responses rt) rt1
            in (rt2, out1 @ out2)))"

end
