(* ===== verification/SrvThms.thy ===== *)
theory SrvThms
  imports MsgHandshake SrvRuntime
begin

text \<open>
  What ServiceRuntime guarantees whatever happens to it: the well-formedness of its state,
  a request goes out at most once and is answered at most once.
\<close>

section \<open>Effects that compose\<close>

text \<open>
  An operation changes a state and emits events; an effect is what it may do to both. The
  effects used here hold of doing nothing and of doing one thing after another.
\<close>

locale effect =
  fixes E :: "'s \<Rightarrow> 'e list \<Rightarrow> 's \<Rightarrow> bool"
  assumes refl: "E s [] s"
    and trans: "E s out1 s1 \<Longrightarrow> E s1 out2 s2 \<Longrightarrow> E s (out1 @ out2) s2"
begin

lemma fold_effect:
  assumes "\<And>x s out. x \<in> set xs \<Longrightarrow> Q x s \<Longrightarrow> \<exists>out'. snd (f x (s, out)) = out @ out' \<and> E s out' (fst (f x (s, out)))"
    and "\<And>x s out s'. Q x s \<Longrightarrow> E s out s' \<Longrightarrow> Q x s'" "\<And>x. x \<in> set xs \<Longrightarrow> Q x s"
  shows "\<exists>out'. snd (fold f xs (s, out)) = out @ out' \<and> E s out' (fst (fold f xs (s, out)))"
  using assms(1,3)
proof (induction xs arbitrary: s out)
  case Nil
  then show ?case by (simp add: refl)
next
  case (Cons x xs)
  obtain s1 out1 where s: "f x (s, out) = (s1, out1)" by (cases "f x (s, out)")
  obtain o1 where 1: "out1 = out @ o1" "E s o1 s1" using Cons.prems(1) [of x s out] Cons.prems(2) s by auto
  have "Q y s1" if "y \<in> set xs" for y using Cons.prems(2) that assms(2) [OF _ 1(2)] by simp
  then obtain o2 where "snd (fold f xs (s1, out1)) = out1 @ o2" "E s1 o2 (fst (fold f xs (s1, out1)))"
    using Cons.IH [of s1 out1] Cons.prems(1) by force
  then show ?case using 1 trans [OF 1(2)] s by (intro exI [of _ "o1 @ o2"]) simp
qed

end

section \<open>Traffic: what sending requests does\<close>

definition sent :: "string \<Rightarrow> 'm sr_ev list \<Rightarrow> nat" where
  "sent u out = length (filter (\<lambda>e. case e of SRequest fr \<Rightarrow> fr ! 3 = u | _ \<Rightarrow> False) out)"

definition answered :: "string \<Rightarrow> 'm sr_ev list \<Rightarrow> nat" where
  "answered u out = length (filter (\<lambda>e. case e of SAnswer k m b \<Rightarrow> k = u | _ \<Rightarrow> False) out)"

lemma sent_simps [simp]:
  "sent u [] = 0" "sent u (SMulticast m # out) = sent u out" "sent u (SConnect a # out) = sent u out"
  "sent u (SReply fr # out) = sent u out" "sent u (SServe k d # out) = sent u out"
  "sent u (SAnswer k r b # out) = sent u out"
  "sent u (SRequest fr # out) = (if fr ! 3 = u then 1 else 0) + sent u out"
  "sent u (out1 @ out2) = sent u out1 + sent u out2"
  by (simp_all add: sent_def)

lemma answered_simps [simp]:
  "answered u [] = 0" "answered u (SMulticast m # out) = answered u out" "answered u (SConnect a # out) = answered u out"
  "answered u (SReply fr # out) = answered u out" "answered u (SServe k d # out) = answered u out"
  "answered u (SRequest fr # out) = answered u out"
  "answered u (SAnswer k r b # out) = (if k = u then 1 else 0) + answered u out"
  "answered u (out1 @ out2) = answered u out1 + answered u out2"
  by (simp_all add: answered_def)

text \<open>Whether a handler exists and was sent, or answered.\<close>

definition flagged :: "('m rq_handler \<Rightarrow> bool) \<Rightarrow> 'm srv_rt \<Rightarrow> string \<Rightarrow> nat" where
  "flagged f rt u = (case map_of (sr_heap rt) u of None \<Rightarrow> 0 | Some h \<Rightarrow> if f h then 1 else 0)"

definition core :: "'m rq_handler \<Rightarrow> 'm rq_handler" where
  "core h = h\<lparr>rq_requested := False\<rparr>"

definition traffic :: "'m srv_rt \<Rightarrow> 'm sr_ev list \<Rightarrow> 'm srv_rt \<Rightarrow> bool" where
  "traffic rt out rt' \<longleftrightarrow> (\<forall>u. sent u out + flagged rq_requested rt u \<le> flagged rq_requested rt' u) \<and>
     (\<forall>u. answered u out = 0) \<and> sr_disc rt' = sr_disc rt \<and> sr_resp rt' = sr_resp rt \<and> sr_req rt' = sr_req rt \<and>
     sr_uuid rt' = sr_uuid rt \<and> sr_exit rt' = sr_exit rt \<and> sr_requests rt' = sr_requests rt \<and> sr_responses rt' = sr_responses rt \<and>
     (\<forall>u. map_option core (map_of (sr_heap rt') u) = map_option core (map_of (sr_heap rt) u))"

lemma traffic_trans: "traffic rt out1 rt1 \<Longrightarrow> traffic rt1 out2 rt2 \<Longrightarrow> traffic rt (out1 @ out2) rt2"
proof -
  assume 1: "traffic rt out1 rt1" and 2: "traffic rt1 out2 rt2"
  have "sent u out1 + sent u out2 + flagged rq_requested rt u \<le> flagged rq_requested rt2 u" for u
  proof -
    have "sent u out1 + flagged rq_requested rt u \<le> flagged rq_requested rt1 u"
        "sent u out2 + flagged rq_requested rt1 u \<le> flagged rq_requested rt2 u"
      using 1 2 by (simp_all add: traffic_def)
    then show ?thesis by linarith
  qed
  then show ?thesis using 1 2 by (simp add: traffic_def)
qed

interpretation tr: effect traffic
  by unfold_locales (simp add: traffic_def, rule traffic_trans)

lemma traffic_same:
  "sr_heap rt' = sr_heap rt \<Longrightarrow> sr_disc rt' = sr_disc rt \<Longrightarrow> sr_resp rt' = sr_resp rt \<Longrightarrow> sr_req rt' = sr_req rt \<Longrightarrow>
   sr_uuid rt' = sr_uuid rt \<Longrightarrow> sr_exit rt' = sr_exit rt \<Longrightarrow> sr_requests rt' = sr_requests rt \<Longrightarrow> sr_responses rt' = sr_responses rt \<Longrightarrow>
   (\<forall>u. sent u out = 0 \<and> answered u out = 0) \<Longrightarrow> traffic rt out rt'"
  by (simp add: traffic_def flagged_def)

lemma traffic_heap: "traffic rt out rt' \<Longrightarrow> map_of (sr_heap rt) u \<noteq> None \<Longrightarrow> map_of (sr_heap rt') u \<noteq> None"
  unfolding traffic_def by (metis option.map_disc_iff)

lemma traffic_send_request:
  assumes "map_of (sr_heap rt) (snd nk) \<noteq> None"
  shows "\<exists>out'. snd (send_request P zok r t y z nk (rt, out)) = out @ out' \<and>
    traffic rt out' (fst (send_request P zok r t y z nk (rt, out)))"
proof -
  obtain n k where nk: "nk = (n, k)" by (cases nk)
  obtain h where h: "map_of (sr_heap rt) k = Some h" using assms nk by auto
  have nop: "traffic rt [] rt" by (rule tr.refl)
  show ?thesis
  proof (cases "rq_requested h \<or> rq_req_type h \<noteq> y \<or> rq_rep_type h \<noteq> z \<or> rq_serialize P h = None")
    case True
    then have "send_request P zok r t y z nk (rt, out) = (rt, out)"
      using h nk by (auto simp: send_request_def rq_at_def Let_def)
    then show ?thesis using nop by simp
  next
    case False
    then obtain data where d: "rq_serialize P h = Some data" "\<not> rq_requested h" "rq_req_type h = y" "rq_rep_type h = z" by auto
    let ?fr = "[s_sock r, t, n, k, data, y, z]"
    let ?rt = "rt\<lparr>sr_heap := om_put k (setRequested True h) (sr_heap rt)\<rparr>"
    have "traffic rt [SRequest ?fr] ?rt"
      using h d(2) by (auto simp: traffic_def flagged_def setRequested_def core_def)
    moreover have "send_request P zok r t y z nk (rt, out) = (if zok ?fr then (?rt, out @ [SRequest ?fr]) else (rt, out))"
      using h d nk by (auto simp: send_request_def rq_at_def Let_def)
    ultimately show ?thesis using nop by auto
  qed
qed

section \<open>Well-formed states\<close>

text \<open>
  A stored request handler is on the heap under its uuid, unanswered, and stored nowhere else.
\<close>

definition reqs_ok :: "string topic_handlers \<Rightarrow> (string, 'm rq_handler) omap \<Rightarrow> bool" where
  "reqs_ok reqs heap \<longleftrightarrow> hs_wf id reqs \<and>
     (\<forall>t n k u. hlook reqs (t, n, k) = Some u \<longrightarrow> (\<exists>h. map_of heap k = Some h \<and> \<not> rq_avail h)) \<and>
     (\<forall>t n t' n' k. hlook reqs (t, n, k) \<noteq> None \<longrightarrow> hlook reqs (t', n', k) \<noteq> None \<longrightarrow> t' = t \<and> n' = n) \<and>
     (\<forall>k h. map_of heap k = Some h \<longrightarrow> rq_uuid h = k)"

definition sr_ok :: "'m srv_rt \<Rightarrow> bool" where
  "sr_ok rt \<longleftrightarrow> disc_ok srv_pub_wf (sr_disc rt) \<and> hs_wf rp_uuid (sr_resp rt) \<and> hs_tight (sr_resp rt) \<and>
     reqs_ok (sr_req rt) (sr_heap rt)"

lemma reqs_okI:
  assumes "hs_wf id reqs"
    and "\<And>t n k u. hlook reqs (t, n, k) = Some u \<Longrightarrow> \<exists>h. map_of heap k = Some h \<and> \<not> rq_avail h"
    and "\<And>t n t' n' k. hlook reqs (t, n, k) \<noteq> None \<Longrightarrow> hlook reqs (t', n', k) \<noteq> None \<Longrightarrow> t' = t \<and> n' = n"
    and "\<And>k h. map_of heap k = Some h \<Longrightarrow> rq_uuid h = k"
  shows "reqs_ok reqs heap"
  unfolding reqs_ok_def using assms by blast

lemma reqs_ok_stored:
  assumes "reqs_ok reqs heap" "hlook reqs (t, n, k) = Some u"
  shows "u = k" "\<exists>h. map_of heap k = Some h \<and> \<not> rq_avail h \<and> rq_uuid h = k"
proof -
  have "hs_wf id reqs" using assms(1) by (simp add: reqs_ok_def)
  then show "u = k" using nm_at(2) [of id reqs k u n t] map_of_SomeD [of _ k u] assms(2) by (simp add: hlook_get)
  obtain h where "map_of heap k = Some h" "\<not> rq_avail h" using assms unfolding reqs_ok_def by blast
  then show "\<exists>h. map_of heap k = Some h \<and> \<not> rq_avail h \<and> rq_uuid h = k" using assms(1) unfolding reqs_ok_def by blast
qed

lemma handler_keys_iff:
  assumes "hs_wf uid d" "getHandlers t d = Some hs"
  shows "(n, k) \<in> set (handler_keys hs) \<longleftrightarrow> hlook d (t, n, k) \<noteq> None"
proof -
  have get: "om_get [] t d = hs" using assms(2) by (simp add: getHandlers_def om_get_def)
  note wf = nh_wf_at [OF assms(1), of t, unfolded get]
  have "(n, k) \<in> set (handler_keys hs) \<longleftrightarrow> (\<exists>nm. (n, nm) \<in> set hs \<and> k \<in> fst ` set nm)"
    by (force simp: handler_keys_def)
  also have "\<dots> \<longleftrightarrow> (\<exists>nm. map_of hs n = Some nm \<and> map_of nm k \<noteq> None)"
    using om_wf_lookup [OF nh_wf_om [OF wf]] by (metis map_of_eq_None_iff)
  also have "\<dots> \<longleftrightarrow> map_of (om_get [] n hs) k \<noteq> None"
    using look_om_get [of n hs k] by blast
  finally show ?thesis by (simp add: hlook_get get)
qed

lemma traffic_core:
  assumes "traffic rt out rt'" "map_of (sr_heap rt) k = Some h"
  shows "\<exists>h'. map_of (sr_heap rt') k = Some h' \<and> core h' = core h"
proof -
  have "map_option core (map_of (sr_heap rt') k) = Some (core h)" using assms by (simp add: traffic_def)
  then show ?thesis by (cases "map_of (sr_heap rt') k") auto
qed

lemma core_eqD: "core h' = core h \<Longrightarrow> rq_uuid h' = rq_uuid h \<and> rq_avail h' = rq_avail h"
  unfolding core_def by (metis rq_handler.select_convs(1,10) rq_handler.surjective rq_handler.update_convs(9))

lemma reqs_ok_traffic:
  assumes "traffic rt out rt'" "reqs_ok (sr_req rt) (sr_heap rt)"
  shows "reqs_ok (sr_req rt') (sr_heap rt')"
proof -
  have eq: "sr_req rt' = sr_req rt" using assms(1) by (simp add: traffic_def)
  have origin: "\<exists>h. map_of (sr_heap rt) k = Some h \<and> rq_uuid h = rq_uuid h'" if "map_of (sr_heap rt') k = Some h'" for k h'
  proof -
    have "map_option core (map_of (sr_heap rt) k) = Some (core h')"
      using assms(1) that unfolding traffic_def by (metis option.simps(9))
    then show ?thesis using core_eqD by (cases "map_of (sr_heap rt) k") auto
  qed
  have kept: "\<exists>h'. map_of (sr_heap rt') k = Some h' \<and> \<not> rq_avail h'"
    if "map_of (sr_heap rt) k = Some h" "\<not> rq_avail h" for k h
    using traffic_core [OF assms(1) that(1)] core_eqD that(2) by blast
  note ok = assms(2) [unfolded reqs_ok_def]
  have stored: "\<exists>h. map_of (sr_heap rt') k = Some h \<and> \<not> rq_avail h" if "hlook (sr_req rt) (t, n, k) = Some u" for t n k u
    using reqs_ok_stored(2) [OF assms(2) that] kept by blast
  have uid: "rq_uuid h = k" if "map_of (sr_heap rt') k = Some h" for k h
    using origin [OF that] ok by metis
  show ?thesis unfolding eq
    by (rule reqs_okI) (use ok stored uid in \<open>blast+\<close>)
qed

lemma sr_ok_traffic: "traffic rt out rt' \<Longrightarrow> sr_ok rt \<Longrightarrow> sr_ok rt'"
  using reqs_ok_traffic by (fastforce simp: sr_ok_def traffic_def)

section \<open>The operations\<close>

lemma traffic_connect: "sr_connect zconn a rt = Inr (rt', out) \<Longrightarrow> traffic rt out rt'"
  by (auto simp: sr_connect_def intro!: traffic_same split: if_splits)

lemma traffic_pending:
  assumes "reqs_ok (sr_req rt) (sr_heap rt)" "sendPendingRequests P zconn zok t y z rt = Inr (rt', out)"
  shows "traffic rt out rt'"
proof (cases "find_responder y z (case sr_getPublishers t rt of None \<Rightarrow> [] | Some a \<Rightarrow> a)")
  case None
  then show ?thesis using assms(2) by (simp add: sendPendingRequests_def tr.refl)
next
  case (Some r)
  then obtain rt1 out1 where c: "sr_connect zconn (p_addr r) rt = Inr (rt1, out1)"
    using assms(2) by (auto simp: sendPendingRequests_def split: sum.splits)
  note 1 = traffic_connect [OF c]
  note ok1 = reqs_ok_traffic [OF 1 assms(1)]
  show ?thesis
  proof (cases "getHandlers t (sr_req rt1)")
    case None
    then show ?thesis using assms(2) Some c 1 by (simp add: sendPendingRequests_def)
  next
    case hs: (Some hs)
    let ?f = "send_request P zok r t y z"
    have "\<exists>out'. snd (fold ?f (handler_keys hs) (rt1, out1)) = out1 @ out' \<and>
        traffic rt1 out' (fst (fold ?f (handler_keys hs) (rt1, out1)))"
    proof (rule tr.fold_effect [where Q = "\<lambda>nk s. map_of (sr_heap s) (snd nk) \<noteq> None"])
      show "map_of (sr_heap rt1) (snd nk) \<noteq> None" if "nk \<in> set (handler_keys hs)" for nk
      proof -
        have "hlook (sr_req rt1) (t, fst nk, snd nk) \<noteq> None"
          using that handler_keys_iff [of id "sr_req rt1" t hs "fst nk" "snd nk"] hs ok1 by (simp add: reqs_ok_def)
        then show ?thesis using reqs_ok_stored(2) [OF ok1] by fastforce
      qed
    qed (auto intro: traffic_send_request dest: traffic_heap)
    then show ?thesis
      using assms(2) Some c hs traffic_trans [OF 1] by (auto simp: sendPendingRequests_def)
  qed
qed

lemma traffic_connected:
  assumes "reqs_ok (sr_req rt) (sr_heap rt)" "onServiceConnected P zconn zok p rt = Inr (rt', out)"
  shows "traffic rt out rt'"
proof -
  obtain rt1 out1 where c: "sr_connect zconn (p_addr p) rt = Inr (rt1, out1)"
    using assms(2) by (auto simp: onServiceConnected_def split: sum.splits)
  note 1 = traffic_connect [OF c]
  show ?thesis
    using assms(2) c 1 traffic_trans [OF 1 traffic_pending [OF reqs_ok_traffic [OF 1 assms(1)]]]
    by (auto simp: onServiceConnected_def split: sum.splits option.splits)
qed

lemma traffic_events:
  assumes "reqs_ok (sr_req rt) (sr_heap rt)" "sr_disc_events P zconn zok es rt = Inr (rt', out)"
  shows "traffic rt out rt'"
  using assms
proof (induction es arbitrary: rt out)
  case Nil
  then show ?case by (simp add: tr.refl)
next
  case (Cons e es)
  then obtain rt1 out1 out2 where 1: "sr_disc_events P zconn zok es rt1 = Inr (rt', out2)" "out = out1 @ out2"
      "(case e of Multicast m \<Rightarrow> Inr (rt, [SMulticast m]) | Connected p \<Rightarrow> onServiceConnected P zconn zok p rt
       | Disconnected p \<Rightarrow> Inr (onServiceDisconnected p rt, []) | Registered p \<Rightarrow> Inr (rt, [])
       | Unregistered p \<Rightarrow> Inr (rt, [])) = Inr (rt1, out1)"
    by (auto split: sum.splits)
  then have t: "traffic rt out1 rt1"
    using Cons.prems(1)
    by (auto simp: onServiceDisconnected_def intro: traffic_same traffic_connected split: disc_ev.splits)
  show ?case using traffic_trans [OF t Cons.IH [OF reqs_ok_traffic [OF t Cons.prems(1)] 1(1)]] 1(2) by simp
qed

section \<open>Answers\<close>

text \<open>What an answer may do: settle handlers that were open, each with at most one callback.\<close>

definition settles :: "'m srv_rt \<Rightarrow> 'm sr_ev list \<Rightarrow> 'm srv_rt \<Rightarrow> bool" where
  "settles rt out rt' \<longleftrightarrow>
     (reqs_ok (sr_req rt) (sr_heap rt) \<longrightarrow> reqs_ok (sr_req rt') (sr_heap rt') \<and>
        (\<forall>u. answered u out + flagged rq_avail rt u \<le> flagged rq_avail rt' u)) \<and>
     (\<forall>u. sent u out = 0 \<and> flagged rq_requested rt u \<le> flagged rq_requested rt' u) \<and>
     sr_disc rt' = sr_disc rt \<and> sr_resp rt' = sr_resp rt"

lemma settles_trans: "settles rt out1 rt1 \<Longrightarrow> settles rt1 out2 rt2 \<Longrightarrow> settles rt (out1 @ out2) rt2"
proof -
  assume 1: "settles rt out1 rt1" and 2: "settles rt1 out2 rt2"
  have "answered u out1 + answered u out2 + flagged rq_avail rt u \<le> flagged rq_avail rt2 u"
    if "reqs_ok (sr_req rt) (sr_heap rt)" for u
  proof -
    have "answered u out1 + flagged rq_avail rt u \<le> flagged rq_avail rt1 u"
        "answered u out2 + flagged rq_avail rt1 u \<le> flagged rq_avail rt2 u"
      using 1 2 that by (simp_all add: settles_def)
    then show ?thesis by linarith
  qed
  moreover have "flagged rq_requested rt u \<le> flagged rq_requested rt2 u" for u
    using 1 2 unfolding settles_def by (meson order_trans)
  ultimately show ?thesis using 1 2 by (simp add: settles_def)
qed

interpretation se: effect settles
  by unfold_locales (simp add: settles_def, rule settles_trans)

lemma notify_fields [simp]:
  "rq_uuid (fst (notifyResult P d b h)) = rq_uuid h" "rq_avail (fst (notifyResult P d b h))"
  "rq_requested (fst (notifyResult P d b h)) = rq_requested h"
  by (simp_all add: notifyResult_def)

lemma reqs_ok_settled:
  assumes "reqs_ok reqs heap" "hlook reqs (t, n, k) \<noteq> None" "rq_uuid h = k"
  shows "reqs_ok (fst (removeHandler t n k reqs)) (om_put k h heap)"
proof -
  note ok = assms(1) [unfolded reqs_ok_def]
  have other: "hlook reqs (t', n', k') = Some u \<and> k' \<noteq> k" if "hlook (fst (removeHandler t n k reqs)) (t', n', k') = Some u"
    for t' n' k' u
  proof -
    have l: "hlook reqs (t', n', k') = Some u" "(t', n', k') \<noteq> (t, n, k)"
      using that unfolding hlook_remove by (simp_all split: if_splits)
    have "k' \<noteq> k"
    proof
      assume "k' = k"
      then have "t' = t \<and> n' = n" using ok l(1) assms(2) by blast
      then show False using l(2) \<open>k' = k\<close> by simp
    qed
    then show ?thesis using l(1) by simp
  qed
  have stored: "\<exists>h'. map_of (om_put k h heap) k' = Some h' \<and> \<not> rq_avail h'"
    if "hlook (fst (removeHandler t n k reqs)) (t', n', k') = Some u" for t' n' k' u
    using other [OF that] reqs_ok_stored(2) [OF assms(1), of t' n' k' u] by auto
  have slot: "t2 = t1 \<and> n2 = n1" if l: "hlook (fst (removeHandler t n k reqs)) (t1, n1, k') \<noteq> None"
      "hlook (fst (removeHandler t n k reqs)) (t2, n2, k') \<noteq> None" for t1 n1 t2 n2 k'
  proof -
    have "hlook reqs (t1, n1, k') \<noteq> None" "hlook reqs (t2, n2, k') \<noteq> None" using l other by blast+
    then show ?thesis using ok by blast
  qed
  have uid: "rq_uuid h' = k'" if "map_of (om_put k h heap) k' = Some h'" for k' h'
    using that assms(3) ok by (simp split: if_splits)
  have wf: "hs_wf id (fst (removeHandler t n k reqs))" by (rule hs_wf_remove [OF conjunct1 [OF ok]])
  show ?thesis by (rule reqs_okI [OF wf stored slot uid])
qed

lemma settles_response:
  "\<exists>out'. snd (handle_response P r (rt, out)) = out @ out' \<and> settles rt out' (fst (handle_response P r (rt, out)))"
proof (cases "getHandler (rs_topic r) (rs_node r) (rs_uuid r) (sr_req rt)")
  case None
  then show ?thesis by (simp add: handle_response_def se.refl)
next
  case (Some u)
  let ?k = "rs_uuid r"
  define nr where "nr = notifyResult P (rs_data r) (rs_result r = ''1'') (rq_at rt u)"
  define rt' where "rt' = rt\<lparr>sr_heap := om_put u (fst nr) (sr_heap rt),
    sr_req := fst (removeHandler (rs_topic r) (rs_node r) ?k (sr_req rt))\<rparr>"
  have eq: "handle_response P r (rt, out) = (rt', out @ snd nr)"
    using Some by (simp add: handle_response_def rt'_def nr_def split_def)
  have look: "hlook (sr_req rt) (rs_topic r, rs_node r, ?k) = Some u" using Some by (simp add: hlook_def)
  have fields: "rq_avail (fst nr)" "rq_requested (fst nr) = rq_requested (rq_at rt u)" "rq_uuid (fst nr) = rq_uuid (rq_at rt u)"
      "\<And>v. sent v (snd nr) = 0" "\<And>v. answered v (snd nr) \<le> (if v = rq_uuid (rq_at rt u) then 1 else 0)"
    by (simp_all add: nr_def) (simp_all add: notifyResult_def)
  have good: "reqs_ok (sr_req rt') (sr_heap rt') \<and>
      (\<forall>v. answered v (snd nr) + flagged rq_avail rt v \<le> flagged rq_avail rt' v)"
    if ok: "reqs_ok (sr_req rt) (sr_heap rt)"
  proof -
    obtain h where h: "u = ?k" "map_of (sr_heap rt) u = Some h" "\<not> rq_avail h" "rq_uuid h = u"
      using reqs_ok_stored [OF ok look] by auto
    then have at: "rq_at rt u = h" by (simp add: rq_at_def)
    have "answered v (snd nr) + flagged rq_avail rt v \<le> flagged rq_avail rt' v" for v
      using fields(1) fields(5) [of v] h at by (simp add: flagged_def rt'_def split: if_splits)
    then show ?thesis
      using reqs_ok_settled [OF ok, of "rs_topic r" "rs_node r" ?k "fst nr"] look fields(3) h at by (simp add: rt'_def)
  qed
  have "flagged rq_requested rt v \<le> flagged rq_requested rt' v" for v
    using fields(2) by (auto simp: flagged_def rt'_def rq_at_def split: option.split)
  then have "settles rt (snd nr) rt'" using good fields(4) by (simp add: settles_def rt'_def)
  then show ?thesis by (simp add: eq)
qed

lemma no_traffic_requests [simp]:
  "sent u (handleRequests P zok qs rt) = 0" "answered u (handleRequests P zok qs rt) = 0"
proof -
  have "sent u (handle_request P zok rt q) = 0 \<and> answered u (handle_request P zok rt q) = 0" for q
    by (simp add: handle_request_def Let_def split: option.split prod.split)
  then show "sent u (handleRequests P zok qs rt) = 0" "answered u (handleRequests P zok qs rt) = 0"
    by (induction qs) (simp_all add: handleRequests_def)
qed

lemma settles_handle:
  assumes "serviceHandle P zok rt = (rt', out)"
  shows "settles rt out rt'"
proof (cases "sr_exit rt")
  case True
  then show ?thesis using assms by (simp add: serviceHandle_def se.refl)
next
  case False
  let ?rt1 = "rt\<lparr>sr_requests := [], sr_responses := []\<rparr>"
  let ?out1 = "handleRequests P zok (sr_requests rt) ?rt1"
  have "settles rt ?out1 ?rt1" by (simp add: settles_def flagged_def)
  moreover have "settles ?rt1 (snd (handleResponses P (sr_responses rt) ?rt1)) (fst (handleResponses P (sr_responses rt) ?rt1))"
    using se.fold_effect [of "sr_responses rt" "\<lambda>_ _. True" "handle_response P" ?rt1 "[]", OF settles_response]
    by (simp add: handleResponses_def)
  ultimately show ?thesis
    using assms False settles_trans by (fastforce simp: serviceHandle_def Let_def split: prod.splits)
qed

section \<open>The steps of a runtime\<close>

text \<open>Every call may meet its own socket answers; a request comes with a handler of its own.\<close>

inductive sr_step :: "'m proto \<Rightarrow> 'm srv_rt \<Rightarrow> 'm sr_ev list \<Rightarrow> 'm srv_rt \<Rightarrow> bool" for P where
  ss_init: "sr_initialize bound rt = (rt', ok) \<Longrightarrow> sr_step P rt [] rt'"
| ss_start: "sr_step P rt [] (sr_start now rt)"
| ss_stop: "sr_step P rt [] (sr_stop rt)"
| ss_advertise: "sr_advertise P zconn zok t n h y z opts rt = Inr (rt', out, ok) \<Longrightarrow> sr_step P rt out rt'"
| ss_unadvertise: "sr_unadvertise P zconn zok t n rt = Inr (rt', out, ok) \<Longrightarrow> sr_step P rt out rt'"
| ss_request: "map_of (sr_heap rt) u = None \<Longrightarrow>
    sr_request P zconn zok t n (new_rq u n y z m cb) rt = Inr (rt', out, ok) \<Longrightarrow> sr_step P rt out rt'"
| ss_msg: "sr_discovery_msg P zconn zok ip m now rt = Inr (rt', out) \<Longrightarrow> sr_step P rt out rt'"
| ss_heartbeat: "sr_heartbeat P zconn zok now now2 rt = Inr (rt', out) \<Longrightarrow> sr_step P rt out rt'"
| ss_activity: "sr_activity P zconn zok now now2 rt = Inr (rt', out) \<Longrightarrow> sr_step P rt out rt'"
| ss_receive: "sr_step P rt [] (sr_receive_turn rep req rt)"
| ss_handle: "serviceHandle P zok rt = (rt', out) \<Longrightarrow> sr_step P rt out rt'"

inductive sr_run :: "'m proto \<Rightarrow> 'm srv_rt \<Rightarrow> 'm sr_ev list \<Rightarrow> 'm srv_rt \<Rightarrow> bool" for P rt0 where
  run_start: "sr_run P rt0 [] rt0"
| run_step: "sr_run P rt0 out rt \<Longrightarrow> sr_step P rt out' rt' \<Longrightarrow> sr_run P rt0 (out @ out') rt'"

text \<open>What every step keeps.\<close>

definition keeps :: "'m srv_rt \<Rightarrow> 'm sr_ev list \<Rightarrow> 'm srv_rt \<Rightarrow> bool" where
  "keeps rt out rt' \<longleftrightarrow> (sr_ok rt \<longrightarrow> sr_ok rt' \<and>
     (\<forall>u. sent u out + flagged rq_requested rt u \<le> flagged rq_requested rt' u \<and>
        answered u out + flagged rq_avail rt u \<le> flagged rq_avail rt' u))"

lemma keeps_trans: "keeps rt out1 rt1 \<Longrightarrow> keeps rt1 out2 rt2 \<Longrightarrow> keeps rt (out1 @ out2) rt2"
proof -
  assume 1: "keeps rt out1 rt1" and 2: "keeps rt1 out2 rt2"
  have "sent u out1 + sent u out2 + flagged rq_requested rt u \<le> flagged rq_requested rt2 u \<and>
      answered u out1 + answered u out2 + flagged rq_avail rt u \<le> flagged rq_avail rt2 u" if "sr_ok rt" for u
  proof -
    have "sent u out1 + flagged rq_requested rt u \<le> flagged rq_requested rt1 u"
        "sent u out2 + flagged rq_requested rt1 u \<le> flagged rq_requested rt2 u"
        "answered u out1 + flagged rq_avail rt u \<le> flagged rq_avail rt1 u"
        "answered u out2 + flagged rq_avail rt1 u \<le> flagged rq_avail rt2 u"
      using 1 2 that by (simp_all add: keeps_def)
    then show ?thesis by linarith
  qed
  then show ?thesis using 1 2 by (simp add: keeps_def)
qed

interpretation kp: effect keeps
  by unfold_locales (simp add: keeps_def, rule keeps_trans)

lemma flagged_core: "(\<And>h. f (core h) = f h) \<Longrightarrow>
    map_option core (map_of (sr_heap rt') u) = map_option core (map_of (sr_heap rt) u) \<Longrightarrow> flagged f rt' u = flagged f rt u"
  by (cases "map_of (sr_heap rt') u"; cases "map_of (sr_heap rt) u") (simp_all add: flagged_def, metis)

lemma keeps_traffic: "traffic rt out rt' \<Longrightarrow> keeps rt out rt'"
proof -
  assume t: "traffic rt out rt'"
  have "flagged rq_avail rt' u = flagged rq_avail rt u" for u
    using t by (intro flagged_core) (simp_all add: core_def traffic_def)
  then show ?thesis using t sr_ok_traffic [OF t] by (simp add: keeps_def traffic_def)
qed

lemma keeps_quiet: "sr_heap rt' = sr_heap rt \<Longrightarrow> (sr_ok rt \<Longrightarrow> sr_ok rt') \<Longrightarrow> keeps rt [] rt'"
  by (simp add: keeps_def flagged_def)

lemma keeps_events:
  assumes "sr_ok rt \<Longrightarrow> sr_ok rt1" "sr_heap rt1 = sr_heap rt" "sr_disc_events P zconn zok es rt1 = Inr (rt', out)"
  shows "keeps rt out rt'"
proof (cases "sr_ok rt")
  case True
  then have "sr_ok rt1" by (rule assms(1))
  then have "traffic rt1 out rt'" using traffic_events [OF _ assms(3)] by (simp add: sr_ok_def)
  from keeps_trans [OF keeps_quiet [OF assms(2,1)] keeps_traffic [OF this]] show ?thesis by simp
qed (simp add: keeps_def)

lemma sr_ok_disc: "sr_ok rt \<Longrightarrow> disc_ok srv_pub_wf d \<Longrightarrow> sr_ok (rt\<lparr>sr_disc := d\<rparr>)"
  by (simp add: sr_ok_def)

lemma reqs_ok_new:
  assumes "reqs_ok reqs heap" "map_of heap u = None" "rq_uuid h = u" "\<not> rq_avail h"
  shows "reqs_ok (addHandler id t n u reqs) (om_put u h heap)"
proof -
  note ok = assms(1) [unfolded reqs_ok_def]
  have free: "hlook reqs (t', n', u) = None" for t' n'
    using reqs_ok_stored(2) [OF assms(1), of t' n' u] assms(2) by (cases "hlook reqs (t', n', u)") auto
  have look: "hlook (addHandler id t n u reqs) = (hlook reqs)((t, n, u) \<mapsto> u)"
    using free by (simp add: hlook_add)
  have stored: "\<exists>h'. map_of (om_put u h heap) k = Some h' \<and> \<not> rq_avail h'"
    if "hlook (addHandler id t n u reqs) (t', n', k) = Some v" for t' n' k v
    using that assms(4) reqs_ok_stored(2) [OF assms(1), of t' n' k v] unfolding look by (auto split: if_splits)
  have slot: "t2 = t1 \<and> n2 = n1" if "hlook (addHandler id t n u reqs) (t1, n1, k) \<noteq> None"
      "hlook (addHandler id t n u reqs) (t2, n2, k) \<noteq> None" for t1 n1 t2 n2 k
  proof (cases "k = u")
    case True
    then show ?thesis using that free by (simp add: look split: if_splits)
  next
    case False
    then have "hlook reqs (t1, n1, k) \<noteq> None" "hlook reqs (t2, n2, k) \<noteq> None"
      using that unfolding look by (simp_all only: fun_upd_apply prod.inject) simp_all
    then show ?thesis using ok by blast
  qed
  have uid: "rq_uuid h' = k" if "map_of (om_put u h heap) k = Some h'" for k h'
    using that assms(3) ok by (simp split: if_splits)
  have wf: "hs_wf id (addHandler id t n u reqs)" by (rule hs_wf_add [OF conjunct1 [OF ok]])
  show ?thesis by (rule reqs_okI [OF wf stored slot uid])
qed

lemma keeps_request:
  assumes "map_of (sr_heap rt) (rq_uuid h) = None" "\<not> rq_avail h" "\<not> rq_requested h"
    and "sr_request P zconn zok t n h rt = Inr (rt', out, ok)"
  shows "keeps rt out rt'"
proof (cases "sr_getPublishers t rt")
  case None
  then show ?thesis using assms(4) by (simp add: sr_request_def kp.refl)
next
  case (Some a)
  let ?rt1 = "rt\<lparr>sr_heap := om_put (rq_uuid h) h (sr_heap rt), sr_req := addHandler id t n (rq_uuid h) (sr_req rt)\<rparr>"
  have send: "sendPendingRequests P zconn zok t (rq_req_type h) (rq_rep_type h) ?rt1 = Inr (rt', out)"
    using assms(4) Some by (auto simp: sr_request_def Let_def split: sum.splits)
  have ok1: "reqs_ok (sr_req ?rt1) (sr_heap ?rt1)" if "sr_ok rt"
    using reqs_ok_new [of "sr_req rt" "sr_heap rt" "rq_uuid h" h t n] assms(1,2) that by (simp add: sr_ok_def)
  then have 1: "keeps rt [] ?rt1" using assms(1-3) by (simp add: keeps_def flagged_def sr_ok_def)
  show ?thesis
  proof (cases "sr_ok rt")
    case True
    from kp.trans [OF 1 keeps_traffic [OF traffic_pending [OF ok1 [OF True] send]]] show ?thesis by simp
  qed (simp add: keeps_def)
qed

lemma keeps_advertise:
  assumes "sr_advertise P zconn zok t n h y z opts rt = Inr (rt', out, ok)"
  shows "keeps rt out rt'"
proof -
  let ?rt1 = "rt\<lparr>sr_resp := addHandler rp_uuid t n h (sr_resp rt)\<rparr>"
  let ?p = "mkServicePublisherInfo t (sr_replier_addr rt) (sr_replier_id rt) (sr_uuid rt) n y z opts"
  obtain d es b where adv: "disc_advertise srv_class ?p (sr_disc rt) = (d, es, b)"
    by (cases "disc_advertise srv_class ?p (sr_disc rt)")
  have "sr_ok (?rt1\<lparr>sr_disc := d\<rparr>)" if "sr_ok rt"
    using that sc.ok_advertise [of "sr_disc rt" ?p] adv by (simp add: sr_ok_def store_laws tight_add)
  then show ?thesis
    using assms adv by (auto simp: sr_advertise_def Let_def intro: keeps_events split: sum.splits)
qed

lemma keeps_unadvertise:
  assumes "sr_unadvertise P zconn zok t n rt = Inr (rt', out, ok)"
  shows "keeps rt out rt'"
proof -
  let ?rt1 = "rt\<lparr>sr_resp := fst (removeHandlersForNode t n (sr_resp rt))\<rparr>"
  obtain d es b where un: "disc_unadvertise srv_class t n (sr_disc rt) = (d, es, b)"
    by (cases "disc_unadvertise srv_class t n (sr_disc rt)")
  have "sr_ok (?rt1\<lparr>sr_disc := d\<rparr>)" if "sr_ok rt"
    using that sc.ok_unadvertise [of "sr_disc rt" t n] un
    by (simp add: sr_ok_def store_laws tight_removeNode [of rp_uuid])
  then show ?thesis
    using assms un by (auto simp: sr_unadvertise_def Let_def intro: keeps_events split: sum.splits)
qed

lemma keeps_receive: "keeps rt [] (sr_receive_turn rep req rt)"
proof -
  have "sr_heap (receiveRequest parts r) = sr_heap r" "sr_heap (receiveResponse parts r) = sr_heap r"
      "sr_ok (receiveRequest parts r) = sr_ok r" "sr_ok (receiveResponse parts r) = sr_ok r" for parts and r :: "'a srv_rt"
    by (simp_all add: receiveRequest_def receiveResponse_def sr_ok_def split: list.split)
  then show ?thesis by (intro keeps_quiet) (simp_all add: sr_receive_turn_def Let_def split: option.split)
qed

lemma keeps_step: "sr_step P rt out rt' \<Longrightarrow> keeps rt out rt'"
proof (induction rule: sr_step.induct)
  case (ss_init bound rt rt' ok)
  then show ?case
    by (auto simp: sr_initialize_def sr_ok_def intro!: keeps_quiet split: if_splits option.splits)
next
  case (ss_start rt now)
  show ?case by (rule keeps_quiet) (simp_all add: sr_start_def sr_ok_def)
next
  case (ss_stop rt)
  show ?case by (rule keeps_quiet) (simp_all add: sr_stop_def sr_ok_def)
next
  case (ss_advertise zconn zok t n h y z opts rt rt' out ok)
  then show ?case by (rule keeps_advertise)
next
  case (ss_unadvertise zconn zok t n rt rt' out ok)
  then show ?case by (rule keeps_unadvertise)
next
  case (ss_request rt u zconn zok t n y z m cb rt' out ok)
  then show ?case using keeps_request [of rt "new_rq u n y z m cb"] by (simp add: new_rq_def)
next
  case (ss_msg zconn zok ip m now rt rt' out)
  have "sr_ok (rt\<lparr>sr_disc := fst (dispatch srv_class ip m now (sr_disc rt))\<rparr>)" if "sr_ok rt"
    using that sc.ok_dispatch [of "sr_disc rt"] by (simp add: sr_ok_def)
  then show ?case using ss_msg by (auto simp: sr_discovery_msg_def split_def intro: keeps_events)
next
  case (ss_heartbeat zconn zok now now2 rt rt' out)
  have "sr_ok (rt\<lparr>sr_disc := fst (updateHeartbeat srv_class now now2 (sr_disc rt))\<rparr>)" if "sr_ok rt"
    using that sc.ok_heartbeat [of "sr_disc rt"] by (simp add: sr_ok_def)
  then show ?case using ss_heartbeat by (auto simp: sr_heartbeat_def split_def intro: keeps_events)
next
  case (ss_activity zconn zok now now2 rt rt' out)
  have "sr_ok (rt\<lparr>sr_disc := fst (updateActivity srv_class now now2 (sr_disc rt))\<rparr>)" if "sr_ok rt"
    using that sc.ok_activity [of "sr_disc rt"] by (simp add: sr_ok_def)
  then show ?case using ss_activity by (auto simp: sr_activity_def split_def intro: keeps_events)
next
  case (ss_receive rt rep req)
  show ?case by (rule keeps_receive)
next
  case (ss_handle zok rt rt' out)
  then show ?case using settles_handle [OF ss_handle] by (simp add: keeps_def settles_def sr_ok_def)
qed

lemma keeps_run: "sr_run P rt0 out rt \<Longrightarrow> keeps rt0 out rt"
  by (induction rule: sr_run.induct) (simp_all add: kp.refl keeps_trans keeps_step)

lemma sr_ok_new: "disc_ok srv_pub_wf d \<Longrightarrow> sr_ok (new_srv_rt d u host replier)"
  by (simp add: sr_ok_def new_srv_rt_def hs_tight_def reqs_ok_def hlook_get)

text \<open>
  C16: whatever a service runtime does from its creation on, its state stays well formed: the
  three storages keep their order and keys, and every request handler that is stored is on
  the heap under its own uuid, has not been answered, and is stored in one place only.
\<close>

theorem service_invariant:
  assumes "sr_run P (new_srv_rt d u host replier) out rt" "disc_ok srv_pub_wf d"
  shows "disc_ok srv_pub_wf (sr_disc rt) \<and> hs_wf rp_uuid (sr_resp rt) \<and> hs_wf id (sr_req rt) \<and>
    (hlook (sr_req rt) (t, n, k) = Some v \<longrightarrow> v = k \<and>
       (\<exists>h. map_of (sr_heap rt) k = Some h \<and> rq_uuid h = k \<and> \<not> rq_avail h) \<and>
       (\<forall>t' n'. hlook (sr_req rt) (t', n', k) \<noteq> None \<longrightarrow> t' = t \<and> n' = n))"
proof -
  have ok: "sr_ok rt"
    using keeps_run [OF assms(1)] sr_ok_new [OF assms(2), of u host replier] unfolding keeps_def by blast
  then have reqs: "reqs_ok (sr_req rt) (sr_heap rt)" by (simp add: sr_ok_def)
  have "v = k \<and> (\<exists>h. map_of (sr_heap rt) k = Some h \<and> rq_uuid h = k \<and> \<not> rq_avail h) \<and>
       (\<forall>t' n'. hlook (sr_req rt) (t', n', k) \<noteq> None \<longrightarrow> t' = t \<and> n' = n)"
    if l: "hlook (sr_req rt) (t, n, k) = Some v"
    using reqs_ok_stored [OF reqs l] reqs l unfolding reqs_ok_def by blast
  then show ?thesis using ok by (simp add: sr_ok_def reqs_ok_def)
qed

text \<open>
  C11: a service request is never sent twice and never answered twice. Whatever a runtime
  does from its creation on (requests with handlers of their own, discovery messages that
  connect services again and again, timer ticks, answers, repeated or forged ones included,
  failing sends that are tried again), at most one request message goes out for a handler,
  and its callback runs at most once.
\<close>

theorem request_once:
  assumes "sr_run P (new_srv_rt d u host replier) out rt" "disc_ok srv_pub_wf d"
  shows "sent k out \<le> 1 \<and> answered k out \<le> 1"
proof -
  have "sent k out \<le> flagged rq_requested rt k" "answered k out \<le> flagged rq_avail rt k"
    using keeps_run [OF assms(1)] sr_ok_new [OF assms(2), of u host replier] unfolding keeps_def
    by (blast dest: add_leD1)+
  moreover have "flagged f rt k \<le> 1" for f by (simp add: flagged_def split: option.split)
  ultimately show ?thesis using order_trans by blast
qed

end
