(* ===== verification/SrvCalls.thy ===== *)
theory SrvCalls
  imports SrvThms
begin

text \<open>
  One service call from end to end: a request waits until its service is discovered, goes to
  the service, is answered, and the answer reaches the handler that waits for it; and what
  a service's address that cannot be connected does.
\<close>

section \<open>Finding a responder\<close>

lemma responders_set:
  assumes "ts_wf d"
  shows "set (concat (map snd (om_get [] t d))) = {q \<in> ts_view d. p_topic q = t}"
proof -
  have "x \<in> set (concat (map snd (om_get [] t d))) \<longleftrightarrow> (\<exists>u. x \<in> set (entries d t u))" for x
  proof -
    have "om_wf (om_get [] t d)" by (rule pm_wf_om [OF pm_wf_at [OF assms]])
    note look = om_wf_lookup [OF this]
    have "x \<in> set (concat (map snd (om_get [] t d))) \<longleftrightarrow> (\<exists>u pl. (u, pl) \<in> set (om_get [] t d) \<and> x \<in> set pl)"
      by (simp add: Bex_def split_paired_Ex del: ex_simps)
    also have "\<dots> \<longleftrightarrow> (\<exists>u pl. map_of (om_get [] t d) u = Some pl \<and> x \<in> set pl)" unfolding look by (rule refl)
    finally show ?thesis by (simp add: entries_def in_om_get)
  qed
  then show ?thesis
    using ts_view_entries [OF assms] entries_key [OF assms] by blast
qed

lemma responders_get:
  "(case getPublishers t d of None \<Rightarrow> [] | Some a \<Rightarrow> a) = om_get [] t d"
  by (auto simp: getPublishers_def hasTopic_def om_has_def om_get_def split: option.split)

definition serves :: "string \<Rightarrow> string \<Rightarrow> string \<Rightarrow> srv_pub \<Rightarrow> bool" where
  "serves t y z q \<longleftrightarrow> p_topic q = t \<and> s_req q = y \<and> s_rep q = z"

lemma find_responder_Some:
  assumes "ts_wf d" "find_responder y z (om_get [] t d) = Some q"
  shows "q \<in> ts_view d \<and> serves t y z q"
proof -
  have "q \<in> set (concat (map snd (om_get [] t d)))" "s_req q = y \<and> s_rep q = z"
    using assms(2) unfolding find_responder_def find_Some_iff by (metis nth_mem)+
  then show ?thesis unfolding responders_set [OF assms(1), of t] by (simp add: serves_def)
qed

lemma find_responder_None:
  assumes "ts_wf d"
  shows "find_responder y z (om_get [] t d) = None \<longleftrightarrow> \<not> (\<exists>q \<in> ts_view d. serves t y z q)"
  unfolding find_responder_def find_None_iff responders_set [OF assms]
  by (auto simp: serves_def)

section \<open>Pending requests are sent\<close>

lemma send_others:
  assumes "k \<notin> snd ` set nks"
  shows "map_of (sr_heap (fst (fold (send_request P zok r t y z) nks s))) k = map_of (sr_heap (fst s)) k"
  using assms
proof (induction nks arbitrary: s)
  case (Cons nk nks)
  have "map_of (sr_heap (fst (send_request P zok r t y z nk s))) k = map_of (sr_heap (fst s)) k"
    using Cons.prems by (cases nk; cases s) (auto simp: send_request_def Let_def split: option.split)
  then show ?case using Cons by simp
qed simp

lemma fold_traffic:
  assumes "\<forall>nk \<in> set nks. map_of (sr_heap rt) (snd nk) \<noteq> None"
  shows "\<exists>out'. snd (fold (send_request P zok r t y z) nks (rt, out)) = out @ out' \<and>
    traffic rt out' (fst (fold (send_request P zok r t y z) nks (rt, out)))"
  by (rule tr.fold_effect [where Q = "\<lambda>nk s. map_of (sr_heap s) (snd nk) \<noteq> None"])
    (use assms in \<open>auto intro: traffic_send_request dest: traffic_heap\<close>)

text \<open>A handler that only lost its flag and has it again is the handler with the flag set.\<close>

lemma flagged_sent:
  assumes "traffic rt out rt'" "map_of (sr_heap rt) k = Some h" "rq_requested h"
  shows "map_of (sr_heap rt') k = Some h"
proof -
  obtain h' where h': "map_of (sr_heap rt') k = Some h'" "core h' = core h"
    using traffic_core [OF assms(1,2)] by blast
  have "flagged rq_requested rt k \<le> flagged rq_requested rt' k"
    using assms(1) unfolding traffic_def by (meson add_leD2)
  then have "rq_requested h'" using assms(2,3) h'(1) by (simp add: flagged_def split: if_splits)
  then have "h' = h" using h'(2) assms(3) by (cases h; cases h') (simp add: core_def)
  then show ?thesis using h'(1) by simp
qed

lemma pending_sends:
  fixes rt :: "'m srv_rt"
  assumes "reqs_ok (sr_req rt) (sr_heap rt)"
    and "find_responder y z (case sr_getPublishers t rt of None \<Rightarrow> [] | Some a \<Rightarrow> a) = Some r" "zconn (p_addr r)"
    and "hlook (sr_req rt) (t, n, k) = Some u" "map_of (sr_heap rt) k = Some h" "\<not> rq_requested h"
    and "rq_req_type h = y" "rq_rep_type h = z" "pr_ser P (rq_msg h) = Some data"
    and "zok [s_sock r, t, n, k, data, y, z]"
  shows "\<exists>rt' out. sendPendingRequests P zconn zok t y z rt = Inr (rt', out) \<and> traffic rt out rt' \<and>
    SRequest [s_sock r, t, n, k, data, y, z] \<in> set out \<and> map_of (sr_heap rt') k = Some (setRequested True h)"
proof -
  obtain rt1 out1 where c: "sr_connect zconn (p_addr r) rt = Inr (rt1, out1)" and same: "sr_heap rt1 = sr_heap rt" "sr_req rt1 = sr_req rt"
    using assms(3) by (cases "p_addr r \<in> sr_conns rt") (auto simp: sr_connect_def)
  obtain hs where hs: "getHandlers t (sr_req rt) = Some hs"
    using assms(4) by (auto simp: hlook_def getHandler_def getHandlers_def split: option.splits)
  have wf: "hs_wf id (sr_req rt)" using assms(1) by (simp add: reqs_ok_def)
  note keys = handler_keys_iff [OF wf hs]
  let ?f = "send_request P zok r t y z" and ?fr = "[s_sock r, t, n, k, data, y, z]"
  have "(n, k) \<in> set (handler_keys hs)" using keys assms(4) by simp
  then obtain xs ys where split: "handler_keys hs = xs @ (n, k) # ys" "(n, k) \<notin> set xs"
    by (meson split_list_first)
  have "k \<notin> snd ` set xs"
  proof
    assume "k \<in> snd ` set xs"
    then obtain n' where n': "(n', k) \<in> set xs" by auto
    then have "hlook (sr_req rt) (t, n', k) \<noteq> None" using keys split(1) by auto
    then have "n' = n" using assms(1,4) unfolding reqs_ok_def by blast
    then show False using n' split(2) by simp
  qed
  then have before: "map_of (sr_heap (fst (fold ?f xs (rt1, out1)))) k = Some h"
    using send_others [of k xs P zok r t y z "(rt1, out1)"] assms(5) same by simp
  obtain rt2 out2 where 2: "fold ?f xs (rt1, out1) = (rt2, out2)" by (cases "fold ?f xs (rt1, out1)")
  let ?rt3 = "rt2\<lparr>sr_heap := om_put k (setRequested True h) (sr_heap rt2)\<rparr>"
  have 3: "?f (n, k) (rt2, out2) = (?rt3, out2 @ [SRequest ?fr])"
    using before assms(6-10) 2 by (simp add: send_request_def rq_at_def rq_serialize_def)
  have sends: "sendPendingRequests P zconn zok t y z rt = Inr (fold ?f ys (?rt3, out2 @ [SRequest ?fr]))"
    using assms(2) c hs same split(1) 2 3 by (simp add: sendPendingRequests_def)
  have onheap: "\<forall>nk \<in> set (handler_keys hs). map_of (sr_heap rt1) (snd nk) \<noteq> None"
    using keys reqs_ok_stored(2) [OF assms(1)] same by fastforce
  obtain o2 where 4: "out2 = out1 @ o2" "traffic rt1 o2 rt2"
    using fold_traffic [of xs rt1 P zok r t y z out1] onheap 2 split(1) by auto
  have "traffic rt2 [SRequest ?fr] ?rt3"
    using before 2 assms(6) by (auto simp: traffic_def flagged_def setRequested_def core_def)
  then have 5: "traffic rt1 (o2 @ [SRequest ?fr]) ?rt3" using traffic_trans [OF 4(2)] by blast
  have "\<forall>nk \<in> set ys. map_of (sr_heap ?rt3) (snd nk) \<noteq> None"
    using onheap traffic_heap [OF 5] split(1) by auto
  then obtain o3 where 6: "snd (fold ?f ys (?rt3, out2 @ [SRequest ?fr])) = (out2 @ [SRequest ?fr]) @ o3"
      "traffic ?rt3 o3 (fst (fold ?f ys (?rt3, out2 @ [SRequest ?fr])))"
    using fold_traffic [of ys ?rt3 P zok r t y z "out2 @ [SRequest ?fr]"] by blast
  have all: "traffic rt (out1 @ (o2 @ [SRequest ?fr]) @ o3) (fst (fold ?f ys (?rt3, out2 @ [SRequest ?fr])))"
    using traffic_trans [OF traffic_connect [OF c] traffic_trans [OF 5 6(2)]] .
  have "map_of (sr_heap (fst (fold ?f ys (?rt3, out2 @ [SRequest ?fr])))) k = Some (setRequested True h)"
    using flagged_sent [OF 6(2), of k "setRequested True h"] by (simp add: setRequested_def)
  then show ?thesis
    using sends all 6(1) 4(1) by (cases "fold ?f ys (?rt3, out2 @ [SRequest ?fr])") auto
qed


section \<open>A service is discovered\<close>

lemma events_multicast:
  "sr_disc_events P zconn zok es rt = Inr (rt', out) \<Longrightarrow> Multicast m \<in> set es \<Longrightarrow> SMulticast m \<in> set out"
  by (induction es arbitrary: rt out) (auto split: sum.splits)

lemma service_connected:
  fixes rt :: "'m srv_rt"
  assumes "reqs_ok (sr_req rt) (sr_heap rt)"
    and "find_responder (s_req p) (s_rep p) (case sr_getPublishers (p_topic p) rt of None \<Rightarrow> [] | Some a \<Rightarrow> a) = Some p"
    and "zconn (p_addr p)" "hlook (sr_req rt) (p_topic p, n, k) = Some u" "map_of (sr_heap rt) k = Some h"
    and "\<not> rq_requested h" "rq_req_type h = s_req p" "rq_rep_type h = s_rep p" "pr_ser P (rq_msg h) = Some data"
    and "zok [s_sock p, p_topic p, n, k, data, s_req p, s_rep p]"
  shows "\<exists>rt' out. onServiceConnected P zconn zok p rt = Inr (rt', out) \<and> traffic rt out rt' \<and>
    SRequest [s_sock p, p_topic p, n, k, data, s_req p, s_rep p] \<in> set out \<and>
    map_of (sr_heap rt') k = Some (setRequested True h)"
proof -
  obtain rt1 out1 where c: "sr_connect zconn (p_addr p) rt = Inr (rt1, out1)"
      and same: "sr_heap rt1 = sr_heap rt" "sr_req rt1 = sr_req rt" "sr_disc rt1 = sr_disc rt"
    using assms(3) by (cases "p_addr p \<in> sr_conns rt") (auto simp: sr_connect_def)
  have ok1: "reqs_ok (sr_req rt1) (sr_heap rt1)" using assms(1) same by simp
  have wf: "hs_wf id (sr_req rt1)" using ok1 by (simp add: reqs_ok_def)
  have "u = k" using reqs_ok_stored(1) [OF assms(1,4)] .
  then have "rq_req_type (rq_at rt1 u) = s_req p \<and> rq_rep_type (rq_at rt1 u) = s_rep p"
    using assms(5,7,8) same by (simp add: rq_at_def)
  then have "getFirstHandler_types (\<lambda>u. rq_req_type (rq_at rt1 u)) (\<lambda>u. rq_rep_type (rq_at rt1 u))
      (p_topic p) (s_req p) (s_rep p) (sr_req rt1) \<noteq> None"
    using getFirst_types(2) [OF wf, of "\<lambda>u. rq_req_type (rq_at rt1 u)" "\<lambda>u. rq_rep_type (rq_at rt1 u)"
        "p_topic p" "s_req p" "s_rep p"] assms(4) same(2) by auto
  moreover obtain rt2 out2 where
      "sendPendingRequests P zconn zok (p_topic p) (s_req p) (s_rep p) rt1 = Inr (rt2, out2)" "traffic rt1 out2 rt2"
      "SRequest [s_sock p, p_topic p, n, k, data, s_req p, s_rep p] \<in> set out2"
      "map_of (sr_heap rt2) k = Some (setRequested True h)"
    using pending_sends [OF ok1, of "s_req p" "s_rep p" "p_topic p" p zconn n k u h P data zok] assms same
    by (auto simp: sr_getPublishers_def)
  ultimately show ?thesis
    using c traffic_trans [OF traffic_connect [OF c]] by (auto simp: onServiceConnected_def)
qed

text \<open>
  What an advertised service becomes at another process that knew none of the advertiser's
  for the topic: an endpoint, reported as connected.
\<close>

lemma advertised_discovered:
  assumes "sr_ok c" "d_proc (sr_disc s) = sr_uuid s" "sr_uuid s \<noteq> d_proc (sr_disc c)" "d_conn (sr_disc c)"
    and "sr_advertise P' zconn' zok' t n' g y z opts s = Inr (s1, sout, True)" "opt_scope opts = SCOPE_ALL"
    and "\<not> (\<exists>q \<in> ts_view (d_pubs (sr_disc c)). p_topic q = t \<and> p_proc q = sr_uuid s)"
  shows "\<exists>m d q. SMulticast m \<in> set sout \<and>
    sr_discovery_msg P zconn zok ip m now c = sr_disc_events P zconn zok [Connected q] (c\<lparr>sr_disc := d\<rparr>) \<and>
    sr_ok (c\<lparr>sr_disc := d\<rparr>) \<and> ts_view (d_pubs d) = insert q (ts_view (d_pubs (sr_disc c))) \<and>
    serves t y z q \<and> p_addr q = sr_replier_addr s \<and> s_sock q = sr_replier_id s"
proof -
  define p where "p = mkServicePublisherInfo t (sr_replier_addr s) (sr_replier_id s) (sr_uuid s) n' y z opts"
  define q where "q = p\<lparr>p_pname := d_pname (sr_disc s)\<rparr>"
  define m where "m = fillDiscovery_srv p (fillDiscovery_srv p (header ADVERTISE (sr_disc s)))"
  let ?s1 = "s\<lparr>sr_resp := addHandler rp_uuid t n' g (sr_resp s)\<rparr>"
  obtain d es where adv: "disc_advertise srv_class p (sr_disc s) = (d, es, True)"
      and ev: "sr_disc_events P' zconn' zok' es (?s1\<lparr>sr_disc := d\<rparr>) = Inr (s1, sout)"
    using assms(5) unfolding p_def by (auto simp: sr_advertise_def Let_def split: prod.splits sum.splits)
  have "Multicast m \<in> set es"
    using adv assms(6) by (auto simp: disc_advertise_def srv_class_def sendMsg_simps(4) m_def p_def
        split: if_splits prod.splits)
  then have sent: "SMulticast m \<in> set sout" by (rule events_multicast [OF ev])
  have q: "p_topic q = t" "p_addr q = sr_replier_addr s" "s_sock q = sr_replier_id s" "p_proc q = sr_uuid s"
      "s_req q = y" "s_rep q = z" "s_opts q = opts"
    by (simp_all add: q_def p_def)
  have hdr: "dm_process_uuid m = sr_uuid s" "dm_type m = ADVERTISE" "dm_process_name m = d_pname (sr_disc s)"
    using assms(2) by (simp_all add: m_def)
  have set: "setFromDiscovery_srv m x = q" for x
    using srv_roundtrip [of p "fillDiscovery_srv p (header ADVERTISE (sr_disc s))" x] hdr
    by (simp add: m_def q_def p_def)
  have neq: "dm_process_uuid m \<noteq> d_proc (sr_disc c)" using hdr(1) assms(3) by simp
  have ts: "ts_wf (d_pubs (sr_disc c))" using assms(1) by (simp add: sr_ok_def disc_ok_def)
  have nodup: "\<not> (\<exists>r \<in> ts_view (d_pubs (sr_disc c)). pub_key r = pub_key q)"
    using assms(7) q(1,4) by (auto simp: pub_key_def)
  then have added: "snd (addPublisher q (d_pubs (sr_disc c)))"
    using is_dup_view [OF ts, of q] by (simp add: addPublisher_result)
  let ?d = "(seen_by m now (sr_disc c))\<lparr>d_pubs := fst (addPublisher q (d_pubs (sr_disc c)))\<rparr>"
  have disp: "dispatch srv_class ip m now (sr_disc c) = (?d, [Connected q])"
    using dispatch_advertise [OF neq hdr(2), of srv_class ip now] set added assms(4,6) q(7)
    by (simp add: srv_class_def out_of_scope_def)
  have "disc_ok srv_pub_wf (fst (dispatch srv_class ip m now (sr_disc c)))"
    using assms(1) sc.ok_dispatch [of "sr_disc c" ip m now] by (simp add: sr_ok_def)
  then have "sr_ok (c\<lparr>sr_disc := ?d\<rparr>)" using assms(1) disp by (intro sr_ok_disc) simp_all
  moreover have "ts_view (d_pubs ?d) = insert q (ts_view (d_pubs (sr_disc c)))" using ts_view_add [OF ts, of q] nodup by simp
  moreover have "serves t y z q" using q by (simp add: serves_def)
  moreover have "sr_discovery_msg P zconn zok ip m now c = sr_disc_events P zconn zok [Connected q] (c\<lparr>sr_disc := ?d\<rparr>)"
    by (simp add: sr_discovery_msg_def disp)
  ultimately show ?thesis using sent q(2,3)
    by (intro exI [of _ m] exI [of _ ?d] exI [of _ q] conjI)
qed

text \<open>It is then found as the responder, when there is no other.\<close>

lemma only_responder:
  assumes "sr_ok c" "\<And>r. r \<in> ts_view (d_pubs (sr_disc c)) \<Longrightarrow> serves t y z r \<longleftrightarrow> r = q" "q \<in> ts_view (d_pubs (sr_disc c))"
  shows "\<exists>addrs. sr_getPublishers t c = Some addrs \<and> find_responder y z addrs = Some q"
proof -
  have ts: "ts_wf (d_pubs (sr_disc c))" using assms(1) by (simp add: sr_ok_def disc_ok_def)
  obtain r where r: "find_responder y z (om_get [] t (d_pubs (sr_disc c))) = Some r"
    using find_responder_None [OF ts, of y z t] assms(2,3) by (cases "find_responder y z (om_get [] t (d_pubs (sr_disc c)))") auto
  have "r = q" using find_responder_Some [OF ts r] assms(2) by blast
  then show ?thesis
    using r responders_get [of t "d_pubs (sr_disc c)"]
    by (auto simp: sr_getPublishers_def disc_getPublishers_def find_responder_def split: option.splits)
qed

text \<open>
  C31: a request that no service could take is sent as soon as one appears. When another
  process advertises a service of the topic and the two types, the ADVERTISE that goes out,
  once it arrives, makes a client that holds such a request and knew no such service send it
  to the service's socket, and the client knows the service from then on.
\<close>

theorem late_service_gets_request:
  assumes "sr_ok c" "sr_ok s" "d_proc (sr_disc s) = sr_uuid s" "sr_uuid s \<noteq> d_proc (sr_disc c)" "d_conn (sr_disc c)"
    and "sr_advertise P zconn' zok' t n' g y z opts s = Inr (s1, sout, True)" "opt_scope opts = SCOPE_ALL"
    and "\<not> (\<exists>q \<in> ts_view (d_pubs (sr_disc c)). serves t y z q)"
    and "\<not> (\<exists>q \<in> ts_view (d_pubs (sr_disc c)). p_topic q = t \<and> p_proc q = sr_uuid s)"
    and "hlook (sr_req c) (t, n, k) = Some u" "map_of (sr_heap c) k = Some h" "\<not> rq_requested h"
    and "rq_req_type h = y" "rq_rep_type h = z" "pr_ser P (rq_msg h) = Some data"
    and "zconn (sr_replier_addr s)" "zok [sr_replier_id s, t, n, k, data, y, z]"
  shows "\<exists>m c' out. SMulticast m \<in> set sout \<and> sr_discovery_msg P zconn zok ip m now c = Inr (c', out) \<and>
    SRequest [sr_replier_id s, t, n, k, data, y, z] \<in> set out \<and>
    map_of (sr_heap c') k = Some (setRequested True h) \<and> hasService t c'"
proof -
  obtain m d q where sent: "SMulticast m \<in> set sout"
      and disc: "sr_discovery_msg P zconn zok ip m now c = sr_disc_events P zconn zok [Connected q] (c\<lparr>sr_disc := d\<rparr>)"
      and ok: "sr_ok (c\<lparr>sr_disc := d\<rparr>)" and view: "ts_view (d_pubs d) = insert q (ts_view (d_pubs (sr_disc c)))"
      and q: "serves t y z q" "p_addr q = sr_replier_addr s" "s_sock q = sr_replier_id s"
    using advertised_discovered [OF assms(1,3-7,9), of P zconn zok ip now] by blast
  let ?c = "c\<lparr>sr_disc := d\<rparr>"
  have only: "serves t y z r \<longleftrightarrow> r = q" if "r \<in> ts_view (d_pubs (sr_disc ?c))" for r
    using that view q(1) assms(8) by auto
  have q': "p_topic q = t" "s_req q = y" "s_rep q = z" using q(1) by (simp_all add: serves_def)
  obtain addrs where addrs: "sr_getPublishers t ?c = Some addrs" "find_responder y z addrs = Some q"
    using only_responder [OF ok only] view by auto
  then have resp: "find_responder (s_req q) (s_rep q) (case sr_getPublishers (p_topic q) ?c of None \<Rightarrow> [] | Some a \<Rightarrow> a) = Some q"
    using q' by simp
  have "reqs_ok (sr_req ?c) (sr_heap ?c)" using ok by (simp add: sr_ok_def)
  then obtain c' out where con: "onServiceConnected P zconn zok q ?c = Inr (c', out)" "traffic ?c out c'"
      "SRequest [sr_replier_id s, t, n, k, data, y, z] \<in> set out" "map_of (sr_heap c') k = Some (setRequested True h)"
    using service_connected [OF _ resp, of zconn n k u h P data zok] assms(10-17) q q' by auto
  have "sr_getPublishers t c' = Some addrs" using addrs(1) con(2) by (simp add: sr_getPublishers_def traffic_def)
  then have "hasService t c'" by (simp add: hasService_def)
  then show ?thesis using sent con disc by auto
qed


section \<open>A call and its answer\<close>

text \<open>What the server's handler answers to the bytes of a request.\<close>

definition reply_frames :: "'m proto \<Rightarrow> 'm rp_handler \<Rightarrow> string \<Rightarrow> string \<Rightarrow> string \<Rightarrow> string \<Rightarrow> string \<Rightarrow> string list" where
  "reply_frames P g from t n k data = [from, t, n, k, fst (rp_runCallback P g data),
     if snd (rp_runCallback P g data) then ''1'' else ''0'']"

lemma request_served:
  assumes "\<not> sr_exit s" "sr_requests s = []" "getLocalHandler t y z s = Some g" "zok (reply_frames P g from t n k data)"
  shows "\<exists>s' out. serviceHandle P zok (sr_receive_turn (Some [from, t, n, k, data, y, z]) None s) = (s', out) \<and>
    SServe (rp_uuid g) data \<in> set out \<and> SReply (reply_frames P g from t n k data) \<in> set out"
proof -
  let ?q = "\<lparr>rr_routing = from, rr_topic = t, rr_node = n, rr_uuid = k, rr_data = data, rr_req_type = y, rr_rep_type = z\<rparr>"
  let ?s1 = "s\<lparr>sr_requests := [?q]\<rparr>"
  have s1: "sr_receive_turn (Some [from, t, n, k, data, y, z]) None s = ?s1"
    using assms(1,2) by (simp add: sr_receive_turn_def receiveRequest_def)
  have "handle_request P zok (?s1\<lparr>sr_requests := [], sr_responses := []\<rparr>) ?q =
      [SServe (rp_uuid g) data, SReply (reply_frames P g from t n k data)]"
    using assms(3,4) by (simp add: handle_request_def getLocalHandler_def reply_frames_def split_def)
  then have "set (handleRequests P zok [?q] (?s1\<lparr>sr_requests := [], sr_responses := []\<rparr>)) =
      {SServe (rp_uuid g) data, SReply (reply_frames P g from t n k data)}"
    by (simp add: handleRequests_def)
  then show ?thesis
    using assms(1) by (auto simp: s1 serviceHandle_def Let_def split_def)
qed

lemma response_answers:
  assumes "reqs_ok (sr_req c) (sr_heap c)" "\<not> sr_exit c" "sr_requests c = []" "sr_responses c = []"
    and "hlook (sr_req c) (t, n, k) = Some u" "map_of (sr_heap c) k = Some h"
  shows "\<exists>c'. serviceHandle P zok (sr_receive_turn None (Some [from, t, n, k, data, result]) c) =
      (c', snd (notifyResult P data (result = ''1'') h)) \<and>
    map_of (sr_heap c') k = Some (fst (notifyResult P data (result = ''1'') h)) \<and>
    getHandler t n k (sr_req c') = None"
proof -
  let ?r = "\<lparr>rs_topic = t, rs_node = n, rs_uuid = k, rs_data = data, rs_result = result\<rparr>"
  have c1: "sr_receive_turn None (Some [from, t, n, k, data, result]) c = c\<lparr>sr_responses := [?r]\<rparr>"
    using assms(2,4) by (simp add: sr_receive_turn_def receiveResponse_def)
  have "u = k" using reqs_ok_stored(1) [OF assms(1,5)] .
  then have "handle_response P ?r (c\<lparr>sr_requests := [], sr_responses := []\<rparr>, []) =
      (c\<lparr>sr_requests := [], sr_responses := [], sr_heap := om_put k (fst (notifyResult P data (result = ''1'') h)) (sr_heap c),
         sr_req := fst (removeHandler t n k (sr_req c))\<rparr>, snd (notifyResult P data (result = ''1'') h))"
    using assms(5,6) by (simp add: handle_response_def hlook_def rq_at_def split_def)
  then have "serviceHandle P zok (c\<lparr>sr_responses := [?r]\<rparr>) =
      (c\<lparr>sr_requests := [], sr_responses := [], sr_heap := om_put k (fst (notifyResult P data (result = ''1'') h)) (sr_heap c),
         sr_req := fst (removeHandler t n k (sr_req c))\<rparr>, snd (notifyResult P data (result = ''1'') h))"
    using assms(2,3) by (simp add: serviceHandle_def handleResponses_def handleRequests_def)
  moreover have "hlook (fst (removeHandler t n k (sr_req c))) (t, n, k) = None" by (simp add: hlook_remove)
  ultimately show ?thesis unfolding c1 by (simp add: hlook_def)
qed

lemma roundtrip_core:
  assumes "sr_ok c" "\<not> sr_exit c" "sr_requests c = []" "sr_responses c = []"
    and "map_of (sr_heap c) k = None" "sr_getPublishers t c = Some addrs" "find_responder y z addrs = Some r"
    and "zconn (p_addr r)" "pr_ser P m = Some data" "zok [s_sock r, t, n, k, data, y, z]"
    and "\<not> sr_exit s" "sr_requests s = []" "getLocalHandler t y z s = Some g"
    and "zok' (reply_frames P g idc t n k data)"
  shows "\<exists>c1 out1 s2 out2 c3 out3.
    sr_request P zconn zok t n (new_rq k n y z m cb) c = Inr (c1, out1, True) \<and>
    SRequest (s_sock r # [t, n, k, data, y, z]) \<in> set out1 \<and>
    serviceHandle P zok' (sr_receive_turn (Some (idc # [t, n, k, data, y, z])) None s) = (s2, out2) \<and>
    SReply (reply_frames P g idc t n k data) \<in> set out2 \<and>
    serviceHandle P zok (sr_receive_turn None (Some (ids # tl (reply_frames P g idc t n k data))) c1) = (c3, out3) \<and>
    getHandler t n k (sr_req c3) = None \<and> waitFor (rq_at c3 k) \<and>
    (if cb then out3 = [SAnswer k (fst (pr_parse P z (fst (rp_runCallback P g data)))) (snd (rp_runCallback P g data))]
     else out3 = [] \<and> rq_rep (rq_at c3 k) = fst (rp_runCallback P g data) \<and>
       rq_result (rq_at c3 k) = snd (rp_runCallback P g data))"
proof -
  define h where "h = new_rq k n y z m cb"
  let ?c0 = "c\<lparr>sr_heap := om_put k h (sr_heap c), sr_req := addHandler id t n k (sr_req c)\<rparr>"
  have h: "rq_uuid h = k" "\<not> rq_avail h" "\<not> rq_requested h" "rq_req_type h = y" "rq_rep_type h = z" "rq_msg h = m" "rq_cb h = cb"
    by (simp_all add: h_def new_rq_def)
  have ok: "reqs_ok (sr_req c) (sr_heap c)" using assms(1) by (simp add: sr_ok_def)
  have ok0: "reqs_ok (sr_req ?c0) (sr_heap ?c0)" using reqs_ok_new [OF ok assms(5) h(1,2)] by simp
  have "hlook (sr_req c) (t, n, k) = None"
    using reqs_ok_stored(2) [OF ok, of t n k] assms(5) by (cases "hlook (sr_req c) (t, n, k)") auto
  then have look: "hlook (sr_req ?c0) (t, n, k) = Some k" by (simp add: hlook_add)
  have resp: "find_responder y z (case sr_getPublishers t ?c0 of None \<Rightarrow> [] | Some a \<Rightarrow> a) = Some r"
    using assms(6,7) by (simp add: sr_getPublishers_def)
  obtain c1 out1 where c1: "sendPendingRequests P zconn zok t y z ?c0 = Inr (c1, out1)" "traffic ?c0 out1 c1"
      "SRequest [s_sock r, t, n, k, data, y, z] \<in> set out1" "map_of (sr_heap c1) k = Some (setRequested True h)"
    using pending_sends [OF ok0 resp, of zconn n k k h P data zok] assms(8-10) look h by auto
  have req: "sr_request P zconn zok t n h c = Inr (c1, out1, True)"
    using assms(6) c1(1) h by (simp add: sr_request_def)
  have c1f: "sr_req c1 = sr_req ?c0" "\<not> sr_exit c1" "sr_requests c1 = []" "sr_responses c1 = []"
    using c1(2) assms(2-4) by (simp_all add: traffic_def)
  obtain s2 out2 where s2: "serviceHandle P zok' (sr_receive_turn (Some [idc, t, n, k, data, y, z]) None s) = (s2, out2)"
      "SReply (reply_frames P g idc t n k data) \<in> set out2"
    using request_served [OF assms(11-13), of zok' P idc n k data] assms(14) by blast
  let ?ok = "snd (rp_runCallback P g data)" and ?rep = "fst (rp_runCallback P g data)"
  let ?res = "if ?ok then ''1'' else ''0''"
  have "hlook (sr_req c1) (t, n, k) = Some k" using look c1f(1) by simp
  then obtain c3 where c3: "serviceHandle P zok (sr_receive_turn None (Some [ids, t, n, k, ?rep, ?res]) c1) =
        (c3, snd (notifyResult P ?rep ?ok (setRequested True h)))"
      "map_of (sr_heap c3) k = Some (fst (notifyResult P ?rep ?ok (setRequested True h)))" "getHandler t n k (sr_req c3) = None"
    using response_answers [OF reqs_ok_traffic [OF c1(2) ok0] c1f(2-4) _ c1(4), of t n k P zok ids ?rep ?res] by auto
  have at: "rq_at c3 k = fst (notifyResult P ?rep ?ok (setRequested True h))" using c3(2) by (simp add: rq_at_def)
  have frames: "ids # tl (reply_frames P g idc t n k data) = [ids, t, n, k, ?rep, ?res]" by (simp add: reply_frames_def)
  have ans: "waitFor (rq_at c3 k)" by (simp add: at waitFor_def)
  have "if cb then snd (notifyResult P ?rep ?ok (setRequested True h)) = [SAnswer k (fst (pr_parse P z ?rep)) ?ok]
     else snd (notifyResult P ?rep ?ok (setRequested True h)) = [] \<and> rq_rep (rq_at c3 k) = ?rep \<and> rq_result (rq_at c3 k) = ?ok"
    using h by (simp add: at notifyResult_def setRequested_def rq_createMsg_def split_def)
  with req c1(3) s2 c3(1,3) ans show ?thesis unfolding h_def [symmetric] frames by blast
qed

text \<open>
  A remote service call. A client that knows a service of the topic and the types and
  issues a request with a fresh handler sends one message to that service's socket. The
  server that gets it (with the client's routing id in front) runs the first of its handlers
  of the topic and the types on the request's bytes and replies with what the callback
  answered, or with a failure when the callback refused. The client that gets the reply
  removes the handler and marks it answered; the handler's callback runs once with the
  parsed reply and the verdict, or, when there is none, the waiting caller finds the reply's
  bytes and the verdict.
\<close>

theorem service_roundtrip:
  assumes "sr_ok c" "\<not> sr_exit c" "sr_requests c = []" "sr_responses c = []"
    and "map_of (sr_heap c) k = None" "sr_getPublishers t c = Some addrs" "find_responder y z addrs = Some r"
    and "zconn (p_addr r)" "pr_ser P m = Some data" "zok [s_sock r, t, n, k, data, y, z]"
    and "\<not> sr_exit s" "sr_requests s = []" "getLocalHandler t y z s = Some g"
    and "zok' (reply_frames P g idc t n k data)"
  shows "\<exists>c1 out1 s2 out2 c3 out3.
    sr_request P zconn zok t n (new_rq k n y z m cb) c = Inr (c1, out1, True) \<and>
    SRequest (s_sock r # [t, n, k, data, y, z]) \<in> set out1 \<and>
    serviceHandle P zok' (sr_receive_turn (Some (idc # [t, n, k, data, y, z])) None s) = (s2, out2) \<and>
    SReply (reply_frames P g idc t n k data) \<in> set out2 \<and>
    serviceHandle P zok (sr_receive_turn None (Some (ids # tl (reply_frames P g idc t n k data))) c1) = (c3, out3) \<and>
    getHandler t n k (sr_req c3) = None \<and> waitFor (rq_at c3 k) \<and>
    (if cb then out3 = [SAnswer k (fst (pr_parse P z (fst (rp_runCallback P g data)))) (snd (rp_runCallback P g data))]
     else out3 = [] \<and> rq_rep (rq_at c3 k) = fst (rp_runCallback P g data) \<and>
       rq_result (rq_at c3 k) = snd (rp_runCallback P g data))"
  by (rule roundtrip_core [where zok = zok and zok' = zok' and zconn = zconn, OF assms])


section \<open>An address that cannot be connected\<close>

text \<open>
  C37: connecting to a service is not guarded. When another process advertises a new service
  in scope with an address the socket's connect rejects, the exception leaves the discovery
  callback: the dispatch of the message has no result but that exception.
\<close>

theorem bad_address_throws:
  assumes "dm_process_uuid m \<noteq> d_proc (sr_disc c)" "dm_type m = ADVERTISE" "d_conn (sr_disc c)" "ts_wf (d_pubs (sr_disc c))"
    and "setFromDiscovery_srv m new_srv_pub = q"
    and "\<not> out_of_scope (opt_scope (s_opts q)) (is_sender_local ip (sr_disc c))"
    and "\<not> (\<exists>r \<in> ts_view (d_pubs (sr_disc c)). pub_key r = pub_key q)"
    and "p_addr q \<notin> sr_conns c" "\<not> zconn (p_addr q)"
  shows "sr_discovery_msg P zconn zok ip m now c = Inl (ConnectThrew (p_addr q))"
proof -
  have "snd (addPublisher q (d_pubs (sr_disc c)))"
    using assms(7) is_dup_view [OF assms(4), of q] by (simp add: addPublisher_result)
  moreover have "pc_set srv_class m (pc_new srv_class) = q" "pc_scope srv_class q = opt_scope (s_opts q)"
    using assms(5) by (simp_all add: srv_class_def)
  ultimately have "snd (dispatch srv_class ip m now (sr_disc c)) = [Connected q]"
    using dispatch_advertise [OF assms(1,2), of srv_class ip now] assms(3,6) by simp
  then show ?thesis
    using assms(8,9) by (simp add: sr_discovery_msg_def split_def onServiceConnected_def sr_connect_def)
qed

section \<open>A server and a client\<close>

definition echo :: "string rp_handler" where
  "echo = \<lparr>rp_uuid = ''g1'', rp_req_type = ''Q'', rp_rep_type = ''A'', rp_cb = Some (\<lambda>q. (True, q @ ''!''))\<rparr>"

definition server :: "string srv_rt" where
  "server = (new_srv_rt (node_disc ''uS'' ''10.0.0.1'') ''uS'' ''10.0.0.1'' ''idS'')\<lparr>sr_replier_addr := ''tcp://10.0.0.1:7''\<rparr>"

definition server_up :: "string srv_rt" where
  "server_up = server\<lparr>sr_resp := addHandler rp_uuid ''svc'' ''n1'' echo []\<rparr>"

definition echo_pub :: srv_pub where
  "echo_pub = mkServicePublisherInfo ''svc'' ''tcp://10.0.0.1:7'' ''idS'' ''uS'' ''n1'' ''Q'' ''A'' new_opts"

definition client :: "string srv_rt" where
  "client = new_srv_rt (node_disc ''uC'' ''10.0.0.1'') ''uC'' ''10.0.0.1'' ''idR''"

definition client_up :: "string srv_rt" where
  "client_up = client\<lparr>sr_disc := (node_disc ''uC'' ''10.0.0.1'')\<lparr>d_pubs := fst (addPublisher echo_pub [])\<rparr>\<rparr>"

lemma runtime_simps [simp]:
  "sr_disc client = node_disc ''uC'' ''10.0.0.1''" "sr_heap client = []" "sr_req client = []" "sr_conns client = {}"
  "\<not> sr_exit client" "sr_requests client = []" "sr_responses client = []"
  "sr_disc server = node_disc ''uS'' ''10.0.0.1''" "sr_uuid server = ''uS''" "sr_replier_addr server = ''tcp://10.0.0.1:7''"
  "sr_replier_id server = ''idS''" "\<not> sr_exit server" "sr_requests server = []" "sr_resp server = []"
  by (simp_all add: client_def server_def new_srv_rt_def)

lemma node_ok: "disc_ok srv_pub_wf (node_disc u host)"
  by (simp add: disc_ok_def ts_view_def)

lemma runtimes_ok: "sr_ok client" "sr_ok server" "sr_ok client_up"
proof -
  show 1: "sr_ok client" "sr_ok server"
    using sr_ok_new [OF node_ok] by (simp_all add: client_def server_def sr_ok_def new_srv_rt_def)
  have "disc_ok srv_pub_wf ((node_disc ''uC'' ''10.0.0.1'')\<lparr>d_pubs := fst (addPublisher echo_pub [])\<rparr>)"
    using ts_wf_add [OF ts_wf_Nil, of echo_pub] ts_view_add [OF ts_wf_Nil, of echo_pub]
    by (simp add: disc_ok_def ts_view_def echo_pub_def)
  then show "sr_ok client_up" using 1(1) sr_ok_disc by (simp add: client_up_def)
qed

lemma client_pubs: "sr_getPublishers ''svc'' client_up = Some [(''uS'', [echo_pub])]"
  by (simp add: sr_getPublishers_def disc_getPublishers_def client_up_def addPublisher_def getPublishers_def
      hasTopic_def om_has_def om_get_def Let_def echo_pub_def)

lemma echo_local: "getLocalHandler ''svc'' ''Q'' ''A'' server_up = Some echo"
  by (simp add: getLocalHandler_def getFirstHandler_types_def server_up_def addHandler_def om_get_def om_emplace_def
      all_handlers_def echo_def)

lemma echo_runs: "rp_runCallback text_proto echo ''hi'' = (''hi!'', True)"
  by (simp add: rp_runCallback_def echo_def rp_createMsg_def text_proto_def)

theorem service_roundtrip_witness:
  "\<exists>c1 out1 s2 out2 c3.
    sr_request text_proto (\<lambda>_. True) (\<lambda>_. True) ''svc'' ''n2'' (new_rq ''r1'' ''n2'' ''Q'' ''A'' ''hi'' True) client_up =
      Inr (c1, out1, True) \<and>
    SRequest [''idS'', ''svc'', ''n2'', ''r1'', ''hi'', ''Q'', ''A''] \<in> set out1 \<and>
    serviceHandle text_proto (\<lambda>_. True) (sr_receive_turn (Some [''idR'', ''svc'', ''n2'', ''r1'', ''hi'', ''Q'', ''A'']) None server_up) =
      (s2, out2) \<and>
    SReply [''idR'', ''svc'', ''n2'', ''r1'', ''hi!'', ''1''] \<in> set out2 \<and>
    serviceHandle text_proto (\<lambda>_. True) (sr_receive_turn None (Some [''idS'', ''svc'', ''n2'', ''r1'', ''hi!'', ''1'']) c1) =
      (c3, [SAnswer ''r1'' ''hi!'' True])"
proof -
  have ex: "\<not> sr_exit client_up" "sr_requests client_up = []" "sr_responses client_up = []" "map_of (sr_heap client_up) ''r1'' = None"
      "\<not> sr_exit server_up" "sr_requests server_up = []" "s_sock echo_pub = ''idS''"
    by (simp_all add: client_up_def server_up_def echo_pub_def)
  have resp: "find_responder ''Q'' ''A'' [(''uS'', [echo_pub])] = Some echo_pub"
    by (simp add: find_responder_def echo_pub_def)
  have ser: "pr_ser text_proto ''hi'' = Some ''hi''" by (simp add: text_proto_def)
  have frames: "reply_frames text_proto echo ''idR'' ''svc'' ''n2'' ''r1'' ''hi'' = [''idR'', ''svc'', ''n2'', ''r1'', ''hi!'', ''1'']"
    by (simp add: reply_frames_def echo_runs)
  have parse: "fst (pr_parse text_proto y d) = d" for y d by (simp add: text_proto_def)
  show ?thesis
    using service_roundtrip [OF runtimes_ok(3) ex(1-4) client_pubs resp, of "\<lambda>_. True" text_proto "''hi''" "''hi''" "\<lambda>_. True"
        "''n2''" server_up echo "\<lambda>_. True" "''idR''" True "''idS''", OF TrueI ser TrueI ex(5,6) echo_local TrueI]
    by (simp add: frames echo_runs ex(7) parse) blast
qed


theorem bad_address_throws_witness:
  "sr_discovery_msg text_proto (\<lambda>_. False) (\<lambda>_. True) ''10.0.0.1''
     (fillDiscovery_srv echo_pub (header ADVERTISE (sr_disc server))) 5 client = Inl (ConnectThrew ''tcp://10.0.0.1:7'')"
proof -
  let ?m = "fillDiscovery_srv echo_pub (header ADVERTISE (sr_disc server))"
  have set: "setFromDiscovery_srv ?m new_srv_pub = echo_pub\<lparr>p_pname := dm_process_name ?m\<rparr>"
    using srv_roundtrip [of echo_pub "header ADVERTISE (sr_disc server)" new_srv_pub] by (simp add: echo_pub_def)
  show ?thesis
    using bad_address_throws [OF _ _ _ _ set, of client "''10.0.0.1''" "\<lambda>_. False" text_proto "\<lambda>_. True" 5]
    by (simp add: echo_pub_def out_of_scope_def new_opts_def ts_view_def)
qed

text \<open>A client that asked before the service was there: another service of the topic was known.\<close>

definition waiting :: "string srv_rt" where
  "waiting = client\<lparr>sr_heap := om_put ''r1'' (new_rq ''r1'' ''n2'' ''Q'' ''A'' ''hi'' True) [],
     sr_req := addHandler id ''svc'' ''n2'' ''r1'' []\<rparr>"

theorem late_service_gets_request_witness:
  "\<exists>s1 sout m c' out.
     sr_advertise text_proto (\<lambda>_. True) (\<lambda>_. True) ''svc'' ''n1'' echo ''Q'' ''A'' new_opts server = Inr (s1, sout, True) \<and>
     SMulticast m \<in> set sout \<and>
     sr_discovery_msg text_proto (\<lambda>_. True) (\<lambda>_. True) ''10.0.0.1'' m 5 waiting = Inr (c', out) \<and>
     SRequest [''idS'', ''svc'', ''n2'', ''r1'', ''hi'', ''Q'', ''A''] \<in> set out"
proof -
  have adv: "\<exists>s1 sout. sr_advertise text_proto (\<lambda>_. True) (\<lambda>_. True) ''svc'' ''n1'' echo ''Q'' ''A'' new_opts server = Inr (s1, sout, True)"
    by (simp add: sr_advertise_def Let_def disc_advertise_def addPublisher_def om_get_def srv_class_def sendMsg_simps(4)
        onServiceConnected_def sr_connect_def server_def new_srv_rt_def getFirstHandler_types_def new_opts_def)
  obtain s1 sout where s1: "sr_advertise text_proto (\<lambda>_. True) (\<lambda>_. True) ''svc'' ''n1'' echo ''Q'' ''A'' new_opts server = Inr (s1, sout, True)"
    using adv by blast
  have ok: "sr_ok waiting"
    using runtimes_ok(1) reqs_ok_new [of "[]" "[]" "''r1''" "new_rq ''r1'' ''n2'' ''Q'' ''A'' ''hi'' True" "''svc''" "''n2''"]
    by (simp add: sr_ok_def waiting_def new_rq_def)
  have look: "hlook (sr_req waiting) (''svc'', ''n2'', ''r1'') = Some ''r1''" by (simp add: waiting_def hlook_add hlook_get)
  have heap: "map_of (sr_heap waiting) ''r1'' = Some (new_rq ''r1'' ''n2'' ''Q'' ''A'' ''hi'' True)" by (simp add: waiting_def)
  have "\<exists>m c' out. SMulticast m \<in> set sout \<and>
     sr_discovery_msg text_proto (\<lambda>_. True) (\<lambda>_. True) ''10.0.0.1'' m 5 waiting = Inr (c', out) \<and>
     SRequest [sr_replier_id server, ''svc'', ''n2'', ''r1'', ''hi'', ''Q'', ''A''] \<in> set out \<and>
     map_of (sr_heap c') ''r1'' = Some (setRequested True (new_rq ''r1'' ''n2'' ''Q'' ''A'' ''hi'' True)) \<and> hasService ''svc'' c'"
    by (rule late_service_gets_request [OF ok runtimes_ok(2) _ _ _ s1 _ _ _ look heap])
      (simp_all add: waiting_def ts_view_def new_opts_def new_rq_def text_proto_def)
  then show ?thesis using s1 by auto
qed

text \<open>The client learns of the service, then asks.\<close>

lemma sample_run:
  "\<exists>out rt. sr_run text_proto client out rt \<and> sent ''r1'' out = 1 \<and>
     hlook (sr_req rt) (''svc'', ''n2'', ''r1'') = Some ''r1''"
proof -
  let ?m = "fillDiscovery_srv echo_pub (header ADVERTISE (sr_disc server))"
  define q where "q = echo_pub\<lparr>p_pname := dm_process_name ?m\<rparr>"
  have q: "p_topic q = ''svc''" "p_addr q = ''tcp://10.0.0.1:7''" "p_proc q = ''uS''" "s_req q = ''Q''" "s_rep q = ''A''"
      "s_sock q = ''idS''" "opt_scope (s_opts q) = SCOPE_ALL"
    by (simp_all add: q_def echo_pub_def new_opts_def)
  have set: "pc_set srv_class ?m (pc_new srv_class) = q" "pc_scope srv_class q = SCOPE_ALL"
  proof -
    have wf: "srv_pub_wf echo_pub" "dm_process_uuid (header ADVERTISE (sr_disc server)) = p_proc echo_pub"
      by (simp_all add: echo_pub_def)
    have "setFromDiscovery_srv ?m new_srv_pub = q" using srv_roundtrip [OF wf, of new_srv_pub] by (simp add: q_def)
    then show "pc_set srv_class ?m (pc_new srv_class) = q" by (simp only: srv_class_def pub_class.select_convs)
    show "pc_scope srv_class q = SCOPE_ALL" using q(7) by (simp only: srv_class_def pub_class.select_convs)
  qed
  have "dm_process_uuid ?m \<noteq> d_proc (sr_disc client)" "dm_type ?m = ADVERTISE" by simp_all
  note disp = dispatch_advertise [OF this, of srv_class "''10.0.0.1''" 5, unfolded set]
  define c1 where "c1 = client\<lparr>sr_disc := (seen_by ?m 5 (node_disc ''uC'' ''10.0.0.1''))\<lparr>d_pubs := fst (addPublisher q [])\<rparr>,
     sr_conns := {''tcp://10.0.0.1:7''}\<rparr>"
  have 1: "sr_discovery_msg text_proto (\<lambda>_. True) (\<lambda>_. True) ''10.0.0.1'' ?m 5 client = Inr (c1, [SConnect ''tcp://10.0.0.1:7''])"
    using q disp by (simp add: c1_def sr_discovery_msg_def out_of_scope_def onServiceConnected_def sr_connect_def
        getFirstHandler_types_def addPublisher_def om_get_def)
  have pubs: "sr_getPublishers ''svc'' c1 = Some [(''uS'', [q])]"
    using q by (simp add: c1_def sr_getPublishers_def disc_getPublishers_def getPublishers_def hasTopic_def om_has_def
        addPublisher_def om_get_def Let_def)
  let ?h = "new_rq ''r1'' ''n2'' ''Q'' ''A'' ''hi'' True"
  have heap: "map_of (sr_heap c1) ''r1'' = None" by (simp add: c1_def)
  let ?c2 = "c1\<lparr>sr_heap := om_put ''r1'' ?h [], sr_req := addHandler id ''svc'' ''n2'' ''r1'' []\<rparr>"
  have ok: "reqs_ok (sr_req ?c2) (sr_heap ?c2)"
    using reqs_ok_new [of "[]" "[]" "''r1''" ?h "''svc''" "''n2''"] runtimes_ok(1) by (simp add: sr_ok_def new_rq_def)
  have look: "hlook (sr_req ?c2) (''svc'', ''n2'', ''r1'') = Some ''r1''" by (simp add: hlook_add hlook_get)
  obtain rt out where 2: "sendPendingRequests text_proto (\<lambda>_. True) (\<lambda>_. True) ''svc'' ''Q'' ''A'' ?c2 = Inr (rt, out)"
      "traffic ?c2 out rt" "SRequest [''idS'', ''svc'', ''n2'', ''r1'', ''hi'', ''Q'', ''A''] \<in> set out"
    using pending_sends [OF ok _ _ look, of "''Q''" "''A''" q "\<lambda>_. True" ?h text_proto "''hi''" "\<lambda>_. True"] pubs q
    by (auto simp: sr_getPublishers_def find_responder_def new_rq_def text_proto_def)
  have "sr_request text_proto (\<lambda>_. True) (\<lambda>_. True) ''svc'' ''n2'' ?h c1 = Inr (rt, out, True)"
    using 2(1) pubs by (simp add: sr_request_def c1_def new_rq_def)
  from run_step [OF run_step [OF run_start ss_msg [OF 1]] ss_request [OF heap this]]
  have run: "sr_run text_proto client ([SConnect ''tcp://10.0.0.1:7''] @ out) rt" by simp
  have "sent ''r1'' out \<noteq> 0" using 2(3) by (force simp: sent_def filter_empty_conv)
  moreover have "sent ''r1'' out \<le> flagged rq_requested rt ''r1''" using 2(2) unfolding traffic_def by (meson add_leD1)
  moreover have "flagged rq_requested rt ''r1'' \<le> 1" by (simp add: flagged_def split: option.split)
  ultimately have "sent ''r1'' out = 1" by linarith
  moreover have "sr_req rt = sr_req ?c2" using 2(2) by (simp add: traffic_def)
  ultimately show ?thesis using run look by (intro exI [of _ "[SConnect ''tcp://10.0.0.1:7''] @ out"] exI [of _ rt]) simp
qed

theorem request_once_witness:
  "\<exists>out rt. sr_run text_proto client out rt \<and> sent ''r1'' out = 1 \<and> answered ''r1'' out \<le> 1"
  using sample_run request_once [OF _ node_ok, of text_proto "''uC''" "''10.0.0.1''" "''uC''" "''10.0.0.1''" "''idR''"]
  unfolding client_def by blast

theorem service_invariant_witness:
  "\<exists>out rt h. sr_run text_proto client out rt \<and> hlook (sr_req rt) (''svc'', ''n2'', ''r1'') = Some ''r1'' \<and>
     map_of (sr_heap rt) ''r1'' = Some h \<and> \<not> rq_avail h"
  using sample_run service_invariant [OF _ node_ok, of text_proto "''uC''" "''10.0.0.1''" "''uC''" "''10.0.0.1''" "''idR''"]
  unfolding client_def by blast

end
