(* ===== verification/NodeApi.thy ===== *)
theory NodeApi
  imports SrvRuntime Complex_Main
begin

text \<open>
  The classes a program uses: NodeShared (src/node_shared.cc), the per-process object that
  owns both runtimes, Node (include/trans/node.hpp, src/node.cc) and Publisher
  (src/publisher.cc). A node's own state is its uuid and three sets of topics; what its
  methods do to the shared object is done by the runtimes. The service runtime is a pointer
  that stays null when the message runtime could not be initialised: a call through it is
  the left side of a result, as is an exception of the runtime.
\<close>

section \<open>NodeShared\<close>

record 'm shared =
  ns_msg :: "'m msg_rt"
  ns_srv :: "'m srv_rt option"

datatype 'm node_ev = OnMsg "'m rt_ev" | OnSrv "'m sr_ev" | OnReply 'm bool

datatype node_fail = NullService | ServiceThrew srv_throw

text \<open>
  The constructor. A Discovery constructor may throw; then so does this one. \<open>io_msg\<close> and
  \<open>io_srv\<close> are what the system answers the two of them, \<open>msg_bound\<close> and \<open>srv_bound\<close> the
  endpoints the two \<open>initialize\<close> calls get (see there), \<open>now\<close> and
  \<open>now2\<close> the clock when the two runtimes start.
\<close>

definition kMessageDiscoveryPort :: int where "kMessageDiscoveryPort = 10319"
definition kServiceDiscoveryPort :: int where "kServiceDiscoveryPort = 10320"
definition discovery_ip :: string where "discovery_ip = ''239.255.0.7''"

definition new_shared ::
  "(string \<Rightarrow> u32 option) \<Rightarrow> net_io \<Rightarrow> net_io \<Rightarrow> string \<Rightarrow> string \<Rightarrow> (string \<times> bool) option \<Rightarrow> (string \<times> bool) option \<Rightarrow> int \<Rightarrow> int \<Rightarrow>
   init_error + 'm shared" where
  "new_shared pton io_msg io_srv p_uuid replier_id msg_bound srv_bound now now2 =
     (case mkDiscovery pton io_msg p_uuid discovery_ip kMessageDiscoveryPort [] of
        Inl e \<Rightarrow> Inl e
      | Inr d_msg \<Rightarrow>
          (case mkDiscovery pton io_srv p_uuid discovery_ip kServiceDiscoveryPort [] of
             Inl e \<Rightarrow> Inl e
           | Inr d_srv \<Rightarrow>
               (case mr_initialize msg_bound (new_msg_rt d_msg p_uuid) of (mrt, ok) \<Rightarrow>
                  if \<not> ok then Inr \<lparr>ns_msg = mrt, ns_srv = None\<rparr>
                  else (case sr_initialize srv_bound (new_srv_rt d_srv p_uuid (mr_host mrt) replier_id) of (srt, ok2) \<Rightarrow>
                    if \<not> ok2 then Inr \<lparr>ns_msg = mrt, ns_srv = Some srt\<rparr>
                    else Inr \<lparr>ns_msg = mr_start now mrt, ns_srv = Some (sr_start now2 srt)\<rparr>))))"

definition destroy_shared :: "'m shared \<Rightarrow> 'm shared" where
  "destroy_shared s =
     (let srv1 = map_option (\<lambda>rt. rt\<lparr>sr_disc := stop_disc (sr_disc rt)\<rparr>) (ns_srv s);
          msg1 = (ns_msg s)\<lparr>mr_disc := stop_disc (mr_disc (ns_msg s))\<rparr>
      in \<lparr>ns_msg = mr_stop msg1, ns_srv = map_option sr_stop srv1\<rparr>)"

definition on_msg :: "('m msg_rt \<times> 'm rt_ev list \<times> bool) \<Rightarrow> 'm shared \<Rightarrow> 'm shared \<times> 'm node_ev list \<times> bool" where
  "on_msg r s = (case r of (rt, out, ok) \<Rightarrow> (s\<lparr>ns_msg := rt\<rparr>, map OnMsg out, ok))"

definition on_srv ::
  "('m srv_rt \<Rightarrow> srv_throw + ('m srv_rt \<times> 'm sr_ev list \<times> bool)) \<Rightarrow> 'm shared \<Rightarrow>
   node_fail + ('m shared \<times> 'm node_ev list \<times> bool)" where
  "on_srv f s = (case ns_srv s of
     None \<Rightarrow> Inl NullService
   | Some rt \<Rightarrow> (case f rt of
       Inl e \<Rightarrow> Inl (ServiceThrew e)
     | Inr (rt', out, ok) \<Rightarrow> Inr (s\<lparr>ns_srv := Some rt'\<rparr>, map OnSrv out, ok)))"

definition ns_unsubscribe :: "string \<Rightarrow> string \<Rightarrow> 'm shared \<Rightarrow> 'm shared \<times> 'm node_ev list \<times> bool" where
  "ns_unsubscribe topic node_uuid s = on_msg (mr_unsubscribe topic node_uuid (ns_msg s)) s"

definition ns_unadvertiseMessage ::
  "string \<Rightarrow> string \<Rightarrow> 'm shared \<Rightarrow> shm_os \<Rightarrow> 'm shared \<times> shm_os \<times> 'm node_ev list \<times> bool" where
  "ns_unadvertiseMessage topic node_uuid s os = (case mr_unadvertise topic node_uuid (ns_msg s) os of
     (rt, os', out, ok) \<Rightarrow> (s\<lparr>ns_msg := rt\<rparr>, os', map OnMsg out, ok))"

definition ns_advertiseMessage ::
  "string \<Rightarrow> string \<Rightarrow> string \<Rightarrow> adv_msg_opts \<Rightarrow> 'm shared \<Rightarrow> 'm shared \<times> 'm node_ev list \<times> msg_pub \<times> bool" where
  "ns_advertiseMessage topic node_uuid mtype options s = (case mr_advertise topic node_uuid mtype options (ns_msg s) of
     (rt, out, pub, ok) \<Rightarrow> (s\<lparr>ns_msg := rt\<rparr>, map OnMsg out, pub, ok))"

definition ns_subscribe :: "string \<Rightarrow> string \<Rightarrow> sub_handler \<Rightarrow> 'm shared \<Rightarrow> 'm shared \<times> 'm node_ev list \<times> bool" where
  "ns_subscribe topic node_uuid handler s = on_msg (mr_subscribe topic node_uuid handler (ns_msg s)) s"

definition ns_advertiseService ::
  "'m proto \<Rightarrow> (string \<Rightarrow> bool) \<Rightarrow> (string list \<Rightarrow> bool) \<Rightarrow> string \<Rightarrow> string \<Rightarrow> 'm rp_handler \<Rightarrow> string \<Rightarrow> string \<Rightarrow> adv_srv_opts \<Rightarrow>
   'm shared \<Rightarrow> node_fail + ('m shared \<times> 'm node_ev list \<times> bool)" where
  "ns_advertiseService P zconn zok topic node_uuid handler req_type rep_type options =
     on_srv (sr_advertise P zconn zok topic node_uuid handler req_type rep_type options)"

definition ns_unadvertiseService ::
  "'m proto \<Rightarrow> (string \<Rightarrow> bool) \<Rightarrow> (string list \<Rightarrow> bool) \<Rightarrow> string \<Rightarrow> string \<Rightarrow>
   'm shared \<Rightarrow> node_fail + ('m shared \<times> 'm node_ev list \<times> bool)" where
  "ns_unadvertiseService P zconn zok topic node_uuid = on_srv (sr_unadvertise P zconn zok topic node_uuid)"

definition ask_srv :: "('m srv_rt \<Rightarrow> 'a) \<Rightarrow> 'm shared \<Rightarrow> node_fail + 'a" where
  "ask_srv f s = (case ns_srv s of None \<Rightarrow> Inl NullService | Some rt \<Rightarrow> Inr (f rt))"

definition ns_hasService :: "string \<Rightarrow> 'm shared \<Rightarrow> node_fail + bool" where
  "ns_hasService topic = ask_srv (hasService topic)"

definition ns_getAdvertisedTopics :: "string \<Rightarrow> 'm shared \<Rightarrow> string set" where
  "ns_getAdvertisedTopics node_uuid s = getAdvertisedTopics node_uuid (ns_msg s)"

definition ns_getMessageTopics :: "'m shared \<Rightarrow> string list" where
  "ns_getMessageTopics s = getTopics (ns_msg s)"

definition ns_getServiceTopics :: "'m shared \<Rightarrow> node_fail + string list" where
  "ns_getServiceTopics = ask_srv sr_getTopics"

definition ns_getLocalServiceHandler :: "string \<Rightarrow> string \<Rightarrow> string \<Rightarrow> 'm shared \<Rightarrow> node_fail + 'm rp_handler option" where
  "ns_getLocalServiceHandler topic req_type rep_type = ask_srv (getLocalHandler topic req_type rep_type)"

definition ns_requestRemoteService ::
  "'m proto \<Rightarrow> (string \<Rightarrow> bool) \<Rightarrow> (string list \<Rightarrow> bool) \<Rightarrow> string \<Rightarrow> string \<Rightarrow> 'm rq_handler \<Rightarrow>
   'm shared \<Rightarrow> node_fail + ('m shared \<times> 'm node_ev list \<times> bool)" where
  "ns_requestRemoteService P zconn zok topic node_uuid handler = on_srv (sr_request P zconn zok topic node_uuid handler)"

definition ns_publishMessage ::
  "'m proto \<Rightarrow> (string \<Rightarrow> u64) \<Rightarrow> shm_sys \<Rightarrow> bool \<Rightarrow> msg_pub \<Rightarrow> 'm \<Rightarrow> 'm shared \<Rightarrow> shm_os \<Rightarrow>
   fault + ('m shared \<times> shm_os \<times> 'm node_ev list \<times> bool)" where
  "ns_publishMessage P hash sys zok publisher msg s os = (case mr_publish P hash sys zok publisher msg (ns_msg s) os of
     Inl f \<Rightarrow> Inl f
   | Inr (rt, os', out, ok) \<Rightarrow> Inr (s\<lparr>ns_msg := rt\<rparr>, os', map OnMsg out, ok))"

definition ns_hasSubscribers :: "string \<Rightarrow> string \<Rightarrow> 'm shared \<Rightarrow> bool" where
  "ns_hasSubscribers topic mtype s = hasSubscribers topic mtype (ns_msg s)"

section \<open>Publisher\<close>

text \<open>
  The period between messages is a double: a rational, or infinity when the rate is zero
  (\<open>None\<close>). \<open>fl\<close> rounds to the nearest double; unthrottled publishers never read it.
\<close>

record publisher =
  pb_info :: msg_pub
  pb_last :: int
  pb_period :: "rat option"

definition new_publisher :: publisher where
  "new_publisher = \<lparr>pb_info = new_msg_pub, pb_last = 0, pb_period = None\<rparr>"

definition mk_publisher :: "(rat \<Rightarrow> rat) \<Rightarrow> msg_pub \<Rightarrow> publisher" where
  "mk_publisher fl pub = \<lparr>pb_info = pub, pb_last = 0,
     pb_period = (if throttled (m_opts pub) \<and> opt_rate (m_opts pub) \<noteq> 0
       then Some (fl (1000000000 / fl (of_nat (unat (opt_rate (m_opts pub)))))) else None)\<rparr>"

definition pb_valid :: "publisher \<Rightarrow> bool" where
  "pb_valid pb \<longleftrightarrow> p_topic (pb_info pb) \<noteq> []"

definition throttledUpdateReady :: "int \<Rightarrow> publisher \<Rightarrow> bool" where
  "throttledUpdateReady now pb =
     (if \<not> throttled (m_opts (pb_info pb)) then True
      else (case pb_period pb of None \<Rightarrow> False | Some p \<Rightarrow> p \<le> of_int (now - pb_last pb)))"

text \<open>The clock is read twice: for the test and for the stamp.\<close>

definition updateThrottling :: "int \<Rightarrow> int \<Rightarrow> publisher \<Rightarrow> publisher \<times> bool" where
  "updateThrottling now now2 pb =
     (if \<not> throttled (m_opts (pb_info pb)) then (pb, True)
      else if \<not> throttledUpdateReady now pb then (pb, False)
      else (pb\<lparr>pb_last := now2\<rparr>, True))"

definition publishImpl ::
  "'m proto \<Rightarrow> (string \<Rightarrow> u64) \<Rightarrow> shm_sys \<Rightarrow> bool \<Rightarrow> int \<Rightarrow> int \<Rightarrow> string \<Rightarrow> 'm \<Rightarrow> publisher \<Rightarrow> 'm shared \<Rightarrow> shm_os \<Rightarrow>
   fault + (publisher \<times> 'm shared \<times> shm_os \<times> 'm node_ev list \<times> bool)" where
  "publishImpl P hash sys zok now now2 type_name msg pb s os =
     (if \<not> pb_valid pb then Inr (pb, s, os, [], False)
      else if m_type (pb_info pb) \<noteq> type_name then Inr (pb, s, os, [], False)
      else (case updateThrottling now now2 pb of (pb1, ready) \<Rightarrow>
        if \<not> ready then Inr (pb1, s, os, [], True)
        else (case ns_publishMessage P hash sys zok (pb_info pb1) msg s os of
            Inl f \<Rightarrow> Inl f
          | Inr (s1, os1, out, ok) \<Rightarrow> Inr (pb1, s1, os1, out, ok))))"

text \<open>Publishing a reference copies the message; messages are values here.\<close>

definition pb_publish ::
  "'m proto \<Rightarrow> (string \<Rightarrow> u64) \<Rightarrow> shm_sys \<Rightarrow> bool \<Rightarrow> int \<Rightarrow> int \<Rightarrow> string \<Rightarrow> 'm \<Rightarrow> publisher \<Rightarrow> 'm shared \<Rightarrow> shm_os \<Rightarrow>
   fault + (publisher \<times> 'm shared \<times> shm_os \<times> 'm node_ev list \<times> bool)" where
  "pb_publish P hash sys zok now now2 type_name msg pb s os =
     (let copy = msg in publishImpl P hash sys zok now now2 type_name copy pb s os)"

definition hasConnections :: "publisher \<Rightarrow> 'm shared \<Rightarrow> bool" where
  "hasConnections pb s \<longleftrightarrow>
     (let topic = p_topic (pb_info pb); mtype = m_type (pb_info pb) in pb_valid pb \<and> ns_hasSubscribers topic mtype s)"

section \<open>Node: topics\<close>

record node =
  nd_uuid :: string
  nd_subs :: "string set"
  nd_adv :: "string set"
  nd_srvs :: "string set"

definition new_node :: "string \<Rightarrow> node" where
  "new_node uuid = \<lparr>nd_uuid = uuid, nd_subs = {}, nd_adv = {}, nd_srvs = {}\<rparr>"

definition node_advertise ::
  "(rat \<Rightarrow> rat) \<Rightarrow> string \<Rightarrow> string \<Rightarrow> adv_msg_opts \<Rightarrow> node \<Rightarrow> 'm shared \<Rightarrow> node \<times> 'm shared \<times> 'm node_ev list \<times> publisher" where
  "node_advertise fl msg_type topic ops nd s =
     (if topic \<in> nd_adv nd then (nd, s, [], new_publisher)
      else (case ns_advertiseMessage topic (nd_uuid nd) msg_type ops s of (s1, out, pub, ok) \<Rightarrow>
        if \<not> ok then (nd, s1, out, new_publisher)
        else (nd\<lparr>nd_adv := insert topic (nd_adv nd)\<rparr>, s1, out, mk_publisher fl pub)))"

text \<open>\<open>uuid\<close>: the handler's own, generated here; the user's callback is wrapped, so there is one.\<close>

definition node_subscribe ::
  "string \<Rightarrow> string \<Rightarrow> string \<Rightarrow> node \<Rightarrow> 'm shared \<Rightarrow> node \<times> 'm shared \<times> 'm node_ev list \<times> bool" where
  "node_subscribe uuid msg_type topic nd s =
     (let sub_handler = \<lparr>sh_uuid = uuid, sh_node = nd_uuid nd, sh_type = msg_type, sh_cb = True\<rparr>;
          nd1 = nd\<lparr>nd_subs := insert topic (nd_subs nd)\<rparr>
      in (case ns_subscribe topic (nd_uuid nd1) sub_handler s of (s1, out, ok) \<Rightarrow> (nd1, s1, out, ok)))"

definition node_unsubscribe :: "string \<Rightarrow> node \<Rightarrow> 'm shared \<Rightarrow> node \<times> 'm shared \<times> 'm node_ev list \<times> bool" where
  "node_unsubscribe topic nd s =
     (case ns_unsubscribe topic (nd_uuid nd) s of (s1, out, ok) \<Rightarrow>
        if \<not> ok then (nd, s1, out, False)
        else (nd\<lparr>nd_subs := nd_subs nd - {topic}\<rparr>, s1, out, True))"

definition node_unadvertise ::
  "string \<Rightarrow> node \<Rightarrow> 'm shared \<Rightarrow> shm_os \<Rightarrow> node \<times> 'm shared \<times> shm_os \<times> 'm node_ev list \<times> bool" where
  "node_unadvertise topic nd s os =
     (let nd1 = nd\<lparr>nd_adv := nd_adv nd - {topic}\<rparr>
      in (case ns_unadvertiseMessage topic (nd_uuid nd1) s os of (s1, os1, out, ok) \<Rightarrow> (nd1, s1, os1, out, ok)))"

definition node_getAdvertisedTopics :: "node \<Rightarrow> 'm shared \<Rightarrow> string set" where
  "node_getAdvertisedTopics nd s = ns_getAdvertisedTopics (nd_uuid nd) s"

definition node_getTopicList :: "'m shared \<Rightarrow> string list" where
  "node_getTopicList s = ns_getMessageTopics s"

definition node_getServiceList :: "'m shared \<Rightarrow> node_fail + string list" where
  "node_getServiceList s = ns_getServiceTopics s"

section \<open>Node: services\<close>

definition kEmptyType :: string where
  "kEmptyType = ''rf.msgs.Empty''"

definition node_advertiseService ::
  "'m proto \<Rightarrow> (string \<Rightarrow> bool) \<Rightarrow> (string list \<Rightarrow> bool) \<Rightarrow> string \<Rightarrow> string \<Rightarrow> string \<Rightarrow> string \<Rightarrow>
   ('m \<Rightarrow> bool \<times> 'm) option \<Rightarrow> adv_srv_opts \<Rightarrow> node \<Rightarrow> 'm shared \<Rightarrow>
   node_fail + (node \<times> 'm shared \<times> 'm node_ev list \<times> bool)" where
  "node_advertiseService P zconn zok uuid req_type rep_type topic callback ops nd s =
     (let rep_handler = \<lparr>rp_uuid = uuid, rp_req_type = req_type, rp_rep_type = rep_type, rp_cb = callback\<rparr>
      in if topic \<in> nd_srvs nd then Inr (nd, s, [], False)
         else (let nd1 = nd\<lparr>nd_srvs := insert topic (nd_srvs nd)\<rparr>
           in (case ns_advertiseService P zconn zok topic (nd_uuid nd1) rep_handler req_type rep_type ops s of
                 Inl e \<Rightarrow> Inl e
               | Inr (s1, out, ok) \<Rightarrow> Inr (nd1, s1, out, ok))))"

text \<open>
  The overloads without a reply and without a request wrap the callback; the reply it
  leaves alone is the default message \<open>emp\<close>.
\<close>

definition node_advertise_noreply ::
  "'m proto \<Rightarrow> (string \<Rightarrow> bool) \<Rightarrow> (string list \<Rightarrow> bool) \<Rightarrow> 'm \<Rightarrow> string \<Rightarrow> string \<Rightarrow> string \<Rightarrow> ('m \<Rightarrow> bool) \<Rightarrow> adv_srv_opts \<Rightarrow>
   node \<Rightarrow> 'm shared \<Rightarrow> node_fail + (node \<times> 'm shared \<times> 'm node_ev list \<times> bool)" where
  "node_advertise_noreply P zconn zok emp uuid req_type topic callback ops =
     node_advertiseService P zconn zok uuid req_type kEmptyType topic (Some (\<lambda>req. (callback req, emp))) ops"

definition node_advertise_noreq ::
  "'m proto \<Rightarrow> (string \<Rightarrow> bool) \<Rightarrow> (string list \<Rightarrow> bool) \<Rightarrow> string \<Rightarrow> string \<Rightarrow> string \<Rightarrow> (bool \<times> 'm) \<Rightarrow> adv_srv_opts \<Rightarrow>
   node \<Rightarrow> 'm shared \<Rightarrow> node_fail + (node \<times> 'm shared \<times> 'm node_ev list \<times> bool)" where
  "node_advertise_noreq P zconn zok uuid rep_type topic callback ops =
     node_advertiseService P zconn zok uuid kEmptyType rep_type topic (Some (\<lambda>req. callback)) ops"

definition node_unadvertiseService ::
  "'m proto \<Rightarrow> (string \<Rightarrow> bool) \<Rightarrow> (string list \<Rightarrow> bool) \<Rightarrow> string \<Rightarrow> node \<Rightarrow> 'm shared \<Rightarrow>
   node_fail + (node \<times> 'm shared \<times> 'm node_ev list \<times> bool)" where
  "node_unadvertiseService P zconn zok topic nd s =
     (let nd1 = nd\<lparr>nd_srvs := nd_srvs nd - {topic}\<rparr>
      in (case ns_unadvertiseService P zconn zok topic (nd_uuid nd1) s of
            Inl e \<Rightarrow> Inl e
          | Inr (s1, out, ok) \<Rightarrow> Inr (nd1, s1, out, ok)))"

text \<open>
  The request with a callback: \<open>fresh\<close> is the default-constructed reply message, which the
  callback gets as it is when the local handler has no callback of its own.
\<close>

definition node_request ::
  "'m proto \<Rightarrow> (string \<Rightarrow> bool) \<Rightarrow> (string list \<Rightarrow> bool) \<Rightarrow> 'm \<Rightarrow> string \<Rightarrow> string \<Rightarrow> string \<Rightarrow> string \<Rightarrow> 'm \<Rightarrow> node \<Rightarrow>
   'm shared \<Rightarrow> node_fail + ('m shared \<times> 'm node_ev list \<times> bool)" where
  "node_request P zconn zok fresh uuid req_type rep_type topic req nd s =
     (case ns_getLocalServiceHandler topic req_type rep_type s of
        Inl e \<Rightarrow> Inl e
      | Inr (Some rep_handler) \<Rightarrow>
          (let (msg_rep, result) = rp_runLocalCallback rep_handler req
           in Inr (s, [OnReply (case msg_rep of None \<Rightarrow> fresh | Some m \<Rightarrow> m) result], True))
      | Inr None \<Rightarrow>
          ns_requestRemoteService P zconn zok topic (nd_uuid nd)
            (new_rq uuid (nd_uuid nd) req_type rep_type req True) s)"

text \<open>
  The blocking request. \<open>meanwhile\<close> is what the other threads do to the process until the
  wait ends. The caller's \<open>reply\<close> and \<open>result\<close> are passed by reference: they come back.
\<close>

record 'm call =
  ca_ret :: bool
  ca_reply :: 'm
  ca_result :: bool

definition node_request_wait ::
  "'m proto \<Rightarrow> (string \<Rightarrow> bool) \<Rightarrow> (string list \<Rightarrow> bool) \<Rightarrow> ('m shared \<Rightarrow> 'm shared) \<Rightarrow> string \<Rightarrow> string \<Rightarrow> string \<Rightarrow> string \<Rightarrow>
   'm \<Rightarrow> 'm \<Rightarrow> bool \<Rightarrow> node \<Rightarrow> 'm shared \<Rightarrow> node_fail + ('m shared \<times> 'm node_ev list \<times> 'm call)" where
  "node_request_wait P zconn zok meanwhile uuid req_type rep_type topic req reply result nd s =
     (case ns_getLocalServiceHandler topic req_type rep_type s of
        Inl e \<Rightarrow> Inl e
      | Inr (Some rep_handler) \<Rightarrow>
          (let (msg_rep, ok) = rp_runLocalCallback rep_handler req
           in Inr (s, [], \<lparr>ca_ret = True, ca_reply = reply, ca_result = ok\<rparr>))
      | Inr None \<Rightarrow>
          (case ns_requestRemoteService P zconn zok topic (nd_uuid nd)
              (new_rq uuid (nd_uuid nd) req_type rep_type req False) s of
             Inl e \<Rightarrow> Inl e
           | Inr (s1, out, sent) \<Rightarrow>
               if \<not> sent then Inr (s1, out, \<lparr>ca_ret = False, ca_reply = reply, ca_result = False\<rparr>)
               else (let s2 = meanwhile s1 in
                 (case ask_srv (\<lambda>rt. rq_at rt uuid) s2 of
                    Inl e \<Rightarrow> Inl e
                  | Inr h \<Rightarrow>
                      if \<not> waitFor h then Inr (s2, out, \<lparr>ca_ret = False, ca_reply = reply, ca_result = result\<rparr>)
                      else if \<not> rq_result h then Inr (s2, out, \<lparr>ca_ret = True, ca_reply = reply, ca_result = False\<rparr>)
                      else (let (parsed, ok) = pr_parse P rep_type (rq_rep h)
                        in if \<not> ok then Inr (s2, out, \<lparr>ca_ret = True, ca_reply = parsed, ca_result = False\<rparr>)
                           else Inr (s2, out, \<lparr>ca_ret = True, ca_reply = parsed, ca_result = True\<rparr>))))))"

text \<open>The overloads without a reply and without a request; \<open>emp\<close> is the Empty message.\<close>

definition node_request_noreply ::
  "'m proto \<Rightarrow> (string \<Rightarrow> bool) \<Rightarrow> (string list \<Rightarrow> bool) \<Rightarrow> 'm \<Rightarrow> string \<Rightarrow> string \<Rightarrow> string \<Rightarrow> 'm \<Rightarrow> node \<Rightarrow>
   'm shared \<Rightarrow> node_fail + ('m shared \<times> 'm node_ev list \<times> bool)" where
  "node_request_noreply P zconn zok emp uuid req_type topic req =
     node_request P zconn zok emp uuid req_type kEmptyType topic req"

definition node_request_wait_noreply ::
  "'m proto \<Rightarrow> (string \<Rightarrow> bool) \<Rightarrow> (string list \<Rightarrow> bool) \<Rightarrow> ('m shared \<Rightarrow> 'm shared) \<Rightarrow> 'm \<Rightarrow> string \<Rightarrow> string \<Rightarrow> string \<Rightarrow>
   'm \<Rightarrow> bool \<Rightarrow> node \<Rightarrow> 'm shared \<Rightarrow> node_fail + ('m shared \<times> 'm node_ev list \<times> 'm call)" where
  "node_request_wait_noreply P zconn zok meanwhile emp uuid req_type topic req result =
     node_request_wait P zconn zok meanwhile uuid req_type kEmptyType topic req emp result"

definition node_request_noreq ::
  "'m proto \<Rightarrow> (string \<Rightarrow> bool) \<Rightarrow> (string list \<Rightarrow> bool) \<Rightarrow> 'm \<Rightarrow> 'm \<Rightarrow> string \<Rightarrow> string \<Rightarrow> string \<Rightarrow> node \<Rightarrow>
   'm shared \<Rightarrow> node_fail + ('m shared \<times> 'm node_ev list \<times> bool)" where
  "node_request_noreq P zconn zok emp fresh uuid rep_type topic =
     node_request P zconn zok fresh uuid kEmptyType rep_type topic emp"

definition node_request_wait_noreq ::
  "'m proto \<Rightarrow> (string \<Rightarrow> bool) \<Rightarrow> (string list \<Rightarrow> bool) \<Rightarrow> ('m shared \<Rightarrow> 'm shared) \<Rightarrow> 'm \<Rightarrow> string \<Rightarrow> string \<Rightarrow> string \<Rightarrow>
   'm \<Rightarrow> bool \<Rightarrow> node \<Rightarrow> 'm shared \<Rightarrow> node_fail + ('m shared \<times> 'm node_ev list \<times> 'm call)" where
  "node_request_wait_noreq P zconn zok meanwhile emp uuid rep_type topic reply result =
     node_request_wait P zconn zok meanwhile uuid kEmptyType rep_type topic emp reply result"

text \<open>
  \<open>waitForService\<close>: what each turn sees, the shared object when it asks and the clock
  after it has slept. The list is as long as there is time to observe: without an end in it
  the call has not returned.
\<close>

fun waitForService :: "string \<Rightarrow> int \<Rightarrow> int \<Rightarrow> ('m shared \<times> int) list \<Rightarrow> (node_fail + bool) option" where
  "waitForService topic begin timeout [] = None"
| "waitForService topic begin timeout ((s, now) # turns) =
     (case ns_hasService topic s of
        Inl e \<Rightarrow> Some (Inl e)
      | Inr True \<Rightarrow> Some (Inr True)
      | Inr False \<Rightarrow> if timeout < now - begin then Some (Inr False) else waitForService topic begin timeout turns)"

section \<open>The destructor\<close>

fun unsubscribe_all :: "string list \<Rightarrow> node \<Rightarrow> 'm shared \<Rightarrow> node \<times> 'm shared \<times> 'm node_ev list" where
  "unsubscribe_all [] nd s = (nd, s, [])"
| "unsubscribe_all (t # ts) nd s =
     (case node_unsubscribe t nd s of (nd1, s1, out1, ok) \<Rightarrow>
        (case unsubscribe_all ts nd1 s1 of (nd2, s2, out2) \<Rightarrow> (nd2, s2, out1 @ out2)))"

fun unadvertise_all :: "string list \<Rightarrow> node \<Rightarrow> 'm shared \<Rightarrow> shm_os \<Rightarrow> node \<times> 'm shared \<times> shm_os \<times> 'm node_ev list" where
  "unadvertise_all [] nd s os = (nd, s, os, [])"
| "unadvertise_all (t # ts) nd s os =
     (case node_unadvertise t nd s os of (nd1, s1, os1, out1, ok) \<Rightarrow>
        (case unadvertise_all ts nd1 s1 os1 of (nd2, s2, os2, out2) \<Rightarrow> (nd2, s2, os2, out1 @ out2)))"

fun unadvertise_services ::
  "'m proto \<Rightarrow> (string \<Rightarrow> bool) \<Rightarrow> (string list \<Rightarrow> bool) \<Rightarrow> string list \<Rightarrow> node \<Rightarrow> 'm shared \<Rightarrow>
   node_fail + (node \<times> 'm shared \<times> 'm node_ev list)" where
  "unadvertise_services P zconn zok [] nd s = Inr (nd, s, [])"
| "unadvertise_services P zconn zok (t # ts) nd s =
     (case node_unadvertiseService P zconn zok t nd s of
        Inl e \<Rightarrow> Inl e
      | Inr (nd1, s1, out1, ok) \<Rightarrow>
          (case unadvertise_services P zconn zok ts nd1 s1 of
             Inl e \<Rightarrow> Inl e
           | Inr (nd2, s2, out2) \<Rightarrow> Inr (nd2, s2, out1 @ out2)))"

text \<open>The three lists are the order in which the copied sets are traversed.\<close>

definition destroy_node ::
  "'m proto \<Rightarrow> (string \<Rightarrow> bool) \<Rightarrow> (string list \<Rightarrow> bool) \<Rightarrow> string list \<Rightarrow> string list \<Rightarrow> string list \<Rightarrow> node \<Rightarrow> 'm shared \<Rightarrow> shm_os \<Rightarrow>
   node_fail + ('m shared \<times> shm_os \<times> 'm node_ev list)" where
  "destroy_node P zconn zok sub_topics adv_topics adv_srvs nd s os =
     (case unsubscribe_all sub_topics nd s of (nd1, s1, out1) \<Rightarrow>
        (case unadvertise_all adv_topics nd1 s1 os of (nd2, s2, os2, out2) \<Rightarrow>
           (case unadvertise_services P zconn zok adv_srvs nd2 s2 of
              Inl e \<Rightarrow> Inl e
            | Inr (nd3, s3, out3) \<Rightarrow> Inr (s3, os2, out1 @ out2 @ out3))))"

end
