(* ===== verification/NodeThms.thy ===== *)
theory NodeThms
  imports SrvCalls NodeApi
begin

text \<open>
  What Node guarantees whatever is done with it: what its own sets and the shared object
  hold of each other, and that a destroyed node leaves nothing behind.
\<close>

section \<open>What the runtimes' operations do to endpoints and handlers\<close>

lemma view_advertise:
  "ts_wf (d_pubs d) \<Longrightarrow> ts_view (d_pubs (fst (disc_advertise C p d))) \<subseteq> insert p (ts_view (d_pubs d))"
  using ts_view_add [of "d_pubs d" p] by (auto simp: disc_advertise_def split: prod.splits if_splits)

lemma view_unadvertise:
  assumes "ts_wf (d_pubs d)" "d_enabled d"
  shows "ts_view (d_pubs (fst (disc_unadvertise C t n d))) =
    {q \<in> ts_view (d_pubs d). \<not> (p_topic q = t \<and> p_proc q = d_proc d \<and> p_node q = n)}"
proof (cases "getPublisher t (d_proc d) n (d_pubs d)")
  case None
  then have "\<not> (\<exists>p \<in> ts_view (d_pubs d). p_topic p = t \<and> p_proc p = d_proc d \<and> p_node p = n)"
    using getPublisher_None [OF assms(1)] by blast
  with None show ?thesis using assms(2) by (auto simp: disc_unadvertise_def)
next
  case (Some p)
  then show ?thesis using assms by (simp add: disc_unadvertise_def store_laws)
qed

lemma disc_op_frame [simp]:
  "d_enabled (fst (disc_advertise C p d)) = d_enabled d" "d_proc (fst (disc_advertise C p d)) = d_proc d"
  "d_enabled (fst (disc_unadvertise C t n d)) = d_enabled d" "d_proc (fst (disc_unadvertise C t n d)) = d_proc d"
  by (simp_all add: disc_advertise_def disc_unadvertise_def split: prod.split option.split)

lemma disc_events_frame:
  "mr_local (fst (disc_events es rt)) = mr_local rt \<and> mr_disc (fst (disc_events es rt)) = mr_disc rt \<and>
   mr_uuid (fst (disc_events es rt)) = mr_uuid rt"
proof -
  have one: "mr_local (fst (disc_event e s)) = mr_local (fst s) \<and> mr_disc (fst (disc_event e s)) = mr_disc (fst s) \<and>
      mr_uuid (fst (disc_event e s)) = mr_uuid (fst s)" for e and s :: "'a msg_rt \<times> 'a rt_ev list"
    by (cases s; cases e) (simp_all add: disc_event_def onPublisherConnected_def onPublisherDisconnected_def
        onSubscriberRegistered_def onSubscriberUnregistered_def Let_def)
  have "mr_local (fst (fold disc_event es s)) = mr_local (fst s) \<and> mr_disc (fst (fold disc_event es s)) = mr_disc (fst s) \<and>
      mr_uuid (fst (fold disc_event es s)) = mr_uuid (fst s)" for s :: "'a msg_rt \<times> 'a rt_ev list"
    by (induction es arbitrary: s) (simp_all add: one)
  then show ?thesis by (simp add: disc_events_def)
qed

lemma disc_frames [simp]:
  "mr_local (fst (disc_events es rt)) = mr_local rt" "mr_disc (fst (disc_events es rt)) = mr_disc rt"
  "mr_uuid (fst (disc_events es rt)) = mr_uuid rt"
  using disc_events_frame by blast+

lemma subscribe_frame:
  assumes "mr_subscribe t n h rt = (rt', out, ok)"
  shows "mr_local rt' = addHandler sh_uuid t n h (mr_local rt)" "mr_disc rt' = mr_disc rt" "mr_uuid rt' = mr_uuid rt"
  using assms by (auto simp: mr_subscribe_def Let_def split_def)

lemma unsubscribe_frame:
  assumes "mr_unsubscribe t n rt = (rt', out, ok)"
  shows "mr_local rt' = fst (removeHandlersForNode t n (mr_local rt))" "mr_disc rt' = mr_disc rt" "mr_uuid rt' = mr_uuid rt" "ok"
  using assms by (auto simp: mr_unsubscribe_def Let_def hw_removeHandlersForNode_def split_def)

lemma advertise_frame:
  assumes "mr_advertise t n y opts rt = (rt', out, pub, ok)"
  shows "mr_local rt' = mr_local rt" "mr_uuid rt' = mr_uuid rt"
    "pub = mkMessagePublisherInfo t (mr_addr rt) ''unused'' (mr_uuid rt) n y opts"
    "mr_disc rt' = fst (disc_advertise msg_class pub (mr_disc rt))"
proof -
  let ?p = "mkMessagePublisherInfo t (mr_addr rt) ''unused'' (mr_uuid rt) n y opts"
  obtain d es b where a: "disc_advertise msg_class ?p (mr_disc rt) = (d, es, b)"
    by (cases "disc_advertise msg_class ?p (mr_disc rt)")
  show "pub = ?p" "mr_local rt' = mr_local rt" "mr_uuid rt' = mr_uuid rt" "mr_disc rt' = fst (disc_advertise msg_class pub (mr_disc rt))"
    using assms a by (auto simp: mr_advertise_def Let_def with_disc_def split_def)
qed

lemma unadvertise_frame:
  assumes "mr_unadvertise t n rt os = (rt', os', out, ok)"
  shows "mr_local rt' = mr_local rt" "mr_uuid rt' = mr_uuid rt"
    "mr_disc rt' = fst (disc_unadvertise msg_class t n (mr_disc rt))"
proof -
  obtain d es b where a: "disc_unadvertise msg_class t n (mr_disc rt) = (d, es, b)"
    by (cases "disc_unadvertise msg_class t n (mr_disc rt)")
  show "mr_local rt' = mr_local rt" "mr_uuid rt' = mr_uuid rt" "mr_disc rt' = fst (disc_unadvertise msg_class t n (mr_disc rt))"
    using assms a by (auto simp: mr_unadvertise_def removeWriterRing_def Let_def with_disc_def split_def)
qed

lemma srv_advertise_frame:
  assumes "sr_ok rt" "sr_advertise P zconn zok t n h y z opts rt = Inr (rt', out, ok)"
  shows "sr_resp rt' = addHandler rp_uuid t n h (sr_resp rt)" "sr_uuid rt' = sr_uuid rt"
    "sr_disc rt' = fst (disc_advertise srv_class (mkServicePublisherInfo t (sr_replier_addr rt) (sr_replier_id rt) (sr_uuid rt) n y z opts) (sr_disc rt))"
proof -
  let ?p = "mkServicePublisherInfo t (sr_replier_addr rt) (sr_replier_id rt) (sr_uuid rt) n y z opts"
  let ?rt1 = "rt\<lparr>sr_resp := addHandler rp_uuid t n h (sr_resp rt)\<rparr>"
  obtain d es b where a: "disc_advertise srv_class ?p (sr_disc rt) = (d, es, b)"
    by (cases "disc_advertise srv_class ?p (sr_disc rt)")
  then have "sr_disc_events P zconn zok es (?rt1\<lparr>sr_disc := d\<rparr>) = Inr (rt', out)"
    using assms(2) by (auto simp: sr_advertise_def Let_def split: sum.splits)
  then have "traffic (?rt1\<lparr>sr_disc := d\<rparr>) out rt'"
    using assms(1) by (intro traffic_events) (simp_all add: sr_ok_def)
  then show "sr_resp rt' = addHandler rp_uuid t n h (sr_resp rt)" "sr_uuid rt' = sr_uuid rt"
      "sr_disc rt' = fst (disc_advertise srv_class ?p (sr_disc rt))"
    using a by (simp_all add: traffic_def)
qed

lemma srv_unadvertise_frame:
  assumes "sr_ok rt" "sr_unadvertise P zconn zok t n rt = Inr (rt', out, ok)"
  shows "sr_resp rt' = fst (removeHandlersForNode t n (sr_resp rt))" "sr_uuid rt' = sr_uuid rt"
    "sr_disc rt' = fst (disc_unadvertise srv_class t n (sr_disc rt))"
proof -
  let ?rt1 = "rt\<lparr>sr_resp := fst (removeHandlersForNode t n (sr_resp rt))\<rparr>"
  obtain d es b where a: "disc_unadvertise srv_class t n (sr_disc rt) = (d, es, b)"
    by (cases "disc_unadvertise srv_class t n (sr_disc rt)")
  then have "sr_disc_events P zconn zok es (?rt1\<lparr>sr_disc := d\<rparr>) = Inr (rt', out)"
    using assms(2) by (auto simp: sr_unadvertise_def Let_def split: sum.splits)
  then have "traffic (?rt1\<lparr>sr_disc := d\<rparr>) out rt'"
    using assms(1) by (intro traffic_events) (simp_all add: sr_ok_def)
  then show "sr_resp rt' = fst (removeHandlersForNode t n (sr_resp rt))" "sr_uuid rt' = sr_uuid rt"
      "sr_disc rt' = fst (disc_unadvertise srv_class t n (sr_disc rt))"
    using a by (simp_all add: traffic_def)
qed

lemma srv_unadvertise_returns: "\<exists>rt' out ok. sr_unadvertise P zconn zok t n rt = Inr (rt', out, ok)"
proof -
  obtain d es b where a: "disc_unadvertise srv_class t n (sr_disc rt) = (d, es, b)"
    by (cases "disc_unadvertise srv_class t n (sr_disc rt)")
  have "set es \<subseteq> range Multicast"
    using a by (auto simp: disc_unadvertise_def sendMsg_simps(4) split: if_splits option.splits)
  then have "\<exists>r. sr_disc_events P zconn zok es rt1 = Inr r" for rt1
  proof (induction es arbitrary: rt1)
    case (Cons e es)
    then obtain r m where "sr_disc_events P zconn zok es rt1 = Inr r" "e = Multicast m" by fastforce
    then show ?case by (simp split: prod.split)
  qed simp
  then obtain rt' out where "sr_disc_events P zconn zok es (rt\<lparr>sr_resp := fst (removeHandlersForNode t n (sr_resp rt)), sr_disc := d\<rparr>) = Inr (rt', out)"
    by (metis surj_pair)
  then show ?thesis using a by (simp add: sr_unadvertise_def Let_def)
qed

lemma request_frame:
  assumes "sr_ok rt" "map_of (sr_heap rt) u = None" "sr_request P zconn zok t n (new_rq u n y z m cb) rt = Inr (rt', out, ok)"
  shows "sr_resp rt' = sr_resp rt \<and> sr_disc rt' = sr_disc rt \<and> sr_uuid rt' = sr_uuid rt"
proof (cases "sr_getPublishers t rt")
  case None
  then show ?thesis using assms(3) by (simp add: sr_request_def)
next
  case (Some a)
  let ?h = "new_rq u n y z m cb"
  let ?rt1 = "rt\<lparr>sr_heap := om_put u ?h (sr_heap rt), sr_req := addHandler id t n u (sr_req rt)\<rparr>"
  have h: "rq_uuid ?h = u" "rq_req_type ?h = y" "rq_rep_type ?h = z" "\<not> rq_avail ?h" by (simp_all add: new_rq_def)
  have "reqs_ok (sr_req ?rt1) (sr_heap ?rt1)"
    using reqs_ok_new [of "sr_req rt" "sr_heap rt" u ?h t n] assms(1,2) h by (simp add: sr_ok_def)
  moreover have "sendPendingRequests P zconn zok t y z ?rt1 = Inr (rt', out)"
    using assms(3) Some by (auto simp: sr_request_def Let_def h split: sum.splits)
  ultimately have "traffic ?rt1 out rt'" by (rule traffic_pending)
  then show ?thesis by (simp add: traffic_def)
qed


section \<open>The life of a node\<close>

definition shared_ok :: "'m shared \<Rightarrow> bool" where
  "shared_ok s \<longleftrightarrow> rt_ok (ns_msg s) \<and> d_enabled (mr_disc (ns_msg s)) \<and> d_proc (mr_disc (ns_msg s)) = mr_uuid (ns_msg s) \<and>
     (\<forall>rt. ns_srv s = Some rt \<longrightarrow> sr_ok rt \<and> d_enabled (sr_disc rt) \<and> d_proc (sr_disc rt) = sr_uuid rt)"

text \<open>What the process holds under a node's uuid: handlers and advertised endpoints.\<close>

datatype place = SubOf string | AdvOf string | SrvOf string

fun held :: "string \<Rightarrow> 'm shared \<Rightarrow> place \<Rightarrow> bool" where
  "held u s (SubOf t) \<longleftrightarrow> (\<exists>k. hlook (mr_local (ns_msg s)) (t, u, k) \<noteq> None)"
| "held u s (AdvOf t) \<longleftrightarrow> (\<exists>p \<in> ts_view (d_pubs (mr_disc (ns_msg s))).
     p_topic p = t \<and> p_proc p = d_proc (mr_disc (ns_msg s)) \<and> p_node p = u)"
| "held u s (SrvOf t) \<longleftrightarrow> (\<exists>rt. ns_srv s = Some rt \<and> ((\<exists>k. hlook (sr_resp rt) (t, u, k) \<noteq> None) \<or>
     (\<exists>p \<in> ts_view (d_pubs (sr_disc rt)). p_topic p = t \<and> p_proc p = d_proc (sr_disc rt) \<and> p_node p = u)))"

fun noted :: "node \<Rightarrow> place \<Rightarrow> bool" where
  "noted nd (SubOf t) \<longleftrightarrow> t \<in> nd_subs nd"
| "noted nd (AdvOf t) \<longleftrightarrow> t \<in> nd_adv nd"
| "noted nd (SrvOf t) \<longleftrightarrow> t \<in> nd_srvs nd"

definition node_inv :: "node \<Rightarrow> 'm shared \<Rightarrow> bool" where
  "node_inv nd s \<longleftrightarrow> shared_ok s \<and> (\<forall>pl. held (nd_uuid nd) s pl \<longrightarrow> noted nd pl)"

text \<open>
  A node's own calls, and anything else the process does meanwhile that keeps the shared
  object well formed and puts nothing under this node's uuid.
\<close>

inductive node_step :: "'m proto \<Rightarrow> node \<times> 'm shared \<times> shm_os \<Rightarrow> node \<times> 'm shared \<times> shm_os \<Rightarrow> bool" for P where
  nd_do_advertise: "node_advertise fl y t ops nd s = (nd', s', out, pb) \<Longrightarrow> node_step P (nd, s, os) (nd', s', os)"
| nd_do_subscribe: "node_subscribe k y t nd s = (nd', s', out, ok) \<Longrightarrow> node_step P (nd, s, os) (nd', s', os)"
| nd_do_unsubscribe: "node_unsubscribe t nd s = (nd', s', out, ok) \<Longrightarrow> node_step P (nd, s, os) (nd', s', os)"
| nd_do_unadvertise: "node_unadvertise t nd s os = (nd', s', os', out, ok) \<Longrightarrow> node_step P (nd, s, os) (nd', s', os')"
| nd_do_service: "node_advertiseService P zconn zok k y z t cb ops nd s = Inr (nd', s', out, ok) \<Longrightarrow>
    node_step P (nd, s, os) (nd', s', os)"
| nd_do_unservice: "node_unadvertiseService P zconn zok t nd s = Inr (nd', s', out, ok) \<Longrightarrow>
    node_step P (nd, s, os) (nd', s', os)"
| nd_do_request: "(\<forall>rt. ns_srv s = Some rt \<longrightarrow> map_of (sr_heap rt) k = None) \<Longrightarrow>
    node_request P zconn zok fresh k y z t req nd s = Inr (s', out, ok) \<Longrightarrow> node_step P (nd, s, os) (nd, s', os)"
| nd_others: "shared_ok s' \<Longrightarrow> (\<forall>pl. held (nd_uuid nd) s' pl \<longrightarrow> held (nd_uuid nd) s pl) \<Longrightarrow>
    node_step P (nd, s, os) (nd, s', os')"

inductive node_run :: "'m proto \<Rightarrow> node \<times> 'm shared \<times> shm_os \<Rightarrow> node \<times> 'm shared \<times> shm_os \<Rightarrow> bool" for P x where
  nr_start: "node_run P x x"
| nr_step: "node_run P x y \<Longrightarrow> node_step P y z \<Longrightarrow> node_run P x z"

lemma place_all: "(\<forall>pl. Q pl) \<longleftrightarrow> (\<forall>t. Q (SubOf t)) \<and> (\<forall>t. Q (AdvOf t)) \<and> (\<forall>t. Q (SrvOf t))"
  by (metis place.exhaust)

lemma node_invI:
  assumes "node_inv nd s" "shared_ok s'" "nd_uuid nd' = nd_uuid nd"
    and "\<And>pl. held (nd_uuid nd) s' pl \<Longrightarrow> noted nd' pl \<or> held (nd_uuid nd) s pl \<and> (noted nd pl \<longrightarrow> noted nd' pl)"
  shows "node_inv nd' s'"
  using assms unfolding node_inv_def by metis

lemma on_srvE:
  assumes "on_srv f s = Inr (s', out, ok)"
  obtains rt rt' out' where "ns_srv s = Some rt" "f rt = Inr (rt', out', ok)" "s' = s\<lparr>ns_srv := Some rt'\<rparr>"
  using assms by (auto simp: on_srv_def split: option.splits sum.splits)

lemma inv_subscribe:
  assumes "node_inv nd s" "node_subscribe k y t nd s = (nd', s', out, ok)"
  shows "node_inv nd' s' \<and> nd_uuid nd' = nd_uuid nd"
proof -
  let ?h = "\<lparr>sh_uuid = k, sh_node = nd_uuid nd, sh_type = y, sh_cb = True\<rparr>"
  obtain rt' out' where r: "mr_subscribe t (nd_uuid nd) ?h (ns_msg s) = (rt', out', ok)" and
      e: "nd' = nd\<lparr>nd_subs := insert t (nd_subs nd)\<rparr>" "s' = s\<lparr>ns_msg := rt'\<rparr>"
    using assms(2) by (auto simp: node_subscribe_def ns_subscribe_def on_msg_def Let_def split: prod.splits)
  note f = subscribe_frame [OF r]
  have "rt_ok rt'"
    using rt_ok_step [OF st_subscribe [OF r]] assms(1) by (simp add: node_inv_def shared_ok_def)
  then show ?thesis
    using assms(1) unfolding node_inv_def shared_ok_def place_all e
    by (auto simp: f hlook_add split: if_splits)
qed

lemma inv_unsubscribe:
  assumes "node_inv nd s" "node_unsubscribe t nd s = (nd', s', out, ok)"
  shows "node_inv nd' s' \<and> nd_uuid nd' = nd_uuid nd \<and> nd_subs nd' = nd_subs nd - {t} \<and> nd_adv nd' = nd_adv nd \<and>
    nd_srvs nd' = nd_srvs nd \<and> (ns_srv s' = None \<longleftrightarrow> ns_srv s = None)"
proof -
  obtain rt' out' ok' where r: "mr_unsubscribe t (nd_uuid nd) (ns_msg s) = (rt', out', ok')"
    by (cases "mr_unsubscribe t (nd_uuid nd) (ns_msg s)")
  note f = unsubscribe_frame [OF r]
  have e: "nd' = nd\<lparr>nd_subs := nd_subs nd - {t}\<rparr>" "s' = s\<lparr>ns_msg := rt'\<rparr>"
    using assms(2) r f(4) by (auto simp: node_unsubscribe_def ns_unsubscribe_def on_msg_def)
  have "rt_ok rt'"
    using rt_ok_step [OF st_unsubscribe [OF r]] assms(1) by (simp add: node_inv_def shared_ok_def)
  then show ?thesis
    using assms(1) unfolding node_inv_def shared_ok_def place_all e
    by (auto simp: f hlook_removeNode split: if_splits)
qed

lemma inv_advertise:
  assumes "node_inv nd s" "node_advertise fl y t ops nd s = (nd', s', out, pb)"
  shows "node_inv nd' s' \<and> nd_uuid nd' = nd_uuid nd"
proof (cases "t \<in> nd_adv nd")
  case True
  then show ?thesis using assms by (simp add: node_advertise_def)
next
  case False
  obtain rt' out' p ok where r: "mr_advertise t (nd_uuid nd) y ops (ns_msg s) = (rt', out', p, ok)"
    by (cases "mr_advertise t (nd_uuid nd) y ops (ns_msg s)")
  note f = advertise_frame [OF r]
  have e: "nd' = (if ok then nd\<lparr>nd_adv := insert t (nd_adv nd)\<rparr> else nd)" "s' = s\<lparr>ns_msg := rt'\<rparr>"
    using assms(2) r False by (auto simp: node_advertise_def ns_advertiseMessage_def split: if_splits)
  have ok: "rt_ok rt'"
    using rt_ok_step [OF st_advertise [OF r]] assms(1) by (simp add: node_inv_def shared_ok_def)
  have ts: "ts_wf (d_pubs (mr_disc (ns_msg s)))"
    using assms(1) by (simp add: node_inv_def shared_ok_def rt_ok_def disc_ok_def)
  have okd: "ok = snd (snd (disc_advertise msg_class p (mr_disc (ns_msg s))))"
    using r f(3) by (auto simp: mr_advertise_def Let_def with_disc_def split: prod.splits)
  have view: "ts_view (d_pubs (mr_disc rt')) \<subseteq> (if ok then insert p else id) (ts_view (d_pubs (mr_disc (ns_msg s))))"
  proof (cases ok)
    case True
    then show ?thesis using view_advertise [OF ts, of msg_class p] f(4) by simp
  next
    case False
    then have "is_dup p (d_pubs (mr_disc (ns_msg s))) \<or> \<not> d_enabled (mr_disc (ns_msg s))"
      using okd addPublisher_result [of p "d_pubs (mr_disc (ns_msg s))"]
      by (auto simp: disc_advertise_def split: prod.splits if_splits)
    then have "mr_disc rt' = mr_disc (ns_msg s)"
      unfolding f(4) using add_dup_unchanged [OF ts, of p] addPublisher_result [of p "d_pubs (mr_disc (ns_msg s))"]
      by (auto simp: disc_advertise_def split: prod.splits)
    then show ?thesis using False by simp
  qed
  have p: "p_topic p = t" by (simp add: f(3))
  have "shared_ok s'" using assms(1) ok f(2,4) by (simp add: e(2) node_inv_def shared_ok_def)
  moreover have "noted nd' pl \<or> held (nd_uuid nd) s pl \<and> (noted nd pl \<longrightarrow> noted nd' pl)" if h: "held (nd_uuid nd) s' pl" for pl
  proof (cases pl)
    case (AdvOf t')
    then obtain q where q: "q \<in> ts_view (d_pubs (mr_disc rt'))" "p_topic q = t'" "p_proc q = d_proc (mr_disc rt')" "p_node q = nd_uuid nd"
      using h by (auto simp: e(2))
    then have "(ok \<and> t' = t) \<or> q \<in> ts_view (d_pubs (mr_disc (ns_msg s)))"
      using view p by (cases ok) auto
    then show ?thesis using q f(4) by (auto simp: AdvOf e(1))
  qed (use h f(1) in \<open>auto simp: e\<close>)
  moreover have "nd_uuid nd' = nd_uuid nd" by (simp add: e)
  ultimately show ?thesis using node_invI [OF assms(1)] by blast
qed


lemma inv_unadvertise:
  assumes "node_inv nd s" "node_unadvertise t nd s os = (nd', s', os', out, ok)"
  shows "node_inv nd' s' \<and> nd_uuid nd' = nd_uuid nd \<and> nd_adv nd' = nd_adv nd - {t} \<and> nd_subs nd' = nd_subs nd \<and>
    nd_srvs nd' = nd_srvs nd \<and> (ns_srv s' = None \<longleftrightarrow> ns_srv s = None)"
proof -
  obtain rt' os1 out' ok' where r: "mr_unadvertise t (nd_uuid nd) (ns_msg s) os = (rt', os1, out', ok')"
    by (cases "mr_unadvertise t (nd_uuid nd) (ns_msg s) os")
  note f = unadvertise_frame [OF r]
  have e: "nd' = nd\<lparr>nd_adv := nd_adv nd - {t}\<rparr>" "s' = s\<lparr>ns_msg := rt'\<rparr>"
    using assms(2) r by (auto simp: node_unadvertise_def ns_unadvertiseMessage_def Let_def)
  have ok: "rt_ok rt'"
    using rt_ok_step [OF st_unadvertise [OF r]] assms(1) by (simp add: node_inv_def shared_ok_def)
  have ts: "ts_wf (d_pubs (mr_disc (ns_msg s)))" "d_enabled (mr_disc (ns_msg s))"
    using assms(1) by (simp_all add: node_inv_def shared_ok_def rt_ok_def disc_ok_def)
  have "shared_ok s'" using assms(1) ok f by (simp add: e node_inv_def shared_ok_def)
  moreover have "noted nd' pl \<or> held (nd_uuid nd) s pl \<and> (noted nd pl \<longrightarrow> noted nd' pl)" if "held (nd_uuid nd) s' pl" for pl
    using that by (cases pl) (auto simp: e f view_unadvertise [OF ts])
  moreover have "nd_uuid nd' = nd_uuid nd" by (simp add: e)
  ultimately have "node_inv nd' s'" using node_invI [OF assms(1)] by blast
  then show ?thesis by (simp add: e)
qed

lemma inv_service:
  assumes "node_inv nd s" "node_advertiseService P zconn zok k y z t cb ops nd s = Inr (nd', s', out, ok)"
  shows "node_inv nd' s' \<and> nd_uuid nd' = nd_uuid nd"
proof (cases "t \<in> nd_srvs nd")
  case True
  then show ?thesis using assms by (simp add: node_advertiseService_def)
next
  case False
  let ?h = "\<lparr>rp_uuid = k, rp_req_type = y, rp_rep_type = z, rp_cb = cb\<rparr>"
  have call: "on_srv (sr_advertise P zconn zok t (nd_uuid nd) ?h y z ops) s = Inr (s', out, ok)"
      and n: "nd' = nd\<lparr>nd_srvs := insert t (nd_srvs nd)\<rparr>"
    using assms(2) False
    by (auto simp: node_advertiseService_def ns_advertiseService_def Let_def split: sum.splits prod.splits)
  obtain rt rt' out' where r: "ns_srv s = Some rt" "sr_advertise P zconn zok t (nd_uuid nd) ?h y z ops rt = Inr (rt', out', ok)"
      "s' = s\<lparr>ns_srv := Some rt'\<rparr>"
    using on_srvE [OF call] by blast
  have srt: "sr_ok rt" "d_enabled (sr_disc rt)" "d_proc (sr_disc rt) = sr_uuid rt"
    using assms(1) r(1) by (simp_all add: node_inv_def shared_ok_def)
  then have ts: "ts_wf (d_pubs (sr_disc rt))" by (simp add: sr_ok_def disc_ok_def)
  note f = srv_advertise_frame [OF srt(1) r(2)]
  have ok': "sr_ok rt'" using keeps_step [OF ss_advertise [OF r(2)]] srt(1) by (simp add: keeps_def)
  note view = view_advertise [OF ts, of srv_class
      "mkServicePublisherInfo t (sr_replier_addr rt) (sr_replier_id rt) (sr_uuid rt) (nd_uuid nd) y z ops", folded f(3)]
  have "shared_ok s'" using assms(1) ok' srt f by (simp add: r(3) node_inv_def shared_ok_def)
  moreover have "noted nd' pl \<or> held (nd_uuid nd) s pl \<and> (noted nd pl \<longrightarrow> noted nd' pl)" if "held (nd_uuid nd) s' pl" for pl
  proof (cases pl)
    case (SrvOf t')
    consider k where "hlook (sr_resp rt') (t', nd_uuid nd, k) \<noteq> None"
      | q where "q \<in> ts_view (d_pubs (sr_disc rt'))" "p_topic q = t'" "p_proc q = d_proc (sr_disc rt')" "p_node q = nd_uuid nd"
      using \<open>held (nd_uuid nd) s' pl\<close> by (auto simp: SrvOf r(3))
    then show ?thesis
    proof cases
      case 1
      then have "t' = t \<or> hlook (sr_resp rt) (t', nd_uuid nd, k) \<noteq> None" by (auto simp: f(1) hlook_add split: if_splits)
      then show ?thesis using r(1) by (auto simp: SrvOf n)
    next
      case 2
      then have "t' = t \<or> q \<in> ts_view (d_pubs (sr_disc rt))" using view by auto
      then show ?thesis using r(1) 2 f(3) by (auto simp: SrvOf n)
    qed
  qed (use that in \<open>auto simp: n r(3)\<close>)
  moreover have "nd_uuid nd' = nd_uuid nd" by (simp add: n)
  ultimately have "node_inv nd' s'" using node_invI [OF assms(1)] by blast
  then show ?thesis by (simp add: n)
qed

lemma inv_unservice:
  assumes "node_inv nd s" "node_unadvertiseService P zconn zok t nd s = Inr (nd', s', out, ok)"
  shows "node_inv nd' s' \<and> nd_uuid nd' = nd_uuid nd \<and> nd_adv nd' = nd_adv nd \<and> nd_subs nd' = nd_subs nd \<and>
    nd_srvs nd' = nd_srvs nd - {t} \<and> (ns_srv s' = None \<longleftrightarrow> ns_srv s = None)"
proof -
  have call: "on_srv (sr_unadvertise P zconn zok t (nd_uuid nd)) s = Inr (s', out, ok)"
      and n: "nd' = nd\<lparr>nd_srvs := nd_srvs nd - {t}\<rparr>"
    using assms(2) by (auto simp: node_unadvertiseService_def ns_unadvertiseService_def Let_def split: sum.splits prod.splits)
  obtain rt rt' out' where r: "ns_srv s = Some rt" "sr_unadvertise P zconn zok t (nd_uuid nd) rt = Inr (rt', out', ok)"
      "s' = s\<lparr>ns_srv := Some rt'\<rparr>"
    using on_srvE [OF call] by blast
  have srt: "sr_ok rt" "d_enabled (sr_disc rt)" "d_proc (sr_disc rt) = sr_uuid rt"
    using assms(1) r(1) by (simp_all add: node_inv_def shared_ok_def)
  then have ts: "ts_wf (d_pubs (sr_disc rt))" by (simp add: sr_ok_def disc_ok_def)
  note f = srv_unadvertise_frame [OF srt(1) r(2)]
  have ok': "sr_ok rt'" using keeps_step [OF ss_unadvertise [OF r(2)]] srt(1) by (simp add: keeps_def)
  have "shared_ok s'" using assms(1) ok' srt f by (simp add: r(3) node_inv_def shared_ok_def)
  moreover have "noted nd' pl \<or> held (nd_uuid nd) s pl \<and> (noted nd pl \<longrightarrow> noted nd' pl)" if "held (nd_uuid nd) s' pl" for pl
    using that r(1) by (cases pl) (auto simp: n r(3) f hlook_removeNode view_unadvertise [OF ts srt(2)] split: if_splits)
  moreover have "nd_uuid nd' = nd_uuid nd" by (simp add: n)
  ultimately have "node_inv nd' s'" using node_invI [OF assms(1)] by blast
  then show ?thesis using r by (simp add: n)
qed

lemma inv_request:
  assumes "node_inv nd s" "\<forall>rt. ns_srv s = Some rt \<longrightarrow> map_of (sr_heap rt) k = None"
    and "node_request P zconn zok fresh k y z t req nd s = Inr (s', out, ok)"
  shows "node_inv nd s'"
proof (cases "s' = s")
  case True
  then show ?thesis using assms(1) by simp
next
  case False
  then have call: "on_srv (sr_request P zconn zok t (nd_uuid nd) (new_rq k (nd_uuid nd) y z req True)) s = Inr (s', out, ok)"
    using assms(3) by (auto simp: node_request_def ns_requestRemoteService_def Let_def split: sum.splits option.splits prod.splits)
  obtain rt rt' out' where r: "ns_srv s = Some rt"
      "sr_request P zconn zok t (nd_uuid nd) (new_rq k (nd_uuid nd) y z req True) rt = Inr (rt', out', ok)"
      "s' = s\<lparr>ns_srv := Some rt'\<rparr>"
    using on_srvE [OF call] by blast
  have srt: "sr_ok rt" using assms(1) r(1) by (simp add: node_inv_def shared_ok_def)
  have free: "map_of (sr_heap rt) k = None" using assms(2) r(1) by simp
  have "sr_ok rt'" using keeps_step [OF ss_request [OF free r(2)]] srt by (simp add: keeps_def)
  then show ?thesis
    using assms(1) request_frame [OF srt free r(2)] r(1) unfolding node_inv_def shared_ok_def place_all r(3) by auto
qed

lemma inv_step: "node_step P x y \<Longrightarrow> node_inv (fst x) (fst (snd x)) \<Longrightarrow> node_inv (fst y) (fst (snd y))"
proof (induction rule: node_step.induct)
  case (nd_do_advertise fl y t ops nd s nd' s' out pb os)
  then show ?case using inv_advertise by fastforce
next
  case (nd_do_subscribe k y t nd s nd' s' out ok os)
  then show ?case using inv_subscribe by fastforce
next
  case (nd_do_unsubscribe t nd s nd' s' out ok os)
  then show ?case using inv_unsubscribe by fastforce
next
  case (nd_do_unadvertise t nd s os nd' s' os' out ok)
  then show ?case using inv_unadvertise by fastforce
next
  case (nd_do_service zconn zok k y z t cb ops nd s nd' s' out ok os)
  then show ?case using inv_service by fastforce
next
  case (nd_do_unservice zconn zok t nd s nd' s' out ok os)
  then show ?case using inv_unservice by fastforce
next
  case (nd_do_request s k zconn zok fresh y z t req nd s' out ok os)
  then show ?case using inv_request [of nd s k] by simp
next
  case (nd_others s' nd s os os')
  then show ?case by (simp add: node_inv_def)
qed

lemma uuid_step: "node_step P x y \<Longrightarrow> node_inv (fst x) (fst (snd x)) \<Longrightarrow> nd_uuid (fst y) = nd_uuid (fst x)"
  by (induction rule: node_step.induct)
    (simp_all, (blast dest: inv_advertise inv_subscribe inv_unsubscribe inv_unadvertise inv_service inv_unservice)+)

lemma inv_run: "node_run P x y \<Longrightarrow> node_inv (fst x) (fst (snd x)) \<Longrightarrow> node_inv (fst y) (fst (snd y))"
  by (induction rule: node_run.induct) (auto intro: inv_step)


lemma uuid_run: "node_run P x y \<Longrightarrow> node_inv (fst x) (fst (snd x)) \<Longrightarrow> nd_uuid (fst y) = nd_uuid (fst x)"
  by (induction rule: node_run.induct) (auto dest: uuid_step inv_run)

section \<open>The destructor\<close>

lemma unsubscribe_all_inv:
  "node_inv nd s \<Longrightarrow> unsubscribe_all ts nd s = (nd', s', out) \<Longrightarrow>
   node_inv nd' s' \<and> nd_uuid nd' = nd_uuid nd \<and> nd_subs nd' = nd_subs nd - set ts \<and> nd_adv nd' = nd_adv nd \<and>
   nd_srvs nd' = nd_srvs nd \<and> (ns_srv s' = None \<longleftrightarrow> ns_srv s = None)"
proof (induction ts arbitrary: nd s out)
  case (Cons t ts)
  obtain nd1 s1 o1 ok where 1: "node_unsubscribe t nd s = (nd1, s1, o1, ok)" by (cases "node_unsubscribe t nd s")
  then obtain o2 where 2: "unsubscribe_all ts nd1 s1 = (nd', s', o2)" using Cons.prems(2) by (auto split: prod.splits)
  show ?case using inv_unsubscribe [OF Cons.prems(1) 1] Cons.IH [OF _ 2] by auto
qed simp

lemma unadvertise_all_inv:
  "node_inv nd s \<Longrightarrow> unadvertise_all ts nd s os = (nd', s', os', out) \<Longrightarrow>
   node_inv nd' s' \<and> nd_uuid nd' = nd_uuid nd \<and> nd_adv nd' = nd_adv nd - set ts \<and> nd_subs nd' = nd_subs nd \<and>
   nd_srvs nd' = nd_srvs nd \<and> (ns_srv s' = None \<longleftrightarrow> ns_srv s = None)"
proof (induction ts arbitrary: nd s os out)
  case (Cons t ts)
  obtain nd1 s1 os1 o1 ok where 1: "node_unadvertise t nd s os = (nd1, s1, os1, o1, ok)" by (cases "node_unadvertise t nd s os")
  then obtain o2 where 2: "unadvertise_all ts nd1 s1 os1 = (nd', s', os', o2)" using Cons.prems(2) by (auto split: prod.splits)
  show ?case using inv_unadvertise [OF Cons.prems(1) 1] Cons.IH [OF _ 2] by auto
qed simp

lemma unadvertise_services_inv:
  "node_inv nd s \<Longrightarrow> ns_srv s \<noteq> None \<or> ts = [] \<Longrightarrow>
   \<exists>nd' s' out. unadvertise_services P zconn zok ts nd s = Inr (nd', s', out) \<and>
     node_inv nd' s' \<and> nd_uuid nd' = nd_uuid nd \<and> nd_adv nd' = nd_adv nd \<and> nd_subs nd' = nd_subs nd \<and>
     nd_srvs nd' = nd_srvs nd - set ts"
proof (induction ts arbitrary: nd s)
  case (Cons t ts)
  then obtain rt where rt: "ns_srv s = Some rt" by auto
  obtain rt1 out ok where "sr_unadvertise P zconn zok t (nd_uuid nd) rt = Inr (rt1, out, ok)"
    using srv_unadvertise_returns by blast
  then obtain nd1 s1 o1 where 1: "node_unadvertiseService P zconn zok t nd s = Inr (nd1, s1, o1, ok)"
    using rt by (auto simp: node_unadvertiseService_def ns_unadvertiseService_def on_srv_def)
  note i = inv_unservice [OF Cons.prems(1) 1]
  have "ns_srv s1 \<noteq> None" using i rt by simp
  then obtain nd' s' o2 where "unadvertise_services P zconn zok ts nd1 s1 = Inr (nd', s', o2)" "node_inv nd' s'"
      "nd_uuid nd' = nd_uuid nd1" "nd_adv nd' = nd_adv nd1" "nd_subs nd' = nd_subs nd1" "nd_srvs nd' = nd_srvs nd1 - set ts"
    using Cons.IH [of nd1 s1] i by auto
  then show ?case using 1 i by auto
qed simp

lemma inv_new:
  "shared_ok s \<Longrightarrow> (\<forall>pl. \<not> held u s pl) \<Longrightarrow> node_inv (new_node u) s"
  by (simp add: node_inv_def new_node_def)

text \<open>
  C8: a destroyed node leaves nothing behind. From its construction on, whatever the node
  advertised, subscribed, offered as a service, withdrew or requested, and whatever the
  process did besides under other nodes' names, destroying the node completes and the
  process keeps no subscription handler, no advertised topic and no service of it.
\<close>

theorem node_leaves_nothing:
  assumes "node_run P (new_node u, s0, os0) (nd, s, os)" "shared_ok s0" "\<forall>pl. \<not> held u s0 pl"
    and "set subs = nd_subs nd" "set advs = nd_adv nd" "set srvs = nd_srvs nd" "ns_srv s \<noteq> None"
  shows "\<exists>s' os' out. destroy_node P zconn zok subs advs srvs nd s os = Inr (s', os', out) \<and> (\<forall>pl. \<not> held u s' pl)"
proof -
  have "node_inv (fst (new_node u, s0, os0)) (fst (snd (new_node u, s0, os0)))" using inv_new [OF assms(2,3)] by simp
  from uuid_run [OF assms(1) this] inv_run [OF assms(1) this] have "nd_uuid nd = u \<and> node_inv nd s"
    by (simp add: new_node_def)
  then have nd: "nd_uuid nd = u" "node_inv nd s" by simp_all
  obtain nd1 s1 o1 where 1: "unsubscribe_all subs nd s = (nd1, s1, o1)" by (cases "unsubscribe_all subs nd s")
  note i1 = unsubscribe_all_inv [OF nd(2) 1]
  obtain nd2 s2 os2 o2 where 2: "unadvertise_all advs nd1 s1 os = (nd2, s2, os2, o2)" by (cases "unadvertise_all advs nd1 s1 os")
  note i2 = unadvertise_all_inv [OF conjunct1 [OF i1] 2]
  have "ns_srv s2 \<noteq> None" using assms(7) i1 i2 by simp
  then obtain nd3 s3 o3 where 3: "unadvertise_services P zconn zok srvs nd2 s2 = Inr (nd3, s3, o3)" "node_inv nd3 s3"
      "nd_uuid nd3 = nd_uuid nd2" "nd_adv nd3 = nd_adv nd2" "nd_subs nd3 = nd_subs nd2" "nd_srvs nd3 = nd_srvs nd2 - set srvs"
    using unadvertise_services_inv [of nd2 s2 srvs P zconn zok] i2 by blast
  have "\<not> noted nd3 pl" for pl using 3(4-6) i1 i2 assms(4-6) by (cases pl) auto
  then have "\<forall>pl. \<not> held u s3 pl" using 3(2,3) i1 i2 nd(1) unfolding node_inv_def by metis
  then show ?thesis using 1 2 3(1) by (simp add: destroy_node_def)
qed

end
