(* ===== verification/NodeCalls.thy ===== *)
theory NodeCalls
  imports NodeThms
begin

text \<open>
  Publishing at a limited rate, blocking requests, waiting for a service, and the ways the
  user-facing classes fail.
\<close>

section \<open>Throttling\<close>

text \<open>The attempts that get through, each with its two readings of the clock.\<close>

fun paced :: "publisher \<Rightarrow> (int \<times> int) list \<Rightarrow> (int \<times> int) list" where
  "paced pb [] = []"
| "paced pb ((a, b) # atts) = (case updateThrottling a b pb of (pb', ok) \<Rightarrow>
     (if ok then [(a, b)] else []) @ paced pb' atts)"

fun in_order :: "int \<Rightarrow> (int \<times> int) list \<Rightarrow> bool" where
  "in_order t [] \<longleftrightarrow> True"
| "in_order t ((a, b) # atts) \<longleftrightarrow> t \<le> a \<and> a \<le> b \<and> in_order b atts"

lemma in_order_mono: "in_order t atts \<Longrightarrow> t' \<le> t \<Longrightarrow> in_order t' atts"
  by (cases "(t, atts)" rule: in_order.cases) auto

lemma throttling_keeps [simp]:
  "pb_info (fst (updateThrottling a b pb)) = pb_info pb" "pb_period (fst (updateThrottling a b pb)) = pb_period pb"
  by (simp_all add: updateThrottling_def)

text \<open>From a stamp on, the next message waits a period, and so does each after it.\<close>

lemma paced_after:
  assumes "throttled (m_opts (pb_info pb))" "pb_period pb = Some p" "0 \<le> p"
    and "in_order t atts" "pb_last pb \<le> t" "\<forall>ab \<in> set atts. snd ab \<le> e" "t \<le> e"
  shows "of_nat (length (paced pb atts)) * p \<le> of_int (e - pb_last pb)"
  using assms
proof (induction atts arbitrary: pb t)
  case (Cons ab atts)
  obtain a b where ab: "ab = (a, b)" by (cases ab)
  have le: "t \<le> a" "a \<le> b" "in_order b atts" "b \<le> e" using Cons.prems(4,6) ab by auto
  show ?case
  proof (cases "throttledUpdateReady a pb")
    case True
    then have up: "updateThrottling a b pb = (pb\<lparr>pb_last := b\<rparr>, True)"
      using Cons.prems(1) by (simp add: updateThrottling_def)
    have "p \<le> of_int (a - pb_last pb)" using True Cons.prems(1,2) by (simp add: throttledUpdateReady_def)
    also have "\<dots> \<le> of_int (b - pb_last pb)" using le(2) by simp
    finally have first: "p \<le> of_int (b - pb_last pb)" .
    have "of_nat (length (paced (pb\<lparr>pb_last := b\<rparr>) atts)) * p \<le> of_int (e - b)"
      using Cons.IH [of "pb\<lparr>pb_last := b\<rparr>" b] Cons.prems le by simp
    then show ?thesis using first ab up by (simp add: algebra_simps)
  next
    case False
    then have up: "updateThrottling a b pb = (pb, False)" using Cons.prems(1) by (simp add: updateThrottling_def)
    have "t \<le> b" using le by simp
    then show ?thesis
      using Cons.IH [OF Cons.prems(1,2,3) in_order_mono [OF le(3) order_refl]] Cons.prems le ab up by simp
  qed
qed simp

text \<open>
  C12: a publisher never exceeds its rate. Of the messages a throttled publisher is given
  between two readings t and e of a clock that does not go back, the ones that get through
  are so few that one period fits between each and the next: n + 1 messages take at least n
  periods, and the period of a rate of r messages per second is 10^9 / r nanoseconds, up to
  the rounding of doubles.
\<close>

theorem throttle_bound:
  assumes "throttled (m_opts pub)" "opt_rate (m_opts pub) \<noteq> 0" "pb = mk_publisher fl pub"
    and "p = fl (1000000000 / fl (of_nat (unat (opt_rate (m_opts pub)))))" "0 \<le> p"
    and "in_order t atts" "\<forall>ab \<in> set atts. snd ab \<le> e" "t \<le> e"
  shows "of_nat (length (paced (pb\<lparr>pb_last := l\<rparr>) atts) - 1) * p \<le> of_int (e - t)"
proof -
  have "of_nat (length (paced pb' atts) - 1) * p \<le> of_int (e - t)"
    if "pb_info pb' = pub" "pb_period pb' = Some p" for pb' :: publisher
    using that assms(6-8)
  proof (induction atts arbitrary: pb' t)
    case Nil
    then show ?case by simp
  next
    case (Cons ab atts)
    obtain a b where ab: "ab = (a, b)" by (cases ab)
    have le: "t \<le> a" "a \<le> b" "in_order b atts" "b \<le> e" using Cons.prems(3,4) ab by auto
    show ?case
    proof (cases "throttledUpdateReady a pb'")
      case True
      then have "updateThrottling a b pb' = (pb'\<lparr>pb_last := b\<rparr>, True)"
        using Cons.prems(1) assms(1) by (simp add: updateThrottling_def)
      then have "length (paced pb' (ab # atts)) - 1 = length (paced (pb'\<lparr>pb_last := b\<rparr>) atts)" using ab by simp
      moreover have "of_nat (length (paced (pb'\<lparr>pb_last := b\<rparr>) atts)) * p \<le> of_int (e - b)"
        using paced_after [of "pb'\<lparr>pb_last := b\<rparr>" p b atts e] Cons.prems assms(1,5) le by simp
      moreover have "(of_int (e - b) :: rat) \<le> of_int (e - t)" using le by simp
      ultimately show ?thesis by (metis order_trans)
    next
      case False
      then have "updateThrottling a b pb' = (pb', False)"
        using Cons.prems(1) assms(1) by (simp add: updateThrottling_def)
      moreover have "in_order t atts" using in_order_mono [OF le(3)] le(1,2) by simp
      ultimately show ?thesis using Cons.IH [of pb' t] Cons.prems ab by simp
    qed
  qed
  then show ?thesis using assms(1-4) by (simp add: mk_publisher_def)
qed


text \<open>
  What a call of publish does, in order. An invalid publisher, or a message of another
  type than the advertised one, is refused and nothing changes. A message inside the
  throttling period is dropped with success. Any other message is handed to the message
  runtime, whose answer is the result.
\<close>

theorem publish_outcomes:
  "publishImpl P hash sys zok a b ty m pb s os =
     (if p_topic (pb_info pb) = [] \<or> m_type (pb_info pb) \<noteq> ty then Inr (pb, s, os, [], False)
      else if throttled (m_opts (pb_info pb)) \<and> \<not> throttledUpdateReady a pb then Inr (pb, s, os, [], True)
      else (case mr_publish P hash sys zok (pb_info pb) m (ns_msg s) os of
          Inl f \<Rightarrow> Inl f
        | Inr (rt, os', out, ok) \<Rightarrow>
            Inr (if throttled (m_opts (pb_info pb)) then pb\<lparr>pb_last := b\<rparr> else pb, s\<lparr>ns_msg := rt\<rparr>, os', map OnMsg out, ok)))"
  by (simp add: publishImpl_def pb_valid_def updateThrottling_def ns_publishMessage_def throttledUpdateReady_def
      split: sum.split prod.split)

text \<open>
  A rate of zero messages per second silences a publisher for good: its period is
  infinite, so every message is dropped, and every call reports success.
\<close>

theorem zero_rate_silences:
  assumes "opt_rate (m_opts pub) = 0" "p_topic pub \<noteq> []" "m_type pub = ty"
  shows "publishImpl P hash sys zok a b ty m (mk_publisher fl pub) s os = Inr (mk_publisher fl pub, s, os, [], True)"
  using assms
  by (simp add: publishImpl_def pb_valid_def mk_publisher_def updateThrottling_def throttledUpdateReady_def
      throttled_def kUnthrottled_def)

section \<open>A blocking call\<close>

text \<open>What the client's threads do when the server's reply arrives.\<close>

definition reply_arrives ::
  "'m proto \<Rightarrow> (string list \<Rightarrow> bool) \<Rightarrow> string list \<Rightarrow> 'm shared \<Rightarrow> 'm shared" where
  "reply_arrives P zok frames s =
     s\<lparr>ns_srv := map_option (\<lambda>rt. fst (serviceHandle P zok (sr_receive_turn None (Some frames) rt))) (ns_srv s)\<rparr>"

lemma blocking_core:
  assumes "ns_srv s = Some c" "getLocalHandler t y z c = None"
    and "sr_ok c" "\<not> sr_exit c" "sr_requests c = []" "sr_responses c = []"
    and "map_of (sr_heap c) k = None" "sr_getPublishers t c = Some addrs" "find_responder y z addrs = Some r"
    and "zconn (p_addr r)" "pr_ser P m = Some data" "zok [s_sock r, t, nd_uuid nd, k, data, y, z]"
    and "\<not> sr_exit v" "sr_requests v = []" "getLocalHandler t y z v = Some g"
    and "zok' (reply_frames P g idc t (nd_uuid nd) k data)"
  shows "\<exists>s1 out s2 out2. SRequest (s_sock r # [t, nd_uuid nd, k, data, y, z]) \<in> set out \<and>
    serviceHandle P zok' (sr_receive_turn (Some (idc # [t, nd_uuid nd, k, data, y, z])) None v) = (s2, out2) \<and>
    SReply (reply_frames P g idc t (nd_uuid nd) k data) \<in> set out2 \<and>
    node_request_wait P zconn zok (reply_arrives P zok (ids # tl (reply_frames P g idc t (nd_uuid nd) k data)))
      k y z t m reply result nd s = Inr (s1, map OnSrv out,
        if \<not> snd (rp_runCallback P g data) then \<lparr>ca_ret = True, ca_reply = reply, ca_result = False\<rparr>
        else \<lparr>ca_ret = True, ca_reply = fst (pr_parse P z (fst (rp_runCallback P g data))),
          ca_result = snd (pr_parse P z (fst (rp_runCallback P g data)))\<rparr>) \<and>
    (\<exists>s3. node_request_wait P zconn zok id k y z t m reply result nd s =
       Inr (s3, map OnSrv out, \<lparr>ca_ret = False, ca_reply = reply, ca_result = result\<rparr>))"
proof -
  let ?fr = "ids # tl (reply_frames P g idc t (nd_uuid nd) k data)" and ?h = "new_rq k (nd_uuid nd) y z m False"
  obtain c1 out1 s2 out2 c3 out3 where call: "sr_request P zconn zok t (nd_uuid nd) ?h c = Inr (c1, out1, True)"
      "SRequest (s_sock r # [t, nd_uuid nd, k, data, y, z]) \<in> set out1"
      "serviceHandle P zok' (sr_receive_turn (Some (idc # [t, nd_uuid nd, k, data, y, z])) None v) = (s2, out2)"
      "SReply (reply_frames P g idc t (nd_uuid nd) k data) \<in> set out2"
      "serviceHandle P zok (sr_receive_turn None (Some ?fr) c1) = (c3, out3)" "waitFor (rq_at c3 k)"
      "rq_rep (rq_at c3 k) = fst (rp_runCallback P g data)" "rq_result (rq_at c3 k) = snd (rp_runCallback P g data)"
    using roundtrip_core [where zok = zok and zok' = zok' and zconn = zconn and cb = False and ids = ids,
        OF assms(3-16)] by auto
  have req: "ns_requestRemoteService P zconn zok t (nd_uuid nd) ?h s = Inr (s\<lparr>ns_srv := Some c1\<rparr>, map OnSrv out1, True)"
    using assms(1) call(1) by (simp add: ns_requestRemoteService_def on_srv_def)
  have local: "ns_getLocalServiceHandler t y z s = Inr None"
    using assms(1,2) by (simp add: ns_getLocalServiceHandler_def ask_srv_def)
  have "rq_avail (rq_at c1 k) = False"
  proof -
    have keep: "traffic (c\<lparr>sr_heap := om_put k ?h (sr_heap c), sr_req := addHandler id t (nd_uuid nd) k (sr_req c)\<rparr>) out1 c1"
    proof (rule traffic_pending)
      show "sendPendingRequests P zconn zok t y z (c\<lparr>sr_heap := om_put k ?h (sr_heap c),
          sr_req := addHandler id t (nd_uuid nd) k (sr_req c)\<rparr>) = Inr (c1, out1)"
        using call(1) assms(8) by (auto simp: sr_request_def Let_def new_rq_def split: sum.splits)
      show "reqs_ok (sr_req (c\<lparr>sr_heap := om_put k ?h (sr_heap c), sr_req := addHandler id t (nd_uuid nd) k (sr_req c)\<rparr>))
          (sr_heap (c\<lparr>sr_heap := om_put k ?h (sr_heap c), sr_req := addHandler id t (nd_uuid nd) k (sr_req c)\<rparr>))"
        using reqs_ok_new [of "sr_req c" "sr_heap c" k ?h t "nd_uuid nd"] assms(3,7) by (simp add: sr_ok_def new_rq_def)
    qed
    obtain h' where "map_of (sr_heap c1) k = Some h'" "core h' = core ?h"
      using traffic_core [OF keep, of k ?h] by auto
    then show ?thesis using core_eqD [of h' ?h] by (simp add: rq_at_def new_rq_def)
  qed
  then have late: "node_request_wait P zconn zok id k y z t m reply result nd s =
      Inr (s\<lparr>ns_srv := Some c1\<rparr>, map OnSrv out1, \<lparr>ca_ret = False, ca_reply = reply, ca_result = result\<rparr>)"
    by (simp add: node_request_wait_def local req ask_srv_def waitFor_def)
  have "node_request_wait P zconn zok (reply_arrives P zok ?fr) k y z t m reply result nd s =
      Inr (s\<lparr>ns_srv := Some c3\<rparr>, map OnSrv out1,
        if \<not> snd (rp_runCallback P g data) then \<lparr>ca_ret = True, ca_reply = reply, ca_result = False\<rparr>
        else \<lparr>ca_ret = True, ca_reply = fst (pr_parse P z (fst (rp_runCallback P g data))),
          ca_result = snd (pr_parse P z (fst (rp_runCallback P g data)))\<rparr>)"
    using call(5-8) by (simp add: node_request_wait_def local req reply_arrives_def ask_srv_def Let_def split_def)
  with call(2-4) late show ?thesis by blast
qed

text \<open>
  C22: a blocking request over the network. A node whose process has no such service itself,
  but knows one in another process, sends its request and waits. When the server's reply
  arrives in time, the call returns true; the verdict is true, with the parsed reply, exactly
  when the service's callback accepted and the reply parses. When the callback refused, the
  verdict is false and the caller's reply is left alone. When nothing arrives before the
  timeout, the call returns false, and reply and verdict are left alone.
\<close>

theorem blocking_call:
  assumes "ns_srv s = Some c" "getLocalHandler t y z c = None"
    and "sr_ok c" "\<not> sr_exit c" "sr_requests c = []" "sr_responses c = []"
    and "map_of (sr_heap c) k = None" "sr_getPublishers t c = Some addrs" "find_responder y z addrs = Some r"
    and "zconn (p_addr r)" "pr_ser P m = Some data" "zok [s_sock r, t, nd_uuid nd, k, data, y, z]"
    and "\<not> sr_exit v" "sr_requests v = []" "getLocalHandler t y z v = Some g"
    and "zok' (reply_frames P g idc t (nd_uuid nd) k data)"
  shows "\<exists>s1 out s2 out2. SRequest (s_sock r # [t, nd_uuid nd, k, data, y, z]) \<in> set out \<and>
    serviceHandle P zok' (sr_receive_turn (Some (idc # [t, nd_uuid nd, k, data, y, z])) None v) = (s2, out2) \<and>
    SReply (reply_frames P g idc t (nd_uuid nd) k data) \<in> set out2 \<and>
    node_request_wait P zconn zok (reply_arrives P zok (ids # tl (reply_frames P g idc t (nd_uuid nd) k data)))
      k y z t m reply result nd s = Inr (s1, map OnSrv out,
        if \<not> snd (rp_runCallback P g data) then \<lparr>ca_ret = True, ca_reply = reply, ca_result = False\<rparr>
        else \<lparr>ca_ret = True, ca_reply = fst (pr_parse P z (fst (rp_runCallback P g data))),
          ca_result = snd (pr_parse P z (fst (rp_runCallback P g data)))\<rparr>) \<and>
    (\<exists>s3. node_request_wait P zconn zok id k y z t m reply result nd s =
       Inr (s3, map OnSrv out, \<lparr>ca_ret = False, ca_reply = reply, ca_result = result\<rparr>))"
  by (rule blocking_core [where zok = zok and zok' = zok' and zconn = zconn, OF assms])

text \<open>
  C34: a blocking request served inside the process loses its reply. When the process has a
  service of the topic and types, the request with a callback hands the callback the reply
  the service wrote, but the blocking request, which reports success and the service's
  verdict, returns the caller's reply object as it was.
\<close>

theorem local_blocking_loses_reply:
  assumes "ns_srv s = Some c" "getLocalHandler t y z c = Some g" "rp_cb g = Some f"
  shows "node_request P zconn zok fresh k y z t m nd s = Inr (s, [OnReply (snd (f m)) (fst (f m))], True) \<and>
    node_request_wait P zconn zok meanwhile k y z t m reply result nd s =
      Inr (s, [], \<lparr>ca_ret = True, ca_reply = reply, ca_result = fst (f m)\<rparr>)"
  using assms
  by (simp add: node_request_def node_request_wait_def ns_getLocalServiceHandler_def ask_srv_def
      rp_runLocalCallback_def Let_def split_def)

section \<open>Waiting for a service\<close>

text \<open>
  WaitForService returns. Each turn sleeps 20 milliseconds, so by the time the clock of
  the turns has passed the timeout it has answered; it answers true only if some turn saw
  the service.
\<close>

theorem wait_returns:
  assumes "\<forall>i < length turns. start + 20000000 * int (Suc i) \<le> snd (turns ! i)"
    and "timeout < 20000000 * int (length turns)" "turns \<noteq> []" "\<forall>x \<in> set turns. ns_srv (fst x) \<noteq> None"
  shows "\<exists>b. waitForService t start timeout turns = Some (Inr b) \<and>
    (b \<longrightarrow> (\<exists>x \<in> set turns. ns_hasService t (fst x) = Inr True))"
proof -
  have "\<exists>b. waitForService t start timeout ts = Some (Inr b) \<and> (b \<longrightarrow> (\<exists>x \<in> set ts. ns_hasService t (fst x) = Inr True))"
    if "\<exists>x \<in> set ts. timeout < snd x - start" "\<forall>x \<in> set ts. ns_srv (fst x) \<noteq> None" for ts :: "('a shared \<times> int) list"
    using that
  proof (induction ts)
    case (Cons x ts)
    obtain s now where x: "x = (s, now)" by (cases x)
    obtain rt where "ns_srv s = Some rt" using Cons.prems(2) x by auto
    then obtain b where b: "ns_hasService t s = Inr b" by (simp add: ns_hasService_def ask_srv_def)
    show ?case
    proof (cases "b \<or> timeout < now - start")
      case True
      then show ?thesis using x b by (cases b) auto
    next
      case False
      then show ?thesis using Cons x b by auto
    qed
  qed simp
  moreover have "timeout < snd (last turns) - start"
    using assms(1) [rule_format, of "length turns - 1"] assms(2,3) by (simp add: last_conv_nth)
  then have "\<exists>x \<in> set turns. timeout < snd x - start" using assms(3) last_in_set by blast
  ultimately show ?thesis using assms(4) by blast
qed


section \<open>Failures\<close>

lemma no_service_runtime:
  "new_shared pton io1 io2 u rid None sb now now2 = Inr s \<Longrightarrow> ns_srv s = None"
  by (auto simp: new_shared_def mr_initialize_def new_msg_rt_def split: sum.splits)

text \<open>
  a process whose message socket could not be bound has no service runtime, and its
  service calls go through the null pointer: asking for a service, waiting for one, offering
  one and requesting one.
\<close>

theorem failed_init_null_service:
  assumes "new_shared pton io1 io2 u rid None sb now now2 = Inr s"
  shows "ns_hasService t s = Inl NullService \<and>
    waitForService t start timeout ((s, t1) # turns) = Some (Inl NullService) \<and>
    node_advertiseService P zconn zok k y z t cb ops (new_node n) s = Inl NullService \<and>
    node_request P zconn zok fresh k y z t m nd s = Inl NullService"
  using no_service_runtime [OF assms]
  by (simp add: ns_hasService_def ask_srv_def node_advertiseService_def ns_advertiseService_def
      on_srv_def node_request_def ns_getLocalServiceHandler_def new_node_def Let_def)

text \<open>
  C38: a failed advertisement of a service leaves half of it in place. The call returns false,
  but the handler stays registered and answers requests, and the node refuses any further
  attempt for the topic without trying.
\<close>

theorem failed_service_stuck:
  assumes "ns_srv s = Some rt" "sr_ok rt" "\<not> hs_hasTopic t (sr_resp rt)"
    and "node_advertiseService P zconn zok k y z t cb ops nd s = Inr (nd', s', out, False)" "t \<notin> nd_srvs nd"
  shows "(\<exists>g. ns_getLocalServiceHandler t y z s' = Inr (Some g) \<and> rp_uuid g = k) \<and>
    node_advertiseService P zconn zok k' y' z' t cb' ops' nd' s'' = Inr (nd', s'', [], False)"
proof -
  let ?h = "\<lparr>rp_uuid = k, rp_req_type = y, rp_rep_type = z, rp_cb = cb\<rparr>"
  have call: "on_srv (sr_advertise P zconn zok t (nd_uuid nd) ?h y z ops) s = Inr (s', out, False)"
      and n: "nd' = nd\<lparr>nd_srvs := insert t (nd_srvs nd)\<rparr>"
    using assms(4,5) by (auto simp: node_advertiseService_def ns_advertiseService_def Let_def split: sum.splits prod.splits)
  obtain rt' out' where r: "sr_advertise P zconn zok t (nd_uuid nd) ?h y z ops rt = Inr (rt', out', False)"
      "s' = s\<lparr>ns_srv := Some rt'\<rparr>"
    using on_srvE [OF call] assms(1) by (metis option.inject)
  have "sr_resp rt' = addHandler rp_uuid t (nd_uuid nd) ?h (sr_resp rt)"
    using srv_advertise_frame(1) [OF assms(2) r(1)] .
  moreover have "map_of (sr_resp rt) t = None" using assms(3) by (simp add: hs_hasTopic_def om_has_def)
  ultimately have "getLocalHandler t y z rt' = Some ?h"
    by (simp add: getLocalHandler_def getFirstHandler_types_def addHandler_def om_get_def om_emplace_def all_handlers_def)
  then have "ns_getLocalServiceHandler t y z s' = Inr (Some ?h)"
    by (simp add: ns_getLocalServiceHandler_def ask_srv_def r(2))
  then show ?thesis by (simp add: n node_advertiseService_def)
qed


section \<open>A process with a node\<close>

definition home :: "string shared" where
  "home = \<lparr>ns_msg = new_msg_rt (node_disc ''uC'' ''10.0.0.1'') ''uC'', ns_srv = Some client_up\<rparr>"

lemma home_simps [simp]: "ns_srv home = Some client_up" "mr_local (ns_msg home) = []"
  "mr_disc (ns_msg home) = node_disc ''uC'' ''10.0.0.1''"
  by (simp_all add: home_def new_msg_rt_def)

lemma home_ok: "shared_ok home"
proof -
  have "rt_ok (ns_msg home)" unfolding home_def by (simp add: rt_ok_new disc_ok_def ts_view_def)
  then show ?thesis using runtimes_ok(3)
    by (simp add: shared_ok_def) (simp add: home_def new_msg_rt_def client_up_def client_def new_srv_rt_def)
qed

lemma home_fresh: "\<not> held ''n'' home pl"
proof -
  have "ts_view (d_pubs (sr_disc client_up)) = {echo_pub}" "sr_resp client_up = []" "p_node echo_pub = ''n1''"
    using ts_view_add [OF ts_wf_Nil, of echo_pub]
    by (simp_all add: client_up_def client_def new_srv_rt_def echo_pub_def) (simp_all add: ts_view_def)
  moreover have "ts_view [] = {}" by (simp add: ts_view_def)
  ultimately show ?thesis by (cases pl) (auto simp: hlook_get)
qed

theorem node_leaves_nothing_witness:
  "\<exists>nd s out ok s' os' out'. node_subscribe ''k'' ''T'' ''t'' (new_node ''n'') home = (nd, s, out, ok) \<and>
     held ''n'' s (SubOf ''t'') \<and>
     destroy_node text_proto (\<lambda>_. True) (\<lambda>_. True) [''t''] [] [] nd s no_shm = Inr (s', os', out') \<and>
     \<not> held ''n'' s' (SubOf ''t'')"
proof -
  obtain nd s out ok where 1: "node_subscribe ''k'' ''T'' ''t'' (new_node ''n'') home = (nd, s, out, ok)"
    by (cases "node_subscribe ''k'' ''T'' ''t'' (new_node ''n'') home")
  then obtain rt' out' where r: "mr_subscribe ''t'' ''n'' \<lparr>sh_uuid = ''k'', sh_node = ''n'', sh_type = ''T'', sh_cb = True\<rparr>
      (ns_msg home) = (rt', out', ok)" "s = home\<lparr>ns_msg := rt'\<rparr>" "nd = (new_node ''n'')\<lparr>nd_subs := {''t''}\<rparr>"
    by (auto simp: node_subscribe_def ns_subscribe_def on_msg_def Let_def new_node_def split: prod.splits)
  have held: "held ''n'' s (SubOf ''t'')" using subscribe_frame(1) [OF r(1)] by (simp add: r(2) hlook_add hlook_get)
  have run: "node_run text_proto (new_node ''n'', home, no_shm) (nd, s, no_shm)"
    by (rule nr_step [OF nr_start nd_do_subscribe [OF 1]])
  have sets: "set [''t''] = nd_subs nd" "set [] = nd_adv nd" "set [] = nd_srvs nd" "ns_srv s \<noteq> None"
    by (simp_all add: r new_node_def)
  obtain s' os' out2 where "destroy_node text_proto (\<lambda>_. True) (\<lambda>_. True) [''t''] [] [] nd s no_shm = Inr (s', os', out2)"
      "\<forall>pl. \<not> held ''n'' s' pl"
    using node_leaves_nothing [OF run home_ok _ sets, of "\<lambda>_. True" "\<lambda>_. True"] home_fresh by blast
  then show ?thesis using 1 held by blast
qed

text \<open>A publisher of two messages per second.\<close>

definition slow_pub :: msg_pub where
  "slow_pub = mkMessagePublisherInfo ''t'' ''a'' ''c'' ''u'' ''n'' ''T'' (new_msg_opts\<lparr>opt_rate := 2\<rparr>)"

theorem throttle_bound_witness:
  "of_nat (length (paced (mk_publisher id slow_pub) [(600000000, 600000001), (700000000, 700000001), (1200000000, 1200000005)]) - 1)
     * (500000000 :: rat) \<le> of_int (1200000005 - 600000000) \<and>
   length (paced (mk_publisher id slow_pub) [(600000000, 600000001), (700000000, 700000001), (1200000000, 1200000005)]) = 2"
proof -
  have o: "throttled (m_opts slow_pub)" "opt_rate (m_opts slow_pub) \<noteq> 0"
    by (simp_all add: slow_pub_def throttled_def kUnthrottled_def)
  have p: "pb_last (mk_publisher id slow_pub) = 0" "pb_info (mk_publisher id slow_pub) = slow_pub"
      "pb_period (mk_publisher id slow_pub) = Some 500000000"
    using o by (simp_all add: mk_publisher_def) (simp add: slow_pub_def)
  have e: "(mk_publisher id slow_pub)\<lparr>pb_last := 0\<rparr> = mk_publisher id slow_pub" using p(1) by (cases "mk_publisher id slow_pub") simp
  have r: "id (1000000000 / id (of_nat (unat (opt_rate (m_opts slow_pub))))) = (500000000 :: rat)"
    by (simp add: slow_pub_def)
  have "length (paced (mk_publisher id slow_pub) [(600000000, 600000001), (700000000, 700000001), (1200000000, 1200000005)]) = 2"
    using o by (simp add: updateThrottling_def throttledUpdateReady_def p)
  moreover have "of_nat (length (paced (mk_publisher id slow_pub) [(600000000, 600000001), (700000000, 700000001), (1200000000, 1200000005)]) - 1)
     * (500000000 :: rat) \<le> of_int (1200000005 - 600000000)"
    using throttle_bound [where fl = id, OF o refl r [symmetric], of 600000000
      "[(600000000, 600000001), (700000000, 700000001), (1200000000, 1200000005)]" 1200000005 0] unfolding e by simp
  ultimately show ?thesis by blast
qed

theorem zero_rate_silences_witness:
  "publishImpl text_proto (\<lambda>_. 7) sys_ok True 5 6 ''T'' ''m'' (mk_publisher id ((chat_pub False)\<lparr>m_opts := new_msg_opts\<lparr>opt_rate := 0\<rparr>\<rparr>))
     home no_shm = Inr (mk_publisher id ((chat_pub False)\<lparr>m_opts := new_msg_opts\<lparr>opt_rate := 0\<rparr>\<rparr>), home, no_shm, [], True)"
  by (rule zero_rate_silences) (simp_all add: chat_pub_def)

theorem local_blocking_loses_reply_witness:
  "node_request_wait text_proto (\<lambda>_. True) (\<lambda>_. True) id ''k'' ''Q'' ''A'' ''svc'' ''hi'' ''old'' False (new_node ''n'')
     (home\<lparr>ns_srv := Some server_up\<rparr>) = Inr (home\<lparr>ns_srv := Some server_up\<rparr>, [], \<lparr>ca_ret = True, ca_reply = ''old'', ca_result = True\<rparr>)"
proof -
  have "rp_cb echo = Some (\<lambda>q. (True, q @ ''!''))" by (simp add: echo_def)
  from local_blocking_loses_reply [OF _ echo_local this, of "home\<lparr>ns_srv := Some server_up\<rparr>" text_proto "\<lambda>_. True" "\<lambda>_. True"
      "[]" "''k''" "''hi''" "new_node ''n''" id "''old''" False]
  show ?thesis by simp
qed

theorem wait_returns_witness:
  "waitForService ''nosuch'' 0 30000000 [(home, 20000001), (home, 41000000)] = Some (Inr False)"
proof -
  have no: "ns_hasService ''nosuch'' home = Inr False"
    by (simp add: ns_hasService_def ask_srv_def hasService_def sr_getPublishers_def disc_getPublishers_def client_up_def
        client_def new_srv_rt_def hs_hasTopic_def om_has_def getPublishers_def hasTopic_def addPublisher_def om_get_def Let_def echo_pub_def)
  have "\<forall>i < length [(home, 20000001), (home, 41000000)]. 0 + 20000000 * int (Suc i) \<le> snd ([(home, 20000001), (home, 41000000)] ! i)"
    by (simp add: less_Suc_eq)
  then have "\<exists>b. waitForService ''nosuch'' 0 30000000 [(home, 20000001), (home, 41000000)] = Some (Inr b) \<and>
      (b \<longrightarrow> (\<exists>x \<in> set [(home, 20000001 :: int), (home, 41000000)]. ns_hasService ''nosuch'' (fst x) = Inr True))"
    by (rule wait_returns) simp_all
  then show ?thesis using no by auto
qed

theorem failed_service_stuck_witness:
  "\<exists>nd' s' out. node_advertiseService text_proto (\<lambda>_. True) (\<lambda>_. True) ''k'' ''Q'' ''A'' ''off'' None new_opts (new_node ''n'')
      (home\<lparr>ns_srv := Some (client\<lparr>sr_disc := stop_disc (sr_disc client)\<rparr>)\<rparr>) = Inr (nd', s', out, False) \<and>
    node_advertiseService text_proto (\<lambda>_. True) (\<lambda>_. True) ''k2'' ''Q'' ''A'' ''off'' None new_opts nd' s' = Inr (nd', s', [], False)"
proof -
  let ?c = "client\<lparr>sr_disc := stop_disc (sr_disc client)\<rparr>"
  have off: "\<not> d_enabled (sr_disc ?c)" by (simp add: stop_disc_def)
  obtain nd' s' out where 1: "node_advertiseService text_proto (\<lambda>_. True) (\<lambda>_. True) ''k'' ''Q'' ''A'' ''off'' None new_opts (new_node ''n'')
      (home\<lparr>ns_srv := Some ?c\<rparr>) = Inr (nd', s', out, False)"
    by (simp add: node_advertiseService_def ns_advertiseService_def on_srv_def sr_advertise_def disc_advertise_def off
        new_node_def Let_def stop_disc_def)
  have ok: "sr_ok ?c" using sr_ok_disc [OF runtimes_ok(1), of "stop_disc (sr_disc client)"]
    by (simp add: stop_disc_def disc_ok_def ts_view_def)
  have "\<not> hs_hasTopic ''off'' (sr_resp ?c)" by (simp add: client_def new_srv_rt_def hs_hasTopic_def om_has_def)
  from failed_service_stuck [OF _ ok this 1, of "''k2''" "''Q''" "''A''" None new_opts s'] 1
  show ?thesis by (auto simp: new_node_def)
qed

theorem blocking_call_witness:
  "\<exists>s1 out. node_request_wait text_proto (\<lambda>_. True) (\<lambda>_. True)
      (reply_arrives text_proto (\<lambda>_. True) [''idS'', ''svc'', ''n'', ''k'', ''hi!'', ''1'']) ''k'' ''Q'' ''A'' ''svc'' ''hi'' ''old'' False
      (new_node ''n'') home = Inr (s1, out, \<lparr>ca_ret = True, ca_reply = ''hi!'', ca_result = True\<rparr>)"
proof -
  have loc: "getLocalHandler ''svc'' ''Q'' ''A'' client_up = None"
    by (simp add: getLocalHandler_def getFirstHandler_types_def client_up_def client_def new_srv_rt_def)
  have ex: "\<not> sr_exit client_up" "sr_requests client_up = []" "sr_responses client_up = []" "map_of (sr_heap client_up) ''k'' = None"
      "\<not> sr_exit server_up" "sr_requests server_up = []" "nd_uuid (new_node ''n'') = ''n''"
    by (simp_all add: client_up_def server_up_def new_node_def)
  have resp: "find_responder ''Q'' ''A'' [(''uS'', [echo_pub])] = Some echo_pub" by (simp add: find_responder_def echo_pub_def)
  have ser: "pr_ser text_proto ''hi'' = Some ''hi''" by (simp add: text_proto_def)
  have parse: "pr_parse text_proto y d = (d, True)" for y d by (simp add: text_proto_def)
  have frames: "''idS'' # tl (reply_frames text_proto echo ''idR'' ''svc'' ''n'' ''k'' ''hi'') = [''idS'', ''svc'', ''n'', ''k'', ''hi!'', ''1'']"
    by (simp add: reply_frames_def echo_runs)
  show ?thesis
    using blocking_call [OF home_simps(1) loc runtimes_ok(3) ex(1-4) client_pubs resp, of "\<lambda>_. True" text_proto "''hi''" "''hi''" "\<lambda>_. True"
        "new_node ''n''" server_up echo "\<lambda>_. True" "''idR''" "''idS''" "''old''" False, OF TrueI ser TrueI ex(5,6) echo_local TrueI]
    unfolding ex(7) frames by (simp add: echo_runs parse) blast
qed


text \<open>A host where everything succeeds but, in the first theorem, binding the message socket.\<close>

definition good_io :: net_io where
  "good_io = \<lparr>io_host_ip = Some ''10.0.0.1'', io_ifs = None, io_pname = ''proc'', io_sock = Some 3, io_mcast_if = True,
     io_member = True, io_reuseaddr = True, io_reuseport = True, io_bind = True\<rparr>"

definition sample_pton :: "string \<Rightarrow> u32 option" where
  "sample_pton ip = (if ip = ''239.255.0.7'' then Some 0xEFFF0007 else None)"

lemma sample_discovery:
  "port \<in> {1..65535} \<Longrightarrow> \<exists>d. mkDiscovery sample_pton good_io u discovery_ip port [] = Inr d"
  by (simp add: mkDiscovery_def registerNetIface_def good_io_def sample_pton_def discovery_ip_def determineHost_def Let_def)

theorem failed_init_null_service_witness:
  "\<exists>s :: string shared. new_shared sample_pton good_io good_io ''uC'' ''idR'' None None 5 6 = Inr s \<and>
     ns_hasService ''svc'' s = Inl NullService"
proof -
  have "\<exists>d :: msg_pub disc. mkDiscovery sample_pton good_io ''uC'' discovery_ip kMessageDiscoveryPort [] = Inr d"
      "\<exists>d :: srv_pub disc. mkDiscovery sample_pton good_io ''uC'' discovery_ip kServiceDiscoveryPort [] = Inr d"
    by (rule sample_discovery, simp add: kMessageDiscoveryPort_def kServiceDiscoveryPort_def)+
  then obtain s :: "string shared" where s: "new_shared sample_pton good_io good_io ''uC'' ''idR'' None None 5 6 = Inr s"
    by (auto simp: new_shared_def mr_initialize_def new_msg_rt_def)
  then show ?thesis using failed_init_null_service [OF s] by blast
qed

end
