(* ===== verification/EndToEnd.thy ===== *)
theory EndToEnd
  imports NodeCalls
begin

text \<open>
  From one program's publish to another program's callback: two processes with nothing in
  common but the network, through every layer.
\<close>

section \<open>The two sides\<close>

text \<open>A message runtime that has been initialised and started and has nothing left to do.\<close>

definition idle :: "'m msg_rt \<Rightarrow> bool" where
  "idle rt \<longleftrightarrow> rt_ok rt \<and> d_proc (mr_disc rt) = mr_uuid rt \<and> d_enabled (mr_disc rt) \<and> d_conn (mr_disc rt) \<and>
     d_reg (mr_disc rt) \<and> mr_cmds rt = [] \<and> mr_remoteq rt = [] \<and> \<not> mr_exit rt"

lemma subscribe_fresh:
  assumes "idle rt" "\<forall>q \<in> ts_view (d_pubs (mr_disc rt)). p_topic q \<noteq> t"
  shows "\<exists>out. mr_subscribe t n h rt = (rt\<lparr>mr_local := addHandler sh_uuid t n h (mr_local rt)\<rparr>, out, True)"
proof -
  let ?rt = "rt\<lparr>mr_local := addHandler sh_uuid t n h (mr_local rt)\<rparr>"
  obtain m es where d: "disc_discover msg_class t (mr_disc rt) = (Multicast m # es, True)"
      "set es = Connected ` {p \<in> ts_view (d_pubs (mr_disc rt)). p_topic p = t}"
    using discover_reports_known [of "mr_disc rt" t] assms(1) by (auto simp: idle_def rt_ok_def disc_ok_def)
  have "{p \<in> ts_view (d_pubs (mr_disc rt)). p_topic p = t} = {}" using assms(2) by blast
  then have "set es = {}" using d(2) by (simp only: image_empty)
  then have "es = []" by simp
  then show ?thesis
    using d(1) disc_events_multicast [of "[m]" ?rt] by (simp add: mr_subscribe_def Let_def)
qed

lemma advertise_fresh:
  assumes "idle rt" "\<forall>q \<in> ts_view (d_pubs (mr_disc rt)). p_topic q \<noteq> t" "opt_scope ops \<noteq> SCOPE_PROCESS"
    and pub: "pub = mkMessagePublisherInfo t (mr_addr rt) ''unused'' (mr_uuid rt) n y ops"
  shows "mr_advertise t n y ops rt =
    (rt\<lparr>mr_disc := (mr_disc rt)\<lparr>d_pubs := fst (addPublisher pub (d_pubs (mr_disc rt)))\<rparr>\<rparr>,
     [EMulticast (fillDiscovery_msg pub (header ADVERTISE (mr_disc rt)))], pub, True)"
proof -
  have k: "p_topic pub = t" "p_proc pub = mr_uuid rt" "opt_scope (m_opts pub) = opt_scope ops" by (simp_all add: pub)
  have "\<not> (\<exists>q \<in> ts_view (d_pubs (mr_disc rt)). pub_key q = pub_key pub)"
    using assms(2) k(1) by (auto simp: pub_key_def)
  then have "disc_advertise msg_class pub (mr_disc rt) =
      ((mr_disc rt)\<lparr>d_pubs := fst (addPublisher pub (d_pubs (mr_disc rt)))\<rparr>,
       [Connected pub, Multicast (fillDiscovery_msg pub (header ADVERTISE (mr_disc rt)))], True)"
    using advertise_events [of "mr_disc rt" pub] assms(1,3) k(3) by (simp add: idle_def rt_ok_def)
  then show ?thesis
    using k(2) by (simp add: mr_advertise_def Let_def pub [symmetric] with_disc_def disc_events_def disc_event_def
        onPublisherConnected_def)
qed

lemma count_one:
  assumes "{x \<in> L. snd x = k} = {(n, k)}" "finite L"
  shows "count (image_mset (\<lambda>(n, k). ECallback k msg t y) (mset_set L)) (ECallback k msg t y) = 1"
proof -
  have "(\<lambda>(n, k). ECallback k msg t y) -` {ECallback k msg t y} \<inter> L = {x \<in> L. snd x = k}" by auto
  moreover have "(n, k) \<in> L" using assms(1) by blast
  ultimately show ?thesis using assms by (simp add: count_image_mset count_mset_set)
qed

text \<open>A message published to a peer that is registered, received and dispatched there.\<close>

lemma publish_called:
  assumes "hasTopic_type (p_topic pub) (m_type pub) (mr_rsubs a)" "\<not> (opt_shm (m_opts pub) \<and> opt_scope (m_opts pub) = SCOPE_HOST)"
    and "\<not> throttled (m_opts pub)" "p_topic pub = t" "m_type pub = y" "t \<noteq> []" "y = [] \<or> hd y \<noteq> kShmMsgTypeMarker"
    and "pr_ser P msg = Some bytes" "pr_parse P y bytes = (msg, True)"
    and "rt_ok b" "mr_remoteq b = []" "\<not> mr_exit b" "{x \<in> listeners b t y. snd x = k} = {(n, k)}"
  shows "\<exists>sA fr b' out. publishImpl P hash sys True c d y msg (mk_publisher fl pub) (s\<lparr>ns_msg := a\<rparr>) os =
      Inr (mk_publisher fl pub, sA, os, [OnMsg (ESend fr)], True) \<and>
    remoteDispatch P sys' mem (receiveMessage fr b) = Inr (b', out) \<and> count (mset out) (ECallback k msg t y) = 1"
proof -
  obtain a' where sent: "mr_publish P hash sys True pub msg a os = Inr (a', os, [ESend [t, mr_addr a, bytes, y]], True)"
    using publish_inline [OF assms(1,2,8), of hash sys os] unfolding assms(4,5) by blast
  then have pb: "publishImpl P hash sys True c d y msg (mk_publisher fl pub) (s\<lparr>ns_msg := a\<rparr>) os =
      Inr (mk_publisher fl pub, s\<lparr>ns_msg := a'\<rparr>, os, [OnMsg (ESend [t, mr_addr a, bytes, y])], True)"
    using assms(3-6) by (simp add: publishImpl_def pb_valid_def mk_publisher_def updateThrottling_def ns_publishMessage_def)
  obtain b' out where got: "remoteDispatch P sys' mem (receiveMessage [t, mr_addr a, bytes, y] b) = Inr (b', out)"
      "mset out = image_mset (\<lambda>(n, k). ECallback k msg t y) (mset_set (listeners b t y))"
    using receive_inline [OF assms(9,7,10), of sys' mem t "mr_addr a"] assms(11,12) by auto
  have "count (mset out) (ECallback k msg t y) = 1"
    using assms(13) finite_listeners [of b t y] unfolding got(2) by (rule count_one)
  with pb got(1) show ?thesis by blast
qed

text \<open>The two calls on idle runtimes: what the subscriber's and the advertiser's are then.\<close>

lemma subscribed:
  assumes "idle (ns_msg sB)" and "\<forall>q \<in> ts_view (d_pubs (mr_disc (ns_msg sB))). p_topic q \<noteq> t"
    and new: "\<forall>n. hlook (mr_local (ns_msg sB)) (t, n, k) = None"
  obtains bs outB h where "node_subscribe k y t nB sB = (nB\<lparr>nd_subs := insert t (nd_subs nB)\<rparr>, sB\<lparr>ns_msg := bs\<rparr>, outB, True)"
    "rt_ok bs" "mr_disc bs = mr_disc (ns_msg sB)" "mr_uuid bs = mr_uuid (ns_msg sB)" "mr_cmds bs = []" "mr_remoteq bs = []"
    "\<not> mr_exit bs" "mr_rpubs bs = mr_rpubs (ns_msg sB)" "hlook (mr_local bs) (t, nd_uuid nB, k) = Some h" "sh_type h = y"
    "{x \<in> listeners bs t y. snd x = k} = {(nd_uuid nB, k)}"
proof -
  let ?b = "ns_msg sB"
  define h where "h = \<lparr>sh_uuid = k, sh_node = nd_uuid nB, sh_type = y, sh_cb = True\<rparr>"
  define bs where "bs = ?b\<lparr>mr_local := addHandler sh_uuid t (nd_uuid nB) h (mr_local ?b)\<rparr>"
  obtain outB where "node_subscribe k y t nB sB = (nB\<lparr>nd_subs := insert t (nd_subs nB)\<rparr>, sB\<lparr>ns_msg := bs\<rparr>, outB, True)"
    using subscribe_fresh [OF assms(1,2), of "nd_uuid nB" h]
    by (auto simp: node_subscribe_def ns_subscribe_def on_msg_def Let_def h_def [symmetric] bs_def)
  moreover have "{x \<in> listeners bs t y. snd x = k} = {(nd_uuid nB, k)}"
    using new by (auto simp: listeners_def bs_def hlook_add h_def split: if_splits)
  ultimately show ?thesis
    using assms(1) new by (intro that [of bs outB h]) (auto simp: bs_def idle_def rt_ok_def store_laws tight_add hlook_add h_def)
qed

lemma advertised:
  assumes "idle (ns_msg sA)" and "\<forall>q \<in> ts_view (d_pubs (mr_disc (ns_msg sA))). p_topic q \<noteq> t"
    and "opt_scope ops \<noteq> SCOPE_PROCESS" and "t \<notin> nd_adv nA"
    and pub: "pub = mkMessagePublisherInfo t (mr_addr (ns_msg sA)) ''unused'' (mr_uuid (ns_msg sA)) (nd_uuid nA) y ops"
  obtains as where "node_advertise fl y t ops nA sA = (nA\<lparr>nd_adv := insert t (nd_adv nA)\<rparr>, sA\<lparr>ns_msg := as\<rparr>,
      [OnMsg (EMulticast (fillDiscovery_msg pub (header ADVERTISE (mr_disc as))))], mk_publisher fl pub)"
    "rt_ok as" "d_proc (mr_disc as) = mr_uuid as" "mr_uuid as = mr_uuid (ns_msg sA)" "mr_rsubs as = mr_rsubs (ns_msg sA)"
    "d_reg (mr_disc as)"
proof -
  let ?a = "ns_msg sA"
  define as where "as = ?a\<lparr>mr_disc := (mr_disc ?a)\<lparr>d_pubs := fst (addPublisher pub (d_pubs (mr_disc ?a)))\<rparr>\<rparr>"
  have "header ADVERTISE (mr_disc as) = header ADVERTISE (mr_disc ?a)" by (simp add: header_def as_def)
  then have "node_advertise fl y t ops nA sA = (nA\<lparr>nd_adv := insert t (nd_adv nA)\<rparr>, sA\<lparr>ns_msg := as\<rparr>,
      [OnMsg (EMulticast (fillDiscovery_msg pub (header ADVERTISE (mr_disc as))))], mk_publisher fl pub)"
    using advertise_fresh [OF assms(1-3) pub] assms(4)
    by (simp add: node_advertise_def ns_advertiseMessage_def as_def)
  moreover have "msg_pub_wf pub" by (simp add: pub msg_pub_wf_def)
  ultimately show ?thesis
    using assms(1) by (intro that [of as]) (auto simp: as_def idle_def rt_ok_def disc_ok_def store_laws)
qed

section \<open>From publish to callback\<close>

text \<open>
  C1: publish reaches the subscriber. Process B subscribes to a topic and process A
  advertises it; both have started and are idle, neither knows an endpoint of the topic, and
  A has no subscriber in B. The advertisement has scope ALL, or HOST when B sees A's address
  as its own host; it is neither throttled nor a HOST one over shared memory. When B gets
  A's ADVERTISE and its receive thread runs, without a socket error, B connects its socket
  to A's address unless it is connected to it already, subscribes to the topic, and then
  multicasts NEW_CONNECTION messages, in this order and nothing else. When A gets any one of
  these, a message published through A's Publisher that serialises is sent, and when B gets
  it its dispatch thread, if the type parses it back, calls the subscribed callback with it,
  once.
\<close>

theorem publish_reaches_subscriber:
  assumes "idle (ns_msg sA)" "idle (ns_msg sB)" "mr_uuid (ns_msg sA) \<noteq> mr_uuid (ns_msg sB)"
    and "\<forall>q \<in> ts_view (d_pubs (mr_disc (ns_msg sA))). p_topic q \<noteq> t"
    and "\<forall>q \<in> ts_view (d_pubs (mr_disc (ns_msg sB))). p_topic q \<noteq> t"
    and "\<forall>q \<in> ts_view (mr_rsubs (ns_msg sA)). p_proc q \<noteq> mr_uuid (ns_msg sB)"
    and "\<forall>n. hlook (mr_local (ns_msg sB)) (t, n, k) = None"
    and "t \<notin> nd_adv nA" "t \<noteq> []" "y = [] \<or> hd y \<noteq> kShmMsgTypeMarker"
    and "opt_scope ops = SCOPE_ALL \<or> opt_scope ops = SCOPE_HOST \<and> is_sender_local ip (mr_disc (ns_msg sB))"
    and "\<not> (opt_shm ops \<and> opt_scope ops = SCOPE_HOST)" "\<not> throttled ops"
    and "pr_ser P msg = Some bytes" "pr_parse P y bytes = (msg, True)"
  shows "\<exists>nB' sB' outB nA' sA' outA pb adv b1 b2 out hellos.
    node_subscribe k y t nB sB = (nB', sB', outB, True) \<and>
    node_advertise fl y t ops nA sA = (nA', sA', outA, pb) \<and> outA = [OnMsg (EMulticast adv)] \<and>
    mr_discovery_msg ip adv now (ns_msg sB') = (b1, []) \<and> applySubscriberCommands (\<lambda>_. False) b1 = (b2, out) \<and>
    hellos \<noteq> [] \<and>
    out = (if hasPublisher (mr_addr (ns_msg sA)) (mr_rpubs (ns_msg sB)) then [] else [EConnect (mr_addr (ns_msg sA))]) @
      ESubscribe t # map EMulticast hellos \<and>
    (\<forall>hello \<in> set hellos. (\<exists>sA'' fr b3 out3.
       publishImpl P hash sys True c d y msg pb (sA'\<lparr>ns_msg := fst (mr_discovery_msg ip' hello now' (ns_msg sA'))\<rparr>) os =
         Inr (pb, sA'', os, [OnMsg (ESend fr)], True) \<and>
       remoteDispatch P sys' mem (receiveMessage fr b2) = Inr (b3, out3) \<and>
       count (mset out3) (ECallback k msg t y) = 1))"
proof -
  let ?a = "ns_msg sA" and ?b = "ns_msg sB"
  define pub where "pub = mkMessagePublisherInfo t (mr_addr ?a) ''unused'' (mr_uuid ?a) (nd_uuid nA) y ops"
  have k: "p_topic pub = t" "p_proc pub = mr_uuid ?a" "m_opts pub = ops" "m_type pub = y" "msg_pub_wf pub" "p_addr pub = mr_addr ?a"
    by (simp_all add: pub_def msg_pub_wf_def)
  from subscribed [OF assms(2,5,7), of y nB] obtain bs outB h where
    sub: "node_subscribe k y t nB sB = (nB\<lparr>nd_subs := insert t (nd_subs nB)\<rparr>, sB\<lparr>ns_msg := bs\<rparr>, outB, True)" and
    bs: "rt_ok bs" "mr_disc bs = mr_disc ?b" "mr_uuid bs = mr_uuid ?b" "mr_cmds bs = []" "mr_remoteq bs = []" "\<not> mr_exit bs"
      "mr_rpubs bs = mr_rpubs ?b" and
    look: "hlook (mr_local bs) (t, nd_uuid nB, k) = Some h" "sh_type h = y" and
    one: "{x \<in> listeners bs t y. snd x = k} = {(nd_uuid nB, k)}" .
  have "opt_scope ops \<noteq> SCOPE_PROCESS" using assms(11) by auto
  from advertised [OF assms(1,4) this assms(8) pub_def, of fl] obtain as where
    adv: "node_advertise fl y t ops nA sA = (nA\<lparr>nd_adv := insert t (nd_adv nA)\<rparr>, sA\<lparr>ns_msg := as\<rparr>,
      [OnMsg (EMulticast (fillDiscovery_msg pub (header ADVERTISE (mr_disc as))))], mk_publisher fl pub)" and
    as: "rt_ok as" "d_proc (mr_disc as) = mr_uuid as" "mr_uuid as = mr_uuid ?a" "mr_rsubs as = mr_rsubs ?a" "d_reg (mr_disc as)" .
  have key: "\<not> (\<exists>q \<in> ts_view (d_pubs (mr_disc bs)). pub_key q = pub_key pub)"
    using assms(5) k(1) by (auto simp: bs(2) pub_key_def)
  have near: "opt_scope (m_opts pub) = SCOPE_ALL \<or> opt_scope (m_opts pub) = SCOPE_HOST \<and> is_sender_local ip (mr_disc bs)"
    using assms(11) by (simp add: k(3) bs(2))
  have look': "hlook (mr_local bs) (p_topic pub, nd_uuid nB, k) = Some h" "sh_type h = m_type pub"
    using look by (simp_all add: k)
  have own: "d_proc (mr_disc bs) = mr_uuid bs" "mr_uuid as \<noteq> mr_uuid bs" "d_conn (mr_disc bs)" "p_proc pub = mr_uuid as"
    using assms(2,3) by (simp_all add: bs(2,3) as(3) k(2) idle_def)
  have fresh: "\<forall>q \<in> ts_view (mr_rsubs as). p_proc q \<noteq> mr_uuid bs" using assms(6) by (simp add: as(4) bs(3))
  obtain b1 b2 out hellos where hs: "mr_discovery_msg ip (fillDiscovery_msg pub (header ADVERTISE (mr_disc as))) now bs = (b1, [])"
      "applySubscriberCommands (\<lambda>_. False) b1 = (b2, out)" "hellos \<noteq> []"
      "out = (if hasPublisher (mr_addr ?a) (mr_rpubs ?b) then [] else [EConnect (mr_addr ?a)]) @ ESubscribe t # map EMulticast hellos"
      "\<forall>m \<in> set hellos. hasTopic_type t y (mr_rsubs (fst (mr_discovery_msg ip' m now' as)))"
      "rt_ok b2" "mr_local b2 = mr_local bs" "mr_remoteq b2 = mr_remoteq bs" "mr_exit b2 = mr_exit bs"
    using handshake_core [OF as(1) bs(1) as(2) own(1,2) as(5) own(3) bs(4) k(5) own(4) near key look' fresh, of now ip' now']
    unfolding k bs(7) by blast
  have call: "\<exists>sA'' fr b3 out3.
      publishImpl P hash sys True c d y msg (mk_publisher fl pub) (sA\<lparr>ns_msg := fst (mr_discovery_msg ip' m now' as)\<rparr>) os =
        Inr (mk_publisher fl pub, sA'', os, [OnMsg (ESend fr)], True) \<and>
      remoteDispatch P sys' mem (receiveMessage fr b2) = Inr (b3, out3) \<and> count (mset out3) (ECallback k msg t y) = 1"
    if "m \<in> set hellos" for m
  proof -
    have topic: "hasTopic_type (p_topic pub) (m_type pub) (mr_rsubs (fst (mr_discovery_msg ip' m now' as)))"
      using hs(5) that by (simp add: k)
    have one': "{x \<in> listeners b2 t y. snd x = k} = {(nd_uuid nB, k)}" using one by (simp add: listeners_def hs(7))
    show ?thesis
      by (rule publish_called [OF topic _ _ k(1,4) assms(9,10,14,15) hs(6) _ _ one'])
        (use assms(12,13) hs(8,9) bs(5,6) in \<open>simp_all add: k(3)\<close>)
  qed
  show ?thesis
    using sub adv hs(1-4) call
    by (intro exI [of _ "nB\<lparr>nd_subs := insert t (nd_subs nB)\<rparr>"] exI [of _ "sB\<lparr>ns_msg := bs\<rparr>"] exI [of _ outB]
        exI [of _ "nA\<lparr>nd_adv := insert t (nd_adv nA)\<rparr>"] exI [of _ "sA\<lparr>ns_msg := as\<rparr>"]
        exI [of _ "[OnMsg (EMulticast (fillDiscovery_msg pub (header ADVERTISE (mr_disc as))))]"] exI [of _ "mk_publisher fl pub"]
        exI [of _ "fillDiscovery_msg pub (header ADVERTISE (mr_disc as))"] exI [of _ b1] exI [of _ b2] exI [of _ out]
        exI [of _ hellos]) simp
qed

text \<open>Two freshly started processes.\<close>

definition started_process :: "string \<Rightarrow> string \<Rightarrow> string shared" where
  "started_process u host = \<lparr>ns_msg = (new_msg_rt ((node_disc u host)\<lparr>d_reg := True\<rparr>) u)\<lparr>mr_addr := ''tcp://'' @ host @ '':5''\<rparr>,
     ns_srv = None\<rparr>"

lemma started_process_simps [simp]:
  "mr_disc (ns_msg (started_process u host)) = (node_disc u host)\<lparr>d_reg := True\<rparr>"
  "mr_uuid (ns_msg (started_process u host)) = u" "mr_rsubs (ns_msg (started_process u host)) = []"
  "mr_local (ns_msg (started_process u host)) = []"
  by (simp_all add: started_process_def new_msg_rt_def)

lemma started_idle: "idle (ns_msg (started_process u host))"
proof -
  have "disc_ok msg_pub_wf ((node_disc u host)\<lparr>d_reg := True\<rparr>)" by (simp add: disc_ok_def ts_view_def)
  then have "rt_ok (new_msg_rt ((node_disc u host)\<lparr>d_reg := True\<rparr>) u)" by (rule rt_ok_new)
  then have "rt_ok (ns_msg (started_process u host))" by (simp add: started_process_def rt_ok_def)
  then show ?thesis by (simp add: idle_def) (simp add: started_process_def new_msg_rt_def)
qed

theorem publish_reaches_subscriber_witness:
  "\<exists>nB' sB' outB nA' sA' outA pb adv b1 b2 hello hellos sA'' fr b3 out3.
    node_subscribe ''cb'' ''T'' ''chat'' (new_node ''nB'') (started_process ''uB'' ''10.0.0.2'') = (nB', sB', outB, True) \<and>
    node_advertise id ''T'' ''chat'' new_msg_opts (new_node ''nA'') (started_process ''uA'' ''10.0.0.1'') = (nA', sA', outA, pb) \<and>
    outA = [OnMsg (EMulticast adv)] \<and>
    mr_discovery_msg ''10.0.0.1'' adv 5 (ns_msg sB') = (b1, []) \<and>
    applySubscriberCommands (\<lambda>_. False) b1 = (b2, EConnect ''tcp://10.0.0.1:5'' # ESubscribe ''chat'' # map EMulticast hellos) \<and> hello \<in> set hellos \<and>
    publishImpl text_proto (\<lambda>_. 7) sys_ok True 8 9 ''T'' ''hello'' pb
      (sA'\<lparr>ns_msg := fst (mr_discovery_msg ''10.0.0.2'' hello 6 (ns_msg sA'))\<rparr>) no_shm = Inr (pb, sA'', no_shm, [OnMsg (ESend fr)], True) \<and>
    remoteDispatch text_proto sys_ok (\<lambda>_. (no_shm, no_shm)) (receiveMessage fr b2) = Inr (b3, out3) \<and>
    ECallback ''cb'' ''hello'' ''chat'' ''T'' \<in> set out3"
proof -
  have none: "\<not> hasPublisher (mr_addr (ns_msg (started_process ''uA'' ''10.0.0.1''))) (mr_rpubs (ns_msg (started_process ''uB'' ''10.0.0.2'')))"
    and addr: "mr_addr (ns_msg (started_process ''uA'' ''10.0.0.1'')) = ''tcp://10.0.0.1:5''"
    by (simp_all add: started_process_def new_msg_rt_def hasPublisher_def)
  have "\<exists>nB' sB' outB nA' sA' outA pb adv b1 b2 out hellos.
    node_subscribe ''cb'' ''T'' ''chat'' (new_node ''nB'') (started_process ''uB'' ''10.0.0.2'') = (nB', sB', outB, True) \<and>
    node_advertise id ''T'' ''chat'' new_msg_opts (new_node ''nA'') (started_process ''uA'' ''10.0.0.1'') = (nA', sA', outA, pb) \<and>
    outA = [OnMsg (EMulticast adv)] \<and>
    mr_discovery_msg ''10.0.0.1'' adv 5 (ns_msg sB') = (b1, []) \<and> applySubscriberCommands (\<lambda>_. False) b1 = (b2, out) \<and>
    hellos \<noteq> [] \<and>
    out = (if hasPublisher (mr_addr (ns_msg (started_process ''uA'' ''10.0.0.1''))) (mr_rpubs (ns_msg (started_process ''uB'' ''10.0.0.2'')))
       then [] else [EConnect (mr_addr (ns_msg (started_process ''uA'' ''10.0.0.1'')))]) @ ESubscribe ''chat'' # map EMulticast hellos \<and>
    (\<forall>hello \<in> set hellos. (\<exists>sA'' fr b3 out3.
       publishImpl text_proto (\<lambda>_. 7) sys_ok True 8 9 ''T'' ''hello'' pb
         (sA'\<lparr>ns_msg := fst (mr_discovery_msg ''10.0.0.2'' hello 6 (ns_msg sA'))\<rparr>) no_shm = Inr (pb, sA'', no_shm, [OnMsg (ESend fr)], True) \<and>
       remoteDispatch text_proto sys_ok (\<lambda>_. (no_shm, no_shm)) (receiveMessage fr b2) = Inr (b3, out3) \<and>
       count (mset out3) (ECallback ''cb'' ''hello'' ''chat'' ''T'') = 1))"
    by (rule publish_reaches_subscriber [OF started_idle started_idle])
      (simp_all add: ts_view_def text_proto_def kShmMsgTypeMarker_def new_node_def new_msg_opts_def throttled_def hlook_get)
  then obtain nB' sB' outB nA' sA' outA pb adv b1 b2 out hellos where
    1: "node_subscribe ''cb'' ''T'' ''chat'' (new_node ''nB'') (started_process ''uB'' ''10.0.0.2'') = (nB', sB', outB, True)"
      "node_advertise id ''T'' ''chat'' new_msg_opts (new_node ''nA'') (started_process ''uA'' ''10.0.0.1'') = (nA', sA', outA, pb)"
      "outA = [OnMsg (EMulticast adv)]" "mr_discovery_msg ''10.0.0.1'' adv 5 (ns_msg sB') = (b1, [])"
      "applySubscriberCommands (\<lambda>_. False) b1 = (b2, EConnect ''tcp://10.0.0.1:5'' # ESubscribe ''chat'' # map EMulticast hellos)" "hellos \<noteq> []"
    and 2: "\<forall>hello \<in> set hellos. (\<exists>sA'' fr b3 out3.
       publishImpl text_proto (\<lambda>_. 7) sys_ok True 8 9 ''T'' ''hello'' pb
         (sA'\<lparr>ns_msg := fst (mr_discovery_msg ''10.0.0.2'' hello 6 (ns_msg sA'))\<rparr>) no_shm = Inr (pb, sA'', no_shm, [OnMsg (ESend fr)], True) \<and>
       remoteDispatch text_proto sys_ok (\<lambda>_. (no_shm, no_shm)) (receiveMessage fr b2) = Inr (b3, out3) \<and>
       count (mset out3) (ECallback ''cb'' ''hello'' ''chat'' ''T'') = 1)"
    using none addr by auto
  obtain hello where hello: "hello \<in> set hellos" using 1(6) by (cases hellos) auto
  obtain sA'' fr b3 out3 where 3:
      "publishImpl text_proto (\<lambda>_. 7) sys_ok True 8 9 ''T'' ''hello'' pb
         (sA'\<lparr>ns_msg := fst (mr_discovery_msg ''10.0.0.2'' hello 6 (ns_msg sA'))\<rparr>) no_shm = Inr (pb, sA'', no_shm, [OnMsg (ESend fr)], True)"
      "remoteDispatch text_proto sys_ok (\<lambda>_. (no_shm, no_shm)) (receiveMessage fr b2) = Inr (b3, out3)"
      "count (mset out3) (ECallback ''cb'' ''hello'' ''chat'' ''T'') = 1"
    using 2 hello by blast
  have "ECallback ''cb'' ''hello'' ''chat'' ''T'' \<in># mset out3"
    using 3(3) by (subst count_greater_zero_iff [symmetric]) simp
  then have "ECallback ''cb'' ''hello'' ''chat'' ''T'' \<in> set out3" by simp
  with 1 3(1,2) hello show ?thesis by blast
qed

end
