(* ===== verification/CallEndToEnd.thy ===== *)
theory CallEndToEnd
  imports NodeCalls
begin

text \<open>
  From one program's advertise to another program's answered call: a service offered by a
  node of one process, discovered and called by a node of another that did not know it.
\<close>

section \<open>The two sides\<close>

text \<open>A service runtime that has been started and has nothing left to do.\<close>

definition quiet :: "'m srv_rt \<Rightarrow> bool" where
  "quiet rt \<longleftrightarrow> sr_ok rt \<and> d_proc (sr_disc rt) = sr_uuid rt \<and> d_conn (sr_disc rt) \<and> \<not> sr_exit rt \<and>
     sr_requests rt = [] \<and> sr_responses rt = []"

lemma requests_sent:
  "\<exists>rt' frss. fold (send_request P zok r t y z) ks (rt, out) = (rt', out @ map SRequest frss) \<and> sr_conns rt' = sr_conns rt"
proof (induction ks arbitrary: rt out)
  case Nil
  show ?case by (auto intro: exI [of _ "[]"])
next
  case (Cons nk ks)
  obtain rt1 frss1 where "send_request P zok r t y z nk (rt, out) = (rt1, out @ map SRequest frss1)" "sr_conns rt1 = sr_conns rt"
  proof (cases "send_request P zok r t y z nk (rt, out)")
    case (Pair rt1 out1)
    then have "(\<exists>frss. out1 = out @ map SRequest frss) \<and> sr_conns rt1 = sr_conns rt"
      by (auto simp: send_request_def Let_def intro: exI [of _ "[]"] exI [of _ "[x]" for x] split: prod.splits if_splits option.splits)
    with that Pair show ?thesis by blast
  qed
  moreover obtain rt2 frss2 where
    "fold (send_request P zok r t y z) ks (rt1, out @ map SRequest frss1) = (rt2, (out @ map SRequest frss1) @ map SRequest frss2)"
    "sr_conns rt2 = sr_conns rt1" using Cons.IH by blast
  ultimately show ?case by (intro exI [of _ rt2] exI [of _ "frss1 @ frss2"]) simp
qed

text \<open>A new service: the requester connects to it if it is not connected, then sends what waits for it.\<close>

lemma connected_returns:
  assumes "zconn (p_addr q)" "sr_getPublishers (p_topic q) rt = Some addrs" "find_responder (s_req q) (s_rep q) addrs = Some q"
  shows "\<exists>rt' frss. onServiceConnected P zconn zok q rt =
      Inr (rt', (if p_addr q \<in> sr_conns rt then [] else [SConnect (p_addr q)]) @ map SRequest frss) \<and> p_addr q \<in> sr_conns rt'"
proof -
  let ?out1 = "if p_addr q \<in> sr_conns rt then [] else [SConnect (p_addr q)]"
  obtain rt1 where 1: "sr_connect zconn (p_addr q) rt = Inr (rt1, ?out1)" "sr_disc rt1 = sr_disc rt" "p_addr q \<in> sr_conns rt1"
    using assms(1) by (cases "p_addr q \<in> sr_conns rt") (auto simp: sr_connect_def)
  have "sr_connect zconn (p_addr q) rt1 = Inr (rt1, [])" using 1(3) by (simp add: sr_connect_def)
  moreover have "sr_getPublishers (p_topic q) rt1 = Some addrs" using assms(2) 1(2) by (simp add: sr_getPublishers_def)
  ultimately have "\<exists>rt2 frss. sendPendingRequests P zconn zok (p_topic q) (s_req q) (s_rep q) rt1 = Inr (rt2, map SRequest frss) \<and>
      sr_conns rt2 = sr_conns rt1"
    using assms(3) requests_sent [of P zok q "p_topic q" "s_req q" "s_rep q" _ rt1 "[]"]
    by (auto simp: sendPendingRequests_def split: option.split)
  then obtain rt2 frss where
    2: "sendPendingRequests P zconn zok (p_topic q) (s_req q) (s_rep q) rt1 = Inr (rt2, map SRequest frss)" "sr_conns rt2 = sr_conns rt1"
    by blast
  show ?thesis
  proof (cases "getFirstHandler_types (\<lambda>u. rq_req_type (rq_at rt1 u)) (\<lambda>u. rq_rep_type (rq_at rt1 u)) (p_topic q) (s_req q) (s_rep q) (sr_req rt1)")
    case None
    with 1 show ?thesis by (intro exI [of _ rt1] exI [of _ "[]"]) (simp add: onServiceConnected_def)
  next
    case (Some u)
    with 1 2 show ?thesis by (intro exI [of _ rt2] exI [of _ frss]) (simp add: onServiceConnected_def)
  qed
qed

text \<open>The server once it has advertised: as before, with the handler as its own for the topic.\<close>

lemma advertised_serves:
  assumes "sr_advertise P zconn zok t n g y z opts s = Inr (s1, out, ok)" "quiet s"
    and "\<forall>n k. hlook (sr_resp s) (t, n, k) = None" "rp_req_type g = y" "rp_rep_type g = z"
  shows "\<not> sr_exit s1 \<and> sr_requests s1 = [] \<and> getLocalHandler t y z s1 = Some g"
proof -
  let ?resp = "addHandler rp_uuid t n g (sr_resp s)"
  obtain d es where ev: "sr_disc_events P zconn zok es (s\<lparr>sr_resp := ?resp, sr_disc := d\<rparr>) = Inr (s1, out)"
    using assms(1) by (auto simp: sr_advertise_def Let_def split: prod.splits sum.splits)
  have reqs: "reqs_ok (sr_req s) (sr_heap s)" and wf: "hs_wf rp_uuid (sr_resp s)"
    using assms(2) by (simp_all add: quiet_def sr_ok_def)
  have tr: "traffic (s\<lparr>sr_resp := ?resp, sr_disc := d\<rparr>) out s1" by (rule traffic_events [OF _ ev]) (simp add: reqs)
  have look: "hlook ?resp (t, n', k) = Some h \<longleftrightarrow> n' = n \<and> k = rp_uuid g \<and> h = g" for n' k h
    using assms(3) by (auto simp: hlook_add)
  note first = getFirst_types [OF hs_wf_add [OF wf], of rp_req_type rp_rep_type t y z t n g]
  have "getFirstHandler_types rp_req_type rp_rep_type t y z ?resp \<noteq> None"
    unfolding first(2) using look assms(4,5) by blast
  then obtain h where h: "getFirstHandler_types rp_req_type rp_rep_type t y z ?resp = Some h" by blast
  then have "h = g" using first(1) [OF h] look by blast
  with h tr assms(2) show ?thesis by (simp add: traffic_def getLocalHandler_def quiet_def)
qed

text \<open>The client once the advertisement has arrived.\<close>

lemma discovered_ready:
  assumes "sr_advertise P' zconn' zok' t n' g y z opts s = Inr (s1, sout, True)" "quiet s" "quiet c" "sr_uuid s \<noteq> sr_uuid c"
    and "opt_scope opts = SCOPE_ALL" "\<forall>q \<in> ts_view (d_pubs (sr_disc c)). p_topic q \<noteq> t" "zconn (sr_replier_addr s)"
    and "map_of (sr_heap c) k = None"
  shows "\<exists>m c1 frss q addrs. SMulticast m \<in> set sout \<and> sr_discovery_msg P zconn zok ip m now c = Inr (c1,
      (if sr_replier_addr s \<in> sr_conns c then [] else [SConnect (sr_replier_addr s)]) @ map SRequest frss) \<and>
    sr_replier_addr s \<in> sr_conns c1 \<and>
    sr_ok c1 \<and> \<not> sr_exit c1 \<and> sr_requests c1 = [] \<and> sr_responses c1 = [] \<and> sr_resp c1 = sr_resp c \<and>
    map_of (sr_heap c1) k = None \<and> sr_getPublishers t c1 = Some addrs \<and> find_responder y z addrs = Some q \<and>
    p_addr q = sr_replier_addr s \<and> s_sock q = sr_replier_id s"
proof -
  have c: "sr_ok c" "d_conn (sr_disc c)" "sr_uuid s \<noteq> d_proc (sr_disc c)" using assms(3,4) by (simp_all add: quiet_def)
  have s: "d_proc (sr_disc s) = sr_uuid s" using assms(2) by (simp add: quiet_def)
  have none: "\<not> (\<exists>q \<in> ts_view (d_pubs (sr_disc c)). p_topic q = t \<and> p_proc q = sr_uuid s)" using assms(6) by blast
  obtain m d q where sent: "SMulticast m \<in> set sout"
      and disc: "sr_discovery_msg P zconn zok ip m now c = sr_disc_events P zconn zok [Connected q] (c\<lparr>sr_disc := d\<rparr>)"
      and ok: "sr_ok (c\<lparr>sr_disc := d\<rparr>)" and view: "ts_view (d_pubs d) = insert q (ts_view (d_pubs (sr_disc c)))"
      and q: "serves t y z q" "p_addr q = sr_replier_addr s" "s_sock q = sr_replier_id s"
    using advertised_discovered [OF c(1) s c(3,2) assms(1,5) none, of P zconn zok ip now] by blast
  have only: "serves t y z r \<longleftrightarrow> r = q" if "r \<in> ts_view (d_pubs (sr_disc (c\<lparr>sr_disc := d\<rparr>)))" for r
    using that view q(1) assms(6) by (auto simp: serves_def)
  obtain addrs where addrs: "sr_getPublishers t (c\<lparr>sr_disc := d\<rparr>) = Some addrs" "find_responder y z addrs = Some q"
    using only_responder [OF ok only] view by auto
  have q': "p_topic q = t" "s_req q = y" "s_rep q = z" using q(1) by (simp_all add: serves_def)
  obtain c1 frss where con: "onServiceConnected P zconn zok q (c\<lparr>sr_disc := d\<rparr>) =
        Inr (c1, (if sr_replier_addr s \<in> sr_conns c then [] else [SConnect (sr_replier_addr s)]) @ map SRequest frss)"
    and linked: "sr_replier_addr s \<in> sr_conns c1"
    using connected_returns [of zconn q "c\<lparr>sr_disc := d\<rparr>" addrs P zok] addrs assms(7) q(2) q' by auto
  have tr: "traffic (c\<lparr>sr_disc := d\<rparr>) ((if sr_replier_addr s \<in> sr_conns c then [] else [SConnect (sr_replier_addr s)]) @
      map SRequest frss) c1"
    by (rule traffic_connected [OF _ con]) (use ok in \<open>simp add: sr_ok_def\<close>)
  have ok1: "sr_ok c1" using sr_ok_traffic [OF tr ok] .
  have "map_option core (map_of (sr_heap c1) k) = None" using tr assms(8) by (simp add: traffic_def)
  then have heap: "map_of (sr_heap c1) k = None" by simp
  have pubs: "sr_getPublishers t c1 = Some addrs" using addrs(1) tr by (simp add: sr_getPublishers_def traffic_def)
  have same: "\<not> sr_exit c1" "sr_requests c1 = []" "sr_responses c1 = []" "sr_resp c1 = sr_resp c"
    using tr assms(3) by (simp_all add: traffic_def quiet_def)
  have "sr_discovery_msg P zconn zok ip m now c = Inr (c1,
      (if sr_replier_addr s \<in> sr_conns c then [] else [SConnect (sr_replier_addr s)]) @ map SRequest frss)"
    using disc con by simp
  then show ?thesis using sent linked ok1 same heap pubs addrs(2) q(2,3) by blast
qed

section \<open>From advertise to answer\<close>

text \<open>
  C2: a call reaches a service of another process. Process S's node advertises a service with
  scope ALL and succeeds; process C knows nothing of the topic; both are started and idle.
  When C gets S's ADVERTISE its requester first connects to S's socket, unless it is connected
  already, then at most sends requests that wait, and C has the service from then on. A node
  of C that then makes a blocking call sends its request to that socket; S's threads, when
  they get it, run the callback and send its reply; and when this reaches C in time, the call
  returns true with the reply the callback gave and a true verdict. No socket call on the way
  fails, and request and reply are read as they were written.
\<close>

theorem call_reaches_service:
  assumes "node_advertiseService P zconn' zok' g y z t (Some cb) opts nS sS = Inr (nS', sS', outS, True)"
    and "ns_srv sS = Some s" "quiet s" "ns_srv sC = Some c" "quiet c" "sr_uuid s \<noteq> sr_uuid c"
    and "opt_scope opts = SCOPE_ALL" "\<forall>n k. hlook (sr_resp s) (t, n, k) = None"
    and "\<forall>q \<in> ts_view (d_pubs (sr_disc c)). p_topic q \<noteq> t" "getLocalHandler t y z c = None" "map_of (sr_heap c) k = None"
    and "zconn (sr_replier_addr s)" "zok [sr_replier_id s, t, nd_uuid nC, k, data, y, z]"
    and "zok' [idc, t, nd_uuid nC, k, rdata, ''1'']"
    and "pr_ser P req = Some data" "pr_parse P y data = (req, True)" "cb req = (True, rep)"
    and "pr_ser P rep = Some rdata" "pr_parse P z rdata = (rep, True)"
  shows "\<exists>adv c1 frss v v' out2 sC' out3. OnSrv (SMulticast adv) \<in> set outS \<and>
    sr_discovery_msg P zconn zok ip adv now c = Inr (c1,
      (if sr_replier_addr s \<in> sr_conns c then [] else [SConnect (sr_replier_addr s)]) @ map SRequest frss) \<and>
    sr_replier_addr s \<in> sr_conns c1 \<and> ns_hasService t (sC\<lparr>ns_srv := Some c1\<rparr>) = Inr True \<and>
    OnSrv (SRequest [sr_replier_id s, t, nd_uuid nC, k, data, y, z]) \<in> set out3 \<and>
    ns_srv sS' = Some v \<and>
    serviceHandle P zok' (sr_receive_turn (Some [idc, t, nd_uuid nC, k, data, y, z]) None v) = (v', out2) \<and>
    SReply [idc, t, nd_uuid nC, k, rdata, ''1''] \<in> set out2 \<and>
    node_request_wait P zconn zok (reply_arrives P zok [ids, t, nd_uuid nC, k, rdata, ''1'']) k y z t req reply result nC
      (sC\<lparr>ns_srv := Some c1\<rparr>) = Inr (sC', out3, \<lparr>ca_ret = True, ca_reply = rep, ca_result = True\<rparr>)"
proof -
  define h where "h = \<lparr>rp_uuid = g, rp_req_type = y, rp_rep_type = z, rp_cb = Some cb\<rparr>"
  obtain v sout where adv: "sr_advertise P zconn' zok' t (nd_uuid nS) h y z opts s = Inr (v, sout, True)"
      and out: "outS = map OnSrv sout" "ns_srv sS' = Some v"
    using assms(1,2) by (auto simp: node_advertiseService_def ns_advertiseService_def on_srv_def Let_def h_def
        split: if_splits sum.splits)
  have v: "\<not> sr_exit v" "sr_requests v = []" "getLocalHandler t y z v = Some h"
    using advertised_serves [OF adv assms(3,8)] by (simp_all add: h_def)
  obtain m c1 frss q addrs where sent: "SMulticast m \<in> set sout" and disc: "sr_discovery_msg P zconn zok ip m now c = Inr (c1,
        (if sr_replier_addr s \<in> sr_conns c then [] else [SConnect (sr_replier_addr s)]) @ map SRequest frss)"
        "sr_replier_addr s \<in> sr_conns c1"
      and c1: "sr_ok c1" "\<not> sr_exit c1" "sr_requests c1 = []" "sr_responses c1 = []" "map_of (sr_heap c1) k = None"
        "sr_getPublishers t c1 = Some addrs" "find_responder y z addrs = Some q"
      and resp: "sr_resp c1 = sr_resp c" and q: "p_addr q = sr_replier_addr s" "s_sock q = sr_replier_id s"
    using discovered_ready [OF adv assms(3,5,6,7,9), of zconn k P zok ip now] assms(11,12) by blast
  have has: "ns_hasService t (sC\<lparr>ns_srv := Some c1\<rparr>) = Inr True"
    using c1(6) by (simp add: ns_hasService_def ask_srv_def hasService_def)
  have loc: "getLocalHandler t y z c1 = None" using assms(10) resp by (simp add: getLocalHandler_def)
  have run: "rp_runCallback P h data = (rdata, True)"
    using assms(16-18) by (simp add: rp_runCallback_def h_def rp_createMsg_def)
  have frames: "reply_frames P h idc t (nd_uuid nC) k data = [idc, t, nd_uuid nC, k, rdata, ''1'']"
    by (simp add: reply_frames_def run)
  have side: "ns_srv (sC\<lparr>ns_srv := Some c1\<rparr>) = Some c1" "zconn (p_addr q)" "zok [s_sock q, t, nd_uuid nC, k, data, y, z]"
      "zok' (reply_frames P h idc t (nd_uuid nC) k data)"
    using assms(12-14) by (simp_all add: q frames)
  note call = blocking_core [where zconn = zconn and zok = zok and zok' = zok' and ids = ids and reply = reply and result = result,
      OF side(1) loc c1 side(2) assms(15) side(3) v side(4),
      unfolded frames run q(2) list.sel fst_conv snd_conv assms(19) not_True_eq_False if_False]
  obtain sC' out3 v' out2 where answered:
      "SRequest [sr_replier_id s, t, nd_uuid nC, k, data, y, z] \<in> set out3"
      "serviceHandle P zok' (sr_receive_turn (Some [idc, t, nd_uuid nC, k, data, y, z]) None v) = (v', out2)"
      "SReply [idc, t, nd_uuid nC, k, rdata, ''1''] \<in> set out2"
      "node_request_wait P zconn zok (reply_arrives P zok [ids, t, nd_uuid nC, k, rdata, ''1'']) k y z t req reply result nC
        (sC\<lparr>ns_srv := Some c1\<rparr>) = Inr (sC', map OnSrv out3, \<lparr>ca_ret = True, ca_reply = rep, ca_result = True\<rparr>)"
    using call by (elim exE conjE)
  have "OnSrv (SMulticast m) \<in> set outS" "OnSrv (SRequest [sr_replier_id s, t, nd_uuid nC, k, data, y, z]) \<in> set (map OnSrv out3)"
    using sent answered(1) out(1) by simp_all
  then show ?thesis using disc has answered(2-4) out(2)
    by (intro exI [of _ m] exI [of _ c1] exI [of _ frss] exI [of _ v] exI [of _ v'] exI [of _ out2] exI [of _ sC']
        exI [of _ "map OnSrv out3"] conjI)
qed

text \<open>Two freshly started processes; the service echoes.\<close>

definition with_service :: "string \<Rightarrow> string srv_rt \<Rightarrow> string shared" where
  "with_service u rt = \<lparr>ns_msg = new_msg_rt (node_disc u ''10.0.0.1'') u, ns_srv = Some rt\<rparr>"

lemma started_quiet: "quiet server" "quiet client"
  using runtimes_ok(1,2) by (simp_all add: quiet_def) (simp_all add: server_def client_def new_srv_rt_def)

theorem call_reaches_service_witness:
  "\<exists>nS' sS' outS adv c1 frss sC' out3.
    node_advertiseService text_proto (\<lambda>_. True) (\<lambda>_. True) ''g'' ''Q'' ''A'' ''svc'' (Some (\<lambda>q. (True, q @ ''!''))) new_opts
      (new_node ''n1'') (with_service ''uS'' server) = Inr (nS', sS', outS, True) \<and>
    OnSrv (SMulticast adv) \<in> set outS \<and>
    sr_discovery_msg text_proto (\<lambda>_. True) (\<lambda>_. True) ''10.0.0.1'' adv 5 client = Inr (c1, SConnect (sr_replier_addr server) # map SRequest frss) \<and>
    node_request_wait text_proto (\<lambda>_. True) (\<lambda>_. True)
      (reply_arrives text_proto (\<lambda>_. True) [''idS'', ''svc'', ''n2'', ''r'', ''hi!'', ''1'']) ''r'' ''Q'' ''A'' ''svc'' ''hi'' ''old'' False
      (new_node ''n2'') ((with_service ''uC'' client)\<lparr>ns_srv := Some c1\<rparr>) =
        Inr (sC', out3, \<lparr>ca_ret = True, ca_reply = ''hi!'', ca_result = True\<rparr>)"
proof -
  have "\<exists>nS' sS' outS. node_advertiseService text_proto (\<lambda>_. True) (\<lambda>_. True) ''g'' ''Q'' ''A'' ''svc'' (Some (\<lambda>q. (True, q @ ''!''))) new_opts
      (new_node ''n1'') (with_service ''uS'' server) = Inr (nS', sS', outS, True)"
    by (simp add: node_advertiseService_def ns_advertiseService_def on_srv_def with_service_def new_node_def
        sr_advertise_def Let_def disc_advertise_def addPublisher_def om_get_def srv_class_def sendMsg_simps(4)
        onServiceConnected_def sr_connect_def server_def new_srv_rt_def getFirstHandler_types_def new_opts_def)
  then obtain nS' sS' outS where adv: "node_advertiseService text_proto (\<lambda>_. True) (\<lambda>_. True) ''g'' ''Q'' ''A'' ''svc''
      (Some (\<lambda>q. (True, q @ ''!''))) new_opts (new_node ''n1'') (with_service ''uS'' server) = Inr (nS', sS', outS, True)" by blast
  have srv: "ns_srv (with_service ''uS'' server) = Some server" "ns_srv (with_service ''uC'' client) = Some client"
      "nd_uuid (new_node ''n2'') = ''n2''" "sr_uuid client = ''uC''"
    by (simp_all add: with_service_def new_node_def client_def new_srv_rt_def)
  have loc: "getLocalHandler ''svc'' ''Q'' ''A'' client = None"
    by (simp add: getLocalHandler_def getFirstHandler_types_def client_def new_srv_rt_def)
  show ?thesis
    using call_reaches_service [OF adv srv(1) started_quiet(1) srv(2) started_quiet(2) _ _ _ _ loc, where k = "''r''" and zconn = "\<lambda>_. True"
        and zok = "\<lambda>_. True" and nC = "new_node ''n2''" and data = "''hi''" and req = "''hi''" and idc = "''idC''"
        and rdata = "''hi!''" and rep = "''hi!''" and ip = "''10.0.0.1''" and now = 5 and ids = "''idS''" and reply = "''old''" and result = False] adv
    by (simp add: srv(3,4) new_opts_def hlook_get ts_view_def text_proto_def) blast
qed

end
