(* ===== verification/CliJson.thy ===== *)
theory CliJson
  imports AdvertiseOptions Complex_Main
begin

text \<open>
  The printing half of the command-line tool (src/tools/rf_trans.cc): JSON strings and
  objects, tables, raw protobuf decoding. Standard output is a string. Parsing of unknown
  protobuf fields is the library's, a parameter.
\<close>

section \<open>Endpoints as the observer reports them\<close>

record msg_ep =
  me_topic :: string
  me_addr :: string
  me_ctrl :: string
  me_proc :: string
  me_pname :: string
  me_node :: string
  me_type :: string
  me_scope :: scope
  me_throttled :: bool
  me_rate :: u64

record srv_ep =
  se_topic :: string
  se_addr :: string
  se_sock :: string
  se_proc :: string
  se_pname :: string
  se_node :: string
  se_req :: string
  se_rep :: string
  se_scope :: scope

definition scopeName :: "scope \<Rightarrow> string" where
  "scopeName s = (case s of SCOPE_PROCESS \<Rightarrow> ''process'' | SCOPE_HOST \<Rightarrow> ''host'' | SCOPE_ALL \<Rightarrow> ''all'')"

section \<open>JSON\<close>

definition dq :: char where "dq = CHR 0x22"
definition bs :: char where "bs = CHR 0x5C"

text \<open>\<open>std::hex\<close> with \<open>setw(4)\<close> and fill \<open>0\<close>.\<close>

definition hex4 :: "nat \<Rightarrow> string" where
  "hex4 n = replicate (4 - length (hex n)) (CHR ''0'') @ hex n"

definition escape_char :: "char \<Rightarrow> string" where
  "escape_char c =
     (if c = dq then [bs, dq]
      else if c = bs then [bs, bs]
      else if c = CHR 0x08 then [bs, CHR ''b'']
      else if c = CHR 0x0C then [bs, CHR ''f'']
      else if c = CHR 0x0A then [bs, CHR ''n'']
      else if c = CHR 0x0D then [bs, CHR ''r'']
      else if c = CHR 0x09 then [bs, CHR ''t'']
      else if (of_char c :: nat) < 0x20 then [bs, CHR ''u''] @ hex4 (of_char c)
      else [c])"

definition jsonEscape :: "string \<Rightarrow> string" where
  "jsonEscape value = concat (map escape_char value)"

definition quoteJson :: "string \<Rightarrow> string" where
  "quoteJson value = [dq] @ jsonEscape value @ [dq]"

definition processDisplayName :: "string \<Rightarrow> string" where
  "processDisplayName process_name = (if process_name = [] then ''unknown'' else process_name)"

text \<open>A literal name in double quotes, and a comma, a name, a colon and a value.\<close>

definition lit :: "string \<Rightarrow> string" where
  "lit s = [dq] @ s @ [dq]"

definition jfield :: "string \<Rightarrow> string \<Rightarrow> string" where
  "jfield name value = '','' @ lit name @ '':'' @ value"

definition jbool :: "bool \<Rightarrow> string" where
  "jbool b = (if b then ''true'' else ''false'')"

definition messageJson :: "msg_ep \<Rightarrow> string \<Rightarrow> string" where
  "messageJson e event =
     ''{'' @ lit ''kind'' @ '':'' @ lit ''message'' @
     (if event \<noteq> [] then jfield ''event'' (quoteJson event) else []) @
     jfield ''topic'' (quoteJson (me_topic e)) @
     jfield ''address'' (quoteJson (me_addr e)) @
     jfield ''control_id'' (quoteJson (me_ctrl e)) @
     jfield ''process_name'' (quoteJson (me_pname e)) @
     jfield ''node_uuid'' (quoteJson (me_node e)) @
     jfield ''message_type'' (quoteJson (me_type e)) @
     jfield ''scope'' (quoteJson (scopeName (me_scope e))) @
     jfield ''throttled'' (jbool (me_throttled e)) @
     jfield ''messages_per_second'' (if me_throttled e then dec (unat (me_rate e)) else ''null'') @ ''}''"

definition serviceJson :: "srv_ep \<Rightarrow> string \<Rightarrow> string" where
  "serviceJson e event =
     ''{'' @ lit ''kind'' @ '':'' @ lit ''service'' @
     (if event \<noteq> [] then jfield ''event'' (quoteJson event) else []) @
     jfield ''topic'' (quoteJson (se_topic e)) @
     jfield ''address'' (quoteJson (se_addr e)) @
     jfield ''socket_id'' (quoteJson (se_sock e)) @
     jfield ''process_name'' (quoteJson (se_pname e)) @
     jfield ''node_uuid'' (quoteJson (se_node e)) @
     jfield ''request_type'' (quoteJson (se_req e)) @
     jfield ''response_type'' (quoteJson (se_rep e)) @
     jfield ''scope'' (quoteJson (scopeName (se_scope e))) @ ''}''"

section \<open>Filters\<close>

definition startsWith :: "string \<Rightarrow> string \<Rightarrow> bool" where
  "startsWith value prefix \<longleftrightarrow> prefix = [] \<or> starts_with prefix value"

definition filterByPrefix :: "('e \<Rightarrow> string) \<Rightarrow> 'e list \<Rightarrow> string \<Rightarrow> 'e list" where
  "filterByPrefix topic_of endpoints prefix = filter (\<lambda>e. startsWith (topic_of e) prefix) endpoints"

definition filterByTopic :: "('e \<Rightarrow> string) \<Rightarrow> 'e list \<Rightarrow> string \<Rightarrow> 'e list" where
  "filterByTopic topic_of endpoints topic = filter (\<lambda>e. topic_of e = topic) endpoints"

section \<open>Tables\<close>

text \<open>\<open>std::left << std::setw(w)\<close>\<close>

definition setw :: "nat \<Rightarrow> string \<Rightarrow> string" where
  "setw w s = s @ replicate (w - length s) (CHR '' '')"

definition longest :: "'e list \<Rightarrow> string \<Rightarrow> ('e \<Rightarrow> string) \<Rightarrow> nat" where
  "longest endpoints heading getter = foldl (\<lambda>w e. max w (length (getter e))) (length heading) endpoints"

definition event_cell :: "string \<Rightarrow> string \<Rightarrow> string" where
  "event_cell event s = (if event \<noteq> [] then setw 7 s @ ''  '' else [])"

definition printMessageTable :: "msg_ep list \<Rightarrow> string \<Rightarrow> string" where
  "printMessageTable endpoints event =
     (let topic_width = longest endpoints ''TOPIC'' me_topic;
          type_width = longest endpoints ''TYPE'' me_type;
          address_width = longest endpoints ''ADDRESS'' me_addr;
          scope_width = longest endpoints ''SCOPE'' (\<lambda>e. scopeName (me_scope e));
          process_width = longest endpoints ''PROCESS'' (\<lambda>e. processDisplayName (me_pname e))
      in event_cell event ''EVENT'' @
         setw topic_width ''TOPIC'' @ ''  '' @ setw type_width ''TYPE'' @ ''  '' @
         setw address_width ''ADDRESS'' @ ''  '' @ setw scope_width ''SCOPE'' @ ''  '' @ ''PROCESS'' @ nl @
         concat (map (\<lambda>e. event_cell event event @
           setw topic_width (me_topic e) @ ''  '' @ setw type_width (me_type e) @ ''  '' @
           setw address_width (me_addr e) @ ''  '' @ setw scope_width (scopeName (me_scope e)) @ ''  '' @
           setw process_width (processDisplayName (me_pname e)) @ nl) endpoints))"

definition printServiceTable :: "srv_ep list \<Rightarrow> string \<Rightarrow> string" where
  "printServiceTable endpoints event =
     (let topic_width = longest endpoints ''TOPIC'' se_topic;
          request_width = longest endpoints ''REQUEST TYPE'' se_req;
          response_width = longest endpoints ''RESPONSE TYPE'' se_rep;
          address_width = longest endpoints ''ADDRESS'' se_addr;
          scope_width = longest endpoints ''SCOPE'' (\<lambda>e. scopeName (se_scope e));
          process_width = longest endpoints ''PROCESS'' (\<lambda>e. processDisplayName (se_pname e))
      in event_cell event ''EVENT'' @
         setw topic_width ''TOPIC'' @ ''  '' @ setw request_width ''REQUEST TYPE'' @ ''  '' @
         setw response_width ''RESPONSE TYPE'' @ ''  '' @ setw scope_width ''SCOPE'' @ ''  '' @
         setw address_width ''ADDRESS'' @ ''  '' @ ''PROCESS'' @ nl @
         concat (map (\<lambda>e. event_cell event event @
           setw topic_width (se_topic e) @ ''  '' @ setw request_width (se_req e) @ ''  '' @
           setw response_width (se_rep e) @ ''  '' @ setw scope_width (scopeName (se_scope e)) @ ''  '' @
           setw address_width (se_addr e) @ ''  '' @
           setw process_width (processDisplayName (se_pname e)) @ nl) endpoints))"

definition printMessageDetails :: "msg_ep list \<Rightarrow> string" where
  "printMessageDetails endpoints = concat (map (\<lambda>e.
     ''TOPIC: '' @ me_topic e @ nl @
     ''MESSAGE_TYPE: '' @ me_type e @ nl @
     ''ADDRESS: '' @ me_addr e @ nl @
     ''CONTROL_ID: '' @ me_ctrl e @ nl @
     ''PROCESS_NAME: '' @ me_pname e @ nl @
     ''NODE_UUID: '' @ me_node e @ nl @
     ''SCOPE: '' @ scopeName (me_scope e) @ nl @
     ''MESSAGES_PER_SECOND: '' @ (if me_throttled e then dec (unat (me_rate e)) else ''unlimited'') @ nl @ nl) endpoints)"

definition printServiceDetails :: "srv_ep list \<Rightarrow> string" where
  "printServiceDetails endpoints = concat (map (\<lambda>e.
     ''TOPIC: '' @ se_topic e @ nl @
     ''REQUEST_TYPE: '' @ se_req e @ nl @
     ''RESPONSE_TYPE: '' @ se_rep e @ nl @
     ''ADDRESS: '' @ se_addr e @ nl @
     ''SOCKET_ID: '' @ se_sock e @ nl @
     ''PROCESS_NAME: '' @ se_pname e @ nl @
     ''NODE_UUID: '' @ se_node e @ nl @
     ''SCOPE: '' @ scopeName (se_scope e) @ nl @ nl) endpoints)"

datatype output_format = Table | Json | JsonLines

fun join :: "string \<Rightarrow> string list \<Rightarrow> string" where
  "join sep [] = []"
| "join sep [x] = x"
| "join sep (x # y # xs) = x @ sep @ join sep (y # xs)"

definition printMessages :: "msg_ep list \<Rightarrow> output_format \<Rightarrow> string \<Rightarrow> string" where
  "printMessages endpoints output event = (case output of
     Table \<Rightarrow> printMessageTable endpoints event
   | Json \<Rightarrow> ''['' @ join '','' (map (\<lambda>e. messageJson e event) endpoints) @ '']'' @ nl
   | JsonLines \<Rightarrow> concat (map (\<lambda>e. messageJson e event @ nl) endpoints))"

definition printServices :: "srv_ep list \<Rightarrow> output_format \<Rightarrow> string \<Rightarrow> string" where
  "printServices endpoints output event = (case output of
     Table \<Rightarrow> printServiceTable endpoints event
   | Json \<Rightarrow> ''['' @ join '','' (map (\<lambda>e. serviceJson e event) endpoints) @ '']'' @ nl
   | JsonLines \<Rightarrow> concat (map (\<lambda>e. serviceJson e event @ nl) endpoints))"

section \<open>Raw protobuf bytes\<close>

definition preview_char :: "char \<Rightarrow> string" where
  "preview_char c =
     (if c = dq \<or> c = bs then [bs, c]
      else if 0x20 \<le> (of_char c :: nat) \<and> (of_char c :: nat) < 0x7F then [c]
      else ''.'')"

definition printablePreview :: "string \<Rightarrow> nat \<Rightarrow> string" where
  "printablePreview value max_len =
     [dq] @ concat (map preview_char (take max_len value)) @ [dq] @
     (if max_len < length value then ''...('' @ dec (length value) @ ''B)'' else [])"

datatype ufield =
    Varint nat u64
  | Fixed32 nat u32
  | Fixed64 nat u64
  | LengthDelimited nat string
  | Group nat "ufield list"

fun uf_number :: "ufield \<Rightarrow> nat" where
  "uf_number (Varint k v) = k"
| "uf_number (Fixed32 k w) = k"
| "uf_number (Fixed64 k v) = k"
| "uf_number (LengthDelimited k s) = k"
| "uf_number (Group k fs) = k"

text \<open>
  \<open>parse\<close> is \<open>UnknownFieldSet::ParseFromString\<close>. The recursion over nested messages has no
  bound in the code; here it has fuel, and running out of it is no result.
\<close>

fun decodeUnknownField :: "(string \<Rightarrow> ufield list option) \<Rightarrow> nat \<Rightarrow> ufield \<Rightarrow> string option" where
  "decodeUnknownField parse 0 field = None"
| "decodeUnknownField parse (Suc n) field =
     (let number = dec (uf_number field) @ '':'' in
      case field of
        Varint k v \<Rightarrow> Some (number @ dec (unat v))
      | Fixed32 k w \<Rightarrow> Some (number @ dec (unat w))
      | Fixed64 k v \<Rightarrow> Some (number @ dec (unat v))
      | LengthDelimited k bytes \<Rightarrow>
          (case (if bytes \<noteq> [] then parse bytes else None) of
             Some nested \<Rightarrow>
               map_option (\<lambda>parts. number @ ''{'' @ join '' '' parts @ ''}'') (those (map (decodeUnknownField parse n) nested))
           | None \<Rightarrow> Some (number @ printablePreview bytes 64))
      | Group k fs \<Rightarrow>
          map_option (\<lambda>parts. number @ ''{'' @ join '' '' parts @ ''}'') (those (map (decodeUnknownField parse n) fs)))"

definition decodeRawProtobuf :: "(string \<Rightarrow> ufield list option) \<Rightarrow> nat \<Rightarrow> string \<Rightarrow> string option" where
  "decodeRawProtobuf parse n raw_data =
     (case (if raw_data = [] then None else parse raw_data) of
        None \<Rightarrow> Some ''<undecodable>''
      | Some ufs \<Rightarrow> map_option (join '' '') (those (map (decodeUnknownField parse n) ufs)))"

fun unknownFieldWireType :: "ufield \<Rightarrow> string" where
  "unknownFieldWireType (Varint k v) = ''varint''"
| "unknownFieldWireType (Fixed32 k w) = ''fixed32''"
| "unknownFieldWireType (Fixed64 k v) = ''fixed64''"
| "unknownFieldWireType (LengthDelimited k s) = ''length_delimited''"
| "unknownFieldWireType (Group k fs) = ''group''"

definition unknownFieldJsonValue :: "(string \<Rightarrow> ufield list option) \<Rightarrow> nat \<Rightarrow> ufield \<Rightarrow> string option" where
  "unknownFieldJsonValue parse n field = (case field of
     Varint k v \<Rightarrow> Some (dec (unat v))
   | Fixed32 k w \<Rightarrow> Some (dec (unat w))
   | Fixed64 k v \<Rightarrow> Some (dec (unat v))
   | LengthDelimited k bytes \<Rightarrow> Some (quoteJson (printablePreview bytes 64))
   | Group k fs \<Rightarrow> map_option quoteJson (decodeUnknownField parse n field))"

definition field_json :: "(string \<Rightarrow> ufield list option) \<Rightarrow> nat \<Rightarrow> ufield \<Rightarrow> string option" where
  "field_json parse n field = map_option (\<lambda>v.
     ''{'' @ lit ''number'' @ '':'' @ dec (uf_number field) @
     jfield ''wire_type'' (quoteJson (unknownFieldWireType field)) @
     jfield ''value'' v @ ''}'') (unknownFieldJsonValue parse n field)"

definition fieldsJson :: "(string \<Rightarrow> ufield list option) \<Rightarrow> nat \<Rightarrow> string \<Rightarrow> string option" where
  "fieldsJson parse n raw_data =
     (case (if raw_data = [] then None else parse raw_data) of
        None \<Rightarrow> Some ''[]''
      | Some ufs \<Rightarrow> map_option (\<lambda>parts. ''['' @ join '','' parts @ '']'') (those (map (field_json parse n) ufs)))"

section \<open>Sniffed messages\<close>

record sniffed =
  sn_topic :: string
  sn_sender :: string
  sn_data :: string
  sn_type :: string
  sn_time :: int

text \<open>The window is in milliseconds, times in nanoseconds; the rate is exact here.\<close>

record rate_tracker =
  rk_window :: nat
  rk_stamps :: "int list"

definition recordAndGetRate :: "int \<Rightarrow> rate_tracker \<Rightarrow> rate_tracker \<times> rat" where
  "recordAndGetRate now rk =
     (let stamps = dropWhile (\<lambda>t. int (rk_window rk) * 1000000 < now - t) (rk_stamps rk @ [now])
      in (rk\<lparr>rk_stamps := stamps\<rparr>, of_nat (length stamps) / (of_nat (rk_window rk) / 1000)))"

text \<open>\<open>std::fixed << std::setprecision(k)\<close> of a value with at most k decimals.\<close>

definition fixed :: "nat \<Rightarrow> rat \<Rightarrow> string" where
  "fixed k r = (let n = nat \<lfloor>r * 10 ^ k\<rfloor>; frac = dec (n mod 10 ^ k)
     in dec (n div 10 ^ k) @ ''.'' @ replicate (k - length frac) (CHR ''0'') @ frac)"

definition printSniffedMessage ::
  "(string \<Rightarrow> ufield list option) \<Rightarrow> nat \<Rightarrow> sniffed \<Rightarrow> rat \<Rightarrow> output_format \<Rightarrow> string option" where
  "printSniffedMessage parse n message rate output =
     (case output of
        Table \<Rightarrow> map_option (\<lambda>text.
          ''size='' @ dec (length (sn_data message)) @ ''B  rate='' @ fixed 1 rate @ ''Hz  sender='' @
          sn_sender message @ ''  msg_type='' @ sn_type message @ ''  '' @ text @ nl)
          (decodeRawProtobuf parse n (sn_data message))
      | _ \<Rightarrow> map_option (\<lambda>ufs.
          ''{'' @ lit ''kind'' @ '':'' @ lit ''sniff'' @
          jfield ''topic'' (quoteJson (sn_topic message)) @
          jfield ''sender'' (quoteJson (sn_sender message)) @
          jfield ''msg_type'' (quoteJson (sn_type message)) @
          jfield ''size'' (dec (length (sn_data message))) @
          jfield ''rate'' (fixed 3 rate) @
          jfield ''fields'' ufs @ ''}'' @ nl)
          (fieldsJson parse n (sn_data message)))"

end
