(* ===== verification/CliObserver.thy ===== *)
theory CliObserver
  imports CliJson Discovery
begin

text \<open>
  The two library classes behind the command-line tool: DiscoveryObserver
  (src/cli/discovery_observer.cc), which lists the endpoints discovery knows, and
  TopicSniffer (src/cli/topic_sniffer.cc), which joins a topic without knowing its type.
\<close>

section \<open>DiscoveryObserver\<close>

record observer_opts =
  ob_group :: string
  ob_mport :: u16
  ob_sport :: u16
  ob_host :: string

definition default_observer_opts :: observer_opts where
  "default_observer_opts = \<lparr>ob_group = ''239.255.0.7'', ob_mport = 10319, ob_sport = 10320, ob_host = []\<rparr>"

definition msg_row :: "msg_pub \<Rightarrow> msg_ep" where
  "msg_row p = \<lparr>me_topic = p_topic p, me_addr = p_addr p, me_ctrl = m_ctrl p, me_proc = p_proc p,
     me_pname = p_pname p, me_node = p_node p, me_type = m_type p, me_scope = opt_scope (m_opts p),
     me_throttled = throttled (m_opts p), me_rate = (if throttled (m_opts p) then opt_rate (m_opts p) else 0)\<rparr>"

definition srv_row :: "srv_pub \<Rightarrow> srv_ep" where
  "srv_row p = \<lparr>se_topic = p_topic p, se_addr = p_addr p, se_sock = s_sock p, se_proc = p_proc p,
     se_pname = p_pname p, se_node = p_node p, se_req = s_req p, se_rep = s_rep p, se_scope = opt_scope (s_opts p)\<rparr>"

text \<open>
  The snapshots: the topic list is one reading of the storage and the endpoints of a topic
  another, each under its lock: \<open>later t\<close> is the storage when topic t is looked up.
\<close>

definition snapshotMessageEndpoints :: "msg_pub disc \<Rightarrow> (string \<Rightarrow> msg_pub disc) \<Rightarrow> msg_ep list" where
  "snapshotMessageEndpoints d later = concat (map (\<lambda>topic.
     case disc_getPublishers topic (later topic) of
       None \<Rightarrow> []
     | Some publishers \<Rightarrow> concat (map (\<lambda>(u, pl). map msg_row pl) publishers)) (getTopicList (disc_getInfo d)))"

definition snapshotServiceEndpoints :: "srv_pub disc \<Rightarrow> (string \<Rightarrow> srv_pub disc) \<Rightarrow> srv_ep list" where
  "snapshotServiceEndpoints d later = concat (map (\<lambda>topic.
     case disc_getPublishers topic (later topic) of
       None \<Rightarrow> []
     | Some publishers \<Rightarrow> concat (map (\<lambda>(u, pl). map srv_row pl) publishers)) (getTopicList (disc_getInfo d)))"

record observer =
  ob_msg :: "msg_pub disc"
  ob_srv :: "srv_pub disc"

text \<open>The two uuids are generated, the system's answers and the clock are inputs.\<close>

definition new_observer ::
  "(string \<Rightarrow> u32 option) \<Rightarrow> net_io \<Rightarrow> net_io \<Rightarrow> string \<Rightarrow> string \<Rightarrow> int \<Rightarrow> int \<Rightarrow> observer_opts \<Rightarrow> init_error + observer" where
  "new_observer pton io_msg io_srv u1 u2 now now2 options =
     (case mkDiscovery pton io_msg u1 (ob_group options) (uint (ob_mport options)) (ob_host options) of
        Inl e \<Rightarrow> Inl e
      | Inr d1 \<Rightarrow> (case mkDiscovery pton io_srv u2 (ob_group options) (uint (ob_sport options)) (ob_host options) of
          Inl e \<Rightarrow> Inl e
        | Inr d2 \<Rightarrow> Inr \<lparr>ob_msg = start_disc now d1, ob_srv = start_disc now2 d2\<rparr>))"

definition messageEndpoints :: "observer \<Rightarrow> msg_ep list" where
  "messageEndpoints ob = snapshotMessageEndpoints (ob_msg ob) (\<lambda>t. ob_msg ob)"

definition serviceEndpoints :: "observer \<Rightarrow> srv_ep list" where
  "serviceEndpoints ob = snapshotServiceEndpoints (ob_srv ob) (\<lambda>t. ob_srv ob)"

definition ob_hostAddress :: "observer \<Rightarrow> string" where
  "ob_hostAddress ob = getHostAddr (ob_msg ob)"

section \<open>TopicSniffer\<close>

record sniffer_opts =
  so_group :: string
  so_port :: u16
  so_host :: string

record sniffer =
  sf_topic :: string
  sf_uuid :: string
  sf_node :: string
  sf_disc :: "msg_pub disc"
  sf_cb :: bool
  sf_started :: bool
  sf_exit :: bool
  sf_addrs :: "string set"
  sf_regs :: "msg_pub list"

datatype sniff_ev =
    SnMulticast disc_msg
  | SnConnect string
  | SnSubscribe string
  | SnCallback sniffed

definition new_sniffer ::
  "(string \<Rightarrow> u32 option) \<Rightarrow> net_io \<Rightarrow> string \<Rightarrow> string \<Rightarrow> string \<Rightarrow> sniffer_opts \<Rightarrow> init_error + sniffer" where
  "new_sniffer pton io u n topic options =
     (case mkDiscovery pton io u (so_group options) (uint (so_port options)) (so_host options) of
        Inl e \<Rightarrow> Inl e
      | Inr d \<Rightarrow> Inr \<lparr>sf_topic = topic, sf_uuid = u, sf_node = n, sf_disc = d, sf_cb = False, sf_started = False,
          sf_exit = False, sf_addrs = {}, sf_regs = []\<rparr>)"

definition setMessageCallback :: "sniffer \<Rightarrow> sniffer" where
  "setMessageCallback sf = sf\<lparr>sf_cb := True\<rparr>"

text \<open>The messages among what a call into Discovery did.\<close>

definition multicasts :: "'p disc_ev list \<Rightarrow> sniff_ev list" where
  "multicasts es = concat (map (\<lambda>e. case e of Multicast m \<Rightarrow> [SnMulticast m] | _ \<Rightarrow> []) es)"

text \<open>\<open>zok addr\<close>: connecting to the address and setting the subscription both succeed.\<close>

definition onPublisherFound :: "(string \<Rightarrow> bool) \<Rightarrow> msg_pub \<Rightarrow> sniffer \<Rightarrow> sniffer \<times> sniff_ev list" where
  "onPublisherFound zok pub sf =
     (if p_topic pub \<noteq> sf_topic sf then (sf, [])
      else (let addr = p_addr pub in
        if addr \<in> sf_addrs sf then (sf, [])
        else (let sf1 = sf\<lparr>sf_addrs := insert addr (sf_addrs sf)\<rparr> in
          if \<not> zok addr then (sf1, [])
          else (let registration = mkMessagePublisherInfo (sf_topic sf) [] (p_proc pub) (sf_uuid sf) (sf_node sf)
                    kGenericMessageType new_msg_opts
                in (sf1\<lparr>sf_regs := sf_regs sf1 @ [registration]\<rparr>,
                    [SnConnect addr, SnSubscribe (sf_topic sf)] @ multicasts (registerNode registration (sf_disc sf)))))))"

definition sf_event :: "(string \<Rightarrow> bool) \<Rightarrow> msg_pub disc_ev \<Rightarrow> sniffer \<times> sniff_ev list \<Rightarrow> sniffer \<times> sniff_ev list" where
  "sf_event zok e s = (case s of (sf, out) \<Rightarrow> (case e of
     Multicast m \<Rightarrow> (sf, out @ [SnMulticast m])
   | Connected p \<Rightarrow> (case onPublisherFound zok p sf of (sf', out') \<Rightarrow> (sf', out @ out'))
   | _ \<Rightarrow> (sf, out)))"

definition sf_events :: "(string \<Rightarrow> bool) \<Rightarrow> msg_pub disc_ev list \<Rightarrow> sniffer \<Rightarrow> sniffer \<times> sniff_ev list" where
  "sf_events zok es sf = fold (sf_event zok) es (sf, [])"

definition sf_start :: "(string \<Rightarrow> bool) \<Rightarrow> int \<Rightarrow> sniffer \<Rightarrow> sniffer \<times> sniff_ev list" where
  "sf_start zok now sf =
     (if sf_started sf then (sf, [])
      else (let sf1 = sf\<lparr>sf_started := True, sf_disc := start_disc now (setConnectionCb True (sf_disc sf))\<rparr>
            in sf_events zok (fst (disc_discover msg_class (sf_topic sf1) (sf_disc sf1))) sf1))"

definition sf_stop :: "sniffer \<Rightarrow> sniffer \<times> sniff_ev list" where
  "sf_stop sf =
     (if \<not> sf_started sf then (sf, [])
      else (let sf1 = sf\<lparr>sf_started := False, sf_exit := True, sf_disc := setConnectionCb False (sf_disc sf)\<rparr>
            in (sf1\<lparr>sf_regs := [], sf_addrs := {}, sf_disc := stop_disc (sf_disc sf1)\<rparr>,
                multicasts (concat (map (\<lambda>r. unRegisterNode r (sf_disc sf1)) (sf_regs sf1))))))"

text \<open>The discovery thread: a received message.\<close>

definition sf_discovery_msg :: "(string \<Rightarrow> bool) \<Rightarrow> string \<Rightarrow> disc_msg \<Rightarrow> int \<Rightarrow> sniffer \<Rightarrow> sniffer \<times> sniff_ev list" where
  "sf_discovery_msg zok from_ip m now sf =
     (case dispatch msg_class from_ip m now (sf_disc sf) of (d, es) \<Rightarrow> sf_events zok es (sf\<lparr>sf_disc := d\<rparr>))"

text \<open>The parts successive \<open>recv\<close> calls yield, up to the first that fails.\<close>

definition sf_receiveMessage :: "string list \<Rightarrow> int \<Rightarrow> sniffer \<Rightarrow> sniff_ev list" where
  "sf_receiveMessage parts now sf = (case parts of
     topic # sender # data # t # _ \<Rightarrow>
       if sf_cb sf then [SnCallback \<lparr>sn_topic = topic, sn_sender = sender, sn_data = data, sn_type = t, sn_time = now\<rparr>]
       else []
   | _ \<Rightarrow> [])"

definition sf_receive_turn :: "string list option \<Rightarrow> int \<Rightarrow> sniffer \<Rightarrow> sniff_ev list" where
  "sf_receive_turn polled now sf =
     (if sf_exit sf then []
      else (case polled of None \<Rightarrow> [] | Some parts \<Rightarrow> sf_receiveMessage parts now sf))"

end
