(* ===== verification/CliTool.thy ===== *)
theory CliTool
  imports CliObserver
begin

text \<open>
  The command-line tool itself (src/tools/rf_trans.cc): options, the watch loop, the
  commands and the exit code. An exception is the left side of a result. What a command
  writes to standard output and to standard error are strings.
\<close>

datatype cli_exn = InvalidArgument string | OtherException string

definition kExitUsage :: int where "kExitUsage = 2"
definition kExitNotFound :: int where "kExitNotFound = 3"
definition kExitRuntime :: int where "kExitRuntime = 4"

section \<open>Options\<close>

record options =
  op_disc :: observer_opts
  op_output :: output_format
  op_wait :: nat
  op_watch :: nat
  op_prefix :: string
  op_pos :: "string list"

definition default_options :: options where
  "default_options = \<lparr>op_disc = default_observer_opts, op_output = Table, op_wait = 1200, op_watch = 500,
     op_prefix = [], op_pos = []\<rparr>"

text \<open>
  \<open>std::stoul\<close> in base 10 in the C locale: blanks, a sign, digits. The result is the value
  and the number of characters consumed; there is none when no digit follows (the library
  throws) or the digits exceed 64 bits (it throws too). A minus sign negates modulo 2^64.
\<close>

definition is_space :: "char \<Rightarrow> bool" where
  "is_space c \<longleftrightarrow> c = CHR '' '' \<or> (9 \<le> (of_char c :: nat) \<and> (of_char c :: nat) \<le> 13)"

definition stoul :: "string \<Rightarrow> (nat \<times> nat) option" where
  "stoul value =
     (let blanks = takeWhile is_space value; rest = dropWhile is_space value;
          signed = (rest \<noteq> [] \<and> (hd rest = CHR ''+'' \<or> hd rest = CHR ''-''));
          digits = takeWhile is_digit (if signed then tl rest else rest);
          n = undec 0 digits
      in if digits = [] \<or> 2 ^ 64 \<le> n then None
         else Some (if signed \<and> hd rest = CHR ''-'' then (2 ^ 64 - n) mod 2 ^ 64 else n,
           length blanks + (if signed then 1 else 0) + length digits))"

definition parseUnsigned :: "string \<Rightarrow> string \<Rightarrow> nat \<Rightarrow> cli_exn + nat" where
  "parseUnsigned name value max_value =
     (case stoul value of
        None \<Rightarrow> Inl (InvalidArgument (name @ '' must be a positive integer''))
      | Some (parsed, consumed) \<Rightarrow>
          if consumed \<noteq> length value \<or> parsed = 0 \<or> max_value < parsed
          then Inl (InvalidArgument (name @ '' is outside its accepted range''))
          else Inr parsed)"

text \<open>The option's value: the next argument, and what is left.\<close>

definition takeValue :: "string list \<Rightarrow> string \<Rightarrow> cli_exn + (string \<times> string list)" where
  "takeValue rest option_name = (case rest of
     [] \<Rightarrow> Inl (InvalidArgument (option_name @ '' requires a value''))
   | v # rest' \<Rightarrow> Inr (v, rest'))"

definition set_output :: "string \<Rightarrow> options \<Rightarrow> cli_exn + options" where
  "set_output value opts =
     (if value = ''table'' then Inr (opts\<lparr>op_output := Table\<rparr>)
      else if value = ''json'' then Inr (opts\<lparr>op_output := Json\<rparr>)
      else if value = ''jsonl'' then Inr (opts\<lparr>op_output := JsonLines\<rparr>)
      else Inl (InvalidArgument ''--output must be table, json, or jsonl''))"

text \<open>The options that take a value, by name: what the value does to the options.\<close>

definition valued_option :: "string \<Rightarrow> (string \<Rightarrow> options \<Rightarrow> cli_exn + options) option" where
  "valued_option argument =
     (if argument = ''--output'' then Some set_output
      else if argument = ''--wait-ms'' then Some (\<lambda>v opts. case parseUnsigned argument v 600000 of
          Inl e \<Rightarrow> Inl e | Inr n \<Rightarrow> Inr (opts\<lparr>op_wait := n\<rparr>))
      else if argument = ''--watch-interval-ms'' then Some (\<lambda>v opts. case parseUnsigned argument v 600000 of
          Inl e \<Rightarrow> Inl e | Inr n \<Rightarrow> Inr (opts\<lparr>op_watch := n\<rparr>))
      else if argument = ''--host-ip'' then Some (\<lambda>v opts. Inr (opts\<lparr>op_disc := (op_disc opts)\<lparr>ob_host := v\<rparr>\<rparr>))
      else if argument = ''--discovery-group'' then Some (\<lambda>v opts. Inr (opts\<lparr>op_disc := (op_disc opts)\<lparr>ob_group := v\<rparr>\<rparr>))
      else if argument = ''--message-port'' then Some (\<lambda>v opts. case parseUnsigned argument v 65535 of
          Inl e \<Rightarrow> Inl e | Inr n \<Rightarrow> Inr (opts\<lparr>op_disc := (op_disc opts)\<lparr>ob_mport := of_nat n\<rparr>\<rparr>))
      else if argument = ''--service-port'' then Some (\<lambda>v opts. case parseUnsigned argument v 65535 of
          Inl e \<Rightarrow> Inl e | Inr n \<Rightarrow> Inr (opts\<lparr>op_disc := (op_disc opts)\<lparr>ob_sport := of_nat n\<rparr>\<rparr>))
      else if argument = ''--prefix'' then Some (\<lambda>v opts. Inr (opts\<lparr>op_prefix := v\<rparr>))
      else None)"

function parse_args :: "string list \<Rightarrow> options \<Rightarrow> cli_exn + options" where
  "parse_args [] opts = Inr opts"
| "parse_args (argument # rest) opts =
     (case valued_option argument of
        Some f \<Rightarrow> (case takeValue rest argument of
            Inl e \<Rightarrow> Inl e
          | Inr (v, rest') \<Rightarrow> (case f v opts of Inl e \<Rightarrow> Inl e | Inr opts' \<Rightarrow> parse_args rest' opts'))
      | None \<Rightarrow>
          if starts_with ''--'' argument then Inl (InvalidArgument (''unknown option: '' @ argument))
          else parse_args rest (opts\<lparr>op_pos := op_pos opts @ [argument]\<rparr>))"
  by pat_completeness auto

termination
  by (relation "measure (\<lambda>(args, opts). length args)") (auto simp: takeValue_def split: list.splits)

text \<open>The arguments after the program's name.\<close>

definition parseOptions :: "string list \<Rightarrow> cli_exn + options" where
  "parseOptions arguments = parse_args arguments default_options"

definition usage :: string where
  "usage = concat (map (\<lambda>l. l @ nl)
    [''Usage: rf-trans [options] <command>'', [],
     ''Commands:'',
     ''  topic list                 List discovered message endpoints'',
     ''  topic info <topic>         Show endpoints for one message topic'',
     ''  topic sniff <topic>        Monitor a topic'' @ [CHR 0x27] @ ''s live rate and raw content'',
     ''  service list               List discovered service endpoints'',
     ''  service info <topic>       Show endpoints for one service topic'',
     ''  watch topics|services      Stream endpoint add/remove events'',
     ''  doctor                     Report discovery configuration and endpoint counts'', [],
     ''Options:'',
     ''  --output table|json|jsonl  Output format (default: table)'',
     ''  --wait-ms <ms>             Initial discovery window (default: 1200)'',
     ''  --prefix <prefix>          Filter list/watch topics by prefix'',
     ''  --host-ip <IPv4>           Select the local multicast interface'',
     ''  --discovery-group <IPv4>   Discovery multicast group'',
     ''  --message-port <port>      Message discovery port'',
     ''  --service-port <port>      Service discovery port'',
     ''  --watch-interval-ms <ms>   Snapshot interval for watch (default: 500)''])"

section \<open>Watching\<close>

definition msg_key :: "msg_ep \<Rightarrow> string" where
  "msg_key e = me_topic e @ nl @ me_addr e @ nl @ me_proc e @ nl @ me_node e"

definition srv_key :: "srv_ep \<Rightarrow> string" where
  "srv_key e = se_topic e @ nl @ se_addr e @ nl @ se_sock e @ nl @ se_proc e @ nl @ se_node e"

definition endpointMap :: "('e \<Rightarrow> string) \<Rightarrow> 'e list \<Rightarrow> (string, 'e) omap" where
  "endpointMap key endpoints = fold (\<lambda>e m. om_emplace (key e) e m) endpoints []"

definition notice :: "('e list \<Rightarrow> string \<Rightarrow> 'o) \<Rightarrow> 'e list \<Rightarrow> string \<Rightarrow> 'o list" where
  "notice printer endpoints event = (if endpoints \<noteq> [] then [printer endpoints event] else [])"

text \<open>The snapshots of the turns until the stop request is seen.\<close>

fun watch_loop :: "('e \<Rightarrow> string) \<Rightarrow> ('e list \<Rightarrow> string \<Rightarrow> 'o) \<Rightarrow> (string, 'e) omap \<Rightarrow> 'e list list \<Rightarrow> 'o list" where
  "watch_loop key printer previous [] = []"
| "watch_loop key printer previous (snapshot # snapshots) =
     (let current = endpointMap key snapshot;
          added = map snd (filter (\<lambda>item. \<not> om_has (fst item) previous) current);
          removed = map snd (filter (\<lambda>item. \<not> om_has (fst item) current) previous)
      in notice printer added ''added'' @ notice printer removed ''removed'' @
         watch_loop key printer current snapshots)"

definition watchEndpoints :: "('e \<Rightarrow> string) \<Rightarrow> ('e list \<Rightarrow> string \<Rightarrow> 'o) \<Rightarrow> 'e list \<Rightarrow> 'e list list \<Rightarrow> 'o list" where
  "watchEndpoints key printer first snapshots =
     (let previous = endpointMap key first
      in notice printer (map snd previous) ''added'' @ watch_loop key printer previous snapshots)"

section \<open>Commands\<close>

text \<open>
  What the environment gives a run: the observer, or the exception its construction throws;
  what it knows when the discovery window is over and at each later turn of a watch; the
  sniffer's construction and the messages it receives until it is stopped; the library's
  parser of unknown fields with the fuel for it.
\<close>

record cli_env =
  ev_observer :: "cli_exn option"
  ev_host :: string
  ev_msgs :: "msg_ep list"
  ev_srvs :: "srv_ep list"
  ev_later_msgs :: "msg_ep list list"
  ev_later_srvs :: "srv_ep list list"
  ev_sniffer :: "cli_exn option"
  ev_sniffed :: "sniffed list"
  ev_parse :: "string \<Rightarrow> ufield list option"
  ev_fuel :: nat

record outcome =
  oc_out :: string
  oc_err :: string
  oc_code :: int

definition doctor_report :: "options \<Rightarrow> string \<Rightarrow> nat \<Rightarrow> nat \<Rightarrow> string" where
  "doctor_report opts host messages services =
     (let d = op_disc opts in
      if op_output opts = Table then
        ''HOST_ADDRESS: '' @ host @ nl @
        ''MULTICAST_GROUP: '' @ ob_group d @ nl @
        ''MESSAGE_PORT: '' @ dec (unat (ob_mport d)) @ nl @
        ''SERVICE_PORT: '' @ dec (unat (ob_sport d)) @ nl @
        ''DISCOVERY_WINDOW_MS: '' @ dec (op_wait opts) @ nl @
        ''MESSAGE_ENDPOINTS: '' @ dec messages @ nl @
        ''SERVICE_ENDPOINTS: '' @ dec services @ nl
      else
        ''{'' @ lit ''host_address'' @ '':'' @ quoteJson host @
        jfield ''multicast_group'' (quoteJson (ob_group d)) @
        jfield ''message_port'' (dec (unat (ob_mport d))) @
        jfield ''service_port'' (dec (unat (ob_sport d))) @
        jfield ''discovery_window_ms'' (dec (op_wait opts)) @
        jfield ''message_endpoints'' (dec messages) @
        jfield ''service_endpoints'' (dec services) @ ''}'' @ nl)"

text \<open>The sniffer's callback, message by message; no result when decoding runs out of fuel.\<close>

fun sniff_output :: "(string \<Rightarrow> ufield list option) \<Rightarrow> nat \<Rightarrow> output_format \<Rightarrow> rate_tracker \<Rightarrow> sniffed list \<Rightarrow> string option" where
  "sniff_output parse n output rk [] = Some []"
| "sniff_output parse n output rk (m # ms) =
     (case recordAndGetRate (sn_time m) rk of (rk', rate) \<Rightarrow>
        (case (printSniffedMessage parse n m rate output, sniff_output parse n output rk' ms) of
           (Some text, Some rest) \<Rightarrow> Some (text @ rest)
         | _ \<Rightarrow> None))"

definition ok_out :: "string \<Rightarrow> cli_exn + outcome" where
  "ok_out text = Inr \<lparr>oc_out = text, oc_err = [], oc_code = 0\<rparr>"

definition list_or_info ::
  "('e \<Rightarrow> string) \<Rightarrow> ('e list \<Rightarrow> string) \<Rightarrow> ('e list \<Rightarrow> output_format \<Rightarrow> string \<Rightarrow> string) \<Rightarrow> options \<Rightarrow> 'e list \<Rightarrow> outcome" where
  "list_or_info topic_of details printer opts found =
     (let endpoints0 = filterByPrefix topic_of found (op_prefix opts);
          info = (op_pos opts ! 1 = ''info'');
          endpoints = (if info then filterByTopic topic_of endpoints0 (op_pos opts ! 2) else endpoints0)
      in \<lparr>oc_out = (if info \<and> op_output opts = Table then details endpoints else printer endpoints (op_output opts) []),
          oc_err = [], oc_code = (if info \<and> endpoints = [] then kExitNotFound else 0)\<rparr>)"

text \<open>\<open>run\<close>; \<open>None\<close> only when decoding a sniffed message runs out of fuel.\<close>

definition run_cli :: "cli_env \<Rightarrow> options \<Rightarrow> (cli_exn + outcome) option" where
  "run_cli env opts =
     (let pos = op_pos opts in
      if pos = [] then Some (Inr \<lparr>oc_out = [], oc_err = usage, oc_code = kExitUsage\<rparr>)
      else (case ev_observer env of
          Some e \<Rightarrow> Some (Inl e)
        | None \<Rightarrow>
            (let command = pos ! 0 in
             if command = ''doctor'' then
               (if length pos \<noteq> 1 then Some (Inl (InvalidArgument ''doctor does not accept positional arguments''))
                else Some (ok_out (doctor_report opts (ev_host env)
                  (length (filterByPrefix me_topic (ev_msgs env) (op_prefix opts)))
                  (length (filterByPrefix se_topic (ev_srvs env) (op_prefix opts))))))
             else if command = ''topic'' \<and> length pos = 3 \<and> pos ! 1 = ''sniff'' then
               (case ev_sniffer env of
                  Some e \<Rightarrow> Some (Inl e)
                | None \<Rightarrow> map_option ok_out (sniff_output (ev_parse env) (ev_fuel env) (op_output opts)
                    \<lparr>rk_window = 2000, rk_stamps = []\<rparr> (ev_sniffed env)))
             else if command = ''topic'' \<or> command = ''service'' then
               (if length pos < 2 \<or> 3 < length pos then
                  Some (Inl (InvalidArgument (command @ '' requires list or info <topic>'')))
                else if pos ! 1 \<noteq> ''list'' \<and> pos ! 1 \<noteq> ''info'' then
                  Some (Inl (InvalidArgument (command @ '' action must be list or info'')))
                else if pos ! 1 = ''list'' \<and> length pos \<noteq> 2 then
                  Some (Inl (InvalidArgument (command @ '' list does not accept a topic'')))
                else if pos ! 1 = ''info'' \<and> length pos \<noteq> 3 then
                  Some (Inl (InvalidArgument (command @ '' info requires a topic'')))
                else if command = ''topic'' then
                  Some (Inr (list_or_info me_topic printMessageDetails printMessages opts (ev_msgs env)))
                else
                  Some (Inr (list_or_info se_topic printServiceDetails printServices opts (ev_srvs env))))
             else if command = ''watch'' then
               (if length pos \<noteq> 2 \<or> (pos ! 1 \<noteq> ''topics'' \<and> pos ! 1 \<noteq> ''services'') then
                  Some (Inl (InvalidArgument ''watch requires topics or services''))
                else if pos ! 1 = ''topics'' then
                  Some (ok_out (concat (watchEndpoints msg_key (\<lambda>es ev. printMessages es (op_output opts) ev)
                    (filterByPrefix me_topic (ev_msgs env) (op_prefix opts))
                    (map (\<lambda>es. filterByPrefix me_topic es (op_prefix opts)) (ev_later_msgs env)))))
                else
                  Some (ok_out (concat (watchEndpoints srv_key (\<lambda>es ev. printServices es (op_output opts) ev)
                    (filterByPrefix se_topic (ev_srvs env) (op_prefix opts))
                    (map (\<lambda>es. filterByPrefix se_topic es (op_prefix opts)) (ev_later_srvs env))))))
             else Some (Inl (InvalidArgument (''unknown command: '' @ command))))))"

definition failed :: "string \<Rightarrow> int \<Rightarrow> outcome" where
  "failed what code = \<lparr>oc_out = [], oc_err = ''rf-trans: '' @ what @ nl, oc_code = code\<rparr>"

text \<open>\<open>main\<close>: the arguments after the program's name.\<close>

definition cli_main :: "cli_env \<Rightarrow> string list \<Rightarrow> outcome option" where
  "cli_main env args =
     (if ''--help'' \<in> set args \<or> ''-h'' \<in> set args then Some \<lparr>oc_out = usage, oc_err = [], oc_code = 0\<rparr>
      else (case (case parseOptions args of Inl e \<Rightarrow> Some (Inl e) | Inr opts \<Rightarrow> run_cli env opts) of
          None \<Rightarrow> None
        | Some (Inl (InvalidArgument what)) \<Rightarrow> Some (failed what kExitUsage)
        | Some (Inl (OtherException what)) \<Rightarrow> Some (failed what kExitRuntime)
        | Some (Inr outcome) \<Rightarrow> Some outcome))"

end
