(* ===== verification/CliThms.thy ===== *)
theory CliThms
  imports CliTool MsgShm
begin

text \<open>
  What the command-line tool guarantees: strings come back out of the JSON, the watch events
  rebuild the snapshots, options and numbers are read as documented, decoding ends, rates
  are exact, the exit code of info tells whether the topic exists.
\<close>

section \<open>JSON strings\<close>

text \<open>The reader a JSON parser uses after an opening quote: the string and what follows it.\<close>

definition hex_val :: "char \<Rightarrow> nat option" where
  "hex_val c = (let n = of_char c in
     if 48 \<le> n \<and> n \<le> 57 then Some (n - 48) else if 97 \<le> n \<and> n \<le> 102 then Some (n - 87) else None)"

definition simple_escape :: "char \<Rightarrow> char option" where
  "simple_escape e = (if e = dq then Some dq else if e = bs then Some bs
     else if e = CHR ''b'' then Some (CHR 0x08) else if e = CHR ''f'' then Some (CHR 0x0C)
     else if e = CHR ''n'' then Some (CHR 0x0A) else if e = CHR ''r'' then Some (CHR 0x0D)
     else if e = CHR ''t'' then Some (CHR 0x09) else None)"

fun hex_char :: "string \<Rightarrow> (char \<times> string) option" where
  "hex_char (a # b # c # d # rest) = (case (hex_val a, hex_val b, hex_val c, hex_val d) of
     (Some a', Some b', Some c', Some d') \<Rightarrow> Some (char_of (4096 * a' + 256 * b' + 16 * c' + d'), rest)
   | _ \<Rightarrow> None)"
| "hex_char _ = None"

lemma hex_char_shorter: "hex_char s = Some (c, rest) \<Longrightarrow> length rest < length s"
  by (cases s rule: hex_char.cases) (auto split: option.splits)

text \<open>One character, escaped or not; none for a raw control character.\<close>

definition json_char :: "string \<Rightarrow> (char \<times> string) option" where
  "json_char s = (case s of
     [] \<Rightarrow> None
   | c # cs \<Rightarrow>
       if c = bs then (case cs of
           [] \<Rightarrow> None
         | e # rest \<Rightarrow> if e = CHR ''u'' then hex_char rest else map_option (\<lambda>d. (d, rest)) (simple_escape e))
       else if (of_char c :: nat) < 32 then None
       else Some (c, cs))"

lemma json_char_shorter: "json_char s = Some (c, rest) \<Longrightarrow> length rest < length s"
  by (auto simp: json_char_def split: list.splits if_splits option.splits dest!: hex_char_shorter)

function json_read :: "string \<Rightarrow> (string \<times> string) option" where
  "json_read s = (case s of
     [] \<Rightarrow> None
   | c # cs \<Rightarrow>
       if c = dq then Some ([], cs)
       else (case json_char s of
           None \<Rightarrow> None
         | Some (d, rest) \<Rightarrow> map_option (\<lambda>(v, r). (d # v, r)) (json_read rest)))"
  by pat_completeness auto

termination
  by (relation "measure length") (auto dest: json_char_shorter)

declare json_read.simps [simp del]

lemma replicate_2_3: "replicate 3 x = [x, x, x]" "replicate 2 x = [x, x]"
  by (simp_all add: numeral_3_eq_3 numeral_2_eq_2)

lemma digit_char_0: "digit_char 0 = CHR ''0''"
  by (simp add: digit_char_def char_of_def bit_simps)

lemma hex4_two: "n < 32 \<Longrightarrow> hex4 n = [CHR ''0'', CHR ''0'', digit_char (n div 16), digit_char (n mod 16)]"
proof (cases "n < 16")
  case True
  then have "hex n = [digit_char n]" by (subst hex.simps) simp
  then show ?thesis using True by (simp add: hex4_def replicate_2_3 digit_char_0)
next
  case False
  moreover assume "n < 32"
  ultimately have "n div 16 < 16" by simp
  then have "hex (n div 16) = [digit_char (n div 16)]" by (subst hex.simps) simp
  moreover have "hex n = hex (n div 16) @ [digit_char (n mod 16)]" using False by (subst hex.simps) simp
  ultimately show ?thesis by (simp add: hex4_def replicate_2_3)
qed

lemma hex_val_digit: "d < 16 \<Longrightarrow> hex_val (digit_char d) = Some d"
  by (auto simp: hex_val_def digit_char_def)

lemma hex4_read: "n < 32 \<Longrightarrow> hex_char (hex4 n @ rest) = Some (char_of n, rest)"
proof -
  assume n: "n < 32"
  then have d: "n div 16 < 16" "n mod 16 < 16" by auto
  have z: "hex_val (CHR ''0'') = Some 0" by (simp add: hex_val_def)
  show ?thesis
    by (simp add: hex4_two [OF n] z hex_val_digit [OF d(1)] hex_val_digit [OF d(2)] mult.commute [of 16])
qed

lemma json_char_escaped: "json_char (escape_char c @ rest) = Some (c, rest)"
proof (cases "c = dq \<or> c = bs \<or> c \<in> {CHR 0x08, CHR 0x0C, CHR 0x0A, CHR 0x0D, CHR 0x09}")
  case True
  then show ?thesis by (auto simp: escape_char_def json_char_def simple_escape_def dq_def bs_def)
next
  case False
  then show ?thesis
    using hex4_read [of "of_char c" rest] by (auto simp: escape_char_def json_char_def)
qed

lemma escape_head: "\<exists>x xs. escape_char c = x # xs \<and> x \<noteq> dq"
  by (auto simp: escape_char_def bs_def dq_def)

text \<open>
  C24: strings survive the JSON output. Whatever bytes a topic, a name or a type has, the
  quoted string the tool prints is read back by a JSON reader as exactly those bytes, and
  the reader stops at the closing quote: a name can never break out of its string.
\<close>

theorem json_string_roundtrip:
  "\<exists>body. quoteJson s @ rest = dq # body \<and> json_read body = Some (s, rest)"
proof -
  have "json_read (jsonEscape s @ dq # rest) = Some (s, rest)"
  proof (induction s)
    case Nil
    then show ?case by (simp add: jsonEscape_def json_read.simps [of "dq # rest"])
  next
    case (Cons c s)
    let ?tail = "jsonEscape s @ dq # rest"
    have e: "jsonEscape (c # s) @ dq # rest = escape_char c @ ?tail" by (simp add: jsonEscape_def)
    obtain x xs where x: "escape_char c = x # xs" "x \<noteq> dq"
      using escape_head by blast
    then show ?case
      using Cons json_char_escaped [of c ?tail] unfolding e
      by (subst json_read.simps) simp
  qed
  then show ?thesis by (simp add: quoteJson_def)
qed

section \<open>Watching\<close>

lemma endpointMap_snoc: "endpointMap key (es @ [e]) = om_emplace (key e) e (endpointMap key es)"
  by (simp add: endpointMap_def)

lemma endpointMap_wf [simp]: "om_wf (endpointMap key es)"
  by (induction es rule: rev_induct) (simp_all add: endpointMap_snoc endpointMap_def)

lemma endpointMap_keyed: "map_of (endpointMap key es) k = Some e \<Longrightarrow> key e = k \<and> e \<in> set es"
  by (induction es rule: rev_induct) (auto simp: endpointMap_snoc map_of_om_emplace endpointMap_def split: if_splits)

lemma endpointMap_has: "om_has k (endpointMap key es) \<longleftrightarrow> k \<in> key ` set es"
  unfolding om_has_def
  by (induction es rule: rev_induct) (auto simp: endpointMap_snoc map_of_om_emplace endpointMap_def dom_def)

lemma endpointMap_select:
  "key ` set (map snd (filter (\<lambda>item. P (fst item)) (endpointMap key es))) = {k \<in> key ` set es. P k}"
proof -
  have "(k, e) \<in> set (endpointMap key es) \<longleftrightarrow> map_of (endpointMap key es) k = Some e" for k e
    by (simp add: om_wf_lookup)
  moreover have "k \<in> key ` set es \<longleftrightarrow> (\<exists>e. map_of (endpointMap key es) k = Some e)" for k
    using endpointMap_has [of k key es] by (auto simp: om_has_def)
  ultimately show ?thesis
    by (auto dest: endpointMap_keyed simp: image_iff) (metis endpointMap_keyed)+
qed

text \<open>
  A client that follows the stream: an added endpoint must be new to it and a removed one
  known; otherwise it gives up.
\<close>

fun replay :: "('e \<Rightarrow> string) \<Rightarrow> string set \<Rightarrow> ('e list \<times> string) list \<Rightarrow> string set option" where
  "replay key known [] = Some known"
| "replay key known ((es, event) # rest) =
     (let ks = key ` set es in
      if event = ''added'' \<and> ks \<inter> known = {} then replay key (known \<union> ks) rest
      else if event = ''removed'' \<and> ks \<subseteq> known then replay key (known - ks) rest
      else None)"

lemma replay_append: "replay key S (xs @ ys) = Option.bind (replay key S xs) (\<lambda>S'. replay key S' ys)"
  by (induction key S xs rule: replay.induct) (simp_all add: Let_def)

lemma replay_added: "key ` set es \<inter> S = {} \<Longrightarrow> replay key S (notice Pair es ''added'') = Some (S \<union> key ` set es)"
  by (simp add: notice_def)

lemma replay_removed: "key ` set es \<subseteq> S \<Longrightarrow> replay key S (notice Pair es ''removed'') = Some (S - key ` set es)"
  by (simp add: notice_def)

lemma watch_loop_replay:
  "replay key (key ` set es) (watch_loop key Pair (endpointMap key es) snapshots) =
   Some (key ` set (last (es # snapshots)))"
proof (induction snapshots arbitrary: es)
  case Nil
  then show ?case by simp
next
  case (Cons es' snapshots)
  let ?added = "map snd (filter (\<lambda>item. \<not> om_has (fst item) (endpointMap key es)) (endpointMap key es'))"
  let ?removed = "map snd (filter (\<lambda>item. \<not> om_has (fst item) (endpointMap key es')) (endpointMap key es))"
  have a: "key ` set ?added = key ` set es' - key ` set es"
    by (subst endpointMap_select [of key "\<lambda>k. \<not> om_has k (endpointMap key es)"]) (auto simp: endpointMap_has)
  have r: "key ` set ?removed = key ` set es - key ` set es'"
    by (subst endpointMap_select [of key "\<lambda>k. \<not> om_has k (endpointMap key es')"]) (auto simp: endpointMap_has)
  have "replay key (key ` set es) (notice Pair ?added ''added'') = Some (key ` set es \<union> key ` set es')"
    by (subst replay_added) (auto simp only: a)
  moreover have "replay key (key ` set es \<union> key ` set es') (notice Pair ?removed ''removed'') = Some (key ` set es')"
    by (subst replay_removed) (auto simp only: r)
  ultimately show ?case
    using Cons [of es'] by (simp add: Let_def replay_append)
qed

text \<open>
  C23: watching loses nothing. Whatever endpoints each snapshot lists, a client that starts
  from nothing and replays the printed events (each an endpoint list and ''added'' or
  ''removed'') never meets an added endpoint it already has nor a removed one it lacks, and
  ends with exactly the endpoints, by key, of the last snapshot.
\<close>

theorem watch_replay:
  "replay key {} (watchEndpoints key Pair first snapshots) = Some (key ` set (last (first # snapshots)))"
proof -
  have "key ` set (map snd (endpointMap key first)) = key ` set first"
    using endpointMap_select [of key "\<lambda>_. True" first] by simp
  then have "replay key {} (notice Pair (map snd (endpointMap key first)) ''added'') = Some (key ` set first)"
    by (subst replay_added) simp_all
  then show ?thesis
    using watch_loop_replay [of key first snapshots] by (simp add: watchEndpoints_def Let_def replay_append)
qed

section \<open>Numbers and options\<close>

lemma takeWhile_split: "\<forall>x \<in> set xs. P x \<Longrightarrow> (ys \<noteq> [] \<Longrightarrow> \<not> P (hd ys)) \<Longrightarrow>
    takeWhile P (xs @ ys) = xs \<and> dropWhile P (xs @ ys) = ys"
  by (induction xs) (auto, (cases ys; simp)+)

lemma digit_no_space: "is_digit c \<Longrightarrow> \<not> is_space c \<and> c \<noteq> CHR ''+'' \<and> c \<noteq> CHR ''-''"
  by (auto simp: is_digit_def is_space_def)

lemma sign_no_space: "\<not> is_space (CHR ''+'')" "\<not> is_space (CHR ''-'')"
  by (auto simp: is_space_def)

text \<open>What a decimal argument may look like: blanks, a sign, at least one digit.\<close>

definition numeral_of :: "string \<Rightarrow> string \<Rightarrow> string \<Rightarrow> bool" where
  "numeral_of blanks sign digits \<longleftrightarrow> list_all is_space blanks \<and> sign \<in> {[], ''+'', ''-''} \<and>
     digits \<noteq> [] \<and> list_all is_digit digits"

definition numeral_value :: "string \<Rightarrow> string \<Rightarrow> nat" where
  "numeral_value sign digits = (if sign = ''-'' then (2 ^ 64 - undec 0 digits) mod 2 ^ 64 else undec 0 digits)"

lemma stoul_read:
  assumes "numeral_of blanks sign digits"
  shows "stoul (blanks @ sign @ digits) =
    (if 2 ^ 64 \<le> undec 0 digits then None
     else Some (numeral_value sign digits, length blanks + length sign + length digits))"
proof -
  have d: "digits \<noteq> []" "\<forall>c \<in> set digits. is_digit c" and b: "\<forall>c \<in> set blanks. is_space c"
    and s: "sign = [] \<or> sign = ''+'' \<or> sign = ''-''"
    using assms by (auto simp: numeral_of_def list_all_iff)
  have h: "is_digit (hd digits)" using d by (simp add: list.set_sel(1))
  have "hd (sign @ digits) = hd digits \<or> hd (sign @ digits) = CHR ''+'' \<or> hd (sign @ digits) = CHR ''-''"
    using s by auto
  then have "\<not> is_space (hd (sign @ digits))"
    using digit_no_space [OF h] sign_no_space by metis
  then have 1: "takeWhile is_space (blanks @ sign @ digits) = blanks"
      "dropWhile is_space (blanks @ sign @ digits) = sign @ digits"
    using takeWhile_split [OF b] by auto
  have 2: "takeWhile is_digit digits = digits" using d by (simp add: takeWhile_eq_all_conv)
  from s show ?thesis
  proof (elim disjE)
    assume "sign = []"
    moreover have "takeWhile is_space (blanks @ digits) = blanks" "dropWhile is_space (blanks @ digits) = digits"
      using 1 calculation by simp_all
    ultimately show ?thesis
      using d(1) digit_no_space [OF h] by (simp add: stoul_def Let_def numeral_value_def 2)
  qed (use 1 d in \<open>simp_all add: stoul_def Let_def numeral_value_def 2\<close>)
qed

lemma stoul_consumes_all:
  assumes "stoul value = Some (n, length value)"
  shows "\<exists>blanks sign digits. value = blanks @ sign @ digits \<and> numeral_of blanks sign digits"
proof -
  define blanks rest where "blanks = takeWhile is_space value" and "rest = dropWhile is_space value"
  define signed where "signed = (rest \<noteq> [] \<and> (hd rest = CHR ''+'' \<or> hd rest = CHR ''-''))"
  define sign body where "sign = (if signed then [hd rest] else [])" and "body = (if signed then tl rest else rest)"
  define digits where "digits = takeWhile is_digit body"
  have v: "value = blanks @ sign @ body"
    by (auto simp: blanks_def rest_def sign_def body_def signed_def)
  have l: "length value = length blanks + (if signed then 1 else 0) + length digits" and ne: "digits \<noteq> []"
    using assms unfolding stoul_def Let_def digits_def body_def signed_def rest_def blanks_def
    by (auto split: if_splits)
  have "length body = length digits" using l v by (auto simp: sign_def split: if_splits)
  then have "body = digits"
    using takeWhile_dropWhile_id [of is_digit body] unfolding digits_def
    by (metis append_Nil2 append_eq_append_conv)
  moreover have "list_all is_digit digits" by (auto simp: digits_def list_all_iff dest: set_takeWhileD)
  moreover have "list_all is_space blanks" by (auto simp: blanks_def list_all_iff dest: set_takeWhileD)
  ultimately show ?thesis
    using v ne by (intro exI [of _ blanks] exI [of _ sign] exI [of _ digits])
      (auto simp: numeral_of_def sign_def signed_def)
qed

text \<open>
  C26: which numbers an option accepts. A value is accepted as n exactly when it is blanks,
  an optional sign and decimal digits below 2^64 with nothing after them, and n, the value
  modulo 2^64 (a minus sign negates it there), lies between 1 and the option's maximum.
  Everything else is refused. So a large negative number is accepted as a small positive one.
\<close>

theorem unsigned_grammar:
  "parseUnsigned name value max_value = Inr n \<longleftrightarrow>
    (\<exists>blanks sign digits. value = blanks @ sign @ digits \<and> numeral_of blanks sign digits \<and>
       undec 0 digits < 2 ^ 64 \<and> n = numeral_value sign digits \<and> 0 < n \<and> n \<le> max_value)"
proof
  assume r: "parseUnsigned name value max_value = Inr n"
  then have s: "stoul value = Some (n, length value)" and b: "0 < n" "n \<le> max_value"
    by (auto simp: parseUnsigned_def split: option.splits if_splits)
  obtain blanks sign digits where "value = blanks @ sign @ digits" "numeral_of blanks sign digits"
    using stoul_consumes_all [OF s] by blast
  then show "\<exists>blanks sign digits. value = blanks @ sign @ digits \<and> numeral_of blanks sign digits \<and>
       undec 0 digits < 2 ^ 64 \<and> n = numeral_value sign digits \<and> 0 < n \<and> n \<le> max_value"
    using b s stoul_read [of blanks sign digits]
    by (intro exI [of _ blanks] exI [of _ sign] exI [of _ digits]) (auto split: if_splits)
next
  assume "\<exists>blanks sign digits. value = blanks @ sign @ digits \<and> numeral_of blanks sign digits \<and>
       undec 0 digits < 2 ^ 64 \<and> n = numeral_value sign digits \<and> 0 < n \<and> n \<le> max_value"
  then show "parseUnsigned name value max_value = Inr n"
    using stoul_read by (auto simp: parseUnsigned_def)
qed

lemma parse_dec: "0 < n \<Longrightarrow> n \<le> max_value \<Longrightarrow> max_value < 2 ^ 64 \<Longrightarrow> parseUnsigned name (dec n) max_value = Inr n"
proof -
  assume "0 < n" "n \<le> max_value" "max_value < 2 ^ 64"
  moreover have "numeral_of [] [] (dec n)"
    by (simp add: numeral_of_def dec_digits dec_nonempty)
  ultimately show ?thesis
    using stoul_read [of "[]" "[]" "dec n"] by (simp add: parseUnsigned_def numeral_value_def undec_dec)
qed

text \<open>The arguments that spell out every option of a value, and the values that can be spelt.\<close>

definition output_name :: "output_format \<Rightarrow> string" where
  "output_name output = (case output of Table \<Rightarrow> ''table'' | Json \<Rightarrow> ''json'' | JsonLines \<Rightarrow> ''jsonl'')"

definition spelt :: "options \<Rightarrow> string list" where
  "spelt opts = [''--output'', output_name (op_output opts), ''--wait-ms'', dec (op_wait opts),
     ''--watch-interval-ms'', dec (op_watch opts), ''--host-ip'', ob_host (op_disc opts),
     ''--discovery-group'', ob_group (op_disc opts), ''--message-port'', dec (unat (ob_mport (op_disc opts))),
     ''--service-port'', dec (unat (ob_sport (op_disc opts))), ''--prefix'', op_prefix opts] @ op_pos opts"

definition spellable :: "options \<Rightarrow> bool" where
  "spellable opts \<longleftrightarrow> 0 < op_wait opts \<and> op_wait opts \<le> 600000 \<and> 0 < op_watch opts \<and> op_watch opts \<le> 600000 \<and>
     ob_mport (op_disc opts) \<noteq> 0 \<and> ob_sport (op_disc opts) \<noteq> 0 \<and> list_all (\<lambda>p. \<not> starts_with ''--'' p) (op_pos opts)"

lemma parse_port: "p \<noteq> 0 \<Longrightarrow> parseUnsigned name (dec (unat (p :: u16))) 65535 = Inr (unat p)"
  proof -
  assume "p \<noteq> 0"
  moreover have "unat p < 2 ^ 16" using unsigned_less [of p] by simp
  ultimately show ?thesis by (intro parse_dec) (simp_all add: unat_gt_0)
qed

lemma valued_dashes: "valued_option p \<noteq> None \<Longrightarrow> starts_with ''--'' p"
  unfolding valued_option_def by (simp split: if_split_asm)

lemma not_valued: "\<not> starts_with ''--'' p \<Longrightarrow> valued_option p = None"
  using valued_dashes by blast

lemma parse_positional: "list_all (\<lambda>p. \<not> starts_with ''--'' p) ps \<Longrightarrow>
    parse_args ps opts = Inr (opts\<lparr>op_pos := op_pos opts @ ps\<rparr>)"
  by (induction ps arbitrary: opts) (simp_all add: not_valued)

text \<open>
  C25: every setting can be given on the command line and is read back as it was given: the
  options spelt out one after the other, the positional arguments last, parse to exactly the
  same options, for windows from 1 to 600000 ms, ports from 1 and positional arguments that
  do not begin with two dashes.
\<close>

theorem options_roundtrip:
  assumes "spellable opts"
  shows "parseOptions (spelt opts) = Inr opts"
proof -
  have "parseUnsigned name (dec (op_wait opts)) 600000 = Inr (op_wait opts)"
       "parseUnsigned name (dec (op_watch opts)) 600000 = Inr (op_watch opts)" for name
    using assms by (auto simp: spellable_def intro!: parse_dec)
  moreover have "parseUnsigned name (dec (unat (ob_mport (op_disc opts)))) 65535 = Inr (unat (ob_mport (op_disc opts)))"
       "parseUnsigned name (dec (unat (ob_sport (op_disc opts)))) 65535 = Inr (unat (ob_sport (op_disc opts)))" for name
    using assms by (auto simp: spellable_def parse_port)
  moreover have "set_output (output_name (op_output opts)) o' = Inr (o'\<lparr>op_output := op_output opts\<rparr>)" for o'
    by (cases "op_output opts") (simp_all add: set_output_def output_name_def)
  moreover have "list_all (\<lambda>p. \<not> starts_with ''--'' p) (op_pos opts)"
    using assms by (simp add: spellable_def)
  ultimately show ?thesis
    unfolding parseOptions_def spelt_def
    by (simp add: valued_option_def takeValue_def parse_positional default_options_def)
qed

definition sample_options :: options where
  "sample_options = \<lparr>op_disc = default_observer_opts, op_output = Json, op_wait = 500, op_watch = 50,
     op_prefix = ''/robot'', op_pos = [''topic'', ''list'']\<rparr>"

theorem options_roundtrip_witness: "parseOptions (spelt sample_options) = Inr sample_options"
  by (rule options_roundtrip)
     (simp add: spellable_def sample_options_def default_observer_opts_def)

section \<open>Raw decoding\<close>

text \<open>
  The bytes a field takes at least on the wire: a tag, and for nested data a length or an end
  tag around it. A parser of the wire format finds no more fields than the bytes hold.
\<close>

fun usize :: "ufield \<Rightarrow> nat" where
  "usize (Varint k v) = 2"
| "usize (Fixed32 k w) = 5"
| "usize (Fixed64 k v) = 9"
| "usize (LengthDelimited k s) = 2 + length s"
| "usize (Group k fs) = 2 + sum_list (map usize fs)"

definition wire_sized :: "(string \<Rightarrow> ufield list option) \<Rightarrow> bool" where
  "wire_sized parse \<longleftrightarrow> (\<forall>bytes ufs. parse bytes = Some ufs \<longrightarrow> sum_list (map usize ufs) \<le> length bytes)"

lemma those_Some: "(\<And>x. x \<in> set xs \<Longrightarrow> f x \<noteq> None) \<Longrightarrow> those (map f xs) \<noteq> None"
  by (induction xs) force+

lemma usize_member: "f \<in> set ufs \<Longrightarrow> usize f \<le> sum_list (map usize ufs)"
  by (induction ufs) auto

lemma decode_field_returns:
  assumes "wire_sized parse"
  shows "usize field \<le> n \<Longrightarrow> decodeUnknownField parse n field \<noteq> None"
proof (induction n arbitrary: field)
  case 0
  then show ?case by (cases field) auto
next
  case (Suc n)
  have nested: "those (map (decodeUnknownField parse n) ufs) \<noteq> None" if "sum_list (map usize ufs) \<le> n" for ufs
    using that by (intro those_Some Suc.IH) (auto dest: usize_member)
  show ?case
  proof (cases field)
    case (LengthDelimited k bytes)
    show ?thesis
    proof (cases "if bytes \<noteq> [] then parse bytes else None")
      case None
      then show ?thesis by (simp add: LengthDelimited Let_def)
    next
      case (Some ufs)
      then have "sum_list (map usize ufs) \<le> length bytes"
        using assms by (auto simp: wire_sized_def split: if_splits)
      then show ?thesis
        using Suc.prems Some nested [of ufs] by (auto simp: LengthDelimited Let_def)
    qed
  next
    case (Group k ufs)
    then show ?thesis using Suc.prems nested [of ufs] by (auto simp: Let_def)
  qed (simp_all add: Let_def)
qed

lemma decode_fields_return:
  assumes "wire_sized parse" "parse raw = Some ufs" "length raw \<le> n"
  shows "those (map (decodeUnknownField parse n) ufs) \<noteq> None \<and> those (map (field_json parse n) ufs) \<noteq> None"
proof -
  have "usize f \<le> n" if "f \<in> set ufs" for f
    using usize_member [OF that] assms by (fastforce simp: wire_sized_def)
  then have "decodeUnknownField parse n f \<noteq> None" if "f \<in> set ufs" for f
    using decode_field_returns [OF assms(1)] that by blast
  then show ?thesis
    by (intro conjI those_Some) (auto simp: field_json_def unknownFieldJsonValue_def split: ufield.splits)
qed

text \<open>
  C27: printing a sniffed message always ends. The decoder recurses into every string that
  happens to parse as a message, with no bound of its own; as each level takes its tag and
  length from the bytes of the level above, a depth of the message's length is never
  exceeded, in every output format.
\<close>

theorem decode_terminates:
  assumes "wire_sized parse" "length (sn_data message) \<le> n"
  shows "\<exists>text. printSniffedMessage parse n message rate output = Some text"
proof -
  have "\<exists>text. decodeRawProtobuf parse n (sn_data message) = Some text"
    using decode_fields_return [OF assms(1) _ assms(2)]
    by (auto simp: decodeRawProtobuf_def split: option.split)
  moreover have "\<exists>text. fieldsJson parse n (sn_data message) = Some text"
    using decode_fields_return [OF assms(1) _ assms(2)]
    by (auto simp: fieldsJson_def split: option.split)
  ultimately show ?thesis
    by (cases "output") (auto simp: printSniffedMessage_def)
qed

text \<open>A parser of messages that consist of one length-delimited field.\<close>

definition one_field :: "string \<Rightarrow> ufield list option" where
  "one_field bytes = (case bytes of
     t # l # rest \<Rightarrow> if of_char l = length rest then Some [LengthDelimited (of_char t div 8) rest] else None
   | _ \<Rightarrow> None)"

definition nested_bytes :: string where
  "nested_bytes = [CHR 0x0A, CHR 0x04, CHR 0x12, CHR 0x02, CHR ''h'', CHR ''i'']"

theorem decode_terminates_witness:
  "(\<exists>text. printSniffedMessage one_field 6 \<lparr>sn_topic = ''t'', sn_sender = ''s'', sn_data = nested_bytes, sn_type = ''T'', sn_time = 0\<rparr>
      1 Table = Some text) \<and>
   decodeRawProtobuf one_field 6 nested_bytes = Some (''1:{2:'' @ [dq] @ ''hi'' @ [dq] @ ''}'')"
proof
  have "wire_sized one_field"
    by (auto simp: wire_sized_def one_field_def split: list.splits if_splits)
  then show "\<exists>text. printSniffedMessage one_field 6 \<lparr>sn_topic = ''t'', sn_sender = ''s'', sn_data = nested_bytes, sn_type = ''T'',
      sn_time = 0\<rparr> 1 Table = Some text"
    by (rule decode_terminates) (simp add: nested_bytes_def)
  show "decodeRawProtobuf one_field 6 nested_bytes = Some (''1:{2:'' @ [dq] @ ''hi'' @ [dq] @ ''}'')"
    by code_simp
qed

section \<open>Rates\<close>

text \<open>A tracker that has recorded messages received at the given times.\<close>

definition recorded :: "nat \<Rightarrow> int list \<Rightarrow> rate_tracker" where
  "recorded w ts = fold (\<lambda>t rk. fst (recordAndGetRate t rk)) ts \<lparr>rk_window = w, rk_stamps = []\<rparr>"

lemma recorded_snoc: "recorded w (ts @ [t]) = fst (recordAndGetRate t (recorded w ts))"
  by (simp add: recorded_def)

lemma recorded_window [simp]: "rk_window (recorded w ts) = w"
  by (induction ts rule: rev_induct) (simp_all add: recorded_snoc recordAndGetRate_def Let_def recorded_def)

lemma sorted_dropWhile: "sorted ts \<Longrightarrow> dropWhile (\<lambda>t. c < now - t) ts = filter (\<lambda>t. \<not> c < now - t) ts" for c :: int
  by (induction ts) (force intro!: filter_True [symmetric])+

lemma recorded_stamps:
  "sorted (ts @ [now]) \<Longrightarrow>
    rk_stamps (recorded w (ts @ [now])) = filter (\<lambda>t. now - t \<le> int w * 1000000) (ts @ [now])"
proof (induction ts arbitrary: now rule: rev_induct)
  case Nil
  then show ?case by (simp add: recorded_snoc recordAndGetRate_def Let_def recorded_def)
next
  case (snoc t ts)
  let ?keep = "\<lambda>now t. now - t \<le> int w * 1000000"
  have s: "sorted (ts @ [t])" "t \<le> now" "sorted (filter (?keep t) (ts @ [t]) @ [now])"
    using snoc.prems by (auto simp: sorted_append intro!: sorted_filter [where f = id, simplified])
  have "rk_stamps (recorded w ((ts @ [t]) @ [now])) = filter (?keep now) (filter (?keep t) (ts @ [t]) @ [now])"
    using sorted_dropWhile [OF s(3), of "int w * 1000000" now] snoc.IH [OF s(1)]
    by (subst recorded_snoc) (simp add: recordAndGetRate_def Let_def linorder_not_less)
  also have "\<dots> = filter (?keep now) ((ts @ [t]) @ [now])"
    using s(2) by (auto intro!: filter_cong)
  finally show ?case .
qed

text \<open>
  The rate shown with a sniffed message is the true one. For messages received at
  times that do not go back, it is the number of messages of the last window, the new one
  included and none counted that is older, divided by the window in seconds, however many
  messages came before and whatever was dropped on the way.
\<close>

theorem rate_window:
  assumes "sorted (ts @ [now])"
  shows "snd (recordAndGetRate now (recorded w ts)) =
    of_nat (length (filter (\<lambda>t. now - t \<le> int w * 1000000) (ts @ [now]))) / (of_nat w / 1000)"
proof -
  have "snd (recordAndGetRate now (recorded w ts)) =
      of_nat (length (rk_stamps (recorded w (ts @ [now])))) / (of_nat w / 1000)"
    by (simp add: recorded_snoc recordAndGetRate_def Let_def)
  then show ?thesis by (simp only: recorded_stamps [OF assms])
qed

theorem rate_window_witness:
  "snd (recordAndGetRate 2500000000 (recorded 2000 [0, 500000000, 2400000000])) = 3 / 2"
  by (subst rate_window) simp_all

section \<open>Exit codes\<close>

lemma info_code:
  assumes "op_prefix opts = []" "op_pos opts = [command, ''info'', t]"
  shows "oc_code (list_or_info topic_of details printer opts found) = (if t \<in> topic_of ` set found then 0 else kExitNotFound)"
proof -
  have "filterByTopic topic_of (filterByPrefix topic_of found []) t = [] \<longleftrightarrow> t \<notin> topic_of ` set found"
    by (auto simp: filterByTopic_def filterByPrefix_def startsWith_def filter_empty_conv)
  then show ?thesis by (simp add: list_or_info_def Let_def assms)
qed

lemma run_info:
  assumes "ev_observer env = None" "op_pos opts = [command, ''info'', t]"
  shows "command = ''topic'' \<Longrightarrow> run_cli env opts = Some (Inr (list_or_info me_topic printMessageDetails printMessages opts (ev_msgs env)))"
    and "command = ''service'' \<Longrightarrow> run_cli env opts = Some (Inr (list_or_info se_topic printServiceDetails printServices opts (ev_srvs env)))"
  by (simp_all add: run_cli_def assms)

text \<open>
  The exit code of info tells whether the topic exists. With a working observer and no
  prefix filter, \<open>topic info t\<close> exits with 0 when an endpoint of topic t was known after the
  discovery window and with 3 when there was none, in every output format; \<open>service info t\<close>
  does the same for services.
\<close>

theorem info_exit_code:
  assumes "ev_observer env = None" "op_prefix opts = []" "op_pos opts = [command, ''info'', t]"
    and "command = ''topic'' \<or> command = ''service''"
  shows "map_option (map_sum id oc_code) (run_cli env opts) = Some (Inr
     (if (if command = ''topic'' then t \<in> me_topic ` set (ev_msgs env) else t \<in> se_topic ` set (ev_srvs env))
      then 0 else 3))"
  using assms(4) run_info [OF assms(1,3)]
  by (elim disjE) (simp_all add: kExitNotFound_def info_code [OF assms(2,3)])

definition quiet_env :: cli_env where
  "quiet_env = \<lparr>ev_observer = None, ev_host = ''10.0.0.1'', ev_msgs = [], ev_srvs = [], ev_later_msgs = [],
     ev_later_srvs = [], ev_sniffer = None, ev_sniffed = [], ev_parse = one_field, ev_fuel = 0\<rparr>"

theorem info_exit_code_witness:
  "map_option (map_sum id oc_code) (run_cli quiet_env (default_options\<lparr>op_pos := [''topic'', ''info'', ''chat'']\<rparr>)) = Some (Inr 3)"
  using info_exit_code [of quiet_env "default_options\<lparr>op_pos := [''topic'', ''info'', ''chat'']\<rparr>" "''topic''" "''chat''"]
  by (simp add: quiet_env_def default_options_def)

end
