(* ===== verification/SnifferThms.thy ===== *)
theory SnifferThms
  imports CliObserver MsgHandshake
begin

text \<open>
  The observer and the sniffer against the rest of the system: what the observer lists, how
  the sniffer makes a publisher send to it, and what it then sees.
\<close>

section \<open>The observer's list\<close>

definition listed :: "'p topic_map \<Rightarrow> 'p list" where
  "listed d = concat (map (\<lambda>(t, mp). concat (map snd mp)) d)"

lemma listed_view: "set (listed d) = ts_view d"
  by (simp add: listed_def ts_view_def split_def)

lemma snapshot_listed:
  assumes "ts_wf d"
  shows "concat (map (\<lambda>t. case getPublishers t d of None \<Rightarrow> [] | Some m \<Rightarrow> concat (map (\<lambda>(u, pl). map row pl) m))
      (getTopicList d)) = map row (listed d)"
proof -
  have "(case getPublishers t d of None \<Rightarrow> [] | Some m \<Rightarrow> concat (map (\<lambda>(u, pl). map row pl) m)) =
      map row (concat (map snd mp))" if "(t, mp) \<in> set d" for t mp
  proof -
    have "map_of d t = Some mp" using om_wf_lookup [OF ts_wf_om [OF assms]] that by blast
    then have "getPublishers t d = Some mp"
      by (simp add: getPublishers_def hasTopic_def om_has_def om_get_def)
    then show ?thesis by (simp add: map_concat comp_def split_def)
  qed
  then have "map ((\<lambda>t. case getPublishers t d of None \<Rightarrow> [] | Some m \<Rightarrow> concat (map (\<lambda>(u, pl). map row pl) m)) \<circ> fst) d =
      map (map row \<circ> (\<lambda>(t, mp). concat (map snd mp))) d"
    by (intro map_cong) auto
  then show ?thesis
    unfolding getTopicList_def listed_def map_concat map_map by (rule arg_cong)
qed

text \<open>
  The observer lists every endpoint it knows and nothing else: as long as the storage
  does not change between reading the topics and reading each topic's endpoints, the rows
  are those of the recorded endpoints, in the storage's order, one for each; the same for
  services.
\<close>

theorem snapshot_complete:
  assumes "ts_wf (d_pubs (ob_msg ob))" "ts_wf (d_pubs (ob_srv ob))"
  shows "messageEndpoints ob = map msg_row (listed (d_pubs (ob_msg ob))) \<and>
    serviceEndpoints ob = map srv_row (listed (d_pubs (ob_srv ob))) \<and>
    set (messageEndpoints ob) = msg_row ` ts_view (d_pubs (ob_msg ob)) \<and>
    set (serviceEndpoints ob) = srv_row ` ts_view (d_pubs (ob_srv ob))"
proof -
  have m: "messageEndpoints ob = map msg_row (listed (d_pubs (ob_msg ob)))"
    using snapshot_listed [OF assms(1), of msg_row]
    by (simp add: messageEndpoints_def snapshotMessageEndpoints_def disc_getInfo_def disc_getPublishers_def)
  have s: "serviceEndpoints ob = map srv_row (listed (d_pubs (ob_srv ob)))"
    using snapshot_listed [OF assms(2), of srv_row]
    by (simp add: serviceEndpoints_def snapshotServiceEndpoints_def disc_getInfo_def disc_getPublishers_def)
  show ?thesis unfolding m s by (simp add: listed_view)
qed

section \<open>The sniffer joins\<close>

text \<open>What the sniffer announces to the process of a publisher it found.\<close>

definition sniff_reg :: "msg_pub \<Rightarrow> sniffer \<Rightarrow> msg_pub" where
  "sniff_reg pub sf = mkMessagePublisherInfo (sf_topic sf) [] (p_proc pub) (sf_uuid sf) (sf_node sf)
     kGenericMessageType new_msg_opts"

lemma sniff_reg_simps [simp]:
  "p_topic (sniff_reg pub sf) = sf_topic sf" "p_proc (sniff_reg pub sf) = sf_uuid sf"
  "m_ctrl (sniff_reg pub sf) = p_proc pub" "m_type (sniff_reg pub sf) = kGenericMessageType"
  "msg_pub_wf (sniff_reg pub sf)"
  by (simp_all add: sniff_reg_def msg_pub_wf_def)

lemma found:
  assumes "p_topic pub = sf_topic sf" "p_addr pub \<notin> sf_addrs sf" "zok (p_addr pub)"
  shows "onPublisherFound zok pub sf =
    (sf\<lparr>sf_addrs := insert (p_addr pub) (sf_addrs sf), sf_regs := sf_regs sf @ [sniff_reg pub sf]\<rparr>,
     [SnConnect (p_addr pub), SnSubscribe (sf_topic sf),
      SnMulticast (fillDiscovery_msg (sniff_reg pub sf) (header NEW_CONNECTION (sf_disc sf)))])"
  using assms by (simp add: onPublisherFound_def Let_def sniff_reg_def registerNode_def sendMsg_simps(4) multicasts_def)

lemma registered_generic:
  assumes "dm_type m = NEW_CONNECTION" "dm_process_uuid m \<noteq> d_proc (mr_disc a)" "d_reg (mr_disc a)"
    and "\<And>x. setFromDiscovery_msg m x = r" "m_ctrl r = mr_uuid a" "m_type r = kGenericMessageType"
    and "ts_wf (mr_rsubs a)" "\<forall>q \<in> ts_view (mr_rsubs a). p_proc q \<noteq> p_proc r"
  shows "hasTopic_type (p_topic r) y (mr_rsubs (fst (mr_discovery_msg ip m now a)))"
proof -
  have "dispatch msg_class ip m now (mr_disc a) = (seen_by m now (mr_disc a), [Registered r])"
    using assms(1-4) by (simp add: dispatch_def msg_class_def Let_def seen_by_def)
  then have "mr_rsubs (fst (mr_discovery_msg ip m now a)) = fst (addPublisher r (mr_rsubs a))"
    using assms(5) by (simp add: mr_discovery_msg_def with_disc_def disc_events_def disc_event_def onSubscriberRegistered_def)
  moreover have "r \<in> ts_view (fst (addPublisher r (mr_rsubs a)))"
    using ts_view_add [OF assms(7), of r] assms(8) by (auto simp: pub_key_def)
  ultimately show ?thesis
    using hasTopic_type_iff [OF ts_wf_add [OF assms(7), of r], of "p_topic r" y] assms(6) by auto
qed

text \<open>
  A sniffer sees a topic whose type it does not know. When it receives the ADVERTISE of
  a publisher of its topic, in scope and not known before, it connects to the publisher's
  address, subscribes and sends one NEW_CONNECTION; once the publisher's process has that,
  every message it publishes on the topic over the socket, of whatever type, is sent, and
  the sniffer hands exactly its bytes, its type and the sender's address to the callback.
\<close>

theorem sniffer_joins:
  assumes "ts_wf (mr_rsubs a)" "ts_wf (d_pubs (sf_disc sf))" "d_proc (mr_disc a) = mr_uuid a" "d_reg (mr_disc a)"
    and "d_proc (sf_disc sf) = sf_uuid sf" "sf_uuid sf \<noteq> mr_uuid a" "d_conn (sf_disc sf)" "sf_cb sf"
    and "msg_pub_wf pub" "p_proc pub = mr_uuid a" "p_topic pub = sf_topic sf"
    and "opt_scope (m_opts pub) = SCOPE_ALL \<or> opt_scope (m_opts pub) = SCOPE_HOST \<and> is_sender_local ip (sf_disc sf)"
    and "\<not> (\<exists>q \<in> ts_view (d_pubs (sf_disc sf)). pub_key q = pub_key pub)"
    and "p_addr pub \<notin> sf_addrs sf" "zok (p_addr pub)"
    and "\<forall>q \<in> ts_view (mr_rsubs a). p_proc q \<noteq> sf_uuid sf"
    and "\<not> (opt_shm (m_opts pub) \<and> opt_scope (m_opts pub) = SCOPE_HOST)" "pr_ser P msg = Some bytes"
  shows "\<exists>sf' m a' fr. sf_discovery_msg zok ip (fillDiscovery_msg pub (header ADVERTISE (mr_disc a))) now sf =
      (sf', [SnConnect (p_addr pub), SnSubscribe (sf_topic sf), SnMulticast m]) \<and>
    mr_publish P hash sys True pub msg (fst (mr_discovery_msg ip' m now' a)) os = Inr (a', os, [ESend fr], True) \<and>
    sf_receiveMessage fr now'' sf' = [SnCallback \<lparr>sn_topic = sf_topic sf,
      sn_sender = mr_addr (fst (mr_discovery_msg ip' m now' a)), sn_data = bytes, sn_type = m_type pub, sn_time = now''\<rparr>]"
proof -
  let ?m = "fillDiscovery_msg pub (header ADVERTISE (mr_disc a))"
  define q where "q = pub\<lparr>p_pname := d_pname (mr_disc a)\<rparr>"
  have q: "p_topic q = sf_topic sf" "p_addr q = p_addr pub" "opt_scope (m_opts q) = opt_scope (m_opts pub)"
      "pub_key q = pub_key pub" "p_proc q = mr_uuid a"
    using assms(10,11) by (simp_all add: q_def pub_key_def)
  let ?d = "(seen_by ?m now (sf_disc sf))\<lparr>d_pubs := fst (addPublisher q (d_pubs (sf_disc sf)))\<rparr>"
  let ?sf = "sf\<lparr>sf_disc := ?d\<rparr>"
  define hello where "hello = fillDiscovery_msg (sniff_reg q ?sf) (header NEW_CONNECTION ?d)"
  have "dispatch msg_class ip ?m now (sf_disc sf) = (?d, [Connected q])"
    unfolding q_def by (rule advert_dispatched(1)) (use assms(2,3,5-7,9,10,12,13) in simp_all)
  then obtain sf' where join: "sf_discovery_msg zok ip ?m now sf =
      (sf', [SnConnect (p_addr pub), SnSubscribe (sf_topic sf), SnMulticast hello])" "sf_cb sf' = sf_cb sf"
    using found [of q ?sf zok] q assms(14,15)
    by (simp add: sf_discovery_msg_def sf_events_def sf_event_def hello_def)
  define r where "r = (sniff_reg q ?sf)\<lparr>p_pname := d_pname (sf_disc sf)\<rparr>"
  have "setFromDiscovery_msg hello x = r" for x
    using msg_roundtrip [of "sniff_reg q ?sf" "header NEW_CONNECTION ?d" x] assms(5) by (simp add: hello_def r_def)
  then have "hasTopic_type (p_topic r) (m_type pub) (mr_rsubs (fst (mr_discovery_msg ip' hello now' a)))"
    using assms(1,3,4,5,6,16) q(5) by (intro registered_generic [where r = r]) (simp_all add: hello_def r_def)
  moreover have "p_topic r = p_topic pub" using assms(11) by (simp add: r_def)
  ultimately have "hasTopic_type (p_topic pub) (m_type pub) (mr_rsubs (fst (mr_discovery_msg ip' hello now' a)))" by simp
  from publish_inline [OF this assms(17,18)] obtain a' where
    "mr_publish P hash sys True pub msg (fst (mr_discovery_msg ip' hello now' a)) os = Inr (a', os,
       [ESend [p_topic pub, mr_addr (fst (mr_discovery_msg ip' hello now' a)), bytes, m_type pub]], True)" by blast
  with join assms(8,11) show ?thesis
    by (intro exI [of _ sf'] exI [of _ hello] exI [of _ a'] exI) (auto simp: sf_receiveMessage_def)
qed

text \<open>A sniffer that has started and knows nothing yet.\<close>

definition sample_sniffer :: sniffer where
  "sample_sniffer = \<lparr>sf_topic = ''t'', sf_uuid = ''uS'', sf_node = ''nS'',
     sf_disc = (node_disc ''uS'' ''10.0.0.1'')\<lparr>d_conn := True\<rparr>, sf_cb = True, sf_started = True, sf_exit = False,
     sf_addrs = {}, sf_regs = []\<rparr>"

theorem sniffer_joins_witness:
  "\<exists>sf' m a' fr. sf_discovery_msg (\<lambda>_. True) ''10.0.0.1'' (fillDiscovery_msg (chat_pub False) (header ADVERTISE (mr_disc starter))) 5
      sample_sniffer = (sf', [SnConnect ''tcp://10.0.0.1:5'', SnSubscribe ''t'', SnMulticast m]) \<and>
    mr_publish text_proto (\<lambda>_. 7) sys_ok True (chat_pub False) ''hi'' (fst (mr_discovery_msg ''10.0.0.1'' m 6 starter)) no_shm =
      Inr (a', no_shm, [ESend fr], True) \<and>
    (\<exists>from. sf_receiveMessage fr 7 sf' =
      [SnCallback \<lparr>sn_topic = ''t'', sn_sender = from, sn_data = ''hi'', sn_type = ''T'', sn_time = 7\<rparr>])"
proof -
  have s: "sf_topic sample_sniffer = ''t''" "sf_uuid sample_sniffer = ''uS''" "sf_cb sample_sniffer"
      "sf_disc sample_sniffer = (node_disc ''uS'' ''10.0.0.1'')\<lparr>d_conn := True\<rparr>" "sf_addrs sample_sniffer = {}"
    by (simp_all add: sample_sniffer_def)
  have d: "mr_disc starter = (node_disc ''uA'' ''10.0.0.1'')\<lparr>d_reg := True\<rparr>" "mr_uuid starter = ''uA''" "mr_rsubs starter = []"
    by (simp_all add: starter_def new_msg_rt_def)
  have "msg_pub_wf (chat_pub False)" by (simp add: chat_pub_def)
  then show ?thesis
    using sniffer_joins [of starter sample_sniffer "chat_pub False" "''10.0.0.1''" "\<lambda>_. True" text_proto "''hi''" "''hi''"
        5 "\<lambda>_. 7" sys_ok "''10.0.0.1''" 6 no_shm 7]
    by (auto simp: s d is_sender_local_def ts_view_def text_proto_def)
qed

definition sample_observer :: observer where
  "sample_observer = \<lparr>ob_msg = (node_disc ''uS'' ''10.0.0.1'')\<lparr>d_pubs := fst (addPublisher (chat_pub True) [])\<rparr>,
     ob_srv = node_disc ''uS'' ''10.0.0.1''\<rparr>"

theorem snapshot_complete_witness:
  "messageEndpoints sample_observer = [msg_row (chat_pub True)] \<and> serviceEndpoints sample_observer = []"
proof -
  have "ts_wf (d_pubs (ob_msg sample_observer))" "ts_wf (d_pubs (ob_srv sample_observer))"
    by (simp_all add: sample_observer_def store_laws)
  moreover have "listed (d_pubs (ob_msg sample_observer)) = [chat_pub True]" "listed (d_pubs (ob_srv sample_observer)) = []"
    by (simp_all add: sample_observer_def listed_def addPublisher_def om_get_def Let_def)
  ultimately show ?thesis using snapshot_complete [of sample_observer] by simp
qed

section \<open>Shared memory is out of its sight\<close>

text \<open>
  A sniffer does not see what is published through shared memory. The process that
  publishes on a HOST topic with shared memory sends the sniffer what it sends every
  subscriber, the descriptor of a slot; the sniffer does not tell it from a message and
  hands out the 88 bytes of the descriptor as the message and the marked type as its type.
\<close>

theorem sniffer_sees_descriptor:
  assumes "via_shm pub" "hasTopic_type (p_topic pub) (m_type pub) (mr_rsubs a)"
    and "map_of (mr_wrings a) (p_topic pub) = None" "fits_pages P bytes (m_type pub) msg []" "sf_cb sf"
    and "list_all (\<lambda>c. c \<noteq> CHR 0x00) (mr_uuid a)"
  shows "\<exists>a' os' fr data. publish_seq P hash sys_ok pub [msg] a os = Inr (a', os', [ESend fr]) \<and>
    sf_receiveMessage fr now sf = [SnCallback \<lparr>sn_topic = p_topic pub, sn_sender = mr_addr a, sn_data = data,
      sn_type = kShmMsgTypeMarker # m_type pub, sn_time = now\<rparr>] \<and>
    length data = sizeof_ShmDescriptor \<and>
    map_option sd_name (desc_of_bytes data) = Some (makeShmName hash (p_topic pub) (mr_uuid a))"
proof -
  let ?nm = "makeShmName hash (p_topic pub) (mr_uuid a)" and ?h = "handle_for 4 0 (bytes msg)"
  obtain a' os' where p: "publish_seq P hash sys_ok pub [msg] a os = Inr (a', os', [ESend (shm_frames pub (mr_addr a) ?nm ?h)])"
    using publish_fresh [OF assms(1-4) refl refl, where thesis = thesis and os = os] by simp blast
  note nm = shm_name_ok [OF assms(6), of hash "p_topic pub"]
  have "desc_of_bytes (desc_bytes (desc_for ?nm ?h)) = Some (desc_for ?nm ?h)"
    using desc_roundtrip [of "desc_for ?nm ?h"] nm by (simp add: desc_for_def)
  moreover have "length (desc_bytes (desc_for ?nm ?h)) = sizeof_ShmDescriptor"
    using nm(2) by (simp add: desc_bytes_def sizeof_ShmDescriptor_def desc_for_def)
  ultimately show ?thesis using p assms(5)
    by (auto simp: sf_receiveMessage_def shm_frames_def desc_for_def)
qed

theorem sniffer_sees_descriptor_witness:
  "\<exists>a' os' fr data. publish_seq text_proto (\<lambda>_. 7) sys_ok (chat_pub True) [''hi''] (talker True) no_shm = Inr (a', os', [ESend fr]) \<and>
    sf_receiveMessage fr 7 sample_sniffer = [SnCallback \<lparr>sn_topic = ''t'', sn_sender = ''tcp://10.0.0.1:5'', sn_data = data,
      sn_type = CHR 0x01 # ''T'', sn_time = 7\<rparr>] \<and> length data = 88"
proof -
  have 1: "via_shm (chat_pub True)" "mr_wrings (talker True) = []" "mr_uuid (talker True) = ''uA''"
      "mr_addr (talker True) = ''tcp://10.0.0.1:5''"
    by (simp_all add: via_shm_def talker_def new_msg_rt_def)
  have "sf_cb sample_sniffer" by (simp add: sample_sniffer_def)
  then show ?thesis
    using sniffer_sees_descriptor [of "chat_pub True" "talker True" text_proto id "''hi''" sample_sniffer "\<lambda>_. 7" no_shm 7]
      1 talker_knows [of True]
    by (auto simp: text_proto_def fits_pages_def page_up_def kMsgQueueLimit_def sizeof_ShmDescriptor_def kShmMsgTypeMarker_def)
qed

end
