(* ===== verification/Helpers.thy ===== *)
theory Helpers
  imports MsgThms
begin

text \<open>
  The helper functions (src/include/trans/details/helpers.hpp): environment, process name,
  random identities. The environment, /proc and the random engine are inputs.
\<close>

definition getEnv :: "(string \<Rightarrow> string option) \<Rightarrow> string \<Rightarrow> string \<Rightarrow> string \<times> bool" where
  "getEnv env name value = (case env name of Some v \<Rightarrow> (v, True) | None \<Rightarrow> (value, False))"

text \<open>\<open>comm\<close> is the first line of /proc/self/comm, if it can be read.\<close>

definition getProcessName :: "string option \<Rightarrow> u32 \<Rightarrow> string" where
  "getProcessName comm pid = (case comm of
     Some name \<Rightarrow> if name \<noteq> [] then take 64 name else ''pid-'' @ dec (unat pid)
   | None \<Rightarrow> ''pid-'' @ dec (unat pid))"

text \<open>\<open>dis lo hi g\<close> draws from a uniform distribution and returns the next state of the engine.\<close>

fun draws :: "nat \<Rightarrow> ('g \<Rightarrow> nat \<times> 'g) \<Rightarrow> 'g \<Rightarrow> string \<times> 'g" where
  "draws 0 d g = ([], g)"
| "draws (Suc n) d g = (let (x, g1) = d g; (s, g2) = draws n d g1 in (hex x @ s, g2))"

definition generateUuidV4 :: "(nat \<Rightarrow> nat \<Rightarrow> 'g \<Rightarrow> nat \<times> 'g) \<Rightarrow> 'g \<Rightarrow> string" where
  "generateUuidV4 uniform g0 =
     (let dis = uniform 0 15; dis2 = uniform 8 11;
          (a, g1) = draws 8 dis g0;
          (b, g2) = draws 4 dis g1;
          (c, g3) = draws 3 dis g2;
          (v, g4) = draws 1 dis2 g3;
          (d, g5) = draws 3 dis g4;
          (e, g6) = draws 12 dis g5
      in a @ ''-'' @ b @ ''-4'' @ c @ ''-'' @ v @ d @ ''-'' @ e)"

text \<open>What a uniform distribution guarantees.\<close>

definition in_range :: "(nat \<Rightarrow> nat \<Rightarrow> 'g \<Rightarrow> nat \<times> 'g) \<Rightarrow> bool" where
  "in_range uniform \<longleftrightarrow> (\<forall>lo hi g. lo \<le> hi \<longrightarrow> lo \<le> fst (uniform lo hi g) \<and> fst (uniform lo hi g) \<le> hi)"

lemma hex_digit: "x \<le> 15 \<Longrightarrow> hex x = [digit_char x]"
  by (subst hex.simps) simp

lemma draws_hex:
  assumes "\<And>g. lo \<le> fst (d g) \<and> fst (d g) \<le> hi" "hi \<le> 15"
  shows "draws n d g = (s, g') \<Longrightarrow> length s = n \<and> set s \<subseteq> digit_char ` {lo..hi}"
proof (induction n arbitrary: g s)
  case (Suc n)
  obtain x g1 where x: "d g = (x, g1)" by (cases "d g")
  obtain s2 g2 where s2: "draws n d g1 = (s2, g2)" by (cases "draws n d g1")
  have "lo \<le> x" "x \<le> hi" using assms(1) [of g] x by simp_all
  moreover have "s = digit_char x # s2" "g2 = g'" using Suc.prems x s2 \<open>x \<le> hi\<close> assms(2) by (auto simp: hex_digit)
  ultimately show ?case using Suc.IH [of g1 s2] s2 by auto
qed simp

text \<open>
  The shape RFC 4122 gives a random identifier: x a hexadecimal digit, y one of 8, 9, a, b,
  every other character itself.
\<close>

definition uuid_shape :: string where
  "uuid_shape = ''xxxxxxxx-xxxx-4xxx-yxxx-xxxxxxxxxxxx''"

definition fits_shape :: "char \<Rightarrow> char \<Rightarrow> bool" where
  "fits_shape t c = (if t = CHR ''x'' then c \<in> set ''0123456789abcdef''
     else if t = CHR ''y'' then c \<in> set ''89ab'' else c = t)"

lemma hex_chars: "digit_char ` {0..15} = set ''0123456789abcdef''" "digit_char ` {8..11} = set ''89ab''"
proof -
  have "{0..15 :: nat} = set [0..<16]" "{8..11 :: nat} = set [8..<12]" by auto
  moreover have "digit_char ` set [0..<16] = set ''0123456789abcdef''" "digit_char ` set [8..<12] = set ''89ab''"
    by code_simp+
  ultimately show "digit_char ` {0..15} = set ''0123456789abcdef''" "digit_char ` {8..11} = set ''89ab''"
    by (simp_all only:)
qed

lemma fits_replicate:
  "length s = n \<Longrightarrow> set s \<subseteq> set ''0123456789abcdef'' \<Longrightarrow> list_all2 fits_shape (replicate n (CHR ''x'')) s"
proof -
  assume "length s = n" and s: "set s \<subseteq> set ''0123456789abcdef''"
  moreover have "fits_shape (CHR ''x'') c" if "c \<in> set s" for c
    using s that unfolding fits_shape_def by (simp only: if_True simp_thms) blast
  ultimately show ?thesis by (simp add: list_all2_conv_all_nth)
qed

lemma uuid_fits:
  assumes "in_range uniform"
  shows "list_all2 fits_shape uuid_shape (generateUuidV4 uniform g)"
proof -
  have d: "0 \<le> fst (uniform 0 15 g) \<and> fst (uniform 0 15 g) \<le> 15" "8 \<le> fst (uniform 8 11 g) \<and> fst (uniform 8 11 g) \<le> 11" for g
    using assms by (auto simp: in_range_def)
  have hex: "list_all2 fits_shape (replicate n (CHR ''x'')) s" if "draws n (uniform 0 15) g = (s, g')" for n s g g'
    using draws_hex [of 0 "uniform 0 15" 15, OF d(1) _ that] hex_chars by (intro fits_replicate) auto
  obtain a g1 b g2 c g3 v g4 x g5 e g6 where
    p: "draws 8 (uniform 0 15) g = (a, g1)" "draws 4 (uniform 0 15) g1 = (b, g2)" "draws 3 (uniform 0 15) g2 = (c, g3)"
      "draws 1 (uniform 8 11) g3 = (v, g4)" "draws 3 (uniform 0 15) g4 = (x, g5)" "draws 12 (uniform 0 15) g5 = (e, g6)"
    by (meson surj_pair)
  have "length v = 1" "set v \<subseteq> set ''89ab''"
    using draws_hex [of 8 "uniform 8 11" 11, OF d(2) _ p(4)] hex_chars by auto
  then have v: "list_all2 fits_shape ''y'' v"
    by (cases v) (auto simp: fits_shape_def)
  have shape: "uuid_shape = replicate 8 (CHR ''x'') @ ''-'' @ replicate 4 (CHR ''x'') @ ''-4'' @ replicate 3 (CHR ''x'') @
      ''-'' @ ''y'' @ replicate 3 (CHR ''x'') @ ''-'' @ replicate 12 (CHR ''x'')"
    by (simp add: uuid_shape_def numeral_eq_Suc)
  have u: "generateUuidV4 uniform g = a @ ''-'' @ b @ ''-4'' @ c @ ''-'' @ v @ x @ ''-'' @ e"
    by (simp add: generateUuidV4_def p Let_def del: draws.simps One_nat_def)
  have sep: "list_all2 fits_shape ''-'' ''-''" "list_all2 fits_shape ''-4'' ''-4''" by (simp_all add: fits_shape_def)
  show ?thesis unfolding shape u
    by (intro list_all2_appendI hex [OF p(1)] hex [OF p(2)] hex [OF p(3)] hex [OF p(5)] hex [OF p(6)] v sep)
qed

lemma uuid_no_nul:
  assumes "in_range uniform"
  shows "list_all (\<lambda>c. c \<noteq> CHR 0x00) (generateUuidV4 uniform g)"
proof -
  have "c \<noteq> CHR 0x00" if "fits_shape t c" "t \<in> set uuid_shape" for t c
    using that by (auto simp: fits_shape_def uuid_shape_def split: if_splits)
  then show ?thesis
    using uuid_fits [OF assms, of g] by (auto simp: list_all2_conv_all_nth list_all_length)
qed

text \<open>
  C40: generated identities are version-4 UUIDs, whatever the random engine does: 36
  characters, the dashes, the version and the variant in place, every other character a
  lower-case hexadecimal digit.
\<close>

theorem uuid_format:
  assumes "in_range uniform"
  shows "list_all2 fits_shape uuid_shape (generateUuidV4 uniform g)"
  by (rule uuid_fits [OF assms])

theorem uuid_format_witness:
  "list_all2 fits_shape uuid_shape (generateUuidV4 (\<lambda>lo hi g. (lo + g mod (hi + 1 - lo), Suc g)) (7 :: nat))"
proof (rule uuid_format)
  have "lo + g mod (hi + 1 - lo) \<le> hi" if "lo \<le> hi" for lo hi g :: nat
    using mod_less_divisor [of "hi + 1 - lo" g] that by linarith
  then show "in_range (\<lambda>lo hi g. (lo + g mod (hi + 1 - lo), Suc g))" by (simp add: in_range_def)
qed

end
