(* ===== verification/ElogFormat.thy ===== *)
theory ElogFormat
  imports Prelude
begin

text \<open>
  Logging, first part (src/deps/elog/elog): log messages, the pattern language of the
  formatters and their rendering. Formatting of a message's arguments is fmt's and has
  happened: a payload is a string. Local time is the C library's, a parameter. A read
  outside an array or through a null pointer is no result.
\<close>

section \<open>Levels and messages\<close>

datatype log_level = LTRACE | LDEBUG | LINFO | LWARN | LERROR | LNUM_LEVELS

fun level_value :: "log_level \<Rightarrow> nat" where
  "level_value LTRACE = 0"
| "level_value LDEBUG = 1"
| "level_value LINFO = 2"
| "level_value LWARN = 3"
| "level_value LERROR = 4"
| "level_value LNUM_LEVELS = 5"

lemma level_value_inj: "level_value a = level_value b \<longleftrightarrow> a = b"
  by (cases a; cases b) simp_all

instantiation log_level :: linorder
begin

definition less_eq_log_level :: "log_level \<Rightarrow> log_level \<Rightarrow> bool" where
  "less_eq_log_level a b \<longleftrightarrow> level_value a \<le> level_value b"

definition less_log_level :: "log_level \<Rightarrow> log_level \<Rightarrow> bool" where
  "less_log_level a b \<longleftrightarrow> level_value a < level_value b"

instance
  by standard (auto simp: less_eq_log_level_def less_log_level_def level_value_inj)

end

lemmas level_order = less_eq_log_level_def less_log_level_def

definition array_at :: "'a list \<Rightarrow> nat \<Rightarrow> 'a option" where
  "array_at xs i = (if i < length xs then Some (xs ! i) else None)"

definition getLevelName :: "log_level \<Rightarrow> string option" where
  "getLevelName l = array_at [''trace'', ''debug'', ''info'', ''warning'', ''error''] (level_value l)"

definition simple_level_name :: "log_level \<Rightarrow> string option" where
  "simple_level_name l = array_at [''T'', ''D'', ''I'', ''W'', ''E''] (level_value l)"

text \<open>The two strings are pointers, null by default.\<close>

record source_loc =
  sl_file :: "string option"
  sl_line :: int
  sl_func :: "string option"

definition no_loc :: source_loc where
  "no_loc = \<lparr>sl_file = None, sl_line = 0, sl_func = None\<rparr>"

definition loc_empty :: "source_loc \<Rightarrow> bool" where
  "loc_empty l \<longleftrightarrow> sl_line l = 0"

text \<open>Times are nanoseconds since the epoch. The colour range is mutable in the code.\<close>

record log_msg =
  lm_name :: string
  lm_level :: log_level
  lm_time :: int
  lm_tid :: u64
  lm_source :: source_loc
  lm_payload :: string
  lm_cstart :: nat
  lm_cend :: nat

definition new_log_msg :: "int \<Rightarrow> u64 \<Rightarrow> source_loc \<Rightarrow> string \<Rightarrow> log_level \<Rightarrow> string \<Rightarrow> log_msg" where
  "new_log_msg now tid loc name level payload = \<lparr>lm_name = name, lm_level = level, lm_time = now, lm_tid = tid,
     lm_source = loc, lm_payload = payload, lm_cstart = 0, lm_cend = 0\<rparr>"

text \<open>
  \<open>AsyncMsg\<close>: name and payload are copied one behind the other into a buffer of its own, and
  the message's two views are pointed there.
\<close>

record async_msg =
  am_msg :: log_msg
  am_buf :: string

definition updateStringView :: "async_msg \<Rightarrow> async_msg" where
  "updateStringView a =
     (let n = length (lm_name (am_msg a)); k = length (lm_payload (am_msg a)) in
      a\<lparr>am_msg := (am_msg a)\<lparr>lm_name := take n (am_buf a), lm_payload := take k (drop n (am_buf a))\<rparr>\<rparr>)"

definition mkAsyncMsg :: "log_msg \<Rightarrow> async_msg" where
  "mkAsyncMsg m = updateStringView \<lparr>am_msg = m, am_buf = lm_name m @ lm_payload m\<rparr>"

text \<open>Moving, as the vector of the pool does when it grows: the views must follow the buffer.\<close>

definition moveAsyncMsg :: "async_msg \<Rightarrow> async_msg" where
  "moveAsyncMsg other = updateStringView \<lparr>am_msg = am_msg other, am_buf = am_buf other\<rparr>"

lemma mkAsyncMsg_keeps: "am_msg (mkAsyncMsg m) = m"
  by (simp add: mkAsyncMsg_def updateStringView_def)

lemma moveAsyncMsg_keeps: "moveAsyncMsg (mkAsyncMsg m) = mkAsyncMsg m"
  by (simp add: moveAsyncMsg_def mkAsyncMsg_def updateStringView_def)

section \<open>Numbers\<close>

definition pad2 :: "int \<Rightarrow> string" where
  "pad2 n = (if 0 \<le> n \<and> n < 100 then [digit_char (nat (n div 10)), digit_char (nat (n mod 10))] else show_int n)"

definition pad3 :: "int \<Rightarrow> string" where
  "pad3 n = (if 0 \<le> n \<and> n < 1000
     then [digit_char (nat (n div 100)), digit_char (nat (n mod 100 div 10)), digit_char (nat (n mod 100 mod 10))]
     else show_int n)"

definition pad_uint :: "u32 \<Rightarrow> nat \<Rightarrow> string" where
  "pad_uint n width = replicate (width - length (dec (unat n))) (CHR ''0'') @ dec (unat n)"

text \<open>\<open>duration_cast\<close> to a unit of \<open>k\<close> nanoseconds truncates.\<close>

definition in_units :: "int \<Rightarrow> int \<Rightarrow> int" where
  "in_units k t = (if t < 0 then - ((- t) div k) else t div k)"

definition to_secs :: "int \<Rightarrow> int" where
  "to_secs t = in_units 1000000000 t"

text \<open>The fraction of a second, in units of which a second has \<open>per\<close>.\<close>

definition timeFraction :: "int \<Rightarrow> int \<Rightarrow> int" where
  "timeFraction per t = in_units (1000000000 div per) t - to_secs t * per"

section \<open>Flag formatters\<close>

record tm =
  tm_year :: int
  tm_mon :: int
  tm_mday :: int
  tm_hour :: int
  tm_min :: int
  tm_sec :: int

text \<open>The full formatter keeps the time string of the second it last wrote.\<close>

datatype flag =
    FullFormatter int string
  | LogNameFormatter
  | LogLevelFormatter
  | SimpleLogLevelFormatter
  | TidFormatter
  | YearFormatter
  | MonthFormatter
  | DayFormatter
  | HourFormatter
  | MinFormatter
  | SecondFormatter
  | MilliFormatter
  | MicroFormatter
  | PayloadFormatter
  | SourceLocFormatter
  | FuncNameFormatter
  | AggregateFormatter string

definition basename :: "string \<Rightarrow> string" where
  "basename filename = rev (takeWhile (\<lambda>c. c \<noteq> CHR ''/'') (rev filename))"

definition append_level :: "(log_level \<Rightarrow> string option) \<Rightarrow> log_msg \<Rightarrow> string \<Rightarrow> (log_msg \<times> string) option" where
  "append_level name_of m dest = map_option (\<lambda>name.
     (m\<lparr>lm_cstart := length dest, lm_cend := length (dest @ name)\<rparr>, dest @ name)) (name_of (lm_level m))"

definition time_prefix :: "tm \<Rightarrow> string" where
  "time_prefix t = ''['' @ show_int (tm_year t + 1900) @ ''-'' @ pad2 (tm_mon t + 1) @ ''-'' @ pad2 (tm_mday t) @ '' '' @
     pad2 (tm_hour t) @ '':'' @ pad2 (tm_min t) @ '':'' @ pad2 (tm_sec t) @ ''.''"

definition source_text :: "source_loc \<Rightarrow> string option" where
  "source_text l = map_option (\<lambda>f. basename f @ '':'' @ show_int (sl_line l)) (sl_file l)"

definition format_micros :: "int \<Rightarrow> string" where
  "format_micros t = pad_uint (of_int (timeFraction 1000000 t)) 6"

text \<open>\<open>FullFormatter::format\<close>, on the cached second and string.\<close>

definition format_full ::
  "int \<Rightarrow> string \<Rightarrow> log_msg \<Rightarrow> tm \<Rightarrow> string \<Rightarrow> (flag \<times> log_msg \<times> string) option" where
  "format_full cached_secs cached m t dest =
     (let secs = to_secs (lm_time m);
          (secs1, str1) = (if cached_secs \<noteq> secs \<or> cached = [] then (secs, time_prefix t) else (cached_secs, cached));
          d1 = dest @ str1 @ format_micros (lm_time m) @ ''] '' @ ''[''
      in case append_level getLevelName m d1 of
           None \<Rightarrow> None
         | Some (m1, d2) \<Rightarrow>
             (let d3 = d2 @ ''] '' @ ''[tid:'' @ dec (unat (lm_tid m)) @ ''] ''
              in if loc_empty (lm_source m) then Some (FullFormatter secs1 str1, m1, d3 @ lm_payload m)
                 else (case source_text (lm_source m) of
                     None \<Rightarrow> None
                   | Some src \<Rightarrow> Some (FullFormatter secs1 str1, m1, d3 @ ''['' @ src @ ''] '' @ lm_payload m))))"

definition append_text :: "flag \<Rightarrow> log_msg \<Rightarrow> string \<Rightarrow> string \<Rightarrow> (flag \<times> log_msg \<times> string) option" where
  "append_text f m dest s = Some (f, m, dest @ s)"

fun format_flag :: "flag \<Rightarrow> log_msg \<Rightarrow> tm \<Rightarrow> string \<Rightarrow> (flag \<times> log_msg \<times> string) option" where
  "format_flag (FullFormatter secs str) m t dest = format_full secs str m t dest"
| "format_flag LogNameFormatter m t dest = append_text LogNameFormatter m dest (lm_name m)"
| "format_flag LogLevelFormatter m t dest = map_option (Pair LogLevelFormatter) (append_level getLevelName m dest)"
| "format_flag SimpleLogLevelFormatter m t dest = map_option (Pair SimpleLogLevelFormatter) (append_level simple_level_name m dest)"
| "format_flag TidFormatter m t dest = append_text TidFormatter m dest (dec (unat (lm_tid m)))"
| "format_flag YearFormatter m t dest = append_text YearFormatter m dest (show_int (tm_year t + 1900))"
| "format_flag MonthFormatter m t dest = append_text MonthFormatter m dest (pad2 (tm_mon t + 1))"
| "format_flag DayFormatter m t dest = append_text DayFormatter m dest (pad2 (tm_mday t))"
| "format_flag HourFormatter m t dest = append_text HourFormatter m dest (pad2 (tm_hour t))"
| "format_flag MinFormatter m t dest = append_text MinFormatter m dest (pad2 (tm_min t))"
| "format_flag SecondFormatter m t dest = append_text SecondFormatter m dest (pad2 (tm_sec t))"
| "format_flag MilliFormatter m t dest =
     append_text MilliFormatter m dest (pad3 (sint (of_int (timeFraction 1000 (lm_time m)) :: u32)))"
| "format_flag MicroFormatter m t dest = append_text MicroFormatter m dest (format_micros (lm_time m))"
| "format_flag PayloadFormatter m t dest = append_text PayloadFormatter m dest (lm_payload m)"
| "format_flag SourceLocFormatter m t dest =
     (if loc_empty (lm_source m) then Some (SourceLocFormatter, m, dest)
      else (case source_text (lm_source m) of None \<Rightarrow> None | Some s \<Rightarrow> append_text SourceLocFormatter m dest s))"
| "format_flag FuncNameFormatter m t dest =
     (if loc_empty (lm_source m) then Some (FuncNameFormatter, m, dest)
      else (case sl_func (lm_source m) of None \<Rightarrow> None | Some s \<Rightarrow> append_text FuncNameFormatter m dest s))"
| "format_flag (AggregateFormatter str) m t dest = append_text (AggregateFormatter str) m dest str"

section \<open>Patterns\<close>

record pattern_formatter =
  pf_pattern :: string
  pf_flags :: "flag list"

definition new_full :: flag where
  "new_full = FullFormatter 0 []"

definition default_formatter :: pattern_formatter where
  "default_formatter = \<lparr>pf_pattern = ''%+'', pf_flags = [new_full]\<rparr>"

definition handleFlag :: "char \<Rightarrow> flag" where
  "handleFlag ch =
     (if ch = CHR ''+'' then new_full
      else if ch = CHR ''n'' then LogNameFormatter
      else if ch = CHR ''l'' then LogLevelFormatter
      else if ch = CHR ''L'' then SimpleLogLevelFormatter
      else if ch = CHR ''t'' then TidFormatter
      else if ch = CHR ''Y'' then YearFormatter
      else if ch = CHR ''M'' then MonthFormatter
      else if ch = CHR ''D'' then DayFormatter
      else if ch = CHR ''h'' then HourFormatter
      else if ch = CHR ''m'' then MinFormatter
      else if ch = CHR ''s'' then SecondFormatter
      else if ch = CHR ''e'' then MilliFormatter
      else if ch = CHR ''f'' then MicroFormatter
      else if ch = CHR ''v'' then PayloadFormatter
      else if ch = CHR ''u'' then SourceLocFormatter
      else if ch = CHR ''w'' then FuncNameFormatter
      else AggregateFormatter [CHR ''%'', ch])"

definition user_flag :: "string option \<Rightarrow> flag list" where
  "user_flag user_chars = (case user_chars of None \<Rightarrow> [] | Some s \<Rightarrow> [AggregateFormatter s])"

text \<open>\<open>compilePattern\<close>: the rest of the pattern, the characters gathered, the formatters made.\<close>

fun compile_loop :: "string \<Rightarrow> string option \<Rightarrow> flag list \<Rightarrow> flag list" where
  "compile_loop [] user_chars fs = fs @ user_flag user_chars"
| "compile_loop (c # cs) user_chars fs =
     (if c = CHR ''%'' then (case cs of
          [] \<Rightarrow> fs @ user_flag user_chars
        | ch # cs' \<Rightarrow> compile_loop cs' None (fs @ user_flag user_chars @ [handleFlag ch]))
      else compile_loop cs (Some ((case user_chars of None \<Rightarrow> [] | Some s \<Rightarrow> s) @ [c])) fs)"

definition compilePattern :: "string \<Rightarrow> pattern_formatter \<Rightarrow> pattern_formatter" where
  "compilePattern pattern f = f\<lparr>pf_flags := compile_loop pattern None []\<rparr>"

definition mkPatternFormatter :: "string \<Rightarrow> pattern_formatter" where
  "mkPatternFormatter pattern = compilePattern pattern \<lparr>pf_pattern = pattern, pf_flags = []\<rparr>"

definition pf_setPattern :: "string \<Rightarrow> pattern_formatter \<Rightarrow> pattern_formatter" where
  "pf_setPattern pattern f = compilePattern pattern (f\<lparr>pf_pattern := pattern\<rparr>)"

definition pf_clone :: "pattern_formatter \<Rightarrow> pattern_formatter" where
  "pf_clone f = mkPatternFormatter (pf_pattern f)"

fun format_flags :: "flag list \<Rightarrow> log_msg \<Rightarrow> tm \<Rightarrow> string \<Rightarrow> (flag list \<times> log_msg \<times> string) option" where
  "format_flags [] m t dest = Some ([], m, dest)"
| "format_flags (f # fs) m t dest =
     (case format_flag f m t dest of
        None \<Rightarrow> None
      | Some (f1, m1, d1) \<Rightarrow> (case format_flags fs m1 t d1 of
            None \<Rightarrow> None
          | Some (fs1, m2, d2) \<Rightarrow> Some (f1 # fs1, m2, d2)))"

text \<open>\<open>localtime\<close> answers a \<open>time_t\<close>, which is whole seconds.\<close>

definition pf_format ::
  "(int \<Rightarrow> tm) \<Rightarrow> log_msg \<Rightarrow> string \<Rightarrow> pattern_formatter \<Rightarrow> (pattern_formatter \<times> log_msg \<times> string) option" where
  "pf_format localtime m dest f =
     (case format_flags (pf_flags f) m (localtime (to_secs (lm_time m))) dest of
        None \<Rightarrow> None
      | Some (fs, m1, d) \<Rightarrow> Some (f\<lparr>pf_flags := fs\<rparr>, m1, d @ nl))"


text \<open>Formatting one message after another through one formatter.\<close>

fun pf_format_all :: "(int \<Rightarrow> tm) \<Rightarrow> log_msg list \<Rightarrow> pattern_formatter \<Rightarrow> (pattern_formatter \<times> string list) option" where
  "pf_format_all localtime [] f = Some (f, [])"
| "pf_format_all localtime (m # ms) f =
     (case pf_format localtime m [] f of
        None \<Rightarrow> None
      | Some (f1, _, d) \<Rightarrow> map_option (apsnd ((#) d)) (pf_format_all localtime ms f1))"

section \<open>What a pattern means\<close>

text \<open>
  The reference: a pattern is read once for each message, every directive replaced by its
  text. \<open>%+\<close> abbreviates a pattern of the other directives.
\<close>

definition oappend :: "string option \<Rightarrow> string option \<Rightarrow> string option" where
  "oappend a b = (case a of None \<Rightarrow> None | Some s \<Rightarrow> map_option ((@) s) b)"

fun render :: "(char \<Rightarrow> string option) \<Rightarrow> string \<Rightarrow> string option" where
  "render d [] = Some []"
| "render d (c # cs) =
     (if c = CHR ''%'' then (case cs of [] \<Rightarrow> Some [] | ch # cs' \<Rightarrow> oappend (d ch) (render d cs'))
      else oappend (Some [c]) (render d cs))"

definition basic_directive :: "tm \<Rightarrow> log_msg \<Rightarrow> char \<Rightarrow> string option" where
  "basic_directive t m ch =
     (if ch = CHR ''n'' then Some (lm_name m)
      else if ch = CHR ''l'' then getLevelName (lm_level m)
      else if ch = CHR ''L'' then simple_level_name (lm_level m)
      else if ch = CHR ''t'' then Some (dec (unat (lm_tid m)))
      else if ch = CHR ''Y'' then Some (show_int (tm_year t + 1900))
      else if ch = CHR ''M'' then Some (pad2 (tm_mon t + 1))
      else if ch = CHR ''D'' then Some (pad2 (tm_mday t))
      else if ch = CHR ''h'' then Some (pad2 (tm_hour t))
      else if ch = CHR ''m'' then Some (pad2 (tm_min t))
      else if ch = CHR ''s'' then Some (pad2 (tm_sec t))
      else if ch = CHR ''e'' then Some (pad3 (sint (of_int (timeFraction 1000 (lm_time m)) :: u32)))
      else if ch = CHR ''f'' then Some (format_micros (lm_time m))
      else if ch = CHR ''v'' then Some (lm_payload m)
      else if ch = CHR ''u'' then (if loc_empty (lm_source m) then Some [] else source_text (lm_source m))
      else if ch = CHR ''w'' then (if loc_empty (lm_source m) then Some [] else sl_func (lm_source m))
      else Some [CHR ''%'', ch])"

definition full_pattern :: "bool \<Rightarrow> string" where
  "full_pattern no_source = ''[%Y-%M-%D %h:%m:%s.%f] [%l] [tid:%t] '' @ (if no_source then [] else ''[%u] '') @ ''%v''"

definition directive :: "tm \<Rightarrow> log_msg \<Rightarrow> char \<Rightarrow> string option" where
  "directive t m ch = (if ch = CHR ''+'' then render (basic_directive t m) (full_pattern (loc_empty (lm_source m)))
     else basic_directive t m ch)"

text \<open>The line a message becomes under a pattern.\<close>

definition log_line :: "(int \<Rightarrow> tm) \<Rightarrow> string \<Rightarrow> log_msg \<Rightarrow> string option" where
  "log_line localtime p m = oappend (render (directive (localtime (to_secs (lm_time m))) m) p) (Some nl)"

lemma oappend_simps [simp]:
  "oappend None b = None" "oappend a None = None" "oappend (Some []) b = b" "oappend a (Some []) = a"
  "oappend (Some s) (Some s') = Some (s @ s')"
  by (cases a; cases b; simp add: oappend_def)+

lemma oappend_assoc: "oappend (oappend a b) c = oappend a (oappend b c)"
  by (cases a; cases b; cases c) simp_all

text \<open>The text a compiled flag writes, its cache apart.\<close>

fun flag_text :: "tm \<Rightarrow> log_msg \<Rightarrow> flag \<Rightarrow> string option" where
  "flag_text t m (FullFormatter secs str) = directive t m CHR ''+''"
| "flag_text t m LogNameFormatter = basic_directive t m CHR ''n''"
| "flag_text t m LogLevelFormatter = basic_directive t m CHR ''l''"
| "flag_text t m SimpleLogLevelFormatter = basic_directive t m CHR ''L''"
| "flag_text t m TidFormatter = basic_directive t m CHR ''t''"
| "flag_text t m YearFormatter = basic_directive t m CHR ''Y''"
| "flag_text t m MonthFormatter = basic_directive t m CHR ''M''"
| "flag_text t m DayFormatter = basic_directive t m CHR ''D''"
| "flag_text t m HourFormatter = basic_directive t m CHR ''h''"
| "flag_text t m MinFormatter = basic_directive t m CHR ''m''"
| "flag_text t m SecondFormatter = basic_directive t m CHR ''s''"
| "flag_text t m MilliFormatter = basic_directive t m CHR ''e''"
| "flag_text t m MicroFormatter = basic_directive t m CHR ''f''"
| "flag_text t m PayloadFormatter = basic_directive t m CHR ''v''"
| "flag_text t m SourceLocFormatter = basic_directive t m CHR ''u''"
| "flag_text t m FuncNameFormatter = basic_directive t m CHR ''w''"
| "flag_text t m (AggregateFormatter s) = Some s"

fun flags_text :: "tm \<Rightarrow> log_msg \<Rightarrow> flag list \<Rightarrow> string option" where
  "flags_text t m [] = Some []"
| "flags_text t m (f # fs) = oappend (flag_text t m f) (flags_text t m fs)"

lemma flags_text_append [simp]: "flags_text t m (fs @ gs) = oappend (flags_text t m fs) (flags_text t m gs)"
  by (induction fs) (simp_all add: oappend_assoc)

lemma flag_text_handleFlag: "flag_text t m (handleFlag ch) = directive t m ch"
  by (simp add: handleFlag_def directive_def new_full_def basic_directive_def)

lemma compile_loop_text:
  "flags_text t m (compile_loop p uc fs) =
     oappend (flags_text t m fs) (oappend (flags_text t m (user_flag uc)) (render (directive t m) p))"
proof (induction p uc fs rule: compile_loop.induct)
  case (2 c cs uc fs)
  show ?case
  proof (cases "c = CHR ''%''")
    case True
    with 2(1) show ?thesis
      by (cases cs) (simp_all add: oappend_assoc flag_text_handleFlag user_flag_def)
  next
    case False
    then have "oappend (flags_text t m (user_flag (Some ((case uc of None \<Rightarrow> [] | Some s \<Rightarrow> s) @ [c])))) (render (directive t m) cs)
        = oappend (flags_text t m (user_flag uc)) (render (directive t m) (c # cs))"
      by (cases uc) (simp_all add: user_flag_def flip: oappend_assoc)
    with 2(2) False show ?thesis
      by simp
  qed
qed simp


section \<open>Formatting through a compiled pattern\<close>

text \<open>The cached string belongs to the cached second; the colour range holds a name of the level.\<close>

fun cache_ok :: "(int \<Rightarrow> tm) \<Rightarrow> flag \<Rightarrow> bool" where
  "cache_ok lt (FullFormatter secs str) \<longleftrightarrow> str = [] \<or> str = time_prefix (lt secs)"
| "cache_ok lt f \<longleftrightarrow> True"

definition range_ok :: "log_msg \<Rightarrow> string \<Rightarrow> bool" where
  "range_ok m d \<longleftrightarrow> lm_cstart m \<le> lm_cend m \<and> lm_cend m \<le> length d \<and>
     (lm_cstart m < lm_cend m \<longrightarrow>
        Some (take (lm_cend m - lm_cstart m) (drop (lm_cstart m) d)) \<in> {getLevelName (lm_level m), simple_level_name (lm_level m)})"

lemma range_ok_append [intro]: "range_ok m d \<Longrightarrow> range_ok m (d @ s)"
  by (auto simp: range_ok_def)

definition recoloured :: "log_msg \<Rightarrow> log_msg \<Rightarrow> bool" where
  "recoloured m m' \<longleftrightarrow> m' = m\<lparr>lm_cstart := lm_cstart m', lm_cend := lm_cend m'\<rparr>"

lemma recoloured_refl [simp]: "recoloured m m" by (simp add: recoloured_def)

lemma recoloured_trans: "recoloured a b \<Longrightarrow> recoloured b c \<Longrightarrow> recoloured a c"
  unfolding recoloured_def by (cases a; cases b; cases c) simp

lemma recoloured_fields:
  assumes "recoloured m m'"
  shows "lm_name m' = lm_name m" "lm_level m' = lm_level m" "lm_time m' = lm_time m" "lm_tid m' = lm_tid m"
    "lm_source m' = lm_source m" "lm_payload m' = lm_payload m"
  using assms unfolding recoloured_def by (cases m; cases m'; simp)+

lemma basic_directive_recoloured: "recoloured m m' \<Longrightarrow> basic_directive t m' = basic_directive t m"
  by (simp add: basic_directive_def recoloured_fields fun_eq_iff)

lemma flag_text_recoloured: "recoloured m m' \<Longrightarrow> flag_text t m' f = flag_text t m f"
  by (cases f) (simp_all add: directive_def basic_directive_recoloured recoloured_fields)

lemma flags_text_recoloured: "recoloured m m' \<Longrightarrow> flags_text t m' fs = flags_text t m fs"
  by (induction fs) (simp_all add: flag_text_recoloured)

text \<open>What a formatter of the message has done to its destination.\<close>

definition formats_as :: "(int \<Rightarrow> tm) \<Rightarrow> log_msg \<Rightarrow> string \<Rightarrow> string option \<Rightarrow> (log_msg \<times> string) option \<Rightarrow> bool" where
  "formats_as lt m dest txt r \<longleftrightarrow> (case r of
      None \<Rightarrow> txt = None
    | Some (m', d) \<Rightarrow> (\<exists>s. txt = Some s \<and> d = dest @ s) \<and> recoloured m m' \<and>
        (range_ok m dest \<longrightarrow> range_ok m' d))"

lemma formats_as_NoneI: "txt = None \<Longrightarrow> formats_as lt m dest txt None"
  by (simp add: formats_as_def)

lemma formats_as_text: "txt = Some s \<Longrightarrow> formats_as lt m dest txt (Some (m, dest @ s))"
  by (simp add: formats_as_def range_ok_def)

lemma formats_as_level:
  assumes "txt = map_option (\<lambda>s. pre @ s @ post) (name_of (lm_level m))" and "name_of \<in> {getLevelName, simple_level_name}"
  shows "formats_as lt m dest txt (map_option (\<lambda>(m1, d). (m1, d @ post)) (append_level name_of m (dest @ pre)))"
  using assms by (cases "name_of (lm_level m)") (auto simp: formats_as_def append_level_def range_ok_def recoloured_def)

lemma formats_as_level_name:
  "name_of \<in> {getLevelName, simple_level_name} \<Longrightarrow> formats_as lt m dest (name_of (lm_level m)) (append_level name_of m dest)"
  using formats_as_level [of "name_of (lm_level m)" "[]" "[]" name_of m lt dest]
  by (simp add: option.map_ident split_beta option.map_id)

lemma formats_as_seq:
  assumes "formats_as lt m dest a (Some (m1, d1))" and "formats_as lt m1 d1 b r"
  shows "formats_as lt m dest (oappend a b) r"
  using assms by (auto simp: formats_as_def intro: recoloured_trans split: option.splits)

lemma time_prefix_nonempty: "time_prefix t \<noteq> []" by (simp add: time_prefix_def)

lemma full_text:
  "directive t m CHR ''+'' =
     (if loc_empty (lm_source m)
      then map_option (\<lambda>s. (time_prefix t @ format_micros (lm_time m) @ ''] '' @ ''['') @ s @
             (''] '' @ ''[tid:'' @ dec (unat (lm_tid m)) @ ''] '' @ lm_payload m)) (getLevelName (lm_level m))
      else oappend (map_option (\<lambda>s. (time_prefix t @ format_micros (lm_time m) @ ''] '' @ ''['') @ s @
             (''] '' @ ''[tid:'' @ dec (unat (lm_tid m)) @ ''] '' @ ''['')) (getLevelName (lm_level m)))
           (map_option (\<lambda>src. src @ ''] '' @ lm_payload m) (source_text (lm_source m))))"
  by (cases "getLevelName (lm_level m)"; cases "source_text (lm_source m)")
     (simp_all add: directive_def full_pattern_def basic_directive_def time_prefix_def)

lemma format_full_fresh:
  assumes "cache_ok lt (FullFormatter secs str)" and "t = lt (to_secs (lm_time m))"
  shows "format_full secs str m t dest = format_full (to_secs (lm_time m)) (time_prefix t) m t dest"
  using assms by (auto simp: format_full_def Let_def time_prefix_nonempty)

lemma format_full_formatted:
  assumes "cache_ok lt (FullFormatter secs str)" and "t = lt (to_secs (lm_time m))"
  shows "formats_as lt m dest (directive t m CHR ''+'') (map_option snd (format_full secs str m t dest))"
  unfolding format_full_fresh [OF assms] full_text
  by (cases "getLevelName (lm_level m)"; cases "source_text (lm_source m)")
     (simp_all add: format_full_def Let_def append_level_def formats_as_def range_ok_def recoloured_def time_prefix_nonempty)

lemma format_full_cache:
  assumes "cache_ok lt (FullFormatter secs str)" and "t = lt (to_secs (lm_time m))"
    and "format_full secs str m t dest = Some (f', r)"
  shows "cache_ok lt f'" and "flag_text u k f' = directive u k CHR ''+''"
  using assms(3) unfolding format_full_fresh [OF assms(1,2)]
  by (auto simp: format_full_def Let_def time_prefix_nonempty assms(2) split: option.splits prod.splits if_splits)

lemma format_flag_formatted:
  assumes "cache_ok lt f" and "t = lt (to_secs (lm_time m))"
  shows "formats_as lt m dest (flag_text t m f) (map_option snd (format_flag f m t dest))"
proof (cases f)
  case (FullFormatter secs str)
  with assms show ?thesis by (simp add: format_full_formatted)
next
  case LogLevelFormatter
  then show ?thesis
    by (simp add: basic_directive_def option.map_comp comp_def option.map_ident formats_as_level_name)
next
  case SimpleLogLevelFormatter
  then show ?thesis
    by (simp add: basic_directive_def option.map_comp comp_def option.map_ident formats_as_level_name)
next
  case SourceLocFormatter
  then show ?thesis
    by (auto simp: basic_directive_def append_text_def formats_as_NoneI formats_as_text
        intro: formats_as_text [where s = "[]", simplified] split: option.split)
next
  case FuncNameFormatter
  then show ?thesis
    by (auto simp: basic_directive_def append_text_def formats_as_NoneI formats_as_text
        intro: formats_as_text [where s = "[]", simplified] split: option.split)
qed (simp_all add: basic_directive_def append_text_def formats_as_text)

lemma format_flag_cache:
  assumes "cache_ok lt f" and "t = lt (to_secs (lm_time m))" and "format_flag f m t dest = Some (f', r)"
  shows "cache_ok lt f' \<and> (\<forall>u k. flag_text u k f' = flag_text u k f)"
proof (cases f)
  case (FullFormatter secs str)
  with assms format_full_cache [of lt secs str t m dest f' r] show ?thesis by simp
qed (use assms(3) in \<open>auto simp: append_text_def split: if_splits option.splits\<close>)

lemma format_flags_formatted:
  assumes "\<forall>f \<in> set fs. cache_ok lt f" and t: "t = lt (to_secs (lm_time m))"
  shows "formats_as lt m dest (flags_text t m fs) (map_option snd (format_flags fs m t dest))"
  using assms
proof (induction fs arbitrary: m dest)
  case (Cons f fs)
  have f: "formats_as lt m dest (flag_text t m f) (map_option snd (format_flag f m t dest))"
    using Cons.prems by (simp add: format_flag_formatted)
  show ?case
  proof (cases "format_flag f m t dest")
    case None
    with f show ?thesis by (simp add: formats_as_def)
  next
    case (Some r)
    obtain f1 m1 d1 where r: "r = (f1, m1, d1)" by (cases r)
    from f have "recoloured m m1" by (simp add: Some r formats_as_def)
    then have "formats_as lt m1 d1 (flags_text t m fs) (map_option snd (format_flags fs m1 t d1))"
      using Cons.IH [of m1 d1] Cons.prems by (simp add: recoloured_fields flags_text_recoloured)
    moreover have "map_option snd (format_flags (f # fs) m t dest) = map_option snd (format_flags fs m1 t d1)"
      by (simp add: Some r split: option.split)
    ultimately show ?thesis
      using f by (simp add: Some r formats_as_seq)
  qed
qed (simp add: formats_as_text [where s = "[]", simplified])

lemma format_flags_cache:
  assumes "\<forall>f \<in> set fs. cache_ok lt f" and "t = lt (to_secs (lm_time m))"
    and "format_flags fs m t dest = Some (fs', r)"
  shows "(\<forall>f \<in> set fs'. cache_ok lt f) \<and> (\<forall>u k. flags_text u k fs' = flags_text u k fs)"
  using assms
proof (induction fs arbitrary: m dest fs')
  case (Cons f fs)
  from Cons.prems(3) obtain f1 m1 d1 fs1 where
    f: "format_flag f m t dest = Some (f1, m1, d1)" and fs: "format_flags fs m1 t d1 = Some (fs1, r)" and "fs' = f1 # fs1"
    by (auto split: option.splits)
  moreover have "lm_time m1 = lm_time m"
    using format_flag_formatted [of lt f t m dest] Cons.prems f by (simp add: formats_as_def recoloured_fields)
  ultimately show ?case
    using Cons.IH [of m1 d1 fs1] Cons.prems format_flag_cache [of lt f t m dest f1 "(m1, d1)"] by simp
qed simp

text \<open>A formatter with pattern \<open>p\<close>, whatever it has formatted already.\<close>

definition pf_means :: "(int \<Rightarrow> tm) \<Rightarrow> string \<Rightarrow> pattern_formatter \<Rightarrow> bool" where
  "pf_means lt p f \<longleftrightarrow> (\<forall>g \<in> set (pf_flags f). cache_ok lt g) \<and>
     (\<forall>t m. flags_text t m (pf_flags f) = render (directive t m) p)"

lemma cache_ok_handleFlag: "cache_ok lt (handleFlag ch)" by (simp add: handleFlag_def new_full_def)

lemma cache_ok_compile_loop:
  "\<forall>g \<in> set fs. cache_ok lt g \<Longrightarrow> \<forall>g \<in> set (compile_loop p uc fs). cache_ok lt g"
  by (induction p uc fs rule: compile_loop.induct) (auto simp: user_flag_def cache_ok_handleFlag split: list.split option.split)

lemma pf_means_compile: "pf_means lt p (compilePattern p f)"
  using cache_ok_compile_loop [of "[]" lt p None]
  by (simp add: pf_means_def compilePattern_def compile_loop_text user_flag_def)

lemma pf_means_new [simp]: "pf_means lt p (mkPatternFormatter p)" "pf_means lt p (pf_setPattern p f)"
  by (simp_all add: mkPatternFormatter_def pf_setPattern_def pf_means_compile)

lemma pf_means_default [simp]: "pf_means lt ''%+'' default_formatter"
  by (simp add: pf_means_def default_formatter_def new_full_def)

lemma pf_means_clone [simp]: "pf_means lt (pf_pattern f) (pf_clone f)"
  by (simp add: pf_clone_def)

lemma pf_format_means:
  assumes "pf_means lt p f"
  shows "formats_as lt m dest (log_line lt p m) (map_option snd (pf_format lt m dest f))"
    and "pf_format lt m dest f = Some (f', r) \<Longrightarrow> pf_means lt p f'"
proof -
  let ?t = "lt (to_secs (lm_time m))"
  have ok: "\<forall>g \<in> set (pf_flags f). cache_ok lt g" and text_is: "flags_text u k (pf_flags f) = render (directive u k) p" for u k
    using assms by (simp_all add: pf_means_def)
  show "formats_as lt m dest (log_line lt p m) (map_option snd (pf_format lt m dest f))"
    using format_flags_formatted [OF ok refl, of m dest]
    by (auto simp: formats_as_def log_line_def pf_format_def text_is range_ok_def split: option.splits)
  show "pf_format lt m dest f = Some (f', r) \<Longrightarrow> pf_means lt p f'"
    using format_flags_cache [OF ok refl, of m dest]
    by (auto simp: pf_means_def pf_format_def text_is split: option.splits)
qed

lemma pf_format_all_means:
  "pf_means lt p f \<Longrightarrow> map_option snd (pf_format_all lt ms f) = those (map (log_line lt p) ms)"
proof (induction ms arbitrary: f)
  case (Cons m ms)
  note step = pf_format_means [OF Cons.prems, of m "[]"]
  show ?case
  proof (cases "pf_format lt m [] f")
    case None
    with step(1) show ?thesis by (simp add: formats_as_def)
  next
    case (Some r)
    obtain f1 m1 d where r: "r = (f1, m1, d)" by (cases r)
    have "log_line lt p m = Some d" and "pf_means lt p f1"
      using step Some r by (auto simp: formats_as_def)
    with Cons.IH [of f1, symmetric] show ?thesis
      by (simp add: Some r option.map_comp comp_def)
  qed
qed simp

section \<open>Properties\<close>

text \<open>
  C20: what a pattern formatter writes for each message of any sequence is the line the
  pattern means for that message: every directive replaced by its text, \<open>%+\<close> by the long
  form, all else copied, a line end added. In particular the time string that the full
  formatter keeps within a second is never out of date, and no result (a read outside a
  table or through a null pointer) comes exactly when the reference has none.
\<close>

theorem formatter_writes_what_pattern_means:
  "map_option snd (pf_format_all localtime ms (mkPatternFormatter p)) = those (map (log_line localtime p) ms)"
  by (rule pf_format_all_means) simp

end
