(* ===== verification/ElogSink.thy ===== *)
theory ElogSink
  imports ElogFormat
begin

text \<open>
  Logging, second part (src/deps/elog/elog): files, sinks and loggers. The file system is a
  parameter, a record of the calls the code makes; what is relied on is \<open>fs_laws\<close>. What
  \<open>fwrite\<close> is given stays in the stream's buffer until \<open>fflush\<close> or \<open>fclose\<close>. Each
  operation runs under its sink's mutex, so it is one step.
\<close>

section \<open>The operating system\<close>

record 'd fs =
  fs_stat :: "'d \<Rightarrow> string \<Rightarrow> bool"
  fs_mkdir :: "string \<Rightarrow> 'd \<Rightarrow> 'd"
  fs_fopen :: "string \<Rightarrow> 'd \<Rightarrow> 'd option"
  fs_append :: "string \<Rightarrow> string \<Rightarrow> 'd \<Rightarrow> 'd"
  fs_content :: "'d \<Rightarrow> string \<Rightarrow> string"

text \<open>
  The surroundings: \<open>localtime\<close>, the readings of the clock, how much of a text \<open>fwrite\<close>
  accepts, whether \<open>fflush\<close> of a file succeeds, two environment variables.
\<close>

record 'd env =
  e_fs :: "'d fs"
  e_localtime :: "int \<Rightarrow> tm"
  e_clock :: "nat \<Rightarrow> int"
  e_fwrite :: "string \<Rightarrow> nat"
  e_fflush :: "string \<Rightarrow> bool"
  e_colorterm :: "string option"
  e_term :: "string option"

text \<open>Console streams have numbers; a complaint on \<open>cerr\<close> keeps its text.\<close>

record 'd os_state =
  os_disk :: 'd
  os_streams :: "nat \<Rightarrow> string"
  os_reads :: nat
  os_cerr :: "string list"

definition clock_now :: "'d env \<Rightarrow> 'd os_state \<Rightarrow> int \<times> 'd os_state" where
  "clock_now e os = (e_clock e (os_reads os), os\<lparr>os_reads := Suc (os_reads os)\<rparr>)"

definition complain :: "string \<Rightarrow> 'd os_state \<Rightarrow> 'd os_state" where
  "complain s os = os\<lparr>os_cerr := os_cerr os @ [s]\<rparr>"

definition before_last :: "char \<Rightarrow> string \<Rightarrow> string" where
  "before_last c s = rev (drop 1 (dropWhile (\<lambda>x. x \<noteq> c) (rev s)))"

definition dirName :: "string \<Rightarrow> string" where
  "dirName path = before_last CHR ''/'' path"

definition existsPath :: "'d env \<Rightarrow> string \<Rightarrow> 'd \<Rightarrow> bool" where
  "existsPath e path d = fs_stat (e_fs e) d path"

text \<open>The next separator from an offset on, or the end.\<close>

definition next_sep :: "string \<Rightarrow> nat \<Rightarrow> nat" where
  "next_sep path from = from + length (takeWhile (\<lambda>c. c \<noteq> CHR ''/'') (drop from path))"

lemma next_sep_ge: "from \<le> next_sep path from"
  by (simp add: next_sep_def)

function create_loop :: "'d env \<Rightarrow> string \<Rightarrow> nat \<Rightarrow> 'd \<Rightarrow> 'd" where
  "create_loop e dir_path search_offset d =
     (if search_offset < length dir_path
      then (let token_pos = next_sep dir_path search_offset; subdir = take token_pos dir_path in
        if subdir = [] \<or> existsPath e subdir d then create_loop e dir_path (token_pos + 1) d
        else create_loop e dir_path (token_pos + 1) (fs_mkdir (e_fs e) subdir d))
      else d)"
  by pat_completeness auto
termination
proof (relation "measure (\<lambda>(e, p, n, d). length p - n)")
  show "\<And>e p n d. wf (measure (\<lambda>(e, p, n, d). length p - n))" by simp
qed (use next_sep_ge in \<open>simp add: Let_def less_Suc_eq_le diff_less_mono2 le_imp_less_Suc\<close>)+

declare create_loop.simps [simp del]

definition createDir :: "'d env \<Rightarrow> string \<Rightarrow> 'd \<Rightarrow> 'd" where
  "createDir e dir_path d = (if dir_path = [] \<or> existsPath e dir_path d then d else create_loop e dir_path 0 d)"

fun contains :: "string \<Rightarrow> string \<Rightarrow> bool" where
  "contains pat [] \<longleftrightarrow> pat = []"
| "contains pat (c # cs) \<longleftrightarrow> take (length pat) (c # cs) = pat \<or> contains pat cs"

definition isColorTerminal :: "'d env \<Rightarrow> bool" where
  "isColorTerminal e = (if e_colorterm e \<noteq> None then True
     else (case e_term e of None \<Rightarrow> False
       | Some env_term \<Rightarrow> list_ex (\<lambda>term. contains term env_term)
           [''ansi'', ''color'', ''console'', ''cygwin'', ''gnome'', ''konsole'', ''kterm'', ''linux'', ''msys'',
            ''putty'', ''rxvt'', ''screen'', ''vt100'', ''xterm'', ''alacritty'', ''vt102'']))"

section \<open>FileHelper\<close>

text \<open>A stream on a file holds its path and what is still buffered. \<open>Closed\<close> is a dangling pointer.\<close>

datatype stream = NullStream | OpenStream string string | ClosedStream

record file_helper =
  fh_fd :: stream
  fh_filename :: string
  fh_written :: nat

definition new_file_helper :: file_helper where
  "new_file_helper = \<lparr>fh_fd = NullStream, fh_filename = [], fh_written = 0\<rparr>"

fun fclose :: "'d env \<Rightarrow> stream \<Rightarrow> 'd \<Rightarrow> 'd option" where
  "fclose e (OpenStream path buf) d = Some (fs_append (e_fs e) path buf d)"
| "fclose e _ d = None"

definition fh_close :: "'d env \<Rightarrow> file_helper \<Rightarrow> 'd os_state \<Rightarrow> (file_helper \<times> 'd os_state) option" where
  "fh_close e h os =
     (if fh_fd h = NullStream then Some (h\<lparr>fh_written := 0\<rparr>, os)
      else (case fclose e (fh_fd h) (os_disk os) of
          None \<Rightarrow> None
        | Some d \<Rightarrow> Some (h\<lparr>fh_fd := ClosedStream, fh_written := 0\<rparr>, os\<lparr>os_disk := d\<rparr>)))"

definition fh_open :: "'d env \<Rightarrow> string \<Rightarrow> file_helper \<Rightarrow> 'd os_state \<Rightarrow> (file_helper \<times> 'd os_state) option" where
  "fh_open e filename h os =
     (case fh_close e h os of
        None \<Rightarrow> None
      | Some (h1, os1) \<Rightarrow>
          (let h2 = h1\<lparr>fh_filename := filename\<rparr>;
               d = createDir e (dirName filename) (os_disk os1)
           in case fs_fopen (e_fs e) filename d of
                None \<Rightarrow> Some (h2\<lparr>fh_fd := NullStream\<rparr>,
                  complain (''Error in opening file: '' @ filename) (os1\<lparr>os_disk := d\<rparr>))
              | Some d1 \<Rightarrow> Some (h2\<lparr>fh_fd := OpenStream filename []\<rparr>, os1\<lparr>os_disk := d1\<rparr>)))"

definition fh_write :: "'d env \<Rightarrow> string \<Rightarrow> file_helper \<Rightarrow> 'd os_state \<Rightarrow> (file_helper \<times> 'd os_state) option" where
  "fh_write e buf h os =
     (case fh_fd h of
        OpenStream path pending \<Rightarrow>
          (let n = e_fwrite e buf; h1 = h\<lparr>fh_fd := OpenStream path (pending @ take n buf)\<rparr> in
           if n \<noteq> length buf then Some (h1, complain (''Failed writing to file: '' @ fh_filename h) os)
           else Some (h1\<lparr>fh_written := fh_written h + length buf\<rparr>, os))
      | _ \<Rightarrow> None)"

text \<open>
  \<open>fflush\<close> of a null pointer succeeds and flushes all streams: the buffers of the other sinks,
  which only makes them shorter; the sink itself has none.
\<close>

definition fh_flush :: "'d env \<Rightarrow> file_helper \<Rightarrow> 'd os_state \<Rightarrow> (file_helper \<times> 'd os_state) option" where
  "fh_flush e h os =
     (case fh_fd h of
        OpenStream path pending \<Rightarrow>
          (if e_fflush e path
           then Some (h\<lparr>fh_fd := OpenStream path []\<rparr>, os\<lparr>os_disk := fs_append (e_fs e) path pending (os_disk os)\<rparr>)
           else Some (h, complain (''Failed flush to file: '' @ fh_filename h) os))
      | NullStream \<Rightarrow> Some (h, os)
      | ClosedStream \<Rightarrow> None)"

section \<open>Sinks\<close>

record rotating_sink =
  rs_base_filename :: string
  rs_max_size :: nat
  rs_file_helper :: file_helper

definition getLogFilename :: "(int \<Rightarrow> tm) \<Rightarrow> int \<Rightarrow> string \<Rightarrow> string" where
  "getLogFilename localtime now base =
     (let t = localtime (to_secs now) in
      (if CHR ''.'' \<in> set base then before_last CHR ''.'' base else base) @
      ''.'' @ show_int (tm_year t + 1900) @ pad2 (tm_mon t + 1) @ pad2 (tm_mday t) @ ''-'' @
      pad2 (tm_hour t) @ pad2 (tm_min t) @ pad2 (tm_sec t) @ show_int (timeFraction 1000 now) @ ''.log'')"

definition open_next :: "'d env \<Rightarrow> rotating_sink \<Rightarrow> 'd os_state \<Rightarrow> (rotating_sink \<times> 'd os_state) option" where
  "open_next e s os =
     (let (now, os1) = clock_now e os in
      map_option (apfst (\<lambda>h. s\<lparr>rs_file_helper := h\<rparr>))
        (fh_open e (getLogFilename (e_localtime e) now (rs_base_filename s)) (rs_file_helper s) os1))"

definition mkRotatingSink :: "'d env \<Rightarrow> string \<Rightarrow> nat \<Rightarrow> 'd os_state \<Rightarrow> (rotating_sink \<times> 'd os_state) option" where
  "mkRotatingSink e base max_size os =
     open_next e \<lparr>rs_base_filename = base, rs_max_size = max_size, rs_file_helper = new_file_helper\<rparr> os"

definition rotateFile :: "'d env \<Rightarrow> rotating_sink \<Rightarrow> 'd os_state \<Rightarrow> (rotating_sink \<times> 'd os_state) option" where
  "rotateFile e s os =
     (case fh_flush e (rs_file_helper s) os of
        None \<Rightarrow> None
      | Some (h, os1) \<Rightarrow> open_next e (s\<lparr>rs_file_helper := h\<rparr>) os1)"

text \<open>\<open>RotatingFileSink::log\<close> once the text is formatted.\<close>

definition rotating_write :: "'d env \<Rightarrow> string \<Rightarrow> rotating_sink \<Rightarrow> 'd os_state \<Rightarrow> (rotating_sink \<times> 'd os_state) option" where
  "rotating_write e formatted s os =
     (case (if fh_written (rs_file_helper s) + length formatted > rs_max_size s then rotateFile e s os else Some (s, os)) of
        None \<Rightarrow> None
      | Some (s1, os1) \<Rightarrow> map_option (apfst (\<lambda>h. s1\<lparr>rs_file_helper := h\<rparr>)) (fh_write e formatted (rs_file_helper s1) os1))"


text \<open>\<open>BaseSink\<close> and the console sinks: level, formatter, and where the text goes.\<close>

datatype target = RotatingFileSink rotating_sink | StdoutSink nat | StdColorSink nat

record sink =
  sk_level :: log_level
  sk_formatter :: pattern_formatter
  sk_target :: target

definition new_sink :: "target \<Rightarrow> sink" where
  "new_sink t = \<lparr>sk_level = LTRACE, sk_formatter = default_formatter, sk_target = t\<rparr>"

definition shouldLog :: "log_level \<Rightarrow> sink \<Rightarrow> bool" where
  "shouldLog msg_level s \<longleftrightarrow> sk_level s \<le> msg_level"

definition sink_setLevel :: "log_level \<Rightarrow> sink \<Rightarrow> sink" where
  "sink_setLevel l s = s\<lparr>sk_level := l\<rparr>"

definition sink_setPattern :: "string \<Rightarrow> sink \<Rightarrow> sink" where
  "sink_setPattern pattern s = s\<lparr>sk_formatter := mkPatternFormatter pattern\<rparr>"

definition stream_write :: "nat \<Rightarrow> string \<Rightarrow> 'd os_state \<Rightarrow> 'd os_state" where
  "stream_write fd s os = os\<lparr>os_streams := (os_streams os)(fd := os_streams os fd @ s)\<rparr>"

text \<open>The bytes from \<open>start\<close> to \<open>stop\<close> of a buffer; outside it, or backwards, no result.\<close>

definition printRange :: "string \<Rightarrow> nat \<Rightarrow> nat \<Rightarrow> string option" where
  "printRange s start stop = (if start \<le> stop \<and> stop \<le> length s then Some (take (stop - start) (drop start s)) else None)"

definition color_code :: "log_level \<Rightarrow> string option" where
  "color_code l = map_option (\<lambda>n. char_of (27 :: nat) # ''['' @ n @ ''m'')
     (array_at [''37'', ''36'', ''32'', ''33'', ''31''] (level_value l))"

definition color_reset :: string where
  "color_reset = char_of (27 :: nat) # ''[m''"

definition color_text :: "'d env \<Rightarrow> log_msg \<Rightarrow> string \<Rightarrow> string option" where
  "color_text e m s =
     (if isColorTerminal e \<and> lm_cstart m < lm_cend m
      then oappend (printRange s 0 (lm_cstart m)) (oappend (color_code (lm_level m))
        (oappend (printRange s (lm_cstart m) (lm_cend m)) (oappend (Some color_reset)
        (printRange s (lm_cend m) (length s)))))
      else printRange s 0 (length s))"

definition target_write :: "'d env \<Rightarrow> log_msg \<Rightarrow> string \<Rightarrow> target \<Rightarrow> 'd os_state \<Rightarrow> (target \<times> 'd os_state) option" where
  "target_write e m s t os =
     (case t of
        RotatingFileSink r \<Rightarrow> map_option (apfst RotatingFileSink) (rotating_write e s r os)
      | StdoutSink fd \<Rightarrow> Some (t, stream_write fd s os)
      | StdColorSink fd \<Rightarrow> map_option (\<lambda>c. (t, stream_write fd c os)) (color_text e m s))"

text \<open>\<open>log\<close> of a sink: the formatter may set the message's colour range.\<close>

definition sink_log :: "'d env \<Rightarrow> log_msg \<Rightarrow> sink \<Rightarrow> 'd os_state \<Rightarrow> (log_msg \<times> sink \<times> 'd os_state) option" where
  "sink_log e m s os =
     (case pf_format (e_localtime e) m [] (sk_formatter s) of
        None \<Rightarrow> None
      | Some (f, m1, formatted) \<Rightarrow>
          map_option (\<lambda>(t, os1). (m1, s\<lparr>sk_formatter := f, sk_target := t\<rparr>, os1))
            (target_write e m1 formatted (sk_target s) os))"

text \<open>Console streams are flushed by every \<open>log\<close>.\<close>

definition sink_flush :: "'d env \<Rightarrow> sink \<Rightarrow> 'd os_state \<Rightarrow> (sink \<times> 'd os_state) option" where
  "sink_flush e s os =
     (case sk_target s of
        RotatingFileSink r \<Rightarrow> map_option (apfst (\<lambda>h. s\<lparr>sk_target := RotatingFileSink (r\<lparr>rs_file_helper := h\<rparr>)\<rparr>))
          (fh_flush e (rs_file_helper r) os)
      | _ \<Rightarrow> Some (s, os))"

section \<open>Loggers\<close>

text \<open>Sinks are shared pointers: a logger holds their numbers.\<close>

record 'd world =
  w_sinks :: "sink list"
  w_os :: "'d os_state"

record logger =
  lg_name :: string
  lg_sinks :: "nat list"
  lg_level :: log_level
  lg_flush_level :: log_level

definition new_logger :: "string \<Rightarrow> nat list \<Rightarrow> logger" where
  "new_logger name sinks = \<lparr>lg_name = name, lg_sinks = sinks, lg_level = LTRACE, lg_flush_level = LWARN\<rparr>"

definition lg_setLevel :: "log_level \<Rightarrow> logger \<Rightarrow> logger" where
  "lg_setLevel l lg = lg\<lparr>lg_level := l\<rparr>"

definition lg_setFlushLevel :: "log_level \<Rightarrow> logger \<Rightarrow> logger" where
  "lg_setFlushLevel l lg = lg\<lparr>lg_flush_level := l\<rparr>"

definition log_at :: "'d env \<Rightarrow> log_msg \<Rightarrow> nat \<Rightarrow> 'd world \<Rightarrow> (log_msg \<times> 'd world) option" where
  "log_at e m i w =
     (case array_at (w_sinks w) i of
        None \<Rightarrow> None
      | Some s \<Rightarrow> map_option (\<lambda>(m1, s1, os1). (m1, \<lparr>w_sinks = (w_sinks w)[i := s1], w_os = os1\<rparr>)) (sink_log e m s (w_os w)))"

definition flush_at :: "'d env \<Rightarrow> nat \<Rightarrow> 'd world \<Rightarrow> 'd world option" where
  "flush_at e i w =
     (case array_at (w_sinks w) i of
        None \<Rightarrow> None
      | Some s \<Rightarrow> map_option (\<lambda>(s1, os1). \<lparr>w_sinks = (w_sinks w)[i := s1], w_os = os1\<rparr>) (sink_flush e s (w_os w)))"

fun lg_setPattern :: "string \<Rightarrow> nat list \<Rightarrow> sink list \<Rightarrow> sink list" where
  "lg_setPattern pattern [] sinks = sinks"
| "lg_setPattern pattern (i # is) sinks = lg_setPattern pattern is (sinks[i := sink_setPattern pattern (sinks ! i)])"

fun lg_flush :: "'d env \<Rightarrow> nat list \<Rightarrow> 'd world \<Rightarrow> 'd world option" where
  "lg_flush e [] w = Some w"
| "lg_flush e (i # is) w = (case flush_at e i w of None \<Rightarrow> None | Some w1 \<Rightarrow> lg_flush e is w1)"

text \<open>One round of the loop of \<open>sinkMsg\<close>, and the loop; \<open>sinkMsgBackend\<close> has the same body.\<close>

definition sink_one :: "'d env \<Rightarrow> log_level \<Rightarrow> log_msg \<Rightarrow> nat \<Rightarrow> 'd world \<Rightarrow> (log_msg \<times> 'd world) option" where
  "sink_one e flush_level m i w =
     (case array_at (w_sinks w) i of
        None \<Rightarrow> None
      | Some s \<Rightarrow>
          (case (if shouldLog (lm_level m) s then log_at e m i w else Some (m, w)) of
             None \<Rightarrow> None
           | Some (m1, w1) \<Rightarrow>
               (if flush_level \<le> lm_level m1 then map_option (Pair m1) (flush_at e i w1) else Some (m1, w1))))"

fun sinkMsg :: "'d env \<Rightarrow> log_level \<Rightarrow> nat list \<Rightarrow> log_msg \<Rightarrow> 'd world \<Rightarrow> 'd world option" where
  "sinkMsg e flush_level [] m w = Some w"
| "sinkMsg e flush_level (i # is) m w =
     (case sink_one e flush_level m i w of None \<Rightarrow> None | Some (m1, w1) \<Rightarrow> sinkMsg e flush_level is m1 w1)"

text \<open>\<open>log_\<close>: the payload is what \<open>fmt\<close> made of the arguments.\<close>

definition make_msg :: "'d env \<Rightarrow> u64 \<Rightarrow> source_loc \<Rightarrow> log_level \<Rightarrow> string \<Rightarrow> logger \<Rightarrow> 'd world \<Rightarrow> log_msg \<times> 'd world" where
  "make_msg e tid loc level payload lg w =
     (let (now, os) = clock_now e (w_os w) in (new_log_msg now tid loc (lg_name lg) level payload, w\<lparr>w_os := os\<rparr>))"

definition logger_log :: "'d env \<Rightarrow> u64 \<Rightarrow> source_loc \<Rightarrow> log_level \<Rightarrow> string \<Rightarrow> logger \<Rightarrow> 'd world \<Rightarrow> 'd world option" where
  "logger_log e tid loc level payload lg w =
     (if level < lg_level lg then Some w
      else (let (m, w1) = make_msg e tid loc level payload lg w in sinkMsg e (lg_flush_level lg) (lg_sinks lg) m w1))"


text \<open>The calls by level, without and with a source location.\<close>

definition lg_trace :: "'d env \<Rightarrow> u64 \<Rightarrow> string \<Rightarrow> logger \<Rightarrow> 'd world \<Rightarrow> 'd world option" where
  "lg_trace e tid payload lg w = logger_log e tid no_loc LTRACE payload lg w"

definition lg_debug :: "'d env \<Rightarrow> u64 \<Rightarrow> string \<Rightarrow> logger \<Rightarrow> 'd world \<Rightarrow> 'd world option" where
  "lg_debug e tid payload lg w = logger_log e tid no_loc LDEBUG payload lg w"

definition lg_info :: "'d env \<Rightarrow> u64 \<Rightarrow> string \<Rightarrow> logger \<Rightarrow> 'd world \<Rightarrow> 'd world option" where
  "lg_info e tid payload lg w = logger_log e tid no_loc LINFO payload lg w"

definition lg_warn :: "'d env \<Rightarrow> u64 \<Rightarrow> string \<Rightarrow> logger \<Rightarrow> 'd world \<Rightarrow> 'd world option" where
  "lg_warn e tid payload lg w = logger_log e tid no_loc LWARN payload lg w"

definition lg_error :: "'d env \<Rightarrow> u64 \<Rightarrow> string \<Rightarrow> logger \<Rightarrow> 'd world \<Rightarrow> 'd world option" where
  "lg_error e tid payload lg w = logger_log e tid no_loc LERROR payload lg w"

definition ELOG_LOG ::
  "'d env \<Rightarrow> u64 \<Rightarrow> string \<Rightarrow> int \<Rightarrow> string \<Rightarrow> logger \<Rightarrow> log_level \<Rightarrow> string \<Rightarrow> 'd world \<Rightarrow> 'd world option" where
  "ELOG_LOG e tid file line function lg level payload w =
     logger_log e tid \<lparr>sl_file = Some file, sl_line = line, sl_func = Some function\<rparr> level payload lg w"

section \<open>The default logger\<close>

text \<open>\<open>sync_factory::create\<close> makes a sink and a logger on it. Standard output is stream 1.\<close>

definition sync_create :: "string \<Rightarrow> target \<Rightarrow> sink list \<Rightarrow> logger \<times> sink list" where
  "sync_create logger_name t sinks = (new_logger logger_name [length sinks], sinks @ [new_sink t])"

record logger_factory =
  lf_default :: logger
  lf_sinks :: "sink list"

definition LoggerFactory :: "sink list \<Rightarrow> logger_factory" where
  "LoggerFactory sinks = (let (lg, sinks1) = sync_create [] (StdColorSink 1) sinks in \<lparr>lf_default = lg, lf_sinks = sinks1\<rparr>)"

definition setDefaultLogger :: "logger \<Rightarrow> logger_factory \<Rightarrow> logger_factory" where
  "setDefaultLogger lg f = f\<lparr>lf_default := lg\<rparr>"

definition setLogLevel :: "log_level \<Rightarrow> logger_factory \<Rightarrow> logger_factory" where
  "setLogLevel level f = f\<lparr>lf_default := lg_setLevel level (lf_default f)\<rparr>"

definition setPattern :: "string \<Rightarrow> logger_factory \<Rightarrow> logger_factory" where
  "setPattern pattern f = f\<lparr>lf_sinks := lg_setPattern pattern (lg_sinks (lf_default f)) (lf_sinks f)\<rparr>"

end
