(* ===== verification/ElogThms.thy ===== *)
theory ElogThms
  imports ElogSink
begin

text \<open>
  What the sinks and loggers of \<open>ElogSink\<close> guarantee: directories are made before a file is
  opened in them, a rotating sink loses no line and keeps its files within bounds, a logger
  writes one line to each of its sinks.
\<close>

section \<open>The file system\<close>

text \<open>
  What the code relies on, for the paths the process may create: \<open>mkdir\<close> makes a directory
  whose parent is there and removes nothing, \<open>fopen\<close> in append mode opens a file whose
  directory is there and changes no content, what is flushed is appended to its file.
\<close>

definition parent_there :: "'d fs \<Rightarrow> 'd \<Rightarrow> string \<Rightarrow> bool" where
  "parent_there fs d p \<longleftrightarrow> dirName p = [] \<or> fs_stat fs d (dirName p)"

definition fs_laws :: "(string \<Rightarrow> bool) \<Rightarrow> 'd fs \<Rightarrow> bool" where
  "fs_laws creatable fs \<longleftrightarrow>
     (\<forall>d p q. fs_stat fs d p \<longrightarrow> fs_stat fs (fs_mkdir fs q d) p) \<and>
     (\<forall>d p. creatable p \<and> p \<noteq> [] \<and> parent_there fs d p \<longrightarrow> fs_stat fs (fs_mkdir fs p d) p) \<and>
     (\<forall>d p q. fs_content fs (fs_mkdir fs p d) q = fs_content fs d q) \<and>
     (\<forall>d p. creatable p \<and> parent_there fs d p \<longrightarrow>
        (\<exists>d'. fs_fopen fs p d = Some d' \<and> (\<forall>q. fs_content fs d' q = fs_content fs d q))) \<and>
     (\<forall>d p s q. fs_content fs (fs_append fs p s d) q = fs_content fs d q @ (if q = p then s else []))"

lemma fs_lawsD:
  assumes "fs_laws creatable fs"
  shows fs_mkdir_stat: "fs_stat fs d p \<Longrightarrow> fs_stat fs (fs_mkdir fs q d) p"
    and fs_mkdir_makes: "creatable p \<Longrightarrow> p \<noteq> [] \<Longrightarrow> parent_there fs d p \<Longrightarrow> fs_stat fs (fs_mkdir fs p d) p"
    and fs_mkdir_content: "fs_content fs (fs_mkdir fs p d) q = fs_content fs d q"
    and fs_fopen_opens: "creatable p \<Longrightarrow> parent_there fs d p \<Longrightarrow>
          \<exists>d'. fs_fopen fs p d = Some d' \<and> (\<forall>q. fs_content fs d' q = fs_content fs d q)"
    and fs_append_content: "fs_content fs (fs_append fs p s d) q = fs_content fs d q @ (if q = p then s else [])"
  using assms unfolding fs_laws_def by blast+

section \<open>Making a directory\<close>

lemma before_last_simps:
  assumes "c \<notin> set t"
  shows "before_last c (s @ c # t) = s" and "before_last c t = []"
proof -
  from assms have t: "\<forall>x \<in> set (rev t). x \<noteq> c" by auto
  then have "dropWhile (\<lambda>x. x \<noteq> c) (rev t @ c # rev s) = c # rev s"
    by (subst dropWhile_append2) auto
  then show "before_last c (s @ c # t) = s" by (simp add: before_last_def)
  from t have "dropWhile (\<lambda>x. x \<noteq> c) (rev t) = []" by (simp add: dropWhile_eq_Nil_conv)
  then show "before_last c t = []" unfolding before_last_def by (simp only: drop_Nil rev.simps)
qed

text \<open>A token: the text from an offset to the next separator or the end has none in it.\<close>

lemma next_sep_facts:
  assumes "from \<le> length path"
  shows "next_sep path from \<le> length path"
    and "take (next_sep path from) path = take from path @ takeWhile (\<lambda>c. c \<noteq> CHR ''/'') (drop from path)"
    and "next_sep path from < length path \<Longrightarrow> path ! next_sep path from = CHR ''/''"
proof -
  define w where "w = takeWhile (\<lambda>c. c \<noteq> CHR ''/'') (drop from path)"
  have n: "next_sep path from = from + length w" by (simp add: next_sep_def w_def)
  have "length w \<le> length (drop from path)" unfolding w_def by (rule length_takeWhile_le)
  with assms show le: "next_sep path from \<le> length path" by (simp add: n)
  have "w = take (length w) (drop from path)" unfolding w_def by (rule takeWhile_eq_take)
  then show "take (next_sep path from) path = take from path @ takeWhile (\<lambda>c. c \<noteq> CHR ''/'') (drop from path)"
    by (simp add: n take_add flip: w_def)
  assume "next_sep path from < length path"
  then have "length w < length (drop from path)" using assms by (simp add: n)
  from nth_length_takeWhile [OF this [unfolded w_def]] show "path ! next_sep path from = CHR ''/''"
    using assms by (simp add: n flip: w_def)
qed

text \<open>Before an offset other than 0 is a separator, and the directory before that is there.\<close>

definition made_until :: "'d env \<Rightarrow> string \<Rightarrow> nat \<Rightarrow> 'd \<Rightarrow> bool" where
  "made_until e path n d \<longleftrightarrow> n = 0 \<or>
     (0 < n \<and> n \<le> Suc (length path) \<and> (n \<le> length path \<longrightarrow> path ! (n - 1) = CHR ''/'') \<and>
      (take (n - 1) path = [] \<or> existsPath e (take (n - 1) path) d))"

lemma dirName_token:
  assumes "made_until e path n d" and "n \<le> length path"
  shows "dirName (take (next_sep path n) path) = (if n = 0 then [] else take (n - 1) path)"
proof -
  let ?w = "takeWhile (\<lambda>c. c \<noteq> CHR ''/'') (drop n path)"
  have w: "CHR ''/'' \<notin> set ?w" by (auto dest: set_takeWhileD)
  have token: "take (next_sep path n) path = take n path @ ?w" using next_sep_facts(2) [OF assms(2)] .
  show ?thesis
  proof (cases n)
    case 0
    with w token show ?thesis by (simp add: dirName_def before_last_simps(2))
  next
    case (Suc k)
    with assms have "take n path = take k path @ [CHR ''/'']"
      by (simp add: made_until_def take_Suc_conv_app_nth)
    with w Suc token show ?thesis by (simp add: dirName_def before_last_simps)
  qed
qed

lemma create_loop_makes:
  assumes "fs_laws creatable (e_fs e)" and "\<forall>k. creatable (take k path)" and "made_until e path n d"
    and "path \<noteq> []" and "last path \<noteq> CHR ''/''"
  shows "existsPath e path (create_loop e path n d)"
  using assms(3)
proof (induction "Suc (length path) - n" arbitrary: n d rule: less_induct)
  case less
  show ?case
  proof (cases "n < length path")
    case True
    let ?tok = "next_sep path n" and ?sub = "take (next_sep path n) path"
    let ?d = "if ?sub = [] \<or> existsPath e ?sub d then d else fs_mkdir (e_fs e) ?sub d"
    have tok: "n \<le> ?tok" "?tok \<le> length path" using True next_sep_ge next_sep_facts(1) by simp_all
    have "parent_there (e_fs e) d ?sub"
      using less.prems True unfolding parent_there_def dirName_token [OF less.prems less_imp_le [OF True]]
      by (auto simp: made_until_def existsPath_def)
    then have "?sub = [] \<or> existsPath e ?sub ?d"
      using fs_mkdir_makes [OF assms(1), of ?sub d] assms(2) by (auto simp: existsPath_def)
    then have "made_until e path (?tok + 1) ?d"
      using tok next_sep_facts(3) [of n path] True by (simp add: made_until_def)
    from less.hyps [OF _ this] tok True have "existsPath e path (create_loop e path (?tok + 1) ?d)" by simp
    moreover have "create_loop e path n d = create_loop e path (?tok + 1) ?d"
      using True by (subst create_loop.simps) (simp add: Let_def)
    ultimately show ?thesis by simp
  next
    case False
    moreover have "n \<noteq> length path"
      using less.prems assms(4,5) by (auto simp: made_until_def last_conv_nth)
    ultimately show ?thesis
      using less.prems assms(4) by (subst create_loop.simps) (auto simp: made_until_def)
  qed
qed

lemma create_loop_content:
  "fs_laws creatable (e_fs e) \<Longrightarrow> fs_content (e_fs e) (create_loop e path n d) q = fs_content (e_fs e) d q"
proof (induction e path n d rule: create_loop.induct)
  case (1 e path n d)
  then show ?case by (subst create_loop.simps) (simp add: Let_def fs_mkdir_content)
qed

lemma createDir_makes_it:
  assumes "fs_laws creatable (e_fs e)" and "\<forall>k. creatable (take k path)" and "path \<noteq> []" and "last path \<noteq> CHR ''/''"
  shows "existsPath e path (createDir e path d)"
  using create_loop_makes [OF assms(1,2) _ assms(3,4), of 0 d] assms(3) by (simp add: createDir_def made_until_def)

lemma createDir_content:
  "fs_laws creatable (e_fs e) \<Longrightarrow> fs_content (e_fs e) (createDir e path d) q = fs_content (e_fs e) d q"
  by (simp add: createDir_def create_loop_content)


section \<open>The text of a file\<close>

text \<open>What a path holds: its content on disk and what its open stream still buffers.\<close>

definition pending :: "file_helper \<Rightarrow> string \<Rightarrow> string" where
  "pending h q = (case fh_fd h of OpenStream p buf \<Rightarrow> (if p = q then buf else []) | _ \<Rightarrow> [])"

definition stored :: "'d env \<Rightarrow> file_helper \<Rightarrow> 'd os_state \<Rightarrow> string \<Rightarrow> string" where
  "stored e h os q = fs_content (e_fs e) (os_disk os) q @ pending h q"

text \<open>A path the process can create, with the directories before it.\<close>

definition good_path :: "(string \<Rightarrow> bool) \<Rightarrow> string \<Rightarrow> bool" where
  "good_path creatable p \<longleftrightarrow> creatable p \<and> (\<forall>k. creatable (take k (dirName p))) \<and>
     (dirName p \<noteq> [] \<longrightarrow> last (dirName p) \<noteq> CHR ''/'')"

lemma fh_flush_stored:
  assumes "fs_laws creatable (e_fs e)" and "fh_fd h \<noteq> ClosedStream"
  obtains h' os' where "fh_flush e h os = Some (h', os')" "stored e h' os' = stored e h os"
    "os_reads os' = os_reads os" "fh_fd h' \<noteq> ClosedStream"
proof (cases "fh_flush e h os")
  case None
  with assms(2) show ?thesis by (auto simp: fh_flush_def split: stream.splits if_splits)
next
  case (Some r)
  with assms show ?thesis
    by (cases r; intro that [of "fst r" "snd r"])
       (auto simp: fh_flush_def stored_def pending_def complain_def fun_eq_iff fs_append_content split: stream.splits if_splits)
qed

lemma fh_open_stored:
  assumes laws: "fs_laws creatable (e_fs e)" and "good_path creatable p" and "fh_fd h \<noteq> ClosedStream"
  obtains h' os' where "fh_open e p h os = Some (h', os')" "stored e h' os' = stored e h os"
    "os_reads os' = os_reads os" "fh_fd h' = OpenStream p []" "fh_written h' = 0"
proof -
  obtain h1 os1 where close: "fh_close e h os = Some (h1, os1)" and reads: "os_reads os1 = os_reads os"
    and text1: "\<And>q. fs_content (e_fs e) (os_disk os1) q = stored e h os q" and "fh_written h1 = 0"
  proof (cases "fh_fd h")
    case NullStream
    then show ?thesis by (intro that [of "h\<lparr>fh_written := 0\<rparr>" os]) (simp_all add: fh_close_def stored_def pending_def)
  next
    case (OpenStream q buf)
    then show ?thesis
      by (intro that [of "h\<lparr>fh_fd := ClosedStream, fh_written := 0\<rparr>" "os\<lparr>os_disk := fs_append (e_fs e) q buf (os_disk os)\<rparr>"])
         (simp_all add: fh_close_def stored_def pending_def fs_append_content [OF laws])
  qed (use assms(3) in simp)
  let ?d = "createDir e (dirName p) (os_disk os1)"
  have "parent_there (e_fs e) ?d p"
    using assms(2) createDir_makes_it [OF laws, of "dirName p"]
    by (auto simp: parent_there_def good_path_def existsPath_def)
  with fs_fopen_opens [OF laws, of p ?d] assms(2) obtain d where
    d: "fs_fopen (e_fs e) p ?d = Some d" "\<And>q. fs_content (e_fs e) d q = fs_content (e_fs e) ?d q"
    by (auto simp: good_path_def)
  show ?thesis
    by (rule that [of "h1\<lparr>fh_filename := p, fh_fd := OpenStream p []\<rparr>" "os1\<lparr>os_disk := d\<rparr>"])
       (simp_all add: fh_open_def close Let_def d \<open>fh_written h1 = 0\<close> reads stored_def pending_def fun_eq_iff
          createDir_content [OF laws] text1 [unfolded stored_def pending_def])
qed

text \<open>The name a rotating sink gives to the file it opens at the \<open>k\<close>-th reading of the clock.\<close>

definition nth_name :: "'d env \<Rightarrow> string \<Rightarrow> nat \<Rightarrow> string" where
  "nth_name e base k = getLogFilename (e_localtime e) (e_clock e k) base"

lemma open_next_stored:
  assumes "fs_laws creatable (e_fs e)" and "good_path creatable (nth_name e (rs_base_filename r) (os_reads os))"
    and "fh_fd (rs_file_helper r) \<noteq> ClosedStream"
  obtains h os' where "open_next e r os = Some (r\<lparr>rs_file_helper := h\<rparr>, os')"
    "stored e h os' = stored e (rs_file_helper r) os" "os_reads os' = Suc (os_reads os)"
    "fh_fd h = OpenStream (nth_name e (rs_base_filename r) (os_reads os)) []" "fh_written h = 0"
proof -
  let ?os = "os\<lparr>os_reads := Suc (os_reads os)\<rparr>" and ?p = "nth_name e (rs_base_filename r) (os_reads os)"
  from fh_open_stored [OF assms, of ?os] obtain h os' where "fh_open e ?p (rs_file_helper r) ?os = Some (h, os')"
    "stored e h os' = stored e (rs_file_helper r) ?os" "os_reads os' = os_reads ?os" "fh_fd h = OpenStream ?p []" "fh_written h = 0" .
  then show ?thesis
    by (intro that [of h os']) (simp_all add: open_next_def clock_now_def nth_name_def stored_def fun_eq_iff)
qed

lemma rotateFile_stored:
  assumes "fs_laws creatable (e_fs e)" and "good_path creatable (nth_name e (rs_base_filename r) (os_reads os))"
    and "fh_fd (rs_file_helper r) \<noteq> ClosedStream"
  obtains h os' where "rotateFile e r os = Some (r\<lparr>rs_file_helper := h\<rparr>, os')"
    "stored e h os' = stored e (rs_file_helper r) os" "os_reads os' = Suc (os_reads os)"
    "fh_fd h = OpenStream (nth_name e (rs_base_filename r) (os_reads os)) []" "fh_written h = 0"
proof -
  from fh_flush_stored [OF assms(1,3), of os] obtain h1 os1 where
    1: "fh_flush e (rs_file_helper r) os = Some (h1, os1)" "stored e h1 os1 = stored e (rs_file_helper r) os"
      "os_reads os1 = os_reads os" "fh_fd h1 \<noteq> ClosedStream" .
  with open_next_stored [OF assms(1), of "r\<lparr>rs_file_helper := h1\<rparr>" os1] assms(2) obtain h os' where
    "open_next e (r\<lparr>rs_file_helper := h1\<rparr>) os1 = Some (r\<lparr>rs_file_helper := h\<rparr>, os')"
    "stored e h os' = stored e h1 os1" "os_reads os' = Suc (os_reads os)"
    "fh_fd h = OpenStream (nth_name e (rs_base_filename r) (os_reads os)) []" "fh_written h = 0"
    by auto
  with 1 show ?thesis by (intro that [of h os']) (simp_all add: rotateFile_def)
qed

lemma fh_write_stored:
  assumes "\<forall>t. e_fwrite e t = length t" and "fh_fd h = OpenStream p buf"
  obtains h' where "fh_write e t h os = Some (h', os)" "fh_fd h' = OpenStream p (buf @ t)"
    "fh_written h' = fh_written h + length t" "\<forall>q. stored e h' os q = stored e h os q @ (if q = p then t else [])"
  using assms by (simp add: fh_write_def Let_def stored_def pending_def)


section \<open>Rotation\<close>

text \<open>
  The names of a sink from the \<open>a\<close>-th reading of the clock to before the \<open>b\<close>-th: paths the
  process can create, each a new one.
\<close>

definition fresh_names :: "(string \<Rightarrow> bool) \<Rightarrow> 'd env \<Rightarrow> string \<Rightarrow> nat \<Rightarrow> nat \<Rightarrow> 'd \<Rightarrow> bool" where
  "fresh_names creatable e base a b d \<longleftrightarrow> distinct (map (nth_name e base) [a..<b]) \<and>
     (\<forall>k \<in> {a..<b}. good_path creatable (nth_name e base k) \<and> fs_content (e_fs e) d (nth_name e base k) = [])"

definition files_of :: "'d env \<Rightarrow> string \<Rightarrow> nat \<Rightarrow> nat \<Rightarrow> file_helper \<Rightarrow> 'd os_state \<Rightarrow> string list" where
  "files_of e base a b h os = map (\<lambda>k. stored e h os (nth_name e base k)) [a..<b]"

text \<open>
  A sink whose files are those of the readings from \<open>a\<close> on, the last one open, and which
  may take readings up to \<open>b\<close>; \<open>n\<close> bounds how often it rotated, \<open>ls\<close> is what it was given.
\<close>

definition rotating_ok :: "'d env \<Rightarrow> nat \<Rightarrow> nat \<Rightarrow> nat \<Rightarrow> rotating_sink \<Rightarrow> 'd os_state \<Rightarrow> string list \<Rightarrow> bool" where
  "rotating_ok e a b n r os ls \<longleftrightarrow> (\<exists>k buf. os_reads os = Suc k \<and> a \<le> k \<and> k \<le> a + n \<and>
     fh_fd (rs_file_helper r) = OpenStream (nth_name e (rs_base_filename r) k) buf \<and>
     fh_written (rs_file_helper r) = length (stored e (rs_file_helper r) os (nth_name e (rs_base_filename r) k)) \<and>
     concat (files_of e (rs_base_filename r) a (Suc k) (rs_file_helper r) os) = concat ls \<and>
     (\<forall>f \<in> set (files_of e (rs_base_filename r) a (Suc k) (rs_file_helper r) os). length f \<le> rs_max_size r \<or> f \<in> set ls) \<and>
     (\<forall>j. k < j \<and> j < b \<longrightarrow> stored e (rs_file_helper r) os (nth_name e (rs_base_filename r) j) = []))"

lemma mkRotatingSink_ok:
  assumes laws: "fs_laws creatable (e_fs e)" and fresh: "fresh_names creatable e base (os_reads os) b (os_disk os)"
    and b: "os_reads os < b"
  obtains r os' where "mkRotatingSink e base m os = Some (r, os')" "rs_base_filename r = base" "rs_max_size r = m"
    "rotating_ok e (os_reads os) b 0 r os' []"
proof -
  let ?r = "\<lparr>rs_base_filename = base, rs_max_size = m, rs_file_helper = new_file_helper\<rparr>"
  from open_next_stored [OF laws, of ?r os] fresh b obtain h os' where
    "open_next e ?r os = Some (?r\<lparr>rs_file_helper := h\<rparr>, os')" "stored e h os' = stored e new_file_helper os"
    "os_reads os' = Suc (os_reads os)" "fh_fd h = OpenStream (nth_name e base (os_reads os)) []" "fh_written h = 0"
    by (auto simp: fresh_names_def new_file_helper_def)
  with fresh b show ?thesis
    by (intro that [of "?r\<lparr>rs_file_helper := h\<rparr>" os'])
       (auto simp: mkRotatingSink_def rotating_ok_def files_of_def fresh_names_def stored_def pending_def new_file_helper_def fun_eq_iff)
qed

text \<open>One more line to the open file.\<close>

lemma rotating_ok_append:
  assumes ok: "rotating_ok e a b n r os ls" and fresh: "distinct (map (nth_name e (rs_base_filename r)) [a..<b])"
    and b: "os_reads os \<le> b" and wr: "\<forall>t. e_fwrite e t = length t"
    and room: "fh_written (rs_file_helper r) + length l \<le> rs_max_size r \<or> fh_written (rs_file_helper r) = 0"
  obtains r' where "map_option (apfst (\<lambda>h. r\<lparr>rs_file_helper := h\<rparr>)) (fh_write e l (rs_file_helper r) os) = Some (r', os)"
    "rotating_ok e a b n r' os (ls @ [l])" "rs_base_filename r' = rs_base_filename r" "rs_max_size r' = rs_max_size r"
proof -
  let ?name = "nth_name e (rs_base_filename r)" and ?h = "rs_file_helper r"
  from ok obtain k buf where k: "os_reads os = Suc k" "a \<le> k" "k \<le> a + n" "fh_fd ?h = OpenStream (?name k) buf"
      "fh_written ?h = length (stored e ?h os (?name k))"
    and all: "concat (files_of e (rs_base_filename r) a (Suc k) ?h os) = concat ls"
    and bound: "\<forall>f \<in> set (files_of e (rs_base_filename r) a (Suc k) ?h os). length f \<le> rs_max_size r \<or> f \<in> set ls"
    and new: "\<forall>j. k < j \<and> j < b \<longrightarrow> stored e ?h os (?name j) = []"
    unfolding rotating_ok_def by blast
  obtain h' where h': "fh_write e l ?h os = Some (h', os)" "fh_fd h' = OpenStream (?name k) (buf @ l)"
      "fh_written h' = fh_written ?h + length l"
    and all_q: "\<forall>q. stored e h' os q = stored e ?h os q @ (if q = ?name k then l else [])"
    using fh_write_stored [OF wr k(4), of l os] by blast
  note text' = all_q [rule_format]
  have other: "?name j = ?name k \<longleftrightarrow> j = k" if "a \<le> j" "j < b" for j
    using fresh that k(1,2) b by (auto simp: distinct_map inj_on_def)
  have "map (\<lambda>j. stored e h' os (?name j)) [a..<k] = map (\<lambda>j. stored e ?h os (?name j)) [a..<k]"
    using other k(1) b by (auto simp: text')
  then have files: "files_of e (rs_base_filename r) a (Suc k) h' os =
      map (\<lambda>j. stored e ?h os (?name j)) [a..<k] @ [stored e ?h os (?name k) @ l]"
    using k(2) by (simp add: files_of_def text')
  have old: "files_of e (rs_base_filename r) a (Suc k) ?h os = map (\<lambda>j. stored e ?h os (?name j)) [a..<k] @ [stored e ?h os (?name k)]"
    using k(2) by (simp add: files_of_def)
  have "concat (files_of e (rs_base_filename r) a (Suc k) h' os) = concat (ls @ [l])"
    using all unfolding files old by simp
  moreover have "\<forall>f \<in> set (files_of e (rs_base_filename r) a (Suc k) h' os). length f \<le> rs_max_size r \<or> f \<in> set (ls @ [l])"
    using bound room k(5) unfolding files old by auto
  moreover have "\<forall>j. k < j \<and> j < b \<longrightarrow> stored e h' os (?name j) = []"
    using new other k(2) by (auto simp: text')
  ultimately show ?thesis
    using k h' by (intro that [of "r\<lparr>rs_file_helper := h'\<rparr>"]) (auto simp: rotating_ok_def text')
qed

lemma rotating_ok_rotate:
  assumes laws: "fs_laws creatable (e_fs e)" and ok: "rotating_ok e a b n r os ls"
    and good: "good_path creatable (nth_name e (rs_base_filename r) (os_reads os))" and b: "os_reads os < b"
  obtains h os' where "rotateFile e r os = Some (r\<lparr>rs_file_helper := h\<rparr>, os')" "fh_written h = 0"
    "os_reads os' = Suc (os_reads os)" "rotating_ok e a b (Suc n) (r\<lparr>rs_file_helper := h\<rparr>) os' ls"
proof -
  from ok have "fh_fd (rs_file_helper r) \<noteq> ClosedStream" by (auto simp: rotating_ok_def)
  from rotateFile_stored [OF laws good this] obtain h os' where
    h: "rotateFile e r os = Some (r\<lparr>rs_file_helper := h\<rparr>, os')" "stored e h os' = stored e (rs_file_helper r) os"
      "os_reads os' = Suc (os_reads os)" "fh_fd h = OpenStream (nth_name e (rs_base_filename r) (os_reads os)) []"
      "fh_written h = 0" .
  with ok b show ?thesis
    by (intro that [of h os']) (auto simp: rotating_ok_def files_of_def)
qed


lemma rotating_write_ok:
  assumes laws: "fs_laws creatable (e_fs e)" and ok: "rotating_ok e a b n r os ls"
    and fresh: "fresh_names creatable e (rs_base_filename r) a b d" and b: "a + Suc n < b"
    and wr: "\<forall>t. e_fwrite e t = length t"
  obtains r' os' where "rotating_write e l r os = Some (r', os')" "rotating_ok e a b (Suc n) r' os' (ls @ [l])"
    "rs_base_filename r' = rs_base_filename r" "rs_max_size r' = rs_max_size r"
proof -
  have dist: "distinct (map (nth_name e (rs_base_filename r)) [a..<b])" using fresh by (simp add: fresh_names_def)
  have reads: "os_reads os < b" "a \<le> os_reads os" using ok b by (auto simp: rotating_ok_def)
  show ?thesis
  proof (cases "fh_written (rs_file_helper r) + length l > rs_max_size r")
    case True
    have "good_path creatable (nth_name e (rs_base_filename r) (os_reads os))"
      using fresh reads by (simp add: fresh_names_def)
    from rotating_ok_rotate [OF laws ok this reads(1)] obtain h os1 where
      1: "rotateFile e r os = Some (r\<lparr>rs_file_helper := h\<rparr>, os1)" "fh_written h = 0"
        "os_reads os1 = Suc (os_reads os)" "rotating_ok e a b (Suc n) (r\<lparr>rs_file_helper := h\<rparr>) os1 ls" .
    from rotating_ok_append [OF 1(4) _ _ wr, of l] dist reads 1(2,3) obtain r' where
      "map_option (apfst (\<lambda>h'. r\<lparr>rs_file_helper := h'\<rparr>)) (fh_write e l h os1) = Some (r', os1)"
      "rotating_ok e a b (Suc n) r' os1 (ls @ [l])" "rs_base_filename r' = rs_base_filename r" "rs_max_size r' = rs_max_size r"
      by auto
    with True 1 show ?thesis by (intro that [of r' os1]) (simp_all add: rotating_write_def)
  next
    case False
    with rotating_ok_append [OF ok dist _ wr, of l] reads obtain r' where
      "map_option (apfst (\<lambda>h. r\<lparr>rs_file_helper := h\<rparr>)) (fh_write e l (rs_file_helper r) os) = Some (r', os)"
      "rotating_ok e a b n r' os (ls @ [l])" "rs_base_filename r' = rs_base_filename r" "rs_max_size r' = rs_max_size r"
      by auto
    with False show ?thesis
      by (intro that [of r' os]) (auto simp: rotating_write_def rotating_ok_def)
  qed
qed

section \<open>Sinks and messages\<close>

text \<open>A sink logging one message after another.\<close>

fun sink_log_all :: "'d env \<Rightarrow> log_msg list \<Rightarrow> sink \<Rightarrow> 'd os_state \<Rightarrow> (sink \<times> 'd os_state) option" where
  "sink_log_all e [] s os = Some (s, os)"
| "sink_log_all e (m # ms) s os =
     (case sink_log e m s os of None \<Rightarrow> None | Some (_, s1, os1) \<Rightarrow> sink_log_all e ms s1 os1)"

lemma sink_log_line:
  assumes "pf_means (e_localtime e) p (sk_formatter s)" and "log_line (e_localtime e) p m = Some l"
  obtains f m1 where "pf_means (e_localtime e) p f" "recoloured m m1" "range_ok m [] \<Longrightarrow> range_ok m1 l"
    "sink_log e m s os = map_option (\<lambda>(t, os1). (m1, s\<lparr>sk_formatter := f, sk_target := t\<rparr>, os1)) (target_write e m1 l (sk_target s) os)"
proof (cases "pf_format (e_localtime e) m [] (sk_formatter s)")
  case None
  with pf_format_means(1) [OF assms(1), of m "[]"] assms(2) show ?thesis by (simp add: formats_as_def)
next
  case (Some r)
  obtain f m1 d where r: "r = (f, m1, d)" by (cases r)
  from pf_format_means [OF assms(1), of m "[]"] assms(2) Some r show ?thesis
    by (intro that [of f m1]) (auto simp: formats_as_def sink_log_def)
qed

lemma rotating_sink_all:
  assumes laws: "fs_laws creatable (e_fs e)" and wr: "\<forall>t. e_fwrite e t = length t"
    and "sk_target s = RotatingFileSink r" and "pf_means (e_localtime e) p (sk_formatter s)"
    and "rotating_ok e a b n r os ls" and "fresh_names creatable e (rs_base_filename r) a b d"
    and "those (map (log_line (e_localtime e) p) ms) = Some ks" and "a + n + length ms < b"
  shows "\<exists>s' r' os'. sink_log_all e ms s os = Some (s', os') \<and> sk_target s' = RotatingFileSink r' \<and>
    rs_base_filename r' = rs_base_filename r \<and> rs_max_size r' = rs_max_size r \<and>
    rotating_ok e a b (n + length ms) r' os' (ls @ ks)"
  using assms(3-)
proof (induction ms arbitrary: s r os n ls ks)
  case (Cons m ms)
  obtain l ks' where l: "log_line (e_localtime e) p m = Some l" and ks': "those (map (log_line (e_localtime e) p) ms) = Some ks'"
    and ks: "ks = l # ks'" using Cons.prems(5) by (auto split: option.splits)
  obtain f m1 where f: "pf_means (e_localtime e) p f"
    and log: "sink_log e m s os = map_option (\<lambda>(t, os1). (m1, s\<lparr>sk_formatter := f, sk_target := t\<rparr>, os1)) (target_write e m1 l (sk_target s) os)"
    using sink_log_line [OF Cons.prems(2) l, of os] by blast
  obtain r1 os1 where r1: "rotating_write e l r os = Some (r1, os1)" "rotating_ok e a b (Suc n) r1 os1 (ls @ [l])"
    "rs_base_filename r1 = rs_base_filename r" "rs_max_size r1 = rs_max_size r"
    using rotating_write_ok [OF laws Cons.prems(3,4) _ wr, of l] Cons.prems(6) by auto
  let ?s = "s\<lparr>sk_formatter := f, sk_target := RotatingFileSink r1\<rparr>"
  have "sink_log_all e (m # ms) s os = sink_log_all e ms ?s os1"
    using log r1(1) Cons.prems(1) by (simp add: target_write_def)
  with Cons.IH [of ?s r1 "Suc n" os1 "ls @ [l]" ks'] f r1 ks' ks Cons.prems show ?case by simp
qed simp

text \<open>
  C19: a rotating file sink loses nothing and keeps its bound. Where the clock gives a new
  file name at every rotation and the files can be created and written, logging any
  sequence of messages succeeds; the files it opened hold, one after the other, exactly the
  lines of the messages in order (the end of the last may still be buffered), and none is
  longer than the maximum unless it is one single line.
\<close>

theorem rotating_sink_keeps_every_line:
  assumes "fs_laws creatable (e_fs e)" and "\<forall>t. e_fwrite e t = length t"
    and "fresh_names creatable e base (os_reads os) b (os_disk os)" and "os_reads os + length ms < b"
    and "those (map (log_line (e_localtime e) p) ms) = Some ls"
  shows "\<exists>r os0 s r' os'. mkRotatingSink e base m os = Some (r, os0) \<and>
     sink_log_all e ms (sink_setPattern p (new_sink (RotatingFileSink r))) os0 = Some (s, os') \<and>
     sk_target s = RotatingFileSink r' \<and>
     concat (files_of e base (os_reads os) (os_reads os') (rs_file_helper r') os') = concat ls \<and>
     (\<forall>f \<in> set (files_of e base (os_reads os) (os_reads os') (rs_file_helper r') os'). length f \<le> m \<or> f \<in> set ls)"
proof -
  from assms(4) have "os_reads os < b" by simp
  from mkRotatingSink_ok [OF assms(1,3) this] obtain r os0 where r: "mkRotatingSink e base m os = Some (r, os0)"
    "rs_base_filename r = base" "rs_max_size r = m" "rotating_ok e (os_reads os) b 0 r os0 []" .
  let ?s = "sink_setPattern p (new_sink (RotatingFileSink r))"
  have "sk_target ?s = RotatingFileSink r" and "pf_means (e_localtime e) p (sk_formatter ?s)"
    by (simp_all add: sink_setPattern_def new_sink_def)
  from rotating_sink_all [OF assms(1,2) this r(4), of "os_disk os" ms ls] assms(3-) r obtain s' r' os' where
    "sink_log_all e ms ?s os0 = Some (s', os')" "sk_target s' = RotatingFileSink r'"
    "rs_base_filename r' = base" "rs_max_size r' = m" "rotating_ok e (os_reads os) b (length ms) r' os' ls"
    by auto
  with r(1) show ?thesis by (intro exI [of _ r] exI [of _ os0] exI [of _ s'] exI [of _ r'] exI [of _ os'])
      (auto simp: rotating_ok_def)
qed


text \<open>Surroundings to apply the properties in: a disk that is a map, a clock that ticks seconds.\<close>

definition mem_fs :: "(string \<Rightarrow> string) fs" where
  "mem_fs = \<lparr>fs_stat = \<lambda>d p. True, fs_mkdir = \<lambda>p d. d, fs_fopen = \<lambda>p d. Some d,
     fs_append = \<lambda>p s d. d(p := d p @ s), fs_content = \<lambda>d. d\<rparr>"

lemma mem_fs_laws: "fs_laws creatable mem_fs"
  by (auto simp: fs_laws_def mem_fs_def)

definition sample_env :: "string option \<Rightarrow> (string \<Rightarrow> string) env" where
  "sample_env terminal = \<lparr>e_fs = mem_fs,
     e_localtime = \<lambda>t. \<lparr>tm_year = 125, tm_mon = 0, tm_mday = 1, tm_hour = 0, tm_min = 0, tm_sec = t mod 60\<rparr>,
     e_clock = \<lambda>k. 1000000000 * int k, e_fwrite = length, e_fflush = \<lambda>p. True,
     e_colorterm = None, e_term = terminal\<rparr>"

definition sample_os :: "(string \<Rightarrow> string) os_state" where
  "sample_os = \<lparr>os_disk = \<lambda>p. [], os_streams = \<lambda>n. [], os_reads = 0, os_cerr = []\<rparr>"

definition sample_msg :: "string \<Rightarrow> log_msg" where
  "sample_msg payload = new_log_msg 0 7 no_loc ''app'' LINFO payload"

lemma rotating_sink_keeps_every_line_witness:
  "\<exists>r os0 s r' os'. mkRotatingSink (sample_env None) ''log/app.txt'' 5 sample_os = Some (r, os0) \<and>
     sink_log_all (sample_env None) (map sample_msg [''ab'', ''cd'', ''efghij'']) (sink_setPattern ''%v'' (new_sink (RotatingFileSink r))) os0
       = Some (s, os') \<and> sk_target s = RotatingFileSink r' \<and>
     concat (files_of (sample_env None) ''log/app.txt'' (os_reads sample_os) (os_reads os') (rs_file_helper r') os')
       = concat [''ab'' @ nl, ''cd'' @ nl, ''efghij'' @ nl] \<and>
     (\<forall>f \<in> set (files_of (sample_env None) ''log/app.txt'' (os_reads sample_os) (os_reads os') (rs_file_helper r') os').
        length f \<le> 5 \<or> f \<in> set [''ab'' @ nl, ''cd'' @ nl, ''efghij'' @ nl])"
proof (rule rotating_sink_keeps_every_line [where creatable = "\<lambda>p. True" and b = 4])
  show "fs_laws (\<lambda>p. True) (e_fs (sample_env None))" by (simp add: sample_env_def mem_fs_laws)
  show "\<forall>t. e_fwrite (sample_env None) t = length t" by (simp add: sample_env_def)
  have "distinct (map (nth_name (sample_env None) ''log/app.txt'') [0..<4])" by code_simp
  moreover have "list_all (\<lambda>k. dirName (nth_name (sample_env None) ''log/app.txt'' k) = ''log'') [0..<4]" by code_simp
  ultimately show "fresh_names (\<lambda>p. True) (sample_env None) ''log/app.txt'' (os_reads sample_os) 4 (os_disk sample_os)"
    by (auto simp: fresh_names_def good_path_def list_all_iff sample_os_def sample_env_def mem_fs_def)
  show "os_reads sample_os + length (map sample_msg [''ab'', ''cd'', ''efghij'']) < 4" by (simp add: sample_os_def)
  show "those (map (log_line (e_localtime (sample_env None)) ''%v'') (map sample_msg [''ab'', ''cd'', ''efghij'']))
      = Some [''ab'' @ nl, ''cd'' @ nl, ''efghij'' @ nl]"
    by (simp add: log_line_def directive_def basic_directive_def sample_msg_def new_log_msg_def)
qed

text \<open>With a clock that stands still both files are one, and it grows past the maximum.\<close>

lemma rotation_within_a_millisecond:
  "map_option (\<lambda>(s, os'). os_disk os' ''app.20250101-0000000.log'')
     (case mkRotatingSink ((sample_env None)\<lparr>e_clock := \<lambda>k. 0\<rparr>) ''app'' 5 sample_os of None \<Rightarrow> None
      | Some (r, os0) \<Rightarrow> sink_log_all ((sample_env None)\<lparr>e_clock := \<lambda>k. 0\<rparr>) (map sample_msg [''ab'', ''cd'', ''ef''])
          (sink_setPattern ''%v'' (new_sink (RotatingFileSink r))) os0) = Some (''ab'' @ nl @ ''cd'' @ nl)"
  by code_simp


section \<open>Consoles\<close>

lemma printRange_whole [simp]: "printRange s 0 (length s) = Some s"
  by (simp add: printRange_def)

text \<open>A text with its level name in colour.\<close>

definition colored :: "log_level \<Rightarrow> string \<Rightarrow> string \<Rightarrow> bool" where
  "colored l plain out \<longleftrightarrow> (\<exists>a name b code. plain = a @ name @ b \<and> out = a @ code @ name @ color_reset @ b \<and>
     Some name \<in> {getLevelName l, simple_level_name l} \<and> color_code l = Some code)"

lemma color_code_some: "l \<noteq> LNUM_LEVELS \<Longrightarrow> \<exists>c. color_code l = Some c"
  by (cases l) (simp_all add: color_code_def array_at_def)

lemma color_text_ok:
  assumes "range_ok m l" and "lm_level m \<noteq> LNUM_LEVELS"
  obtains out where "color_text e m l = Some out" "out = l \<or> isColorTerminal e \<and> colored (lm_level m) l out"
proof (cases "isColorTerminal e \<and> lm_cstart m < lm_cend m")
  case True
  let ?c = "lm_cstart m" and ?d = "lm_cend m"
  from color_code_some [OF assms(2)] obtain c where c: "color_code (lm_level m) = Some c" by blast
  define a name b where parts: "a = take ?c l" "name = take (?d - ?c) (drop ?c l)" "b = drop ?d l"
  have "l = a @ name @ b"
    using True by (simp add: parts flip: take_add append_assoc) 
  moreover have "color_text e m l = Some (a @ c @ name @ color_reset @ b)"
    using True assms(1) by (simp add: color_text_def c printRange_def range_ok_def parts)
  moreover have "Some name \<in> {getLevelName (lm_level m), simple_level_name (lm_level m)}"
    using True assms(1) by (auto simp: range_ok_def parts)
  ultimately show ?thesis using True c by (intro that) (auto simp: colored_def)
next
  case False
  then show ?thesis by (intro that [of l]) (auto simp: color_text_def)
qed

text \<open>
  A colour sink prints the line of a message, whole, and at most sets one level name of
  it in the colour of the level. This is for a message whose colour range is still empty;
  the range then lies in the text, so nothing outside the buffer is read.
\<close>

theorem color_sink_prints_line:
  assumes "pf_means (e_localtime e) p (sk_formatter s)" and "sk_target s = StdColorSink fd"
    and "log_line (e_localtime e) p m = Some l" and "lm_cstart m = 0" and "lm_cend m = 0" and "lm_level m \<noteq> LNUM_LEVELS"
  shows "\<exists>m1 f out. sink_log e m s os = Some (m1, s\<lparr>sk_formatter := f\<rparr>, stream_write fd out os) \<and>
     pf_means (e_localtime e) p f \<and> (out = l \<or> isColorTerminal e \<and> colored (lm_level m) l out)"
proof -
  obtain f m1 where f: "pf_means (e_localtime e) p f" and m1: "recoloured m m1" "range_ok m [] \<Longrightarrow> range_ok m1 l"
    and log: "sink_log e m s os = map_option (\<lambda>(t, os1). (m1, s\<lparr>sk_formatter := f, sk_target := t\<rparr>, os1)) (target_write e m1 l (sk_target s) os)"
    using sink_log_line [OF assms(1,3), of os] by blast
  have "range_ok m1 l" using assms(4,5) by (intro m1(2)) (simp add: range_ok_def)
  then obtain out where "color_text e m1 l = Some out" "out = l \<or> isColorTerminal e \<and> colored (lm_level m1) l out"
    using color_text_ok [of m1 l e] assms(6) recoloured_fields [OF m1(1)] by auto
  with f log assms(2) recoloured_fields [OF m1(1)] show ?thesis
    by (intro exI [of _ m1] exI [of _ f] exI [of _ out]) (simp add: target_write_def)
qed

text \<open>On a terminal without colours both console sinks print the plain line, whatever the range.\<close>

definition console_stream :: "sink \<Rightarrow> nat option" where
  "console_stream s = (case sk_target s of StdoutSink fd \<Rightarrow> Some fd | StdColorSink fd \<Rightarrow> Some fd | _ \<Rightarrow> None)"

lemma plain_console_line:
  assumes "pf_means (e_localtime e) p (sk_formatter s)" and "console_stream s = Some fd" and "\<not> isColorTerminal e"
    and "log_line (e_localtime e) p m = Some l"
  obtains m1 f where "sink_log e m s os = Some (m1, s\<lparr>sk_formatter := f\<rparr>, stream_write fd l os)"
    "pf_means (e_localtime e) p f" "recoloured m m1"
proof -
  obtain f m1 where "pf_means (e_localtime e) p f" "recoloured m m1"
    "sink_log e m s os = map_option (\<lambda>(t, os1). (m1, s\<lparr>sk_formatter := f, sk_target := t\<rparr>, os1)) (target_write e m1 l (sk_target s) os)"
    using sink_log_line [OF assms(1,4), of os] by blast
  with assms(2,3) show ?thesis
    by (intro that [of m1 f])
       (auto simp: target_write_def console_stream_def color_text_def split: target.splits)
qed

section \<open>Loggers\<close>

text \<open>All sinks of a logger are console sinks with patterns \<open>pat\<close>.\<close>

definition consoles_ok :: "'d env \<Rightarrow> (nat \<Rightarrow> string) \<Rightarrow> nat list \<Rightarrow> 'd world \<Rightarrow> bool" where
  "consoles_ok e pat is w \<longleftrightarrow> (\<forall>i \<in> set is. i < length (w_sinks w) \<and> console_stream (w_sinks w ! i) \<noteq> None \<and>
     pf_means (e_localtime e) (pat i) (sk_formatter (w_sinks w ! i)))"

text \<open>What the sinks \<open>is\<close> write to stream \<open>fd\<close> for a message.\<close>

definition lines_for :: "'d env \<Rightarrow> (nat \<Rightarrow> string) \<Rightarrow> 'd world \<Rightarrow> log_msg \<Rightarrow> nat \<Rightarrow> nat list \<Rightarrow> string" where
  "lines_for e pat w m fd is = concat (map (\<lambda>i. the (log_line (e_localtime e) (pat i) m))
     (filter (\<lambda>i. shouldLog (lm_level m) (w_sinks w ! i) \<and> console_stream (w_sinks w ! i) = Some fd) is))"

lemma log_line_recoloured: "recoloured m m' \<Longrightarrow> log_line lt p m' = log_line lt p m"
proof -
  assume r: "recoloured m m'"
  then have "directive t m' = directive t m" for t
    by (simp add: fun_eq_iff directive_def basic_directive_recoloured recoloured_fields)
  with r show ?thesis by (simp add: log_line_def recoloured_fields)
qed

text \<open>Only the caches of the formatters of the sinks differ.\<close>

definition same_sinks :: "'d world \<Rightarrow> 'd world \<Rightarrow> bool" where
  "same_sinks w w' \<longleftrightarrow> map (\<lambda>s. (sk_level s, sk_target s)) (w_sinks w') = map (\<lambda>s. (sk_level s, sk_target s)) (w_sinks w)"

lemma same_sinks_nth:
  assumes "same_sinks w w'"
  shows "length (w_sinks w') = length (w_sinks w)"
    and "i < length (w_sinks w) \<Longrightarrow> sk_level (w_sinks w' ! i) = sk_level (w_sinks w ! i) \<and> sk_target (w_sinks w' ! i) = sk_target (w_sinks w ! i)"
proof -
  from assms show len: "length (w_sinks w') = length (w_sinks w)"
    unfolding same_sinks_def by (metis length_map)
  assume "i < length (w_sinks w)"
  with len arg_cong [OF assms [unfolded same_sinks_def], of "\<lambda>xs. xs ! i"]
  show "sk_level (w_sinks w' ! i) = sk_level (w_sinks w ! i) \<and> sk_target (w_sinks w' ! i) = sk_target (w_sinks w ! i)"
    by simp
qed

lemma lines_for_same:
  assumes "same_sinks w w1" and "\<forall>i \<in> set is. i < length (w_sinks w)"
  shows "lines_for e pat w1 m fd is = lines_for e pat w m fd is"
  using assms same_sinks_nth [OF assms(1)]
  by (auto simp: lines_for_def shouldLog_def console_stream_def intro!: arg_cong [of _ _ concat] map_cong filter_cong)

lemma lines_for_recoloured: "recoloured m m1 \<Longrightarrow> lines_for e pat w m1 fd is = lines_for e pat w m fd is"
  by (simp add: lines_for_def log_line_recoloured recoloured_fields)

lemma sink_one_console:
  assumes ok: "consoles_ok e pat js w" and i: "i \<in> set js" and noc: "\<not> isColorTerminal e"
    and line: "log_line (e_localtime e) (pat i) m \<noteq> None"
  obtains m1 w1 where "sink_one e fl m i w = Some (m1, w1)" "recoloured m m1" "same_sinks w w1" "consoles_ok e pat js w1"
    "\<forall>fd. os_streams (w_os w1) fd = os_streams (w_os w) fd @ lines_for e pat w m fd [i]"
proof -
  let ?s = "w_sinks w ! i"
  from ok i obtain fd where s: "i < length (w_sinks w)" "console_stream ?s = Some fd" "pf_means (e_localtime e) (pat i) (sk_formatter ?s)"
    by (auto simp: consoles_ok_def)
  have flush: "flush_at e i w' = Some w'" if "same_sinks w w'" for w'
    using s same_sinks_nth [OF that] 
    by (auto simp: flush_at_def array_at_def sink_flush_def console_stream_def split: target.splits)
  from line obtain l where l: "log_line (e_localtime e) (pat i) m = Some l" by blast
  show ?thesis
  proof (cases "shouldLog (lm_level m) ?s")
    case True
    obtain m1 f where f: "sink_log e m ?s (w_os w) = Some (m1, ?s\<lparr>sk_formatter := f\<rparr>, stream_write fd l (w_os w))"
      "pf_means (e_localtime e) (pat i) f" "recoloured m m1"
      by (rule plain_console_line [OF s(3,2) noc l, of "w_os w"])
    let ?w = "\<lparr>w_sinks = (w_sinks w)[i := ?s\<lparr>sk_formatter := f\<rparr>], w_os = stream_write fd l (w_os w)\<rparr>"
    have same: "same_sinks w ?w"
      using s(1) by (auto simp: same_sinks_def list_eq_iff_nth_eq nth_list_update)
    moreover have "consoles_ok e pat js ?w"
      using ok f(2) s(1) by (auto simp: consoles_ok_def nth_list_update console_stream_def)
    moreover have "sink_one e fl m i w = Some (m1, ?w)"
      using s(1) True f(1) flush [OF same] by (simp add: sink_one_def log_at_def array_at_def)
    ultimately show ?thesis
      using f(3) s(2) True l by (intro that [of m1 ?w]) (auto simp: lines_for_def stream_write_def)
  next
    case False
    have "same_sinks w w" by (simp add: same_sinks_def)
    with False s flush ok show ?thesis
      by (intro that [of m w]) (simp_all add: sink_one_def array_at_def lines_for_def)
  qed
qed

lemma sinkMsg_consoles:
  assumes "consoles_ok e pat js w" and "set is \<subseteq> set js" and "\<not> isColorTerminal e"
    and "\<forall>i \<in> set is. log_line (e_localtime e) (pat i) m \<noteq> None"
  shows "\<exists>w'. sinkMsg e fl is m w = Some w' \<and> same_sinks w w' \<and> consoles_ok e pat js w' \<and>
    (\<forall>fd. os_streams (w_os w') fd = os_streams (w_os w) fd @ lines_for e pat w m fd is)"
  using assms
proof (induction "is" arbitrary: m w)
  case Nil
  then show ?case by (simp add: same_sinks_def lines_for_def)
next
  case (Cons i "is")
  have "log_line (e_localtime e) (pat i) m \<noteq> None" and "i \<in> set js" using Cons.prems(2,4) by auto
  from sink_one_console [OF Cons.prems(1) this(2) Cons.prems(3) this(1), of fl] obtain m1 w1 where
    1: "sink_one e fl m i w = Some (m1, w1)" "recoloured m m1" "same_sinks w w1" "consoles_ok e pat js w1"
      "\<forall>fd. os_streams (w_os w1) fd = os_streams (w_os w) fd @ lines_for e pat w m fd [i]" by metis
  with Cons.IH [of w1 m1] Cons.prems obtain w' where
    w': "sinkMsg e fl is m1 w1 = Some w'" "same_sinks w1 w'" "consoles_ok e pat js w'"
      "\<forall>fd. os_streams (w_os w') fd = os_streams (w_os w1) fd @ lines_for e pat w1 m1 fd is"
    by (auto simp: log_line_recoloured)
  have "lines_for e pat w1 m1 fd is = lines_for e pat w m fd is" for fd
    unfolding lines_for_recoloured [OF 1(2)]
    using Cons.prems(1,2) by (intro lines_for_same [OF 1(3)]) (auto simp: consoles_ok_def)
  moreover have "lines_for e pat w m fd (i # is) = lines_for e pat w m fd [i] @ lines_for e pat w m fd is" for fd
    by (simp add: lines_for_def)
  ultimately show ?case
    using 1 w' by (intro exI [of _ w']) (simp add: same_sinks_def)
qed

text \<open>
  A logger reaches every sink. On a terminal without colours, a message of at least the
  logger's level is written once by each of its console sinks whose own level admits it, in
  the order of the sinks, as the line of that sink's pattern; the streams get nothing else,
  and a message below the level changes nothing.
\<close>

lemma logger_all_sinks:
  assumes "consoles_ok e pat (lg_sinks lg) w" and "\<not> isColorTerminal e"
    and "make_msg e tid loc level payload lg w = (m, w0)"
    and "\<forall>i \<in> set (lg_sinks lg). log_line (e_localtime e) (pat i) m \<noteq> None"
  shows "\<exists>w'. logger_log e tid loc level payload lg w = Some w' \<and>
    (\<forall>fd. os_streams (w_os w') fd = os_streams (w_os w) fd @
       (if level < lg_level lg then [] else lines_for e pat w m fd (lg_sinks lg)))"
proof (cases "level < lg_level lg")
  case True
  then show ?thesis by (simp add: logger_log_def)
next
  case False
  have w0: "w_sinks w0 = w_sinks w" "os_streams (w_os w0) = os_streams (w_os w)"
    using assms(3) by (auto simp: make_msg_def clock_now_def)
  then have "consoles_ok e pat (lg_sinks lg) w0" using assms(1) by (simp add: consoles_ok_def)
  from sinkMsg_consoles [OF this _ assms(2,4), of "lg_flush_level lg"] obtain w' where
    "sinkMsg e (lg_flush_level lg) (lg_sinks lg) m w0 = Some w'"
    "\<forall>fd. os_streams (w_os w') fd = os_streams (w_os w0) fd @ lines_for e pat w0 m fd (lg_sinks lg)"
    by auto
  with False w0 assms(3) show ?thesis by (auto simp: logger_log_def lines_for_def)
qed


section \<open>The default logger\<close>

text \<open>Setting a logger's pattern makes every one of its sinks write by it, and no other.\<close>

lemma lg_setPattern_sinks:
  "length (lg_setPattern p is sinks) = length sinks \<and>
   (i < length sinks \<longrightarrow> lg_setPattern p is sinks ! i = (if i \<in> set is then sink_setPattern p (sinks ! i) else sinks ! i))"
proof (induction "is" arbitrary: sinks)
  case (Cons a "is")
  from Cons.IH [of "sinks[a := sink_setPattern p (sinks ! a)]"] show ?case
    by (cases "a < length sinks") (auto simp: nth_list_update sink_setPattern_def)
qed simp

lemma setPattern_default:
  assumes "\<forall>i \<in> set (lg_sinks (lf_default f)). i < length (lf_sinks f) \<and> console_stream (lf_sinks f ! i) \<noteq> None"
  shows "consoles_ok e (\<lambda>i. p) (lg_sinks (lf_default f)) \<lparr>w_sinks = lf_sinks (setPattern p f), w_os = os\<rparr>"
  using assms lg_setPattern_sinks [of p "lg_sinks (lf_default f)" "lf_sinks f"]
  by (auto simp: consoles_ok_def setPattern_def sink_setPattern_def console_stream_def)

text \<open>
  The default logger, its pattern set and its level left: a message is one line on standard
  output.
\<close>

lemma default_logger_line:
  assumes "\<not> isColorTerminal e" and "f = setPattern p (LoggerFactory [])"
    and "make_msg e tid loc level payload (lf_default f) \<lparr>w_sinks = lf_sinks f, w_os = os\<rparr> = (m, w0)"
    and "log_line (e_localtime e) p m = Some l"
  shows "\<exists>w'. logger_log e tid loc level payload (lf_default f) \<lparr>w_sinks = lf_sinks f, w_os = os\<rparr> = Some w' \<and>
    os_streams (w_os w') 1 = os_streams os 1 @ l"
proof -
  have f: "lg_sinks (lf_default f) = [0]" "lg_level (lf_default f) = LTRACE"
      "lf_sinks f = [sink_setPattern p (new_sink (StdColorSink 1))]"
    using assms(2) by (simp_all add: setPattern_def LoggerFactory_def sync_create_def new_logger_def)
  let ?w = "\<lparr>w_sinks = lf_sinks f, w_os = os\<rparr>"
  have ok: "consoles_ok e (\<lambda>i. p) (lg_sinks (lf_default f)) ?w"
    by (simp add: f consoles_ok_def sink_setPattern_def new_sink_def console_stream_def)
  have low: "LTRACE \<le> l'" "\<not> l' < LTRACE" for l' by (simp_all add: level_order)
  obtain w' where "logger_log e tid loc level payload (lf_default f) ?w = Some w'"
    "\<forall>fd. os_streams (w_os w') fd = os_streams (w_os ?w) fd @ lines_for e (\<lambda>i. p) ?w m fd [0]"
    using logger_all_sinks [OF ok assms(1,3)] assms(4) low by (auto simp: f(1,2))
  moreover have "lines_for e (\<lambda>i. p) ?w m 1 [0] = l"
    by (simp add: lines_for_def f shouldLog_def sink_setPattern_def new_sink_def console_stream_def low assms(4))
  ultimately show ?thesis by auto
qed

section \<open>Applied\<close>

lemma color_sink_prints_line_witness:
  "\<exists>m1 f out. sink_log (sample_env (Some ''xterm'')) (sample_msg ''hi'') (sink_setPattern ''%l: %v'' (new_sink (StdColorSink 1))) sample_os
      = Some (m1, (sink_setPattern ''%l: %v'' (new_sink (StdColorSink 1)))\<lparr>sk_formatter := f\<rparr>, stream_write 1 out sample_os) \<and>
    pf_means (e_localtime (sample_env (Some ''xterm''))) ''%l: %v'' f \<and>
    (out = ''info: hi'' @ nl \<or> isColorTerminal (sample_env (Some ''xterm'')) \<and> colored (lm_level (sample_msg ''hi'')) (''info: hi'' @ nl) out)"
  by (rule color_sink_prints_line)
     (simp_all add: sink_setPattern_def new_sink_def sample_msg_def new_log_msg_def log_line_def directive_def
        basic_directive_def getLevelName_def array_at_def)

definition sample_world :: "(string \<Rightarrow> string) world" where
  "sample_world = \<lparr>w_sinks = [sink_setPattern ''%v'' (new_sink (StdoutSink 1)), sink_setLevel LWARN (new_sink (StdoutSink 1)),
     sink_setPattern ''%l: %v'' (new_sink (StdColorSink 1))], w_os = sample_os\<rparr>"

definition sample_pat :: "nat \<Rightarrow> string" where
  "sample_pat i = (if i = 0 then ''%v'' else if i = 1 then ''%+'' else ''%l: %v'')"

lemma logger_all_sinks_witness:
  "\<exists>w'. logger_log (sample_env None) 7 no_loc LINFO ''hi'' (new_logger ''app'' [0, 1, 2]) sample_world = Some w' \<and>
     (\<forall>fd. os_streams (w_os w') fd = os_streams (w_os sample_world) fd @
        (if LINFO < lg_level (new_logger ''app'' [0, 1, 2]) then []
         else lines_for (sample_env None) sample_pat sample_world (sample_msg ''hi'') fd (lg_sinks (new_logger ''app'' [0, 1, 2])))) \<and>
   lines_for (sample_env None) sample_pat sample_world (sample_msg ''hi'') 1 [0, 1, 2] = ''hi'' @ nl @ ''info: hi'' @ nl"
proof -
  have w: "w_sinks sample_world = [sink_setPattern ''%v'' (new_sink (StdoutSink 1)), sink_setLevel LWARN (new_sink (StdoutSink 1)),
     sink_setPattern ''%l: %v'' (new_sink (StdColorSink 1))]" by (simp add: sample_world_def)
  have "consoles_ok (sample_env None) sample_pat (lg_sinks (new_logger ''app'' [0, 1, 2])) sample_world"
    by (simp add: consoles_ok_def new_logger_def w sink_setPattern_def sink_setLevel_def new_sink_def sample_pat_def console_stream_def)
  moreover have "\<not> isColorTerminal (sample_env None)" by (simp add: isColorTerminal_def sample_env_def)
  moreover have "make_msg (sample_env None) 7 no_loc LINFO ''hi'' (new_logger ''app'' [0, 1, 2]) sample_world
      = (sample_msg ''hi'', sample_world\<lparr>w_os := sample_os\<lparr>os_reads := 1\<rparr>\<rparr>)"
    by (simp add: make_msg_def clock_now_def sample_world_def sample_os_def sample_env_def new_logger_def sample_msg_def)
  moreover have "list_all (\<lambda>i. log_line (e_localtime (sample_env None)) (sample_pat i) (sample_msg ''hi'') \<noteq> None) [0, 1, 2]"
    by code_simp
  then have "\<forall>i \<in> set (lg_sinks (new_logger ''app'' [0, 1, 2])).
      log_line (e_localtime (sample_env None)) (sample_pat i) (sample_msg ''hi'') \<noteq> None"
    by (simp add: new_logger_def)
  ultimately have "\<exists>w'. logger_log (sample_env None) 7 no_loc LINFO ''hi'' (new_logger ''app'' [0, 1, 2]) sample_world = Some w' \<and>
     (\<forall>fd. os_streams (w_os w') fd = os_streams (w_os sample_world) fd @
        (if LINFO < lg_level (new_logger ''app'' [0, 1, 2]) then []
         else lines_for (sample_env None) sample_pat sample_world (sample_msg ''hi'') fd (lg_sinks (new_logger ''app'' [0, 1, 2]))))"
    by (rule logger_all_sinks)
  moreover have "lines_for (sample_env None) sample_pat sample_world (sample_msg ''hi'') 1 [0, 1, 2] = ''hi'' @ nl @ ''info: hi'' @ nl"
    by code_simp
  ultimately show ?thesis by blast
qed

text \<open>
  On a colour terminal a second colour sink whose pattern names no level reads its line by
  the range the first sink left in the message, here past its end.
\<close>

lemma stale_color_range_reads_outside:
  "logger_log (sample_env (Some ''xterm'')) 7 no_loc LINFO ''hi'' (new_logger ''app'' [0, 1])
     \<lparr>w_sinks = [new_sink (StdColorSink 1), sink_setPattern ''%v'' (new_sink (StdColorSink 1))], w_os = sample_os\<rparr> = None"
  by code_simp

text \<open>A file that could not be opened leaves a null pointer, and the next line goes through it.\<close>

lemma unopened_file_is_written:
  "(case mkRotatingSink ((sample_env None)\<lparr>e_fs := mem_fs\<lparr>fs_fopen := \<lambda>p d. None\<rparr>\<rparr>) ''app'' 100 sample_os of None \<Rightarrow> True
    | Some (r, os0) \<Rightarrow> os_cerr os0 = [''Error in opening file: app.20250101-0000000.log''] \<and>
        sink_log (sample_env None) (sample_msg ''hi'') (new_sink (RotatingFileSink r)) os0 = None)"
  by code_simp

text \<open>A dot in a directory of the base path takes the place of the extension's.\<close>

lemma dotted_directory_is_cut:
  "getLogFilename (e_localtime (sample_env None)) 0 ''./logs/app'' = ''.20250101-0000000.log''"
  by code_simp

end
