(* ===== verification/ElogPool.thy ===== *)
theory ElogPool
  imports ElogThms "HOL-Library.Multiset"
begin

text \<open>
  Logging, third part (src/deps/elog/elog): the thread pool of the asynchronous logger as a
  machine of its threads' steps. A step is one access to the shared state: the lock, the
  flag \<open>running_\<close>, the buffer, a wait, a call of the logger. A worker that finds its
  condition false still holds the lock (\<open>Blocking\<close>) before it waits (\<open>Blocked\<close>); only a waiting
  one hears a notification. Messages are posted while the pool runs.
\<close>

section \<open>The pool\<close>

datatype 'm worker =
    AtLoop
  | Acquire
  | Holding
  | Blocking
  | Blocked
  | Passed
  | Sinking "'m list"
  | DrainAcq
  | Draining "'m list"
  | WDone

datatype flusher = F_Loop | F_Wait | F_Flush | F_Check | F_Done

datatype stopper = S_None | S_NotifyQueue | S_NotifyFlush | S_Join | S_Done

datatype 'm event = Sunk 'm | Flushed

record 'm pool =
  p_running :: bool
  p_buffer :: "'m list"
  p_lock :: "nat option"
  p_workers :: "'m worker list"
  p_flusher :: flusher
  p_stop :: stopper
  p_posted :: "'m list"
  p_events :: "'m event list"

definition new_pool :: "nat \<Rightarrow> 'm pool" where
  "new_pool thread_num = \<lparr>p_running = True, p_buffer = [], p_lock = None, p_workers = replicate thread_num AtLoop,
     p_flusher = F_Loop, p_stop = S_None, p_posted = [], p_events = []\<rparr>"

definition set_worker :: "nat \<Rightarrow> 'm worker \<Rightarrow> 'm pool \<Rightarrow> 'm pool" where
  "set_worker i w p = p\<lparr>p_workers := (p_workers p)[i := w]\<rparr>"

definition record_event :: "'m event \<Rightarrow> 'm pool \<Rightarrow> 'm pool" where
  "record_event ev p = p\<lparr>p_events := p_events p @ [ev]\<rparr>"

text \<open>\<open>threadLoop\<close>, then \<open>consumeAndFlush\<close>: the next step of a worker.\<close>

fun worker_step :: "nat \<Rightarrow> 'm worker \<Rightarrow> 'm pool \<Rightarrow> 'm pool option" where
  "worker_step i AtLoop p = Some (set_worker i (if p_running p then Acquire else DrainAcq) p)"
| "worker_step i Acquire p = (if p_lock p = None then Some (set_worker i Holding (p\<lparr>p_lock := Some i\<rparr>)) else None)"
| "worker_step i Holding p = Some (set_worker i (if \<not> p_running p \<or> p_buffer p \<noteq> [] then Passed else Blocking) p)"
| "worker_step i Blocking p = Some (set_worker i Blocked (p\<lparr>p_lock := None\<rparr>))"
| "worker_step i Blocked p = None"
| "worker_step i Passed p =
     (if \<not> p_running p then Some (set_worker i DrainAcq (p\<lparr>p_lock := None\<rparr>))
      else Some (set_worker i (Sinking (p_buffer p)) (p\<lparr>p_buffer := [], p_lock := None\<rparr>)))"
| "worker_step i (Sinking []) p = Some (set_worker i AtLoop p)"
| "worker_step i (Sinking (m # ms)) p = Some (set_worker i (Sinking ms) (record_event (Sunk m) p))"
| "worker_step i DrainAcq p =
     (if p_lock p \<noteq> None then None
      else if p_buffer p = [] then Some (set_worker i WDone p)
      else Some (set_worker i (Draining (p_buffer p)) (p\<lparr>p_lock := Some i\<rparr>)))"
| "worker_step i (Draining (m # ms)) p = Some (set_worker i (Draining ms) (record_event (Sunk m) p))"
| "worker_step i (Draining []) p = Some (set_worker i WDone (record_event Flushed (p\<lparr>p_buffer := [], p_lock := None\<rparr>)))"
| "worker_step i WDone p = None"

text \<open>\<open>flushLoop\<close>; its timed wait may end at any time.\<close>

fun flusher_step :: "flusher \<Rightarrow> 'm pool \<Rightarrow> 'm pool option" where
  "flusher_step F_Loop p = Some (p\<lparr>p_flusher := if p_running p then F_Wait else F_Done\<rparr>)"
| "flusher_step F_Wait p = Some (p\<lparr>p_flusher := F_Flush\<rparr>)"
| "flusher_step F_Flush p = Some (record_event Flushed (p\<lparr>p_flusher := F_Check\<rparr>))"
| "flusher_step F_Check p = Some (p\<lparr>p_flusher := if p_running p then F_Loop else F_Done\<rparr>)"
| "flusher_step F_Done p = None"

fun wake :: "'m worker \<Rightarrow> 'm worker" where
  "wake Blocked = Acquire"
| "wake w = w"

fun stop_step :: "stopper \<Rightarrow> 'm pool \<Rightarrow> 'm pool option" where
  "stop_step S_None p = Some (p\<lparr>p_running := False, p_stop := S_NotifyQueue\<rparr>)"
| "stop_step S_NotifyQueue p = Some (p\<lparr>p_workers := map wake (p_workers p), p_stop := S_NotifyFlush\<rparr>)"
| "stop_step S_NotifyFlush p = Some (p\<lparr>p_stop := S_Join\<rparr>)"
| "stop_step S_Join p =
     (if (\<forall>w \<in> set (p_workers p). w = WDone) \<and> p_flusher p = F_Done then Some (p\<lparr>p_stop := S_Done\<rparr>) else None)"
| "stop_step S_Done p = None"

text \<open>\<open>postLog\<close>, all under the lock; \<open>notify_one\<close> wakes one waiting worker if there is any.\<close>

definition post_step :: "'m \<Rightarrow> nat option \<Rightarrow> 'm pool \<Rightarrow> 'm pool option" where
  "post_step m woken p =
     (if p_lock p = None then
        (let p1 = p\<lparr>p_buffer := p_buffer p @ [m], p_posted := p_posted p @ [m]\<rparr> in
         case woken of
           None \<Rightarrow> if \<exists>w \<in> set (p_workers p). w = Blocked then None else Some p1
         | Some i \<Rightarrow> if i < length (p_workers p) \<and> p_workers p ! i = Blocked then Some (set_worker i Acquire p1) else None)
      else None)"

text \<open>The steps of a history. In a history nothing is posted once \<open>stop\<close> has begun; \<open>postLog\<close> itself has no such test.\<close>

datatype 'm label = Post 'm "nat option" | Work nat | Spurious nat | FlushTick | Stop

fun pool_step :: "'m label \<Rightarrow> 'm pool \<Rightarrow> 'm pool option" where
  "pool_step (Post m woken) p = (if p_stop p = S_None then post_step m woken p else None)"
| "pool_step (Work i) p = (if i < length (p_workers p) then worker_step i (p_workers p ! i) p else None)"
| "pool_step (Spurious i) p =
     (if i < length (p_workers p) \<and> p_workers p ! i = Blocked then Some (set_worker i Acquire p) else None)"
| "pool_step FlushTick p = flusher_step (p_flusher p) p"
| "pool_step Stop p = stop_step (p_stop p) p"

fun pool_run :: "'m label list \<Rightarrow> 'm pool \<Rightarrow> 'm pool option" where
  "pool_run [] p = Some p"
| "pool_run (l # ls) p = (case pool_step l p of None \<Rightarrow> None | Some p1 \<Rightarrow> pool_run ls p1)"

inductive pool_reach :: "nat \<Rightarrow> 'm pool \<Rightarrow> bool" for n where
  start: "pool_reach n (new_pool n)"
| step: "pool_reach n p \<Longrightarrow> pool_step l p = Some p' \<Longrightarrow> pool_reach n p'"

section \<open>Invariants\<close>

fun sunk :: "'m event list \<Rightarrow> 'm list" where
  "sunk [] = []"
| "sunk (Sunk m # evs) = m # sunk evs"
| "sunk (Flushed # evs) = sunk evs"

lemma sunk_append [simp]: "sunk (xs @ ys) = sunk xs @ sunk ys"
  by (induction xs rule: sunk.induct) simp_all

fun in_hand :: "'m worker \<Rightarrow> 'm list" where
  "in_hand (Sinking ms) = ms"
| "in_hand (Draining ms) = ms"
| "in_hand w = []"

fun holds_lock :: "'m worker \<Rightarrow> bool" where
  "holds_lock Holding = True"
| "holds_lock Blocking = True"
| "holds_lock Passed = True"
| "holds_lock (Draining ms) = True"
| "holds_lock w = False"

fun is_draining :: "'m worker \<Rightarrow> bool" where
  "is_draining (Draining ms) = True"
| "is_draining w = False"

text \<open>The buffer, unless the worker with the lock drains it: then what is left is in its hand.\<close>

definition waiting :: "'m pool \<Rightarrow> 'm list" where
  "waiting p = (case p_lock p of None \<Rightarrow> p_buffer p
     | Some i \<Rightarrow> if is_draining (p_workers p ! i) then [] else p_buffer p)"

lemma waiting_simps [simp]:
  "waiting (p\<lparr>p_flusher := x\<rparr>) = waiting p" "waiting (p\<lparr>p_events := evs\<rparr>) = waiting p"
  "waiting (p\<lparr>p_running := r\<rparr>) = waiting p" "waiting (p\<lparr>p_running := r, p_stop := st\<rparr>) = waiting p" "waiting (p\<lparr>p_stop := st\<rparr>) = waiting p"
  "waiting (p\<lparr>p_flusher := x, p_events := evs\<rparr>) = waiting p" "waiting (p\<lparr>p_events := evs, p_flusher := x\<rparr>) = waiting p"
  by (simp_all add: waiting_def split: option.split)

definition hands :: "'m worker list \<Rightarrow> 'm multiset" where
  "hands ws = (\<Sum>w\<leftarrow>ws. mset (in_hand w))"

text \<open>
  The flag and \<open>stop\<close>; the lock and who is in a section under it; the last round of a
  worker starts after \<open>stop\<close>, and once one is over the buffer stays empty.
\<close>

definition pool_control :: "'m pool \<Rightarrow> bool" where
  "pool_control p \<longleftrightarrow> (p_running p \<longleftrightarrow> p_stop p = S_None) \<and>
     (\<forall>i < length (p_workers p). holds_lock (p_workers p ! i) \<longleftrightarrow> p_lock p = Some i) \<and>
     (\<forall>i. p_lock p = Some i \<longrightarrow> i < length (p_workers p)) \<and>
     (\<forall>i < length (p_workers p). p_workers p ! i = DrainAcq \<or> is_draining (p_workers p ! i) \<or> p_workers p ! i = WDone \<longrightarrow> \<not> p_running p) \<and>
     (WDone \<in> set (p_workers p) \<longrightarrow> p_buffer p = []) \<and>
     (p_stop p = S_Done \<longrightarrow> (\<forall>w \<in> set (p_workers p). w = WDone))"

text \<open>Every posted message is sunk, in a hand, or waiting, as often as it was posted.\<close>

definition pool_content :: "'m pool \<Rightarrow> bool" where
  "pool_content p \<longleftrightarrow> mset (p_posted p) = mset (sunk (p_events p)) + hands (p_workers p) + mset (waiting p)"

lemma hands_split:
  assumes "i < length ws"
  obtains others where "hands ws = others + mset (in_hand (ws ! i))" "\<And>w. hands (ws[i := w]) = others + mset (in_hand w)"
proof
  let ?o = "hands (take i ws) + hands (drop (Suc i) ws)"
  have split: "hands (take i ws @ w # drop (Suc i) ws) = ?o + mset (in_hand w)" for w
    by (simp add: hands_def)
  show "hands (ws[i := w]) = ?o + mset (in_hand w)" for w
    unfolding upd_conv_take_nth_drop [OF assms] by (rule split)
  show "hands ws = ?o + mset (in_hand (ws ! i))"
    using split [of "ws ! i"] unfolding id_take_nth_drop [OF assms, symmetric] .
qed

lemmas pool_updates = set_worker_def record_event_def nth_list_update

lemma pool_control_worker:
  assumes "pool_control p" and "i < length (p_workers p)" and "worker_step i (p_workers p ! i) p = Some p'"
  shows "pool_control p'"
proof -
  have lock: "holds_lock (p_workers p ! i) \<longleftrightarrow> p_lock p = Some i" using assms by (simp add: pool_control_def)
  have "p_stop p = S_Done \<Longrightarrow> p_workers p ! i = WDone" using assms nth_mem by (fastforce simp: pool_control_def)
  with assms(3) have stop: "p_stop p \<noteq> S_Done" by auto
  show ?thesis
  proof (cases "p_workers p ! i")
    case (Sinking ms)
    with assms lock stop show ?thesis
      by (cases ms) (auto simp: pool_control_def pool_updates in_set_conv_nth split: if_splits)
  next
    case (Draining ms)
    with assms lock stop show ?thesis
      by (cases ms) (auto simp: pool_control_def pool_updates in_set_conv_nth split: if_splits)
  qed (use assms lock stop in \<open>auto simp: pool_control_def pool_updates in_set_conv_nth split: if_splits\<close>)
qed


lemma waiting_other:
  assumes "pool_control p" and "i < length (p_workers p)" and "p_lock p \<noteq> Some i"
  shows "waiting (set_worker i w p) = waiting p"
  using assms by (auto simp: waiting_def pool_updates split: option.split)

lemma pool_content_worker:
  assumes control: "pool_control p" and content: "pool_content p" and i: "i < length (p_workers p)"
    and step: "worker_step i (p_workers p ! i) p = Some p'"
  shows "pool_content p'"
proof -
  have lock: "holds_lock (p_workers p ! i) \<longleftrightarrow> p_lock p = Some i" using control i by (simp add: pool_control_def)
  obtain others where h: "hands (p_workers p) = others + mset (in_hand (p_workers p ! i))"
    "\<And>w. hands ((p_workers p)[i := w]) = others + mset (in_hand w)"
    using hands_split [OF i] by metis
  show ?thesis
  proof (cases "p_workers p ! i")
    case (Sinking ms)
    with lock waiting_other [OF control i] step content h show ?thesis
      by (cases ms) (auto simp: pool_content_def pool_updates waiting_def split: option.splits if_splits)
  next
    case (Draining ms)
    with lock step content h i show ?thesis
      by (cases ms) (auto simp: pool_content_def pool_updates waiting_def)
  qed (use lock step content h i in \<open>auto simp: pool_content_def pool_updates waiting_def split: option.splits if_splits\<close>)
qed

lemma hands_wake: "hands (map wake ws) = hands ws"
proof -
  have "in_hand (wake w) = in_hand w" for w :: "'a worker" by (cases w) simp_all
  then show ?thesis by (simp add: hands_def comp_def)
qed

lemma wake_simps [simp]: "holds_lock (wake w) = holds_lock w" "is_draining (wake w) = is_draining w"
  "wake w = DrainAcq \<longleftrightarrow> w = DrainAcq" "wake w = WDone \<longleftrightarrow> w = WDone" "WDone = wake w \<longleftrightarrow> w = WDone"
  by (cases w; simp)+

lemma wake_worker_inv:
  assumes "pool_control p" and "pool_content p" and "i < length (p_workers p)" and "p_workers p ! i = Blocked"
  shows "pool_control (set_worker i Acquire p) \<and> pool_content (set_worker i Acquire p)"
proof
  show "pool_control (set_worker i Acquire p)"
    using assms by (auto simp: pool_control_def pool_updates in_set_conv_nth split: if_splits)
  have "p_lock p \<noteq> Some i" using assms by (auto simp: pool_control_def)
  moreover obtain others where "hands (p_workers p) = others + mset (in_hand (p_workers p ! i))"
    "\<And>w. hands ((p_workers p)[i := w]) = others + mset (in_hand w)"
    using hands_split [OF assms(3)] by metis
  ultimately show "pool_content (set_worker i Acquire p)"
    using assms waiting_other [OF assms(1,3)] by (simp add: pool_content_def) (simp add: pool_updates)
qed

lemma posted_inv:
  assumes "pool_control p" and "pool_content p" and "p_stop p = S_None" and "p_lock p = None"
  shows "pool_control (p\<lparr>p_buffer := p_buffer p @ [m], p_posted := p_posted p @ [m]\<rparr>) \<and>
    pool_content (p\<lparr>p_buffer := p_buffer p @ [m], p_posted := p_posted p @ [m]\<rparr>)"
  using assms by (auto simp: pool_control_def pool_content_def waiting_def in_set_conv_nth)

lemma waiting_wake: "pool_control p \<Longrightarrow> waiting (p\<lparr>p_workers := map wake (p_workers p), p_stop := x\<rparr>) = waiting p"
  by (auto simp: waiting_def pool_control_def split: option.split)

lemma stop_step_inv:
  assumes "pool_control p" and "pool_content p" and "stop_step (p_stop p) p = Some p'"
  shows "pool_control p' \<and> pool_content p'"
proof (cases "p_stop p")
  case S_NotifyQueue
  with assms waiting_wake [OF assms(1)] show ?thesis
    by (auto simp: pool_content_def pool_control_def hands_wake image_iff)
qed (use assms in \<open>auto simp: pool_control_def pool_content_def split: if_splits\<close>)

lemma pool_step_inv:
  assumes "pool_control p" and "pool_content p" and "pool_step l p = Some p'"
  shows "pool_control p' \<and> pool_content p'"
proof (cases l)
  case (Post m woken)
  with assms have "p_stop p = S_None" "p_lock p = None" by (auto simp: post_step_def split: if_splits)
  from posted_inv [OF assms(1,2) this, of m] assms(3) Post show ?thesis
    by (auto simp: post_step_def Let_def intro: wake_worker_inv [THEN conjunct1] wake_worker_inv [THEN conjunct2]
        split: if_splits option.splits)
next
  case (Work i)
  with assms show ?thesis
    using pool_control_worker pool_content_worker by (auto split: if_splits)
next
  case (Spurious i)
  with assms show ?thesis using wake_worker_inv by (auto split: if_splits)
next
  case FlushTick
  with assms show ?thesis
    by (cases "p_flusher p") (auto simp: pool_control_def pool_content_def record_event_def)
next
  case Stop
  with assms show ?thesis using stop_step_inv by simp
qed

lemma hands_idle: "\<forall>w \<in> set ws. in_hand w = [] \<Longrightarrow> hands ws = {#}"
  by (induction ws) (simp_all add: hands_def)

lemma new_pool_inv: "pool_control (new_pool n)" "pool_content (new_pool n)"
  by (simp_all add: pool_control_def pool_content_def new_pool_def waiting_def hands_idle)

lemma pool_reach_inv: "pool_reach n p \<Longrightarrow> pool_control p \<and> pool_content p"
proof (induction rule: pool_reach.induct)
  case (step p l p')
  then show ?case using pool_step_inv by blast
qed (simp add: new_pool_inv)

lemma worker_step_length: "worker_step i w p = Some p' \<Longrightarrow> length (p_workers p') = length (p_workers p)"
  by (induction i w p rule: worker_step.induct) (auto simp: set_worker_def record_event_def split: if_splits)

lemma flusher_step_workers: "flusher_step f p = Some p' \<Longrightarrow> p_workers p' = p_workers p"
  by (cases f) (auto simp: record_event_def)

lemma stop_step_length: "stop_step s p = Some p' \<Longrightarrow> length (p_workers p') = length (p_workers p)"
  by (cases s) (auto split: if_splits)

lemma pool_step_length: "pool_step l p = Some p' \<Longrightarrow> length (p_workers p') = length (p_workers p)"
  by (cases l) (auto simp: post_step_def Let_def set_worker_def worker_step_length flusher_step_workers stop_step_length
      split: if_splits option.splits)

lemma pool_reach_length: "pool_reach n p \<Longrightarrow> length (p_workers p) = n"
  by (induction rule: pool_reach.induct) (simp_all add: new_pool_def pool_step_length)

lemma pool_run_reach: "pool_reach n p \<Longrightarrow> pool_run ls p = Some p' \<Longrightarrow> pool_reach n p'"
  by (induction ls arbitrary: p) (auto split: option.splits intro: pool_reach.step)

section \<open>One worker\<close>

text \<open>With one worker the order is kept as well.\<close>

definition pool_order :: "'m pool \<Rightarrow> bool" where
  "pool_order p \<longleftrightarrow> p_posted p = sunk (p_events p) @ in_hand (p_workers p ! 0) @ waiting p"

lemma pool_order_worker:
  assumes control: "pool_control p" and order: "pool_order p" and one: "p_workers p = [w]"
    and step: "worker_step 0 w p = Some p'"
  shows "pool_order p'"
proof -
  have lock: "holds_lock w \<longleftrightarrow> p_lock p = Some 0"
    using control one by (simp add: pool_control_def)
  have other: "p_lock p = None \<or> p_lock p = Some 0"
    using control one by (cases "p_lock p") (simp_all add: pool_control_def)
  show ?thesis
  proof (cases w)
    case (Sinking ms)
    with lock other step order one show ?thesis
      by (cases ms) (auto simp: pool_order_def pool_updates waiting_def)
  next
    case (Draining ms)
    with lock other step order one show ?thesis
      by (cases ms) (auto simp: pool_order_def pool_updates waiting_def)
  qed (use lock other step order one in \<open>auto simp: pool_order_def pool_updates waiting_def split: if_splits\<close>)
qed

lemma pool_order_step:
  assumes "pool_control p" and "pool_order p" and "length (p_workers p) = 1" and "pool_step l p = Some p'"
  shows "pool_order p'"
proof -
  obtain w where one: "p_workers p = [w]" using assms(3) by (cases "p_workers p") auto
  show ?thesis
  proof (cases l)
    case (Work i)
    with assms one pool_order_worker [OF assms(1,2) one] show ?thesis by (auto split: if_splits)
  next
    case (Spurious i)
    with assms one waiting_other [OF assms(1), of 0 Acquire] show ?thesis
      by (auto simp: pool_order_def pool_control_def split: if_splits) (simp add: set_worker_def)+
  next
    case (Stop)
    with assms one show ?thesis
      by (cases "p_stop p"; cases w) (auto simp: pool_order_def waiting_def pool_control_def split: if_splits option.splits)
  next
    case FlushTick
    with assms one show ?thesis
      by (cases "p_flusher p") (auto simp: pool_order_def record_event_def)
  qed (use assms one in \<open>auto simp: pool_order_def post_step_def Let_def pool_updates waiting_def split: if_splits option.splits\<close>)
qed

lemma pool_reach_order: "pool_reach 1 p \<Longrightarrow> pool_order p"
proof (induction rule: pool_reach.induct)
  case start
  then show ?case by (simp add: pool_order_def new_pool_def waiting_def)
next
  case (step p l p')
  then show ?case using pool_order_step pool_reach_inv pool_reach_length by metis
qed


section \<open>Stopping\<close>

text \<open>
  What is left to do after \<open>stop\<close>, of a pool no worker of which waits or is about to: an
  upper bound of the steps.
\<close>

fun worker_work :: "nat \<Rightarrow> 'm worker \<Rightarrow> nat" where
  "worker_work b WDone = 0"
| "worker_work b (Draining ms) = Suc (length ms)"
| "worker_work b DrainAcq = b + 2"
| "worker_work b AtLoop = b + 3"
| "worker_work b Passed = b + 3"
| "worker_work b Holding = b + 4"
| "worker_work b Acquire = b + 5"
| "worker_work b (Sinking ms) = b + 4 + length ms"
| "worker_work b Blocking = 0"
| "worker_work b Blocked = 0"

fun flusher_work :: "flusher \<Rightarrow> nat" where
  "flusher_work F_Wait = 3"
| "flusher_work F_Flush = 2"
| "flusher_work F_Loop = 1"
| "flusher_work F_Check = 1"
| "flusher_work F_Done = 0"

definition pool_work :: "'m pool \<Rightarrow> nat" where
  "pool_work p = (\<Sum>w\<leftarrow>p_workers p. worker_work (length (p_buffer p)) w) + flusher_work (p_flusher p) +
     (if p_stop p = S_Join then 1 else 0)"

definition joining :: "'m pool \<Rightarrow> bool" where
  "joining p \<longleftrightarrow> (p_stop p = S_Join \<or> p_stop p = S_Done) \<and> Blocked \<notin> set (p_workers p) \<and> Blocking \<notin> set (p_workers p)"

lemma worker_work_mono: "b \<le> c \<Longrightarrow> worker_work b w \<le> worker_work c w"
  by (cases w) simp_all

lemma work_split:
  assumes "i < length ws"
  obtains others where "\<And>b. (\<Sum>w\<leftarrow>ws. worker_work b w) = others b + worker_work b (ws ! i)"
    "\<And>b w. (\<Sum>w\<leftarrow>ws[i := w]. worker_work b w) = others b + worker_work b w" "\<And>b c. b \<le> c \<Longrightarrow> others b \<le> (others c :: nat)"
proof
  let ?o = "\<lambda>b. (\<Sum>w\<leftarrow>take i ws. worker_work b w) + (\<Sum>w\<leftarrow>drop (Suc i) ws. worker_work b w)"
  have split: "(\<Sum>w\<leftarrow>take i ws @ w # drop (Suc i) ws. worker_work b w) = ?o b + worker_work b w" for b w
    by simp
  show "(\<Sum>w\<leftarrow>ws[i := w]. worker_work b w) = ?o b + worker_work b w" for b w
    unfolding upd_conv_take_nth_drop [OF assms] by (rule split)
  show "(\<Sum>w\<leftarrow>ws. worker_work b w) = ?o b + worker_work b (ws ! i)" for b
    using split [of b "ws ! i"] unfolding id_take_nth_drop [OF assms, symmetric] .
  show "b \<le> c \<Longrightarrow> ?o b \<le> ?o c" for b c
    by (intro add_mono sum_list_mono) (simp_all add: worker_work_mono)
qed

lemma joining_worker:
  assumes "pool_control p" and "joining p" and i: "i < length (p_workers p)" and step: "worker_step i (p_workers p ! i) p = Some p'"
  shows "joining p' \<and> pool_work p' < pool_work p"
proof -
  obtain others where o: "\<And>b. (\<Sum>w\<leftarrow>p_workers p. worker_work b w) = others b + worker_work b (p_workers p ! i)"
    "\<And>b w. (\<Sum>w\<leftarrow>(p_workers p)[i := w]. worker_work b w) = others b + worker_work b w"
    "\<And>b c. b \<le> c \<Longrightarrow> others b \<le> others c"
    using work_split [OF i] by metis
  have run: "\<not> p_running p" using assms(1,2) by (auto simp: pool_control_def joining_def)
  have set: "Blocked \<notin> set ((p_workers p)[i := w]) \<and> Blocking \<notin> set ((p_workers p)[i := w])"
    if "w \<noteq> Blocked" "w \<noteq> Blocking" for w
    using assms(2) that set_update_subset_insert [of "p_workers p" i w] by (auto simp: joining_def)
  have now: "p_workers p ! i \<noteq> Blocking" using assms(2) nth_mem [OF i] by (auto simp: joining_def)
  show ?thesis
  proof (cases "p_workers p ! i")
    case (Sinking ms)
    with step o run set assms(2) show ?thesis
      by (cases ms) (auto simp: joining_def pool_work_def set_worker_def record_event_def)
  next
    case (Draining ms)
    with step o(1,2) o(3) [of 0 "length (p_buffer p)"] run set assms(2) show ?thesis
      by (cases ms) (auto simp: joining_def pool_work_def set_worker_def record_event_def)
  qed (use step o run set now assms(2) in \<open>auto simp: joining_def pool_work_def set_worker_def record_event_def split: if_splits\<close>)
qed

lemma joining_step:
  assumes "pool_control p" and "joining p" and "pool_step l p = Some p'"
  shows "joining p' \<and> pool_work p' < pool_work p"
proof (cases l)
  case (Work i)
  with assms joining_worker show ?thesis by (auto split: if_splits)
next
  case (Spurious i)
  with assms nth_mem show ?thesis by (fastforce simp: joining_def split: if_splits)
next
  case FlushTick
  have "\<not> p_running p" using assms(1,2) by (auto simp: pool_control_def joining_def)
  with FlushTick assms show ?thesis
    by (cases "p_flusher p") (auto simp: joining_def pool_work_def record_event_def)
next
  case Stop
  with assms show ?thesis
    by (cases "p_stop p") (auto simp: joining_def pool_work_def split: if_splits)
qed (use assms in \<open>auto simp: joining_def post_step_def split: if_splits\<close>)

lemma worker_can_step:
  "w \<noteq> WDone \<Longrightarrow> w \<noteq> Blocked \<Longrightarrow> holds_lock w \<or> p_lock p = None \<Longrightarrow> \<exists>p'. worker_step i w p = Some p'"
  by (induction i w p rule: worker_step.induct) auto

lemma joining_not_stuck:
  assumes control: "pool_control p" and join: "joining p" and "p_stop p \<noteq> S_Done"
  shows "\<exists>l p'. pool_step l p = Some p'"
proof (cases "p_flusher p = F_Done \<and> (\<forall>w \<in> set (p_workers p). w = WDone)")
  case True
  with assms show ?thesis by (intro exI [of _ Stop]) (auto simp: joining_def)
next
  case False
  show ?thesis
  proof (cases "p_flusher p = F_Done")
    case True
    with False obtain j where j: "j < length (p_workers p)" "p_workers p ! j \<noteq> WDone" by (auto simp: in_set_conv_nth)
    define i where "i = (case p_lock p of None \<Rightarrow> j | Some k \<Rightarrow> k)"
    have i: "i < length (p_workers p)" using control j by (auto simp: i_def pool_control_def split: option.split)
    then have lock: "holds_lock (p_workers p ! i) \<longleftrightarrow> p_lock p = Some i" using control by (simp add: pool_control_def)
    have "p_workers p ! i \<noteq> WDone" "p_lock p = None \<or> p_lock p = Some i"
      using lock j by (auto simp: i_def split: option.splits)
    moreover have "p_workers p ! i \<noteq> Blocked" using join nth_mem [OF i] by (auto simp: joining_def)
    ultimately have "\<exists>p'. worker_step i (p_workers p ! i) p = Some p'"
      using lock by (intro worker_can_step) auto
    with i show ?thesis by (intro exI [of _ "Work i"]) simp
  next
    case False
    then obtain p' where "flusher_step (p_flusher p) p = Some p'" by (cases "p_flusher p") auto
    then show ?thesis by (intro exI [of _ FlushTick]) simp
  qed
qed


section \<open>The asynchronous logger\<close>

text \<open>
  \<open>enqueueMsg\<close> posts a copy of the message; the moves of the buffer do not change it
  (\<open>moveAsyncMsg_keeps\<close>). \<open>sinkMsgBackend\<close> has the body of \<open>sinkMsg\<close>.
\<close>

definition enqueueMsg :: "log_msg \<Rightarrow> nat option \<Rightarrow> async_msg pool \<Rightarrow> async_msg pool option" where
  "enqueueMsg m woken p = post_step (mkAsyncMsg m) woken p"

definition sinkMsgBackend :: "'d env \<Rightarrow> log_level \<Rightarrow> nat list \<Rightarrow> log_msg \<Rightarrow> 'd world \<Rightarrow> 'd world option" where
  "sinkMsgBackend e flush_level is m w = sinkMsg e flush_level is m w"

text \<open>The calls the pool's threads made, carried out on the logger's sinks.\<close>

fun carry_out :: "'d env \<Rightarrow> log_level \<Rightarrow> nat list \<Rightarrow> async_msg event list \<Rightarrow> 'd world \<Rightarrow> 'd world option" where
  "carry_out e fl is [] w = Some w"
| "carry_out e fl is (ev # evs) w =
     (case (case ev of Sunk a \<Rightarrow> sinkMsgBackend e fl is (am_msg a) w | Flushed \<Rightarrow> lg_flush e is w) of
        None \<Rightarrow> None
      | Some w1 \<Rightarrow> carry_out e fl is evs w1)"

text \<open>The synchronous logger given the same messages: \<open>sinkMsg\<close> for each in turn.\<close>

fun sink_all :: "'d env \<Rightarrow> log_level \<Rightarrow> nat list \<Rightarrow> log_msg list \<Rightarrow> 'd world \<Rightarrow> 'd world option" where
  "sink_all e fl is [] w = Some w"
| "sink_all e fl is (m # ms) w = (case sinkMsg e fl is m w of None \<Rightarrow> None | Some w1 \<Rightarrow> sink_all e fl is ms w1)"

text \<open>Sinks that write to console streams, of either kind; they stay so, and flushing them does nothing.\<close>

definition console_sinks :: "nat list \<Rightarrow> 'd world \<Rightarrow> bool" where
  "console_sinks is w \<longleftrightarrow> (\<forall>i \<in> set is. i < length (w_sinks w) \<and> console_stream (w_sinks w ! i) \<noteq> None)"

lemma consoles_ok_sinks: "consoles_ok e pat is w \<Longrightarrow> console_sinks is w"
  by (simp add: consoles_ok_def console_sinks_def)

lemma flush_console: "console_sinks js w \<Longrightarrow> i \<in> set js \<Longrightarrow> flush_at e i w = Some w"
  by (auto simp: console_sinks_def flush_at_def array_at_def sink_flush_def console_stream_def split: target.splits)

lemma lg_flush_consoles: "console_sinks js w \<Longrightarrow> set is \<subseteq> set js \<Longrightarrow> lg_flush e is w = Some w"
  by (induction "is") (simp_all add: flush_console)

lemma target_write_console:
  "target_write e m l t os = Some (t', os') \<Longrightarrow> \<not> (\<exists>r. t = RotatingFileSink r) \<Longrightarrow> t' = t"
  by (cases t) (auto simp: target_write_def)

lemma sink_log_console:
  assumes "sink_log e m s os = Some (m1, s1, os1)" and "console_stream s \<noteq> None"
  shows "console_stream s1 = console_stream s"
proof -
  have "\<not> (\<exists>r. sk_target s = RotatingFileSink r)" using assms(2) by (auto simp: console_stream_def)
  with assms(1) have "sk_target s1 = sk_target s"
    by (auto simp: sink_log_def dest: target_write_console split: option.splits)
  then show ?thesis by (simp add: console_stream_def)
qed

lemma log_at_console:
  assumes "log_at e m i w = Some (m1, w1)" and "console_sinks js w" and "i \<in> set js"
  shows "console_sinks js w1"
proof -
  have i: "i < length (w_sinks w)" "console_stream (w_sinks w ! i) \<noteq> None"
    using assms(2,3) by (simp_all add: console_sinks_def)
  then obtain s1 os1 where log: "sink_log e m (w_sinks w ! i) (w_os w) = Some (m1, s1, os1)"
      and w1: "w1 = \<lparr>w_sinks = (w_sinks w)[i := s1], w_os = os1\<rparr>"
    using assms(1) by (auto simp: log_at_def array_at_def)
  with sink_log_console [OF log i(2)] assms(2) i show ?thesis
    by (auto simp: console_sinks_def nth_list_update)
qed

lemma sink_one_stays:
  assumes "sink_one e fl m i w = Some (m1, w1)" and "console_sinks js w" and "i \<in> set js"
  shows "console_sinks js w1"
proof -
  have i: "i < length (w_sinks w)" using assms(2,3) by (simp add: console_sinks_def)
  obtain m2 w2 where 2: "(if shouldLog (lm_level m) (w_sinks w ! i) then log_at e m i w else Some (m, w)) = Some (m2, w2)"
      and 1: "(if fl \<le> lm_level m2 then map_option (Pair m2) (flush_at e i w2) else Some (m2, w2)) = Some (m1, w1)"
    using assms(1) i by (auto simp: sink_one_def array_at_def simp del: if_split split: option.splits prod.splits)
  have "console_sinks js w2" using 2 log_at_console [OF _ assms(2,3)] assms(2) by (auto split: if_splits)
  with flush_console [OF this assms(3), of e] 1 show ?thesis by (auto split: if_splits)
qed

lemma sinkMsg_console:
  "sinkMsg e fl is m w = Some w' \<Longrightarrow> console_sinks js w \<Longrightarrow> set is \<subseteq> set js \<Longrightarrow> console_sinks js w'"
  by (induction "is" arbitrary: m w) (auto dest: sink_one_stays split: option.splits)

lemma carry_out_sync:
  "console_sinks is w \<Longrightarrow> carry_out e fl is evs w = sink_all e fl is (map am_msg (sunk evs)) w"
proof (induction evs arbitrary: w)
  case (Cons ev evs)
  then show ?case
    using sinkMsg_console [of e fl "is" _ w _ "is"]
    by (cases ev) (auto simp: sinkMsgBackend_def lg_flush_consoles split: option.split)
qed simp

lemma carry_out_consoles:
  assumes "consoles_ok e pat is w" and "\<not> isColorTerminal e"
    and "\<forall>a \<in> set (sunk evs). \<forall>i \<in> set is. log_line (e_localtime e) (pat i) (am_msg a) \<noteq> None"
  shows "\<exists>w'. carry_out e fl is evs w = Some w' \<and> same_sinks w w' \<and>
    (\<forall>fd. os_streams (w_os w') fd = os_streams (w_os w) fd @ concat (map (\<lambda>a. lines_for e pat w (am_msg a) fd is) (sunk evs)))"
  using assms
proof (induction evs arbitrary: w)
  case Nil
  then show ?case by (simp add: same_sinks_def)
next
  case (Cons ev evs)
  show ?case
  proof (cases ev)
    case (Sunk a)
    then obtain w1 where w1: "sinkMsg e fl is (am_msg a) w = Some w1" "same_sinks w w1" "consoles_ok e pat is w1"
      "\<forall>fd. os_streams (w_os w1) fd = os_streams (w_os w) fd @ lines_for e pat w (am_msg a) fd is"
      using sinkMsg_consoles [OF Cons.prems(1) subset_refl Cons.prems(2), of "am_msg a" fl] Cons.prems(3) by auto
    moreover have "lines_for e pat w1 m fd is = lines_for e pat w m fd is" for m fd
      using Cons.prems(1) by (intro lines_for_same [OF w1(2)]) (auto simp: consoles_ok_def)
    ultimately show ?thesis
      using Cons.IH [of w1] Cons.prems Sunk by (auto simp: sinkMsgBackend_def same_sinks_def)
  next
    case Flushed
    with Cons.IH [of w] Cons.prems lg_flush_consoles [OF consoles_ok_sinks [OF Cons.prems(1)] subset_refl]
    show ?thesis by simp
  qed
qed

section \<open>Properties\<close>

lemma idle_pool: "\<forall>w \<in> set ws. w = WDone \<Longrightarrow> hands ws = {#}"
  by (rule hands_idle) auto

lemma stopped_pool:
  assumes "pool_reach n p" and "0 < n" and "p_stop p = S_Done"
  shows "hands (p_workers p) = {#}" and "waiting p = []" and "n = 1 \<Longrightarrow> p_workers p ! 0 = WDone"
proof -
  have c: "pool_control p" using pool_reach_inv [OF assms(1)] by simp
  with assms(3) have all: "\<forall>w \<in> set (p_workers p). w = WDone" by (simp add: pool_control_def)
  then show "hands (p_workers p) = {#}" by (rule idle_pool)
  have "p_workers p ! 0 \<in> set (p_workers p)" using pool_reach_length [OF assms(1)] assms(2) by simp
  with all have "WDone \<in> set (p_workers p)" and first: "p_workers p ! 0 = WDone" by auto
  with c show "waiting p = []" by (auto simp: waiting_def pool_control_def split: option.split)
  show "n = 1 \<Longrightarrow> p_workers p ! 0 = WDone" using first by simp
qed

text \<open>
  C21: the pool sinks what was posted. At every moment, however its threads interleave, each
  message has been sunk at most as often as it was posted and none that was not; when
  \<open>stop\<close> has returned every one has been sunk, exactly as often as posted.
\<close>

theorem pool_sinks_what_was_posted:
  assumes "pool_reach n p" and "0 < n"
  shows "mset (sunk (p_events p)) \<subseteq># mset (p_posted p) \<and> (p_stop p = S_Done \<longrightarrow> mset (sunk (p_events p)) = mset (p_posted p))"
  using pool_reach_inv [OF assms(1)] stopped_pool [OF assms] by (auto simp: pool_content_def)

lemma one_worker_order:
  assumes "pool_reach 1 p"
  shows "\<exists>rest. p_posted p = sunk (p_events p) @ rest" and "p_stop p = S_Done \<Longrightarrow> sunk (p_events p) = p_posted p"
proof -
  from pool_reach_order [OF assms] show "\<exists>rest. p_posted p = sunk (p_events p) @ rest" by (auto simp: pool_order_def)
  assume "p_stop p = S_Done"
  with stopped_pool [OF assms] pool_reach_order [OF assms] show "sunk (p_events p) = p_posted p" by (simp add: pool_order_def)
qed

text \<open>
  C18: the asynchronous logger prints what the synchronous one would. With one worker and
  sinks that write to console streams, once the pool has stopped, carrying out the calls its
  two threads made, in the order they made them, has the result that \<open>sinkMsg\<close>, the
  synchronous logger's loop, has on the posted messages one after the other in the order
  they were posted: the same streams and sinks, colours included, or the same undefined
  result. If moreover every sink has a formatter of its pattern, the terminal is not a
  colour terminal and every line is defined, that result adds to every console stream
  exactly the lines of the posted messages in that order, each from every sink that admits
  it, and nothing else.
\<close>

theorem async_logger_prints_in_order:
  assumes "pool_reach 1 p" and "p_stop p = S_Done" and "p_posted p = map mkAsyncMsg ms"
    and "console_sinks is w"
  shows "carry_out e fl is (p_events p) w = sink_all e fl is ms w \<and>
    (consoles_ok e pat is w \<and> \<not> isColorTerminal e \<and>
       (\<forall>m \<in> set ms. \<forall>i \<in> set is. log_line (e_localtime e) (pat i) m \<noteq> None) \<longrightarrow>
     (\<exists>w'. carry_out e fl is (p_events p) w = Some w' \<and>
       (\<forall>fd. os_streams (w_os w') fd = os_streams (w_os w) fd @ concat (map (\<lambda>m. lines_for e pat w m fd is) ms))))"
proof -
  have sunk: "sunk (p_events p) = map mkAsyncMsg ms" using one_worker_order(2) [OF assms(1,2)] assms(3) by simp
  have "carry_out e fl is (p_events p) w = sink_all e fl is ms w"
    using carry_out_sync [OF assms(4)] by (simp add: sunk mkAsyncMsg_keeps comp_def)
  with carry_out_consoles [of e pat "is" w "p_events p" fl] show ?thesis
    by (auto simp: sunk mkAsyncMsg_keeps comp_def)
qed

lemma joining_run:
  "pool_control p \<Longrightarrow> pool_content p \<Longrightarrow> joining p \<Longrightarrow> pool_run ls p = Some p' \<Longrightarrow>
     pool_control p' \<and> joining p' \<and> length ls + pool_work p' \<le> pool_work p"
proof (induction ls arbitrary: p)
  case (Cons l ls)
  then obtain p1 where p1: "pool_step l p = Some p1" "pool_run ls p1 = Some p'" by (auto split: option.splits)
  with Cons.IH [of p1] pool_step_inv [OF Cons.prems(1,2) p1(1)] joining_step [OF Cons.prems(1,3) p1(1)] show ?case by auto
qed simp

text \<open>
  C32: \<open>stop\<close> returns, if no worker waits or is about to wait when its notification is past.
  Then the threads take at most \<open>pool_work\<close> further steps in any order, and are never stuck
  before \<open>stop\<close> is done.
\<close>

theorem stop_returns:
  assumes "pool_reach n p" and "p_stop p = S_Join" and "Blocked \<notin> set (p_workers p)" and "Blocking \<notin> set (p_workers p)"
    and "pool_run ls p = Some p'"
  shows "length ls \<le> pool_work p \<and> (p_stop p' = S_Done \<or> (\<exists>l p''. pool_step l p' = Some p''))"
proof -
  have "joining p" using assms(2-4) by (simp add: joining_def)
  with joining_run [of p ls p'] pool_reach_inv [OF assms(1)] assms(5)
  have "pool_control p' \<and> joining p' \<and> length ls + pool_work p' \<le> pool_work p" by simp
  then show ?thesis using joining_not_stuck [of p'] by auto
qed

definition lost_wakeup :: "'m label list" where
  "lost_wakeup = [Work 0, Work 0, Work 0, Stop, Stop, Work 0, Stop, FlushTick]"

text \<open>
  C35: \<open>stop\<close> may hang for ever. It clears \<open>running_\<close> and notifies without the mutex: a worker
  that has just found the flag set and the buffer empty, and is not yet waiting, misses the
  notification. In the state that follows only a spurious wake-up could make any thread
  go on, and \<open>stop\<close>, the destructor, waits for that worker.
\<close>

theorem stop_can_hang:
  "\<exists>p :: 'm pool. pool_run lost_wakeup (new_pool 1) = Some p \<and> p_stop p = S_Join \<and>
     (\<forall>l. l \<in> range Spurious \<or> pool_step l p = None)"
proof -
  let ?p = "\<lparr>p_running = False, p_buffer = [], p_lock = None, p_workers = [Blocked], p_flusher = F_Done,
     p_stop = S_Join, p_posted = [], p_events = []\<rparr> :: 'm pool"
  have "pool_run lost_wakeup (new_pool 1) = Some ?p"
    by (simp add: lost_wakeup_def new_pool_def set_worker_def)
  moreover have "l \<in> range Spurious \<or> pool_step l ?p = None" for l
    by (cases l) (auto simp: post_step_def)
  ultimately show ?thesis by (intro exI [of _ ?p]) simp
qed


section \<open>Applied\<close>

text \<open>One worker: two messages, the second after the worker has taken the first; then \<open>stop\<close>.\<close>

definition sample_run :: "'m \<Rightarrow> 'm \<Rightarrow> 'm label list" where
  "sample_run a b = [Post a None, Work 0, Work 0, Work 0, Work 0, Post b None, Work 0, Work 0, Stop, Work 0, Work 0,
     Work 0, Work 0, Stop, Stop, FlushTick, Stop]"

definition sample_stopped :: "'m \<Rightarrow> 'm \<Rightarrow> 'm pool" where
  "sample_stopped a b = \<lparr>p_running = False, p_buffer = [], p_lock = None, p_workers = [WDone], p_flusher = F_Done,
     p_stop = S_Done, p_posted = [a, b], p_events = [Sunk a, Sunk b, Flushed]\<rparr>"

lemma sample_reached: "pool_reach 1 (sample_stopped a b)"
proof (rule pool_run_reach [OF pool_reach.start])
  show "pool_run (sample_run a b) (new_pool 1) = Some (sample_stopped a b)"
    by (simp add: sample_run_def sample_stopped_def new_pool_def set_worker_def record_event_def post_step_def)
qed

lemma pool_sinks_what_was_posted_witness:
  "mset (sunk (p_events (sample_stopped 1 (2 :: nat)))) \<subseteq># mset (p_posted (sample_stopped 1 (2 :: nat))) \<and>
   mset (sunk (p_events (sample_stopped 1 (2 :: nat)))) = mset (p_posted (sample_stopped 1 (2 :: nat)))"
  using pool_sinks_what_was_posted [OF sample_reached [of 1 "2 :: nat"]] by (simp add: sample_stopped_def)

lemma async_logger_prints_in_order_witness:
  "carry_out (sample_env (Some ''xterm'')) LWARN [0, 1, 2] (p_events (sample_stopped (mkAsyncMsg (sample_msg ''a'')) (mkAsyncMsg (sample_msg ''b'')))) sample_world =
     sink_all (sample_env (Some ''xterm'')) LWARN [0, 1, 2] [sample_msg ''a'', sample_msg ''b''] sample_world \<and>
   (\<exists>w'. carry_out (sample_env None) LWARN [0, 1, 2] (p_events (sample_stopped (mkAsyncMsg (sample_msg ''a'')) (mkAsyncMsg (sample_msg ''b'')))) sample_world = Some w' \<and>
    (\<forall>fd. os_streams (w_os w') fd = os_streams (w_os sample_world) fd @
       concat (map (\<lambda>m. lines_for (sample_env None) sample_pat sample_world m fd [0, 1, 2]) [sample_msg ''a'', sample_msg ''b''])))"
proof -
  have stopped: "p_stop (sample_stopped (mkAsyncMsg (sample_msg ''a'')) (mkAsyncMsg (sample_msg ''b''))) = S_Done"
    and posted: "p_posted (sample_stopped (mkAsyncMsg (sample_msg ''a'')) (mkAsyncMsg (sample_msg ''b''))) = map mkAsyncMsg [sample_msg ''a'', sample_msg ''b'']"
    by (simp_all add: sample_stopped_def)
  have ok: "consoles_ok (sample_env None) sample_pat [0, 1, 2] sample_world"
    by (simp add: consoles_ok_def sample_world_def sink_setPattern_def sink_setLevel_def new_sink_def sample_pat_def console_stream_def)
  have plain: "\<not> isColorTerminal (sample_env None)" by (simp add: isColorTerminal_def sample_env_def)
  have "list_all (\<lambda>m. list_all (\<lambda>i. log_line (e_localtime (sample_env None)) (sample_pat i) m \<noteq> None) [0, 1, 2]) [sample_msg ''a'', sample_msg ''b'']"
    by code_simp
  then have lines: "\<forall>m \<in> set [sample_msg ''a'', sample_msg ''b'']. \<forall>i \<in> set [0, 1, 2]. log_line (e_localtime (sample_env None)) (sample_pat i) m \<noteq> None"
    by simp
  note sync = async_logger_prints_in_order [OF sample_reached stopped posted consoles_ok_sinks [OF ok]]
  show ?thesis
    by (intro conjI sync [THEN conjunct1] sync [THEN conjunct2, rule_format, OF conjI [OF ok conjI [OF plain lines]]])
qed

definition sample_joining :: "nat pool" where
  "sample_joining = (new_pool 1)\<lparr>p_running := False, p_stop := S_Join\<rparr>"

lemma stop_returns_witness:
  "length [Work 0, Work 0, FlushTick, Stop] \<le> pool_work sample_joining \<and>
   pool_run [Work 0, Work 0, FlushTick, Stop] sample_joining = Some (sample_joining\<lparr>p_workers := [WDone], p_flusher := F_Done, p_stop := S_Done\<rparr>)"
proof -
  have "pool_run [Stop, Stop, Stop] (new_pool 1) = Some sample_joining"
    by (simp add: sample_joining_def new_pool_def)
  from pool_run_reach [OF pool_reach.start this] have reach: "pool_reach 1 sample_joining" .
  have run: "pool_run [Work 0, Work 0, FlushTick, Stop] sample_joining
      = Some (sample_joining\<lparr>p_workers := [WDone], p_flusher := F_Done, p_stop := S_Done\<rparr>)"
    by (simp add: sample_joining_def new_pool_def set_worker_def)
  from stop_returns [OF reach _ _ _ run] run show ?thesis by (simp add: sample_joining_def new_pool_def)
qed

end
