(* ===== verification/Convergence.thy ===== *)
theory Convergence
  imports DiscoveryThms
begin

text \<open>
  What the heartbeat repairs and what it does not: two processes whose datagrams may be lost,
  repeated and reordered. Lemmas are for both endpoint classes, the properties for messages.
\<close>

section \<open>Hearing a heartbeat\<close>

text \<open>The datagrams a process' heartbeat multicasts, whenever it is due.\<close>

definition heartbeat_msgs :: "'a pub_info_scheme pub_class \<Rightarrow> 'a pub_info_scheme disc \<Rightarrow> disc_msg set" where
  "heartbeat_msgs C a = {m. \<exists>now now2. Multicast m \<in> set (snd (updateHeartbeat C now now2 a))}"

definition hears ::
  "'a pub_info_scheme pub_class \<Rightarrow> string \<Rightarrow> (disc_msg \<times> int) list \<Rightarrow> 'a pub_info_scheme disc \<Rightarrow> 'a pub_info_scheme disc" where
  "hears C ip xs d = fold (\<lambda>(m, t) d. fst (dispatch C ip m t d)) xs d"

text \<open>The endpoints of a process another one knows, by key, and all it knows of others.\<close>

definition known_keys :: "string \<Rightarrow> 'a pub_info_scheme disc \<Rightarrow> (string \<times> string \<times> string \<times> string) set" where
  "known_keys u d = pub_key ` {q \<in> ts_view (d_pubs d). p_proc q = u}"

definition others :: "string \<Rightarrow> 'a pub_info_scheme disc \<Rightarrow> 'a pub_info_scheme set" where
  "others u d = {q \<in> ts_view (d_pubs d). p_proc q \<noteq> u}"

text \<open>The endpoints of \<open>a\<close> that a process reached over \<open>ip\<close> accepts.\<close>

definition offered ::
  "'a pub_info_scheme pub_class \<Rightarrow> 'a pub_info_scheme disc \<Rightarrow> bool \<Rightarrow> 'a pub_info_scheme set" where
  "offered C a near = {p \<in> ts_view (d_pubs a). p_proc p = d_proc a \<and> \<not> out_of_scope (pc_scope C p) near}"

text \<open>
  A history of a process b in which nothing arrives but datagrams of a's heartbeats, in any
  order, lost or repeated, between the ticks of b's own timers; \<open>heard\<close> is when the last one
  arrived. It is punctual if at no activity tick more than the silence interval, in
  milliseconds, has passed since then. Both read the history alone, not b's state.
\<close>

fun heard :: "int \<Rightarrow> 'p disc_op list \<Rightarrow> int" where
  "heard t0 [] = t0"
| "heard t0 (ORecv ip m t # ops) = heard t ops"
| "heard t0 (op # ops) = heard t0 ops"

fun punctual :: "'a pub_info_scheme pub_class \<Rightarrow> 'a pub_info_scheme disc \<Rightarrow> int \<Rightarrow> int \<Rightarrow> 'a pub_info_scheme disc_op list \<Rightarrow> bool" where
  "punctual C a silence t0 [] = True"
| "punctual C a silence t0 (ORecv ip m t # ops) = (m \<in> heartbeat_msgs C a \<and> punctual C a silence t ops)"
| "punctual C a silence t0 (OActivity now now2 # ops) = (to_ms (now - t0) \<le> silence \<and> punctual C a silence t0 ops)"
| "punctual C a silence t0 (OHeartbeat now now2 # ops) = punctual C a silence t0 ops"
| "punctual C a silence t0 (op # ops) = False"

lemma dispatch_silence [simp]: "d_silence (fst (dispatch C ip m now d)) = d_silence d"
  by (cases "dm_type m") (simp_all add: dispatch_def Let_def split_def split: option.split)

lemma image_single: "x \<in> A \<Longrightarrow> \<forall>y \<in> A. f y = c \<Longrightarrow> f ` A = {c}"
  by (auto simp: image_def)

context endpoint_class
begin

lemma heartbeat_msgs_eq:
  assumes "ts_wf (d_pubs a)"
  shows "heartbeat_msgs C a = insert (fillDiscovery (mkPublisherInfo [] [] (d_proc a) [] new_opts) (header HEARTBEAT a))
     ((\<lambda>p. pc_fill C p (header ADVERTISE a)) `
        {p \<in> ts_view (d_pubs a). p_proc p = d_proc a \<and> pc_scope C p \<noteq> SCOPE_PROCESS})" (is "_ = ?M")
proof -
  have due: "Multicast m \<in> set (snd (updateHeartbeat C now now2 a)) \<longleftrightarrow> m \<in> ?M" if "d_next_hb a \<le> now" for m now now2
    unfolding heartbeat_set [OF assms that] by auto
  have idle: "snd (updateHeartbeat C now now2 a) = []" if "\<not> d_next_hb a \<le> now" for now now2
    using that by (simp add: updateHeartbeat_def)
  show ?thesis
  proof (rule set_eqI, rule iffI)
    fix m assume "m \<in> heartbeat_msgs C a"
    then obtain now now2 where n: "Multicast m \<in> set (snd (updateHeartbeat C now now2 a))"
      by (auto simp: heartbeat_msgs_def)
    then have "d_next_hb a \<le> now" using idle [of now now2] by (cases "d_next_hb a \<le> now") simp_all
    then show "m \<in> ?M" using due n by blast
  next
    fix m assume "m \<in> ?M"
    then have "Multicast m \<in> set (snd (updateHeartbeat C (d_next_hb a) 0 a))" using due [of "d_next_hb a"] by blast
    then show "m \<in> heartbeat_msgs C a" unfolding heartbeat_msgs_def by blast
  qed
qed

text \<open>What is known after a publisher has been added.\<close>

lemma added_keys:
  assumes "ts_wf (d_pubs b)" "p_proc q = u" "d_pubs b' = fst (addPublisher q (d_pubs b))"
  shows "known_keys u b' = insert (pub_key q) (known_keys u b)" "others u b' = others u b"
    "ts_view (d_pubs b) \<subseteq> ts_view (d_pubs b')"
proof -
  have v: "ts_view (d_pubs b') = (if \<exists>r \<in> ts_view (d_pubs b). pub_key r = pub_key q then ts_view (d_pubs b)
      else insert q (ts_view (d_pubs b)))"
    using ts_view_add [OF assms(1), of q] by (simp add: assms(3))
  show "known_keys u b' = insert (pub_key q) (known_keys u b)"
  proof (cases "\<exists>r \<in> ts_view (d_pubs b). pub_key r = pub_key q")
    case True
    then obtain r where r: "r \<in> ts_view (d_pubs b)" "pub_key r = pub_key q" by blast
    then have "p_proc r = u" using assms(2) by (simp add: pub_key_def)
    then have "pub_key q \<in> known_keys u b"
      using r unfolding known_keys_def by (metis (mono_tags, lifting) image_eqI mem_Collect_eq)
    then show ?thesis using v True by (auto simp: known_keys_def)
  next
    case False
    then show ?thesis using v assms(2) by (auto simp: known_keys_def)
  qed
  show "others u b' = others u b" using v assms(2) by (auto simp: others_def)
  show "ts_view (d_pubs b) \<subseteq> ts_view (d_pubs b')" using v by auto
qed

text \<open>One datagram of it, received.\<close>

lemma hear_advertise:
  assumes "disc_ok wf a" "disc_ok wf b" "d_proc b \<noteq> d_proc a" and b'_def: "b' = fst (dispatch C ip m t b)"
    and p: "p \<in> ts_view (d_pubs a)" "p_proc p = d_proc a" "m = pc_fill C p (header ADVERTISE a)"
  shows "d_proc b' = d_proc b \<and> is_sender_local ip b' = is_sender_local ip b \<and>
    ts_view (d_pubs b) \<subseteq> ts_view (d_pubs b') \<and> map_of (d_seen b') (d_proc a) = Some t \<and>
    others (d_proc a) b' = others (d_proc a) b \<and>
    known_keys (d_proc a) b' = known_keys (d_proc a) b \<union>
      pub_key ` {p \<in> offered C a (is_sender_local ip b). m = pc_fill C p (header ADVERTISE a)}"
proof -
  have tsb: "ts_wf (d_pubs b)" using assms(2) by (simp add: disc_ok_def)
  have good: "wf p" if "p \<in> ts_view (d_pubs a)" for p using assms(1) that by (simp add: disc_ok_def)
  define q where "q = pc_set C m (pc_new C)"
  have u: "dm_process_uuid m = d_proc a" "dm_type m = ADVERTISE" by (simp_all add: p(3) fill_uuid fill_type)
  have key: "pub_key q = pub_key p' \<and> pc_scope C q = pc_scope C p'"
    if "p' \<in> ts_view (d_pubs a)" "p_proc p' = d_proc a" "m = pc_fill C p' (header ADVERTISE a)" for p'
    using transfer [OF good [OF that(1)], of "header ADVERTISE a"] that(2) by (simp add: q_def that(3))
  note k = key [OF p]
  have proc: "p_proc q = d_proc a" using k p(2) by (simp add: pub_key_def)
  have b': "b' = (if out_of_scope (pc_scope C p) (is_sender_local ip b) then seen_by m t b
      else (seen_by m t b)\<lparr>d_pubs := fst (addPublisher q (d_pubs b))\<rparr>)"
    using dispatch_advertise [of m b C ip t] u assms(3) k by (simp add: b'_def q_def)
  let ?ps = "{p \<in> offered C a (is_sender_local ip b). m = pc_fill C p (header ADVERTISE a)}"
  have same: "d_proc b' = d_proc b" "is_sender_local ip b' = is_sender_local ip b" "map_of (d_seen b') (d_proc a) = Some t"
    using u(1) by (simp_all add: b' is_sender_local_def)
  show ?thesis
  proof (cases "out_of_scope (pc_scope C p) (is_sender_local ip b)")
    case True
    have ps: "?ps = {}"
    proof -
      have "out_of_scope (pc_scope C p') (is_sender_local ip b)"
        if "p' \<in> ts_view (d_pubs a)" "p_proc p' = d_proc a" "m = pc_fill C p' (header ADVERTISE a)" for p'
        using key [OF that] k True by simp
      then show ?thesis by (auto simp: offered_def)
    qed
    moreover have "d_pubs b' = d_pubs b" using True by (simp add: b')
    ultimately show ?thesis using same unfolding ps by (simp add: known_keys_def others_def)
  next
    case False
    have pubs: "d_pubs b' = fst (addPublisher q (d_pubs b))" using False by (simp add: b')
    have "p \<in> ?ps" using False p by (simp add: offered_def)
    moreover have "\<forall>p' \<in> ?ps. pub_key p' = pub_key q"
      using key by (auto simp: offered_def)
    ultimately have ps: "pub_key ` ?ps = {pub_key q}"
      by (rule image_single)
    show ?thesis
      unfolding ps added_keys [OF tsb proc pubs] using same added_keys(3) [OF tsb proc pubs] by simp
  qed
qed

lemma hear_one:
  assumes "disc_ok wf a" "disc_ok wf b" "d_proc b \<noteq> d_proc a" "m \<in> heartbeat_msgs C a"
    and b'_def: "b' = fst (dispatch C ip m t b)"
  shows "disc_ok wf b' \<and> d_proc b' = d_proc b \<and> is_sender_local ip b' = is_sender_local ip b \<and>
    ts_view (d_pubs b) \<subseteq> ts_view (d_pubs b') \<and> map_of (d_seen b') (d_proc a) = Some t \<and>
    others (d_proc a) b' = others (d_proc a) b \<and>
    known_keys (d_proc a) b' = known_keys (d_proc a) b \<union>
      pub_key ` {p \<in> offered C a (is_sender_local ip b). m = pc_fill C p (header ADVERTISE a)}"
proof -
  have ok: "disc_ok wf b'" using ok_dispatch [OF assms(2)] by (simp add: b'_def)
  have tsa: "ts_wf (d_pubs a)" using assms(1) by (simp add: disc_ok_def)
  consider (hb) "m = fillDiscovery (mkPublisherInfo [] [] (d_proc a) [] new_opts) (header HEARTBEAT a)"
    | (adv) p where "p \<in> ts_view (d_pubs a)" "p_proc p = d_proc a" "pc_scope C p \<noteq> SCOPE_PROCESS"
        "m = pc_fill C p (header ADVERTISE a)"
    using assms(4) unfolding heartbeat_msgs_eq [OF tsa] by blast
  then show ?thesis
  proof cases
    case hb
    have u: "dm_process_uuid m = d_proc a" "dm_type m = HEARTBEAT" by (simp_all add: hb fillDiscovery_def pb_defs)
    have "b' = seen_by m t b"
      using dispatch_other [of m b C ip t] u assms(3) by (simp add: b'_def)
    moreover have "m \<noteq> pc_fill C p (header ADVERTISE a)" for p
      using u(2) fill_type [of p "header ADVERTISE a"] by auto
    ultimately show ?thesis
      using u(1) ok by (simp add: known_keys_def others_def is_sender_local_def)
  next
    case adv
    then show ?thesis using hear_advertise [OF assms(1,2,3) b'_def, of p] ok by simp
  qed
qed

lemma hear_all:
  assumes "disc_ok wf a" "disc_ok wf b" "d_proc b \<noteq> d_proc a" "fst ` set xs \<subseteq> heartbeat_msgs C a"
  shows "ts_view (d_pubs b) \<subseteq> ts_view (d_pubs (hears C ip xs b)) \<and> others (d_proc a) (hears C ip xs b) = others (d_proc a) b \<and>
    known_keys (d_proc a) (hears C ip xs b) = known_keys (d_proc a) b \<union>
      pub_key ` {p \<in> offered C a (is_sender_local ip b). pc_fill C p (header ADVERTISE a) \<in> fst ` set xs}"
  using assms(2-4)
proof (induction xs arbitrary: b)
  case Nil
  then show ?case by (simp add: hears_def)
next
  case (Cons x xs)
  obtain m t where x: "x = (m, t)" by fastforce
  define b' where "b' = fst (dispatch C ip m t b)"
  have one: "disc_ok wf b' \<and> d_proc b' = d_proc b \<and> is_sender_local ip b' = is_sender_local ip b \<and>
    ts_view (d_pubs b) \<subseteq> ts_view (d_pubs b') \<and> map_of (d_seen b') (d_proc a) = Some t \<and>
    others (d_proc a) b' = others (d_proc a) b \<and>
    known_keys (d_proc a) b' = known_keys (d_proc a) b \<union>
      pub_key ` {p \<in> offered C a (is_sender_local ip b). m = pc_fill C p (header ADVERTISE a)}"
    using hear_one [OF assms(1) Cons.prems(1,2) _ b'_def] Cons.prems(3) x by simp
  have "hears C ip (x # xs) b = hears C ip xs b'" by (simp add: hears_def x b'_def)
  moreover have "pub_key ` {p \<in> offered C a n. pc_fill C p (header ADVERTISE a) \<in> fst ` set (x # xs)} =
      pub_key ` {p \<in> offered C a n. m = pc_fill C p (header ADVERTISE a)} \<union>
      pub_key ` {p \<in> offered C a n. pc_fill C p (header ADVERTISE a) \<in> fst ` set xs}" for n
    by (auto simp: x)
  ultimately show ?case
    using Cons.IH [of b'] one Cons.prems by (auto simp: Un_assoc)
qed

lemma heartbeat_complete:
  assumes "ts_wf (d_pubs a)" "heartbeat_msgs C a \<subseteq> fst ` set xs"
  shows "{p \<in> offered C a n. pc_fill C p (header ADVERTISE a) \<in> fst ` set xs} = offered C a n"
  using assms(2) unfolding heartbeat_msgs_eq [OF assms(1)] by (auto simp: offered_def out_of_scope_def)

lemma punctual_step:
  assumes "disc_ok wf a" "disc_ok wf b" "d_proc b \<noteq> d_proc a" "map_of (d_seen b) (d_proc a) = Some t0"
    and "punctual C a (int (unat (d_silence b))) t0 (op # ops)" and b'_def: "b' = fst (disc_op C op b)"
    and "p \<in> ts_view (d_pubs b)" "p_proc p = d_proc a"
  shows "disc_ok wf b' \<and> d_proc b' = d_proc b \<and> d_silence b' = d_silence b \<and> p \<in> ts_view (d_pubs b') \<and>
    map_of (d_seen b') (d_proc a) = Some (heard t0 [op]) \<and>
    punctual C a (int (unat (d_silence b))) (heard t0 [op]) ops"
proof (cases op)
  case (ORecv ip m t)
  then have "m \<in> heartbeat_msgs C a" using assms(5) by simp
  from hear_one [OF assms(1-3) this refl, of ip t] show ?thesis
    using assms(5,7) by (auto simp: b'_def ORecv disc_op_def)
next
  case (OActivity now now2)
  have b': "b' = fst (updateActivity C now now2 b)" by (simp add: b'_def OActivity disc_op_def)
  have fresh: "\<not> expired now b t0" using assms(5) by (simp add: OActivity expired_def)
  have "p \<in> ts_view (d_pubs b') \<and> map_of (d_seen b') (d_proc a) = Some t0"
  proof (cases "d_next_act b \<le> now")
    case True
    then show ?thesis
      using activity_tick(1) [OF assms(2) True, of now2] activity_tick(2) [OF assms(2) True, of now2 "d_proc a"]
        assms(4,7,8) fresh by (simp add: b')
  next
    case False
    then show ?thesis using assms(4,7) by (simp add: b' updateActivity_def)
  qed
  moreover have "d_proc b' = d_proc b" "d_silence b' = d_silence b" by (simp_all add: b' updateActivity_def split_def)
  ultimately show ?thesis
    using ok_activity [OF assms(2), of now now2] assms(5) by (simp add: b' OActivity)
next
  case (OHeartbeat now now2)
  have "d_proc b' = d_proc b" "d_silence b' = d_silence b" "d_pubs b' = d_pubs b" "d_seen b' = d_seen b"
    by (simp_all add: b'_def OHeartbeat disc_op_def updateHeartbeat_def)
  then show ?thesis using assms(2,4,5,7) by (simp add: OHeartbeat disc_ok_def)
qed (use assms(5) in simp_all)

lemma heard_Cons: "heard t0 (op # ops) = heard (heard t0 [op]) ops"
  by (cases op) simp_all

lemma punctual_keeps:
  assumes "disc_ok wf a" "disc_ok wf b" "d_proc b \<noteq> d_proc a" "map_of (d_seen b) (d_proc a) = Some t0"
    and "punctual C a (int (unat (d_silence b))) t0 ops" "p \<in> ts_view (d_pubs b)" "p_proc p = d_proc a"
  shows "p \<in> ts_view (d_pubs (fst (disc_run C ops b))) \<and>
    map_of (d_seen (fst (disc_run C ops b))) (d_proc a) = Some (heard t0 ops)"
  using assms(2-6)
proof (induction ops arbitrary: b t0)
  case (Cons op ops)
  define b' where "b' = fst (disc_op C op b)"
  note step = punctual_step [OF assms(1) Cons.prems(1-4) b'_def Cons.prems(5) assms(7)]
  have "fst (disc_run C (op # ops) b) = fst (disc_run C ops b')" by (simp add: b'_def split_def Let_def)
  then show ?case
    using Cons.IH [of b' "heard t0 [op]"] step Cons.prems(2) heard_Cons [of t0 op ops] by simp
qed simp

end

section \<open>Lost announcements\<close>

text \<open>
  C29: a heartbeat repairs every lost announcement. When all datagrams of one heartbeat of a
  process reach another one, in any order and any number of times, the receiver knows of
  each of the sender's endpoints that is meant for it, whatever it missed before; it forgets
  none, invents none, and its knowledge of every other process is as before.
\<close>

theorem heartbeat_converges:
  assumes "disc_ok msg_pub_wf a" "disc_ok msg_pub_wf b" "d_proc b \<noteq> d_proc a"
    and "fst ` set xs = heartbeat_msgs msg_class a"
  shows "known_keys (d_proc a) (hears msg_class ip xs b) = known_keys (d_proc a) b \<union>
      pub_key ` {p \<in> ts_view (d_pubs a). p_proc p = d_proc a \<and>
        (opt_scope (m_opts p) = SCOPE_ALL \<or> opt_scope (m_opts p) = SCOPE_HOST \<and> is_sender_local ip b)} \<and>
    others (d_proc a) (hears msg_class ip xs b) = others (d_proc a) b"
proof -
  have "ts_wf (d_pubs a)" using assms(1) by (simp add: disc_ok_def)
  note all = mc.heartbeat_complete [OF this equalityD2 [OF assms(4)]]
  have "offered msg_class a (is_sender_local ip b) = {p \<in> ts_view (d_pubs a). p_proc p = d_proc a \<and>
      (opt_scope (m_opts p) = SCOPE_ALL \<or> opt_scope (m_opts p) = SCOPE_HOST \<and> is_sender_local ip b)}"
    by (simp add: offered_def msg_class_def in_scope)
  then show ?thesis
    using mc.hear_all [OF assms(1-3) equalityD1 [OF assms(4)], of ip] unfolding all by simp
qed

lemma unadvertise_view:
  assumes "ts_wf (d_pubs a)" "d_enabled a" "disc_unadvertise C t n a = (a', es, ok)"
  shows "ts_view (d_pubs a') = {p \<in> ts_view (d_pubs a). \<not> (p_topic p = t \<and> p_proc p = d_proc a \<and> p_node p = n)}"
proof (cases "getPublisher t (d_proc a) n (d_pubs a)")
  case None
  then have "a' = a" using assms(2,3) by (simp add: disc_unadvertise_def)
  then show ?thesis using None getPublisher_None [OF assms(1)] by blast
next
  case (Some pub)
  then have "d_pubs a' = fst (delPublishersByNode t (d_proc a) n (d_pubs a))"
    using assms(2,3) by (auto simp: disc_unadvertise_def)
  then show ?thesis using ts_view_delNode [OF assms(1)] by simp
qed

text \<open>What a heartbeat advertises the process has.\<close>

lemma heartbeat_advertises:
  assumes "disc_ok msg_pub_wf a" "m \<in> heartbeat_msgs msg_class a" "dm_type m = ADVERTISE"
  shows "\<exists>q \<in> ts_view (d_pubs a). p_proc q = d_proc a \<and>
    p_topic (setFromDiscovery_msg m x) = p_topic q \<and> p_node (setFromDiscovery_msg m x) = p_node q"
proof -
  have ts: "ts_wf (d_pubs a)" and wf: "\<And>q. q \<in> ts_view (d_pubs a) \<Longrightarrow> msg_pub_wf q"
    using assms(1) by (simp_all add: disc_ok_def)
  have "dm_type (fillDiscovery p (header HEARTBEAT a)) = HEARTBEAT" for p :: "unit pub_info_scheme"
    by (simp add: fillDiscovery_def pb_defs)
  then obtain q where q: "q \<in> ts_view (d_pubs a)" "p_proc q = d_proc a" "m = fillDiscovery_msg q (header ADVERTISE a)"
    using assms(2,3) unfolding mc.heartbeat_msgs_eq [OF ts] by (auto simp: msg_class_def)
  have "setFromDiscovery_msg m x = q\<lparr>p_pname := d_pname a\<rparr>"
    using msg_roundtrip [OF wf [OF q(1)], of "header ADVERTISE a" x] q(2,3) by simp
  then show ?thesis using q(1,2) by auto
qed

text \<open>
  C30: a lost UNADVERTISE is never repaired while its sender lives. Process a withdraws an
  endpoint that process b knows and the datagram is lost. From then on a no longer has the
  endpoint and no datagram of its heartbeats advertises it, but each of them renews a as a
  whole: b takes the time it arrives for a's last-seen time. So after any number of them, and
  of ticks of b's timers, b still knows the endpoint, if only at every activity tick the time
  since the last of them arrived is within the silence interval.
\<close>

theorem lost_unadvertise_stays:
  assumes "disc_ok msg_pub_wf a" "disc_unadvertise msg_class t n a = (a', es, ok)" "d_enabled a"
    and "disc_ok msg_pub_wf b" "d_proc b \<noteq> d_proc a" "p \<in> ts_view (d_pubs b)" "p_proc p = d_proc a" "p_topic p = t" "p_node p = n"
    and "map_of (d_seen b) (d_proc a) = Some t0" "punctual msg_class a' (int (unat (d_silence b))) t0 ops"
  shows "\<not> (\<exists>q \<in> ts_view (d_pubs a'). p_topic q = t \<and> p_proc q = d_proc a \<and> p_node q = n) \<and>
    \<not> (\<exists>m x. m \<in> heartbeat_msgs msg_class a' \<and> dm_type m = ADVERTISE \<and>
       p_topic (setFromDiscovery_msg m x) = t \<and> p_node (setFromDiscovery_msg m x) = n) \<and>
    p \<in> ts_view (d_pubs (fst (disc_run msg_class ops b))) \<and>
    map_of (d_seen (fst (disc_run msg_class ops b))) (d_proc a) = Some (heard t0 ops)"
proof -
  have ts: "ts_wf (d_pubs a)" using assms(1) by (simp add: disc_ok_def)
  have a': "disc_ok msg_pub_wf a'" "d_proc a' = d_proc a"
    using mc.ok_unadvertise [OF assms(1), of t n] assms(2)
    by (simp_all, auto simp: disc_unadvertise_def split: if_splits option.splits)
  have gone: "\<not> (\<exists>q \<in> ts_view (d_pubs a'). p_topic q = t \<and> p_proc q = d_proc a \<and> p_node q = n)"
    unfolding unadvertise_view [OF ts assms(3,2)] by blast
  moreover have "\<not> (\<exists>m x. m \<in> heartbeat_msgs msg_class a' \<and> dm_type m = ADVERTISE \<and>
      p_topic (setFromDiscovery_msg m x) = t \<and> p_node (setFromDiscovery_msg m x) = n)"
    using heartbeat_advertises [OF a'(1)] gone a'(2) by metis
  moreover have "p \<in> ts_view (d_pubs (fst (disc_run msg_class ops b))) \<and>
      map_of (d_seen (fst (disc_run msg_class ops b))) (d_proc a) = Some (heard t0 ops)"
    using mc.punctual_keeps [OF a'(1) assms(4) _ _ assms(11,6)] a'(2) assms(5,7,10) by simp
  ultimately show ?thesis by blast
qed

definition chat_known :: "string \<Rightarrow> msg_pub disc" where
  "chat_known u = (node_disc u ''10.0.0.1'')\<lparr>d_pubs := fst (addPublisher (sample_pub ''t'' SCOPE_ALL) [])\<rparr>"

lemma chat_known_simps [simp]:
  "disc_ok msg_pub_wf (chat_known u)" "ts_view (d_pubs (chat_known u)) = {sample_pub ''t'' SCOPE_ALL}"
  "d_proc (chat_known u) = u" "d_enabled (chat_known u)" "d_seen (chat_known u) = []"
  "ts_wf (d_pubs (chat_known u))"
  using ts_wf_add [of "[]" "sample_pub ''t'' SCOPE_ALL"]
  by (simp_all add: chat_known_def ok_single view_single)

theorem heartbeat_converges_witness:
  "pub_key (sample_pub ''t'' SCOPE_ALL) \<in> known_keys ''uA'' (hears msg_class ''10.0.0.1''
     [(fillDiscovery_msg (sample_pub ''t'' SCOPE_ALL) (header ADVERTISE (chat_known ''uA'')), 5),
      (fillDiscovery (mkPublisherInfo [] [] ''uA'' [] new_opts) (header HEARTBEAT (chat_known ''uA'')), 4)]
     (node_disc ''uB'' ''10.0.0.2''))"
proof -
  let ?p = "sample_pub ''t'' SCOPE_ALL" and ?a = "chat_known ''uA''"
  have "{p \<in> {?p}. p_proc p = ''uA'' \<and> opt_scope (m_opts p) \<noteq> SCOPE_PROCESS} = {?p}" by (auto simp: sample_pub_def)
  then have "heartbeat_msgs msg_class ?a =
      {fillDiscovery (mkPublisherInfo [] [] ''uA'' [] new_opts) (header HEARTBEAT ?a), fillDiscovery_msg ?p (header ADVERTISE ?a)}"
    using mc.heartbeat_msgs_eq [of ?a] by (simp add: msg_class_def)
  then have all: "fst ` set [(fillDiscovery_msg ?p (header ADVERTISE ?a), 5 :: int),
      (fillDiscovery (mkPublisherInfo [] [] ''uA'' [] new_opts) (header HEARTBEAT ?a), 4)] = heartbeat_msgs msg_class ?a"
    by auto
  have b: "disc_ok msg_pub_wf (node_disc ''uB'' ''10.0.0.2'')" "d_proc (node_disc ''uB'' ''10.0.0.2'' :: msg_pub disc) \<noteq> d_proc ?a"
    by (simp_all add: disc_ok_def ts_view_def)
  note conjunct1 [OF heartbeat_converges [OF chat_known_simps(1) b all, of "''10.0.0.1''"]]
  moreover have "p_proc ?p = ''uA''" "opt_scope (m_opts ?p) = SCOPE_ALL" by (simp_all add: sample_pub_def)
  ultimately show ?thesis by simp
qed

theorem lost_unadvertise_stays_witness:
  "\<exists>a' es ok m. disc_unadvertise msg_class ''t'' ''n1'' (chat_known ''uA'') = (a', es, ok) \<and>
     m \<in> heartbeat_msgs msg_class a' \<and> ts_view (d_pubs a') = {} \<and>
     (let b' = fst (disc_run msg_class [OActivity (2000 * ns_per_ms) 0, ORecv ''10.0.0.1'' m (2500 * ns_per_ms), OHeartbeat (3000 * ns_per_ms) 0,
        OActivity (5500 * ns_per_ms) 0] ((chat_known ''uB'')\<lparr>d_seen := [(''uA'', 0)]\<rparr>)) in
      sample_pub ''t'' SCOPE_ALL \<in> ts_view (d_pubs b') \<and> map_of (d_seen b') ''uA'' = Some (2500 * ns_per_ms))"
proof -
  let ?p = "sample_pub ''t'' SCOPE_ALL"
  obtain a' es ok where un: "disc_unadvertise msg_class ''t'' ''n1'' (chat_known ''uA'') = (a', es, ok)"
    by (cases "disc_unadvertise msg_class ''t'' ''n1'' (chat_known ''uA'')")
  have a': "disc_ok msg_pub_wf a'"
    using mc.ok_unadvertise [of "chat_known ''uA''" "''t''" "''n1''"] un by simp
  define m where "m = fillDiscovery (mkPublisherInfo [] [] (d_proc a') [] new_opts) (header HEARTBEAT a')"
  have m: "m \<in> heartbeat_msgs msg_class a'"
    using mc.heartbeat_msgs_eq [of a'] a' by (simp add: disc_ok_def m_def)
  have p: "p_topic ?p = ''t''" "p_proc ?p = ''uA''" "p_node ?p = ''n1''" by (simp_all add: sample_pub_def)
  let ?ops = "[OActivity (2000 * ns_per_ms) 0, ORecv ''10.0.0.1'' m (2500 * ns_per_ms), OHeartbeat (3000 * ns_per_ms) 0,
        OActivity (5500 * ns_per_ms) 0]"
  define b where "b = (chat_known ''uB'')\<lparr>d_seen := [(''uA'', 0)]\<rparr>"
  have b: "disc_ok msg_pub_wf b" "d_proc b \<noteq> d_proc (chat_known ''uA'' :: msg_pub disc)" "?p \<in> ts_view (d_pubs b)"
      "map_of (d_seen b) (d_proc (chat_known ''uA'' :: msg_pub disc)) = Some 0" "d_silence b = 3000"
    using chat_known_simps(1) [of "''uB''"]
    by (simp_all add: b_def disc_ok_def) (simp_all add: om_wf_def chat_known_def node_disc_def new_disc_def kDefSilenceInterval_def)
  have "punctual msg_class a' (int (unat (d_silence b))) 0 ?ops"
    using m by (simp add: b(5) to_ms_def ns_per_ms_def)
  note lost_unadvertise_stays [OF chat_known_simps(1) un chat_known_simps(4) b(1,2,3) _ p(1,3) b(4) this]
  then have "?p \<in> ts_view (d_pubs (fst (disc_run msg_class ?ops b))) \<and>
      map_of (d_seen (fst (disc_run msg_class ?ops b))) ''uA'' = Some (2500 * ns_per_ms)"
    by (simp add: p del: disc_run.simps)
  moreover have "ts_view (d_pubs a') = {}"
    using p by (simp add: unadvertise_view [OF _ _ un])
  ultimately show ?thesis using un m unfolding b_def Let_def by blast
qed

end
