(* ===== verification/Network.thy ===== *)
theory Network
  imports DiscoveryThms
begin

text \<open>
  Discovery as a distributed system: any number of processes, each with its Discovery
  object, on a multicast group that may lose, duplicate, delay and reorder datagrams but
  does not forge them. The state is what every process holds and what was ever sent; the
  endpoints ever given to \<open>advertise\<close> are recorded beside it.
\<close>

section \<open>The system and its steps\<close>

record 'p net =
  nt_procs :: "string \<Rightarrow> 'p disc option"
  nt_sent :: "disc_msg set"
  nt_adv :: "'p set"

definition empty_net :: "'p net" where
  "empty_net = \<lparr>nt_procs = (\<lambda>u. None), nt_sent = {}, nt_adv = {}\<rparr>"

definition carried :: "'p disc_ev list \<Rightarrow> disc_msg set" where
  "carried es = {m. Multicast m \<in> set es}"

fun given :: "'a pub_info_scheme disc_op \<Rightarrow> 'a pub_info_scheme set" where
  "given (OAdvertise p) = {p}"
| "given _ = {}"

text \<open>
  A process is only given endpoints of its own, and receives what some process sent; the
  address it came from is arbitrary.
\<close>

fun possible :: "('a pub_info_scheme \<Rightarrow> bool) \<Rightarrow> string \<Rightarrow> disc_msg set \<Rightarrow> 'a pub_info_scheme disc_op \<Rightarrow> bool" where
  "possible good u sent (OAdvertise p) = (good p \<and> p_proc p = u)"
| "possible good u sent (ORecv ip m now) = (m \<in> sent)"
| "possible good u sent _ = True"

inductive net_reach ::
  "'a pub_info_scheme pub_class \<Rightarrow> ('a pub_info_scheme \<Rightarrow> bool) \<Rightarrow> 'a pub_info_scheme net \<Rightarrow> bool" for C good where
  nr_empty: "net_reach C good empty_net"
| nr_join: "net_reach C good n \<Longrightarrow> nt_procs n u = None \<Longrightarrow> d_proc d = u \<Longrightarrow> d_pubs d = [] \<Longrightarrow> d_seen d = [] \<Longrightarrow>
    net_reach C good (n\<lparr>nt_procs := (nt_procs n)(u := Some d)\<rparr>)"
| nr_op: "net_reach C good n \<Longrightarrow> nt_procs n u = Some d \<Longrightarrow> possible good u (nt_sent n) op \<Longrightarrow> disc_op C op d = (d', es) \<Longrightarrow>
    net_reach C good \<lparr>nt_procs = (nt_procs n)(u := Some d'), nt_sent = nt_sent n \<union> carried es, nt_adv = nt_adv n \<union> given op\<rparr>"
| nr_leave: "net_reach C good n \<Longrightarrow> nt_procs n u = Some d \<Longrightarrow> destroy_disc d = (d', es) \<Longrightarrow>
    net_reach C good (n\<lparr>nt_procs := (nt_procs n)(u := None), nt_sent := nt_sent n \<union> carried es\<rparr>)"

section \<open>What one operation stores and sends\<close>

lemma proc_op: "d_proc (fst (disc_op C op d)) = d_proc d"
  by (cases op) (auto simp: disc_op_def disc_advertise_def disc_unadvertise_def dispatch_def Let_def updateHeartbeat_def
      updateActivity_def setUnregistrationCb_def setRegistrationCb_def setDisconnectionCb_def setConnectionCb_def
      setSilenceInterval_def setHeartbeatInterval_def setActivityInterval_def start_disc_def stop_disc_def
      split: prod.split option.split disc_type.split)

text \<open>Every ADVERTISE that leaves a process carries an endpoint it holds as its own.\<close>

definition announces :: "'a pub_info_scheme pub_class \<Rightarrow> 'a pub_info_scheme disc \<Rightarrow> disc_msg \<Rightarrow> bool" where
  "announces C d m \<longleftrightarrow> (\<exists>p \<in> ts_view (d_pubs d). p_proc p = d_proc d \<and> pc_scope C p \<noteq> SCOPE_PROCESS \<and>
     m = pc_fill C p (header ADVERTISE d))"

context endpoint_class
begin

lemma stored_dispatch:
  assumes "ts_wf (d_pubs d)" "p \<in> ts_view (d_pubs (fst (dispatch C ip m now d)))"
  shows "p \<in> ts_view (d_pubs d) \<or> dm_type m = ADVERTISE \<and> dm_process_uuid m \<noteq> d_proc d \<and> p = pc_set C m (pc_new C)"
proof (cases "dm_process_uuid m = d_proc d")
  case True
  then show ?thesis using assms(2) by (simp add: dispatch_own)
next
  case False
  show ?thesis
  proof (cases rule: dm_type_cases [of m])
    case 1
    then show ?thesis using assms(2) False unfolding dispatch_advertise [OF False 1]
      by (auto simp: ts_view_add [OF assms(1)] split: if_splits)
  next
    case 2
    then show ?thesis using assms(2) unfolding dispatch_unadvertise [OF False 2] Let_def
      by (auto simp: ts_view_delNode [OF assms(1)] split: if_splits)
  next
    case 3
    then show ?thesis using assms(2) unfolding dispatch_subscribe [OF False 3] by simp
  next
    case 4
    then show ?thesis using assms(2) unfolding dispatch_bye [OF False 4] by (simp add: ts_view_delProc [OF assms(1)])
  next
    case 5
    then show ?thesis using assms(2) dispatch_other [OF False 5, of C ip now] by simp
  qed
qed

lemma stored_op:
  assumes "disc_ok wf d" "p \<in> ts_view (d_pubs (fst (disc_op C op d)))"
  shows "p \<in> ts_view (d_pubs d) \<or> op = OAdvertise p \<or> (\<exists>ip m now. op = ORecv ip m now \<and>
    dm_type m = ADVERTISE \<and> dm_process_uuid m \<noteq> d_proc d \<and> p = pc_set C m (pc_new C))"
proof -
  have ts: "ts_wf (d_pubs d)" using assms(1) by (simp add: disc_ok_def)
  show ?thesis
  proof (cases op)
    case (OAdvertise q)
    then have "d_pubs (fst (disc_op C op d)) = (if d_enabled d then fst (addPublisher q (d_pubs d)) else d_pubs d)"
      by (simp add: disc_op_def disc_advertise_def split_def)
    then show ?thesis using assms(2) OAdvertise by (auto simp: ts_view_add [OF ts, of q] split: if_splits)
  next
    case (OUnadvertise t n)
    then show ?thesis using assms(2)
      by (auto simp: disc_op_def disc_unadvertise_def ts_view_delNode [OF ts] split: option.splits if_splits)
  next
    case (ORecv ip m now)
    then show ?thesis using assms(2) stored_dispatch [OF ts, of p ip m now] by (auto simp: disc_op_def)
  next
    case (OHeartbeat a b)
    then show ?thesis using assms(2) by (simp add: disc_op_def updateHeartbeat_def Let_def split: if_splits)
  next
    case (OActivity a b)
    then show ?thesis using assms(2) by (auto simp: disc_op_def updateActivity_def expire_loop_eq del_all [OF ts] split: if_splits)
  qed (use assms(2) in \<open>simp_all add: disc_op_def setUnregistrationCb_def setRegistrationCb_def setDisconnectionCb_def
    setConnectionCb_def setSilenceInterval_def setHeartbeatInterval_def setActivityInterval_def start_disc_def stop_disc_def
    split: if_splits\<close>)
qed

lemma announced_op:
  assumes "disc_ok wf d" "disc_op C op d = (d', es)" "Multicast m \<in> set es" "dm_type m = ADVERTISE"
    and "\<forall>p. op = OAdvertise p \<longrightarrow> p_proc p = d_proc d"
  shows "announces C d' m"
proof -
  have ts: "ts_wf (d_pubs d)" using assms(1) by (simp add: disc_ok_def)
  show ?thesis
  proof (cases op)
    case (OAdvertise p)
    then have new: "snd (addPublisher p (d_pubs d))" "m = pc_fill C p (header ADVERTISE d)" "pc_scope C p \<noteq> SCOPE_PROCESS"
        "d' = d\<lparr>d_pubs := fst (addPublisher p (d_pubs d))\<rparr>"
      using assms(2,3) by (auto simp: disc_op_def disc_advertise_def sendMsg_simps(4) fill_twice split: prod.splits if_splits)
    then have "p \<in> ts_view (d_pubs d')"
      using ts_view_add [OF ts, of p] is_dup_view [OF ts, of p] by (auto simp: addPublisher_result)
    moreover have "header ADVERTISE d' = header ADVERTISE d" "d_proc d' = d_proc d" using new(4) by (simp_all add: header_def)
    ultimately show ?thesis using new(2,3) assms(5) OAdvertise by (auto simp: announces_def)
  next
    case (ORecv ip mm now)
    then have sent: "dispatch C ip mm now d = (d', es)" using assms(2) by (simp add: disc_op_def)
    have other: "dm_process_uuid mm \<noteq> d_proc d" using sent assms(3) by (auto simp: dispatch_own)
    have sub: "dm_type mm = SUBSCRIBE"
    proof (cases rule: dm_type_cases [of mm])
      case 5
      then show ?thesis using dispatch_other [OF other 5, of C ip now] sent assms(3) by auto
    qed (use sent assms(3) other in \<open>auto simp: dispatch_advertise dispatch_unadvertise dispatch_bye Let_def split: if_splits\<close>)
    obtain p where "p \<in> set (entries (d_pubs d) (sub_topic mm) (d_proc d))"
        "\<not> out_of_scope (pc_scope C p) (is_sender_local ip d)" "m = pc_fill C p (header ADVERTISE d)" "d' = seen_by mm now d"
      using sent assms(3) unfolding dispatch_subscribe [OF other sub]
      by (auto simp: sendMsg_simps(4) fill_twice split: if_splits)
    moreover from this have "p \<in> ts_view (d_pubs d)" "p_proc p = d_proc d" "pc_scope C p \<noteq> SCOPE_PROCESS"
      using ts_view_entries [OF ts, of p] entries_key [OF ts, of p] by (auto simp: in_scope)
    ultimately show ?thesis unfolding announces_def by (intro bexI [of _ p]) simp_all
  next
    case (OHeartbeat now now2)
    then have es: "es = snd (updateHeartbeat C now now2 d)" "d' = fst (updateHeartbeat C now now2 d)"
      using assms(2) by (simp_all add: disc_op_def)
    have due: "d_next_hb d \<le> now" using es(1) assms(3) by (simp add: updateHeartbeat_def split: if_splits)
    have same: "d_pubs d' = d_pubs d" "d_proc d' = d_proc d" "header ADVERTISE d' = header ADVERTISE d"
      using es(2) by (simp_all add: updateHeartbeat_def Let_def header_def)
    have "dm_type (fillDiscovery q (header HEARTBEAT d)) = HEARTBEAT" for q :: pub_info by (simp add: fillDiscovery_def pb_defs)
    then show ?thesis
      using assms(3,4) unfolding es(1) heartbeat_set [OF ts due] announces_def same by auto
  next
    case (OActivity now now2)
    then show ?thesis using assms(2,3) by (auto simp: disc_op_def updateActivity_def split: if_splits prod.splits)
  qed (use assms(2-4) in \<open>auto simp: disc_op_def disc_unadvertise_def disc_discover_def registerNode_def unRegisterNode_def
    sendMsg_simps set_sub_topic_def Let_def fill_type split: option.splits if_splits\<close>)
qed

end

section \<open>Where endpoints come from\<close>

definition comes_from ::
  "'a pub_info_scheme pub_class \<Rightarrow> 'a pub_info_scheme set \<Rightarrow> string \<Rightarrow> 'a pub_info_scheme \<Rightarrow> bool" where
  "comes_from C adv u p \<longleftrightarrow> (if p_proc p = u then p \<in> adv
     else \<exists>q \<in> adv. p = q\<lparr>p_pname := p_pname p\<rparr> \<and> pc_scope C q \<noteq> SCOPE_PROCESS)"

definition genuine :: "'a pub_info_scheme pub_class \<Rightarrow> 'a pub_info_scheme set \<Rightarrow> disc_msg \<Rightarrow> bool" where
  "genuine C adv m \<longleftrightarrow> (dm_type m = ADVERTISE \<longrightarrow> (\<exists>q \<in> adv. \<exists>h. pc_scope C q \<noteq> SCOPE_PROCESS \<and>
     m = pc_fill C q h \<and> dm_process_uuid h = p_proc q))"

definition net_inv :: "'a pub_info_scheme pub_class \<Rightarrow> ('a pub_info_scheme \<Rightarrow> bool) \<Rightarrow> 'a pub_info_scheme net \<Rightarrow> bool" where
  "net_inv C good n \<longleftrightarrow> (\<forall>q \<in> nt_adv n. good q) \<and> (\<forall>m \<in> nt_sent n. genuine C (nt_adv n) m) \<and>
     (\<forall>u d. nt_procs n u = Some d \<longrightarrow> d_proc d = u \<and> disc_ok good d \<and>
        (\<forall>p \<in> ts_view (d_pubs d). comes_from C (nt_adv n) u p))"

lemma comes_from_mono: "comes_from C A u p \<Longrightarrow> A \<subseteq> B \<Longrightarrow> comes_from C B u p"
  unfolding comes_from_def by (meson subsetD)

lemma genuine_mono: "genuine C A m \<Longrightarrow> A \<subseteq> B \<Longrightarrow> genuine C B m"
  unfolding genuine_def by (meson subsetD)

context endpoint_class
begin

lemma received_comes_from:
  assumes "genuine C A m" "dm_type m = ADVERTISE" "dm_process_uuid m \<noteq> u" "\<forall>q \<in> A. wf q"
  shows "comes_from C A u (pc_set C m (pc_new C))"
proof -
  obtain q h where q: "q \<in> A" "pc_scope C q \<noteq> SCOPE_PROCESS" "m = pc_fill C q h" "dm_process_uuid h = p_proc q"
    using assms(1,2) unfolding genuine_def by blast
  have set: "pc_set C m (pc_new C) = q\<lparr>p_pname := dm_process_name h\<rparr>"
    using roundtrip [of q h] q(1,3,4) assms(4) by simp
  have "p_proc q \<noteq> u" using assms(3) q(3,4) fill_uuid by simp
  then show ?thesis using q(1,2) by (auto simp: comes_from_def set intro!: bexI [of _ q])
qed

lemma inv_op:
  assumes "net_inv C wf n" "nt_procs n u = Some d" "possible wf u (nt_sent n) op" "disc_op C op d = (d', es)"
  shows "net_inv C wf \<lparr>nt_procs = (nt_procs n)(u := Some d'), nt_sent = nt_sent n \<union> carried es, nt_adv = nt_adv n \<union> given op\<rparr>"
proof -
  let ?A = "nt_adv n \<union> given op"
  have d: "d_proc d = u" "disc_ok wf d" "\<forall>p \<in> ts_view (d_pubs d). comes_from C (nt_adv n) u p"
      and sent: "\<forall>m \<in> nt_sent n. genuine C (nt_adv n) m" and good: "\<forall>q \<in> nt_adv n. wf q"
    using assms(1,2) unfolding net_inv_def by blast+
  have own: "op = OAdvertise p \<Longrightarrow> wf p \<and> p_proc p = u" for p using assms(3) by simp
  have good': "\<forall>q \<in> ?A. wf q" using good own by (cases op) auto
  have "op_ok wf op" using own by (cases op) auto
  then have d': "disc_ok wf d'" "d_proc d' = u"
    using ok_op [OF d(2), of op] proc_op [of C op d] assms(4) d(1) by simp_all
  have view: "comes_from C ?A u p" if "p \<in> ts_view (d_pubs d')" for p
  proof -
    have "p \<in> ts_view (d_pubs (fst (disc_op C op d)))" using that assms(4) by simp
    note stored = stored_op [OF d(2) this, unfolded d(1)]
    consider "p \<in> ts_view (d_pubs d)" | "op = OAdvertise p"
      | ip m now where "op = ORecv ip m now" "dm_type m = ADVERTISE" "dm_process_uuid m \<noteq> u" "p = pc_set C m (pc_new C)"
      using stored by blast
    then show ?thesis
    proof cases
      case 1
      then show ?thesis using d(3) comes_from_mono by blast
    next
      case 2
      then show ?thesis using own by (simp add: comes_from_def)
    next
      case 3
      then have "genuine C ?A m" using sent assms(3) genuine_mono by fastforce
      from received_comes_from [OF this 3(2,3) good'] show ?thesis unfolding 3(4) .
    qed
  qed
  have new: "genuine C ?A m" if "m \<in> carried es" for m
    unfolding genuine_def
  proof
    assume "dm_type m = ADVERTISE"
    then have "announces C d' m"
      using announced_op [OF d(2) assms(4)] that own d(1) by (simp add: carried_def)
    then obtain p where p: "p \<in> ts_view (d_pubs d')" "p_proc p = u" "pc_scope C p \<noteq> SCOPE_PROCESS"
        "m = pc_fill C p (header ADVERTISE d')"
      unfolding announces_def d'(2) by blast
    then have "p \<in> ?A" using view [OF p(1)] by (simp add: comes_from_def)
    then show "\<exists>q \<in> ?A. \<exists>h. pc_scope C q \<noteq> SCOPE_PROCESS \<and> m = pc_fill C q h \<and> dm_process_uuid h = p_proc q"
      using p(2-4) d'(2) by (intro bexI [of _ p] exI [of _ "header ADVERTISE d'"]) simp_all
  qed
  have others: "d_proc e = v \<and> disc_ok wf e \<and> (\<forall>p \<in> ts_view (d_pubs e). comes_from C ?A v p)"
    if "nt_procs n v = Some e" for v e
    using assms(1) that comes_from_mono [of C "nt_adv n" v _ ?A] unfolding net_inv_def by blast
  have "genuine C ?A m" if "m \<in> nt_sent n" for m using sent that genuine_mono by blast
  then show ?thesis using good' new d' view others by (auto simp: net_inv_def)
qed

lemma net_inv_reach: "net_reach C wf n \<Longrightarrow> net_inv C wf n"
proof (induction rule: net_reach.induct)
  case nr_empty
  show ?case by (simp add: net_inv_def empty_net_def)
next
  case (nr_join n u d)
  then show ?case by (simp add: net_inv_def disc_ok_def ts_view_def)
next
  case (nr_op n u d op d' es)
  then show ?case using inv_op by blast
next
  case (nr_leave n u d d' es)
  have "dm_type m \<noteq> ADVERTISE" if "m \<in> carried es" for m
    using nr_leave(3) that by (auto simp: destroy_disc_def Let_def sendMsg_simps carried_def fillDiscovery_def pb_defs)
  then have "\<forall>m \<in> carried es. genuine C (nt_adv n) m" by (simp add: genuine_def)
  then show ?case using nr_leave.IH by (auto simp: net_inv_def)
qed

end

text \<open>
  C4: nothing is invented. In every state that any number of processes can reach over a
  network that loses, duplicates, delays and reorders datagrams, with processes joining,
  leaving, advertising, withdrawing, subscribing, beating and expiring in any order, an
  endpoint that a process knows is either one of its own that was given to advertise, or one
  that was given to advertise in its owner's process with a scope beyond it, unchanged
  but for the process name the owner stamps on what it sends.
\<close>

theorem nothing_invented:
  assumes "net_reach msg_class msg_pub_wf n" "nt_procs n u = Some d" "p \<in> ts_view (d_pubs d)"
  shows "if p_proc p = u then p \<in> nt_adv n
    else \<exists>q \<in> nt_adv n. p = q\<lparr>p_pname := p_pname p\<rparr> \<and> opt_scope (m_opts q) \<noteq> SCOPE_PROCESS"
proof -
  have "comes_from msg_class (nt_adv n) u p"
    using mc.net_inv_reach [OF assms(1)] assms(2,3) unfolding net_inv_def by blast
  then show ?thesis by (simp add: comes_from_def msg_class_def split: if_splits)
qed

text \<open>The same of services, whose addresses and socket identities come through as they were given.\<close>

lemma no_service_invented:
  assumes "net_reach srv_class srv_pub_wf n" "nt_procs n u = Some d" "p \<in> ts_view (d_pubs d)"
  shows "if p_proc p = u then p \<in> nt_adv n
    else \<exists>q \<in> nt_adv n. p = q\<lparr>p_pname := p_pname p\<rparr> \<and> opt_scope (s_opts q) \<noteq> SCOPE_PROCESS"
proof -
  have "comes_from srv_class (nt_adv n) u p"
    using sc.net_inv_reach [OF assms(1)] assms(2,3) unfolding net_inv_def by blast
  then show ?thesis by (simp add: comes_from_def srv_class_def split: if_splits)
qed

text \<open>Process uA advertises, and the datagram reaches uB.\<close>

theorem nothing_invented_witness:
  "\<exists>n d p. net_reach msg_class msg_pub_wf n \<and> nt_procs n ''uB'' = Some d \<and> p \<in> ts_view (d_pubs d) \<and> p_proc p = ''uA'' \<and>
     (\<exists>q \<in> nt_adv n. p = q\<lparr>p_pname := p_pname p\<rparr> \<and> opt_scope (m_opts q) \<noteq> SCOPE_PROCESS)"
proof -
  let ?a = "node_disc ''uA'' ''10.0.0.1'' :: msg_pub disc" and ?b = "node_disc ''uB'' ''10.0.0.2'' :: msg_pub disc"
  let ?p = "sample_pub ''t'' SCOPE_ALL" and ?q = "(sample_pub ''t'' SCOPE_ALL)\<lparr>p_pname := ''proc''\<rparr>"
  let ?m = "fillDiscovery_msg ?p (header ADVERTISE ?a)"
  let ?n1 = "empty_net\<lparr>nt_procs := (nt_procs empty_net)(''uA'' := Some ?a)\<rparr>"
  let ?n2 = "?n1\<lparr>nt_procs := (nt_procs ?n1)(''uB'' := Some ?b)\<rparr>"
  have 1: "net_reach msg_class msg_pub_wf ?n1" by (rule nr_join [OF nr_empty]) (simp_all add: empty_net_def)
  have 2: "net_reach msg_class msg_pub_wf ?n2" by (rule nr_join [OF 1]) (simp_all add: empty_net_def)
  have "disc_advertise msg_class ?p ?a =
      (?a\<lparr>d_pubs := fst (addPublisher ?p [])\<rparr>, [Connected ?p, Multicast ?m], True)"
    using advertise_events [of ?a ?p] by (simp add: ts_view_def)
  then have op: "disc_op msg_class (OAdvertise ?p) ?a = (?a\<lparr>d_pubs := fst (addPublisher ?p [])\<rparr>, [Connected ?p, Multicast ?m])"
    by (simp add: disc_op_def)
  let ?n3 = "\<lparr>nt_procs = (nt_procs ?n2)(''uA'' := Some (?a\<lparr>d_pubs := fst (addPublisher ?p [])\<rparr>)),
      nt_sent = nt_sent ?n2 \<union> carried [Connected ?p, Multicast ?m], nt_adv = nt_adv ?n2 \<union> given (OAdvertise ?p)\<rparr>"
  have 3: "net_reach msg_class msg_pub_wf ?n3" by (rule nr_op [OF 2 _ _ op]) (simp_all add: empty_net_def)
  let ?d = "(seen_by ?m 7 ?b)\<lparr>d_pubs := fst (addPublisher ?q [])\<rparr>"
  have got: "disc_op msg_class (ORecv ''10.0.0.1'' ?m 7) ?b = (?d, [Connected ?q])" "ts_view (fst (addPublisher ?q [])) = {?q}"
    using advert_dispatched(1) [of ?b ?p ?a "''10.0.0.1''" 7] advert_dispatched(2) [of ?b ?p ?a "''10.0.0.1''"]
    by (simp_all add: disc_op_def ts_view_def)
  let ?n4 = "\<lparr>nt_procs = (nt_procs ?n3)(''uB'' := Some ?d),
      nt_sent = nt_sent ?n3 \<union> carried [Connected ?q], nt_adv = nt_adv ?n3 \<union> given (ORecv ''10.0.0.1'' ?m 7)\<rparr>"
  have 4: "net_reach msg_class msg_pub_wf ?n4" by (rule nr_op [OF 3 _ _ got(1)]) (simp_all add: empty_net_def carried_def)
  have in_view: "?q \<in> ts_view (d_pubs ?d)" using got(2) by simp
  have at: "nt_procs ?n4 ''uB'' = Some ?d" by simp
  show ?thesis
    using 4 at in_view nothing_invented [OF 4 at in_view] by (intro exI [of _ ?n4] exI [of _ ?d] exI [of _ ?q]) simp
qed

end
