(* ===== verification/Framing.thy ===== *)
theory Framing
  imports MsgThms
begin

text \<open>
  The receive thread reads a multipart socket part by part and never asks whether a part is
  the last of its message. Here the socket is the stream of parts that have arrived; one
  turn of the thread takes the next four.
\<close>

definition read_turn :: "string list \<times> 'm msg_rt \<Rightarrow> string list \<times> 'm msg_rt" where
  "read_turn s = (drop 4 (fst s), receiveMessage (take 4 (fst s)) (snd s))"

fun read_turns :: "nat \<Rightarrow> string list \<times> 'm msg_rt \<Rightarrow> string list \<times> 'm msg_rt" where
  "read_turns 0 s = s"
| "read_turns (Suc n) s = read_turns n (read_turn s)"

lemma read_turns_chunks:
  "\<forall>m \<in> set ms. length m = 4 \<Longrightarrow> read_turns (length ms) (concat ms @ rest, rt) = (rest, fold receiveMessage ms rt)"
  by (induction ms arbitrary: rt) (simp_all add: read_turn_def)

text \<open>The same stream cut three parts later.\<close>

fun slipped :: "string list \<Rightarrow> string list list \<Rightarrow> string list list" where
  "slipped left [] = []"
| "slipped left (m # ms) = (left @ [hd m]) # slipped (tl m) ms"

lemma slipped_length [simp]: "length (slipped left ms) = length ms"
  by (induction ms arbitrary: left) simp_all

lemma tail_three: "length m = 4 \<Longrightarrow> m = hd m # tl m \<and> length (tl m) = 3"
  by (cases m) simp_all

lemma slipped_chunks:
  assumes "\<forall>m \<in> set ms. length m = 4" "length left = 3"
  shows "(\<forall>c \<in> set (slipped left ms). length c = 4) \<and>
    left @ concat ms = concat (slipped left ms) @ (if ms = [] then left else tl (last ms))"
  using assms
proof (induction ms arbitrary: left)
  case Nil
  show ?case by simp
next
  case (Cons m ms)
  have m: "m = hd m # tl m" "length (tl m) = 3" using tail_three [of m] Cons.prems(1) by simp_all
  have four: "\<forall>c \<in> set ms. length c = 4" using Cons.prems(1) by simp
  have rest: "tl m @ concat ms = concat (slipped (tl m) ms) @ (if ms = [] then tl m else tl (last ms))"
    using Cons.IH [OF four m(2)] by (rule conjunct2)
  have "left @ concat (m # ms) = (left @ [hd m]) @ tl m @ concat ms" by (subst m(1)) simp
  then have "left @ concat (m # ms) = concat (slipped left (m # ms)) @ (if ms = [] then tl m else tl (last ms))"
    by (simp only: rest slipped.simps concat.simps append_assoc)
  moreover have "\<forall>c \<in> set (slipped left (m # ms)). length c = 4"
    using Cons.IH [OF four m(2)] Cons.prems(2) by simp
  ultimately show ?case by simp
qed

text \<open>
  C39: one message with a part missing spoils every message after it. Of a complete stream of
  four-part messages, of any length and whatever is queued already, the queue takes each
  message as it was sent (and keeps the newest 1000, as it always does). Behind a message
  of three parts, however, each turn reads three parts of one message and the first of the
  next: after any number of messages m1, m2, ... what was queued is the short message with
  m1's topic for its type, then m1's sender as a topic with m1's data as the sender and m2's
  topic as the type, and so on; and the last three parts of the last message are still in
  the socket, so that the next message is read in the same way.
\<close>

theorem short_message_slips:
  assumes "\<forall>m \<in> set ms. length m = 4" "length short = 3" "length (mr_remoteq rt) \<le> kMsgQueueLimit"
  shows "mr_remoteq (snd (read_turns (length ms) (concat ms, rt))) = newest kMsgQueueLimit (mr_remoteq rt @ map parts_msg ms) \<and>
    mr_remoteq (snd (read_turns (length ms) (short @ concat ms, rt))) =
      newest kMsgQueueLimit (mr_remoteq rt @ map parts_msg (slipped short ms)) \<and>
    fst (read_turns (length ms) (short @ concat ms, rt)) = (if ms = [] then short else tl (last ms))"
proof -
  let ?rest = "if ms = [] then short else tl (last ms)"
  have queue: "mr_remoteq (fold receiveMessage cs rt) = newest kMsgQueueLimit (mr_remoteq rt @ map parts_msg cs)"
    if "\<forall>c \<in> set cs. length c = 4" for cs
  proof -
    have "filter (\<lambda>fr. 4 \<le> length fr) cs = cs" using that by (intro filter_True) auto
    then show ?thesis using keeps_newest [OF assms(3), of cs] by simp
  qed
  have sl: "\<forall>c \<in> set (slipped short ms). length c = 4" and cut: "short @ concat ms = concat (slipped short ms) @ ?rest"
    using slipped_chunks [OF assms(1,2)] by simp_all
  have "read_turns (length ms) (short @ concat ms, rt) = (?rest, fold receiveMessage (slipped short ms) rt)"
    unfolding cut using read_turns_chunks [OF sl, of ?rest rt] by simp
  moreover have "read_turns (length ms) (concat ms, rt) = ([], fold receiveMessage ms rt)"
    using read_turns_chunks [OF assms(1), of "[]" rt] by simp
  ultimately show ?thesis using queue [OF assms(1)] queue [OF sl] by simp
qed

theorem short_message_slips_witness:
  "mr_remoteq (snd (read_turns 2 ([''t'', ''s'', ''lost''] @ [''chat'', ''A'', ''hi'', ''T''] @ [''chat'', ''A'', ''ho'', ''T''],
      new_msg_rt (node_disc ''u'' ''h'') ''u'' :: string msg_rt))) =
   [\<lparr>rm_topic = ''t'', rm_sender = ''s'', rm_data = ''lost'', rm_type = ''chat'', rm_is_shm = False\<rparr>,
    \<lparr>rm_topic = ''A'', rm_sender = ''hi'', rm_data = ''T'', rm_type = ''chat'', rm_is_shm = False\<rparr>]"
  using short_message_slips [of "[[''chat'', ''A'', ''hi'', ''T''], [''chat'', ''A'', ''ho'', ''T'']]" "[''t'', ''s'', ''lost'']"
      "new_msg_rt (node_disc ''u'' ''h'') ''u'' :: string msg_rt"]
  by (simp add: numeral_2_eq_2 new_msg_rt_def newest_def kMsgQueueLimit_def parts_msg_def kShmMsgTypeMarker_def)

end
