(* ===== verification/Spec2Isabelle.thy ===== *)
theory Spec2Isabelle
  imports ShmRingConc EndToEnd CallEndToEnd CliThms SnifferThms Helpers ElogPool Convergence Network Framing
begin

text \<open>
  A verification library of rf_trans, a publish/subscribe and request/reply middleware over
  UDP multicast, ZeroMQ and POSIX shared memory.

  \<^bold>\<open>The program.\<close> A program creates \<open>Node\<close>s (src/node.cc, include/trans/node.hpp) and
  through them \<open>Publisher\<close>s (src/publisher.cc), subscriptions, services and requests. The
  nodes of a process share one \<open>NodeShared\<close> (src/node_shared.cc), which owns a message
  runtime and a service runtime, each with a \<open>Discovery\<close> of its own
  (include/trans/details/discovery.hpp): every process announces its endpoints on a
  multicast group, answers subscriptions, repeats its announcements with a heartbeat and
  forgets processes that fall silent. \<open>MessageRuntime\<close> (src/message_runtime.cc) sends a
  published message to handlers of the process through a queue, to other processes over a
  ZeroMQ socket, or, on the same host, through a ring of slots in shared memory
  (src/shm_ring.cc) with only a descriptor on the socket. \<open>ServiceRuntime\<close>
  (src/service_runtime.cc) sends requests to a discovered responder, once each, and brings
  replies back to the handler that waits. The tool rf-trans (src/tools/rf_trans.cc) lists,
  watches and sniffs endpoints with \<open>DiscoveryObserver\<close> and \<open>TopicSniffer\<close> (src/cli).

  \<^bold>\<open>Theories and code.\<close>
  \<^item> Prelude: \<open>std::map\<close> as a sorted association list (\<open>omap\<close>), lists cut to their newest
    elements, decimal and hexadecimal numbers, the \<open>named_theorems\<close> the others fill.
  \<^item> AdvertiseOptions, PublisherInfo: include/trans/advertise_options.hpp,
    publisher_info.cc, the Discovery message of msgs/discovery.proto. Inheritance is record
    extension. Shown: filling a message and reading it back is the identity.
  \<^item> TopicStorage, HandlerStorage: the two stores, method by method. Each has a
    well-formedness invariant that every method keeps and an abstract view (a set of
    endpoints, a finite map of handlers) on which each method is characterised.
  \<^item> ShmRing: layout, creation, opening, reserving, committing, reading; the operating
    system's names, objects and mappings are the record \<open>shm_os\<close>. ShmRingConc: the same
    operations as interleaved steps of any number of writers and readers, one byte at a
    time; its executions refine whole writes, an accepted read is a published payload as
    long as no writer is lapped, and once one is it need not be.
  \<^item> Discovery (with include/trans/details/net_utils.hpp), DiscoveryProps (invariants over
    arbitrary histories), DiscoveryThms (construction, framing, delivery, scope, expiry),
    Convergence (what heartbeats repair after lost datagrams, and what they do not), Network
    (any number of processes and the group as a step relation: nothing is known that was
    not advertised).
    \<open>Discovery<Pub>\<close> is a template: what it asks of Pub is the record \<open>pub_class\<close>, given
    for messages and services.
  \<^item> MsgRuntime, MsgProps, MsgThms, MsgDelivery, MsgShm, MsgHandshake: the message runtime,
    its invariant, and delivery from \<open>publish\<close> to the callbacks inside the process, over the
    socket and through shared memory, with the subscription handshake before it. Framing
    has the receiving socket as a stream of parts: a message with a part missing misaligns
    all that follow.
  \<^item> SrvRuntime, SrvThms, SrvCalls: the service runtime with the request and reply handlers
    (req_handler.hpp, rep_handler.hpp), its invariant, at most one sending of a request, and
    a call from end to end.
  \<^item> NodeApi, NodeThms, NodeCalls: Node, Publisher, NodeShared; what a node and the shared
    object hold of each other, throttling, blocking calls. EndToEnd: from one program's
    publish to another program's callback, through every layer; CallEndToEnd: from one
    program's service to another program's answered call.
  \<^item> CliJson, CliObserver, CliTool, CliThms, SnifferThms: the tool and its two library
    classes.
  \<^item> Helpers: include/trans/details/helpers.hpp. WireCodec: a concrete serialisation that
    shows the hypotheses on protobuf can hold; it models no code.
  \<^item> ElogFormat, ElogSink, ElogThms, ElogPool: the logging library the program prints with
    (src/deps/elog/elog): pattern formatters, against a reading of the pattern; file and
    console sinks, log rotation, loggers; the thread pool of the asynchronous logger, as
    interleaved steps of its threads, against the synchronous logger; when \<open>stop\<close> returns and
    when it hangs. The rest of the program is modelled without its log lines.

  \<^bold>\<open>How state and effects appear.\<close> An object is a record, a method a function from the
  record (and what the environment answered: system calls, the clock, polling, the socket)
  to the new record, the result and the list of what it did in order: multicast messages,
  socket operations, callbacks. A mutex makes a method atomic, so threads are sequences of
  method calls and of turns of the loops; where the code is lock-free, in the ring, the
  steps themselves interleave, as they do in the logger's pool, whose \<open>stop\<close> does not take the
  mutex. An exception or a fault of the machine (a null pointer, a
  division by zero, an access outside a mapping) is the left side of a result. Widths are
  kept: cursors, sequence numbers and sizes are words, and wrap.

  \<^bold>\<open>Interfaces.\<close> Locales state what a client relies on, and each is interpreted on the model.
  \<open>endpoint_class\<close> is what Discovery asks of its template parameter, given for messages and
  services; the invariants over histories, expiry and convergence are proved in it.
  \<open>endpoint_registry\<close> and \<open>handler_registry\<close> are the abstract contracts of the two stores.
  \<open>effect\<close> is a relation between states and events that composes; what traffic, the settling
  of requests and the keeping of registrations may change are such relations, and the
  service runtime's invariant follows from them.

  \<^bold>\<open>Bounds and fuel.\<close> The receive queue holds 1000 messages and a ring four slots; these are
  the code's numbers. Decoding an unknown protobuf message recurses into every string that
  parses, without a bound in the code; the model has fuel, and \<open>decode_terminates\<close> shows
  that the length of the message is enough, provided the parser finds no more than the bytes
  hold. Every other loop of the code that ends is structural recursion or has a measure; the
  threads' endless loops appear turn by turn.

  \<^bold>\<open>Parameters.\<close> Protobuf serialisation and parsing, \<open>inet_pton\<close>, \<open>std::hash\<close>, the random
  engine, rounding of doubles, and whether a ZeroMQ call succeeds are arguments of the
  definitions that use them; so are, for the logger, the calls to the file system, local
  time and the readings of the clock.

  \<^bold>\<open>Where a history ends, and numbers.\<close> A multipart message is sent as a whole or not at
  all: when a send throws between two parts, the parts already handed to the socket do not
  appear. A history of a service runtime (\<open>sr_run\<close>) stops at the first exception, one of the
  logger's pool posts nothing after \<open>stop\<close> has begun (\<open>postLog\<close> itself has no such test).
  \<open>throttledUpdateReady\<close> compares the elapsed time exactly, where the code goes through a
  double, which differs only beyond 2 ^ 53 nanoseconds; \<open>recordAndGetRate\<close> gives the exact
  rational of which the code computes a double.

  \<^bold>\<open>Not modelled.\<close> fmt, which is third-party code inside elog (the payload of a log message is
  what it made of the arguments), and the log calls of the other components; message bodies and the ZeroMQ library; weak memory in the ring (its sequence numbers are
  sequentially consistent in the code, the bytes are taken to become visible in program
  order); high-water marks, lingering and reconnection of sockets; the sleeping of the tool
  and its signal handlers, except that a run of the loop is the list of its turns; build
  files, tests, benchmarks and examples.
\<close>

end
